(* ===== verification/Prelude.thy ===== *)
theory Prelude
  imports Main "HOL-Library.Word"
begin

text \<open>
  Shared vocabulary of the development.  The miner under \<^verbatim>\<open>src/miner\<close> is C11 code on
  fixed-width unsigned integers and byte buffers; this theory fixes how those are
  represented and collects the generic facts every component uses.

  \<^item> \<open>uint8_t\<close>, \<open>uint16_t\<close>, \<open>uint32_t\<close>, \<open>uint64_t\<close> are words of that width
    (arithmetic wraps as it does in C); a C cast is \<open>ucast\<close>, a shift is
    \<open>push_bit\<close> / \<open>drop_bit\<close>.
  \<^item> A byte buffer is a list of bytes.  A buffer filled front to back through a moving
    pointer is the concatenation of what is written; a copy to a fixed offset of an
    existing buffer is \<open>blit\<close>.
  \<^item> A C string is the list of characters before its NUL.
  \<^item> \<open>le_val\<close> and \<open>be_val\<close> read a byte string as a number; they are the specification
    of all the put/get helpers of the miner and of \<open>memcmp\<close> as a comparison of numbers.
\<close>

unbundle bit_operations_syntax

type_synonym u8 = "8 word"
type_synonym u16 = "16 word"
type_synonym u32 = "32 word"
type_synonym u64 = "64 word"
type_synonym bytes = "u8 list"

abbreviation ch :: "char \<Rightarrow> nat" where "ch c \<equiv> of_char c"

named_theorems byte_lengths \<open>lengths of serialised fields\<close>
named_theorems codec_defs \<open>definitions of the put/get helpers\<close>

section \<open>Numbers as byte strings\<close>

fun le_val :: "bytes \<Rightarrow> nat" where
  "le_val [] = 0"
| "le_val (b # bs) = unat b + 256 * le_val bs"

definition be_val :: "bytes \<Rightarrow> nat" where
  "be_val bs = le_val (rev bs)"

definition le_bytes :: "nat \<Rightarrow> 'a::len word \<Rightarrow> bytes" where
  "le_bytes n v = map (\<lambda>i. ucast (drop_bit (8 * i) v)) [0..<n]"

text \<open>
  The accumulation \<^verbatim>\<open>v = (v << 8) | p[i]\<close>, over the bytes in the order the loop visits them.
\<close>

definition acc_bytes :: "bytes \<Rightarrow> u64" where
  "acc_bytes bs = foldl (\<lambda>v b. push_bit 8 v OR ucast b) 0 bs"

lemma unat_u8_less [simp]: "unat (b :: u8) < 256"
  using unsigned_less [of b, where ?'a = nat] by simp

lemma pow256: "(256::nat) ^ k = 2 ^ (8 * k)"
  by (simp add: power_mult)

lemma unat_pow2: "j < LENGTH('a::len) \<Longrightarrow> unat (2 ^ j :: 'a word) = 2 ^ j"
  by (metis of_nat_numeral of_nat_power one_less_numeral_iff power_strict_increasing semiring_norm(76)
      take_bit_nat_eq_self unsigned_of_nat)

lemma unat_and_mask: "unat (w AND mask n) = unat (w :: 'a::len word) mod 2 ^ n"
  by (simp only: take_bit_eq_mask [symmetric] unsigned_take_bit_eq take_bit_eq_mod [where 'a = nat])

lemma unat_and_ff: "unat ((w :: 'a::len word) AND 0xff) = unat w mod 256"
  using unat_and_mask [of w 8] by (simp add: mask_eq_exp_minus_1)

lemma bit_unat: "bit (unat (w :: 'a::len word)) n = bit w n"
  by (auto simp: bit_unsigned_iff dest: bit_imp_le_length)

lemma unat_drop_bit_div: "unat (drop_bit n (w :: 'a::len word)) = unat w div 2 ^ n"
  by (simp add: unat_drop_bit_eq drop_bit_eq_div [where 'a = nat])

lemma le_val_less: "le_val bs < 256 ^ length bs"
proof (induction bs)
  case Nil
  then show ?case by simp
next
  case (Cons b bs)
  have "unat b + 256 * le_val bs < 256 + 256 * le_val bs" by simp
  also have "\<dots> = 256 * (le_val bs + 1)" by simp
  also have "\<dots> \<le> 256 * 256 ^ length bs" using Cons.IH by (intro mult_le_mono2) simp
  finally show ?case by simp
qed

lemma le_val_append: "le_val (xs @ ys) = le_val xs + 256 ^ length xs * le_val ys"
  by (induction xs) (simp_all add: algebra_simps)

lemma be_val_Nil [simp]: "be_val [] = 0"
  by (simp add: be_val_def)

lemma be_val_snoc: "be_val (bs @ [b]) = 256 * be_val bs + unat b"
  by (simp add: be_val_def)

lemma be_val_append: "be_val (xs @ ys) = be_val xs * 256 ^ length ys + be_val ys"
  by (simp add: be_val_def le_val_append)

lemma be_val_Cons: "be_val (b # bs) = unat b * 256 ^ length bs + be_val bs"
  using be_val_append [of "[b]" bs] by (simp add: be_val_def)

lemma be_val_less: "be_val bs < 256 ^ length bs"
  using le_val_less [of "rev bs"] by (simp add: be_val_def)

lemma be_val_replicate_0 [simp]: "be_val (replicate n 0) = 0"
  by (induction n) (simp_all add: be_val_Cons)

lemma be_val_take:
  assumes "length bs = n + k"
  shows "be_val (take n bs) = be_val bs div 256 ^ k"
proof -
  have "be_val bs = be_val (take n bs) * 256 ^ k + be_val (drop n bs)"
    using be_val_append [of "take n bs" "drop n bs"] assms by simp
  moreover have "be_val (drop n bs) < 256 ^ k"
    using be_val_less [of "drop n bs"] assms by simp
  ultimately show ?thesis by simp
qed

lemma le_val_inject:
  "length xs = length ys \<Longrightarrow> le_val xs = le_val ys \<Longrightarrow> xs = ys"
proof (induction xs ys rule: list_induct2)
  case Nil
  then show ?case by simp
next
  case (Cons x xs y ys)
  from Cons.prems have eq: "unat x + 256 * le_val xs = unat y + 256 * le_val ys" by simp
  have "unat x = (unat x + 256 * le_val xs) mod 256" by simp
  also have "\<dots> = unat y" by (simp add: eq)
  finally have x: "unat x = unat y" .
  with eq have "le_val xs = le_val ys" by simp
  with x Cons.IH show ?case by (simp add: word_unat_eq_iff)
qed

lemma be_val_inject:
  "length xs = length ys \<Longrightarrow> be_val xs = be_val ys \<Longrightarrow> xs = ys"
  using le_val_inject [of "rev xs" "rev ys"] by (simp add: be_val_def)

lemma length_le_bytes [simp, byte_lengths]: "length (le_bytes n v) = n"
  by (simp add: le_bytes_def)

lemma le_bytes_0 [simp]: "le_bytes 0 v = []"
  by (simp add: le_bytes_def)

lemma nth_le_bytes: "i < n \<Longrightarrow> le_bytes n v ! i = ucast (drop_bit (8 * i) v)"
  by (simp add: le_bytes_def)

lemma le_bytes_Suc: "le_bytes (Suc n) v = le_bytes n v @ [ucast (drop_bit (8 * n) v)]"
  by (simp add: le_bytes_def)

lemma unat_ucast_drop_u8:
  fixes v :: "'a::len word"
  assumes "8 \<le> LENGTH('a)"
  shows "unat (ucast (drop_bit k v) :: u8) = unat v div 2 ^ k mod 256"
proof -
  have "unat (drop_bit k v) = unat v div 2 ^ k"
    by (simp add: unat_drop_bit_eq drop_bit_eq_div [where 'a = nat])
  then show ?thesis by (simp add: unsigned_ucast_eq take_bit_eq_mod)
qed

lemma le_val_le_bytes:
  fixes v :: "'a::len word"
  assumes "8 \<le> LENGTH('a)"
  shows "le_val (le_bytes n v) = unat v mod 256 ^ n"
proof (induction n)
  case 0
  then show ?case by simp
next
  case (Suc n)
  have p: "(2::nat) ^ (8 * n) = 256 ^ n" by (simp add: power_mult)
  have "le_val (le_bytes (Suc n) v) = unat v mod 256 ^ n + 256 ^ n * (unat v div 256 ^ n mod 256)"
    using assms by (simp add: le_bytes_Suc le_val_append Suc.IH unat_ucast_drop_u8 p)
  also have "\<dots> = unat v mod (256 ^ n * 256)"
    by (simp add: mod_mult2_eq)
  finally show ?case by (simp add: mult.commute)
qed

lemma le_val_le_bytes_full:
  fixes v :: "'a::len word"
  assumes "8 \<le> LENGTH('a)" and "LENGTH('a) \<le> 8 * n"
  shows "le_val (le_bytes n v) = unat v"
proof -
  have "unat v < 2 ^ LENGTH('a)" by simp
  also have "\<dots> \<le> 2 ^ (8 * n)" using assms(2) by (intro power_increasing) simp_all
  also have "\<dots> = (256::nat) ^ n" by (simp add: power_mult)
  finally show ?thesis using assms(1) by (simp add: le_val_le_bytes)
qed

lemma le_bytes_inject:
  fixes v w :: "'a::len word"
  assumes "8 \<le> LENGTH('a)" and "LENGTH('a) \<le> 8 * n" and "le_bytes n v = le_bytes n w"
  shows "v = w"
  using le_val_le_bytes_full [OF assms(1,2)] assms(3) by (metis word_unat_eq_iff)

lemma le_bytes_le_val:
  assumes "length bs = n" and "256 ^ n \<le> (2::nat) ^ LENGTH('a::len)" and "8 \<le> LENGTH('a)"
  shows "le_bytes n (of_nat (le_val bs) :: 'a word) = bs"
proof (rule le_val_inject)
  show "length (le_bytes n (of_nat (le_val bs) :: 'a word)) = length bs" using assms by simp
  have "le_val bs < 2 ^ LENGTH('a)" using le_val_less [of bs] assms by simp
  then have "unat (of_nat (le_val bs) :: 'a word) = le_val bs" by (simp add: unat_of_nat)
  then show "le_val (le_bytes n (of_nat (le_val bs) :: 'a word)) = le_val bs"
    using assms le_val_less [of bs] by (simp add: le_val_le_bytes)
qed

lemma acc_step_unat:
  fixes v :: u64 and b :: u8
  assumes "unat v < 256 ^ 7"
  shows "unat (push_bit 8 v OR ucast b) = 256 * unat v + unat b"
proof -
  have disj: "push_bit 8 v AND ucast b = 0"
    by (rule bit_word_eqI) (auto simp: bit_simps dest: bit_imp_le_length)
  have "push_bit 8 v OR ucast b = push_bit 8 v + ucast b"
    by (rule disjunctive_add [symmetric]) (metis bit_and_iff bit_0_eq bot_apply bot_bool_def disj)
  moreover have "unat (push_bit 8 v) = 256 * unat v"
    using assms by (simp add: push_bit_eq_mult unat_word_ariths)
  moreover have "unat (ucast b :: u64) = unat b" 
    using unat_u8_less [of b]
    by (simp add: unsigned_ucast_eq take_bit_eq_mod del: unat_u8_less)
  moreover have "256 * unat v + unat b < 2 ^ 64"
    using assms unat_u8_less [of b] by (simp del: unat_u8_less)
  ultimately show ?thesis by (simp add: unat_word_ariths)
qed

lemma acc_bytes_snoc: "acc_bytes (bs @ [b]) = (push_bit 8 (acc_bytes bs) OR ucast b)"
  by (simp add: acc_bytes_def)

lemma unat_acc_bytes: "length bs \<le> 8 \<Longrightarrow> unat (acc_bytes bs) = be_val bs"
proof (induction bs rule: rev_induct)
  case Nil
  then show ?case by (simp add: acc_bytes_def)
next
  case (snoc b bs)
  then have IH: "unat (acc_bytes bs) = be_val bs" by simp
  have "be_val bs < 256 ^ length bs" by (rule be_val_less)
  also have "\<dots> \<le> (256::nat) ^ 7" using snoc.prems by (intro power_increasing) simp_all
  finally have "unat (acc_bytes bs) < 256 ^ 7" by (simp add: IH)
  then show ?case by (simp add: acc_bytes_snoc acc_step_unat IH be_val_snoc)
qed

lemma acc_bytes_rev_le_bytes: "acc_bytes (rev (le_bytes 8 v)) = (v :: u64)"
proof -
  have "unat (acc_bytes (rev (le_bytes 8 v))) = unat v"
    by (simp add: unat_acc_bytes be_val_def le_val_le_bytes_full)
  then show ?thesis by (simp only: word_unat_eq_iff)
qed

section \<open>Memory primitives of the C library\<close>

fun memcmp :: "bytes \<Rightarrow> bytes \<Rightarrow> int" where
  "memcmp (x # xs) (y # ys) = (if x < y then -1 else if y < x then 1 else memcmp xs ys)"
| "memcmp _ _ = 0"

definition blit :: "'a list \<Rightarrow> nat \<Rightarrow> 'a list \<Rightarrow> 'a list" where
  "blit dst off src = take off dst @ src @ drop (off + length src) dst"

lemma length_blit [simp, byte_lengths]:
  "off + length src \<le> length dst \<Longrightarrow> length (blit dst off src) = length dst"
  by (simp add: blit_def)

lemma blit_append_mid:
  "length xs = off \<Longrightarrow> length ys = length src \<Longrightarrow> blit (xs @ ys @ zs) off src = xs @ src @ zs"
  by (simp add: blit_def)

lemma memcmp_be_val:
  "length xs = length ys \<Longrightarrow>
     (memcmp xs ys < 0 \<longleftrightarrow> be_val xs < be_val ys) \<and> (memcmp xs ys = 0 \<longleftrightarrow> be_val xs = be_val ys)"
proof (induction xs ys rule: list_induct2)
  case Nil
  then show ?case by simp
next
  case (Cons x xs y ys)
  have bx: "be_val xs < 256 ^ length ys" and by': "be_val ys < 256 ^ length ys"
    using be_val_less [of xs] be_val_less [of ys] Cons.hyps by simp_all
  have step: "unat a * 256 ^ length ys + be_val us < unat b * 256 ^ length ys + be_val vs"
    if "unat a < unat b" "be_val us < 256 ^ length ys" for a b :: u8 and us vs
  proof -
    have "unat a * 256 ^ length ys + be_val us < (unat a + 1) * 256 ^ length ys"
      using that(2) by simp
    also have "\<dots> \<le> unat b * 256 ^ length ys" using that(1) by (intro mult_le_mono1) simp
    finally show ?thesis by simp
  qed
  consider "x < y" | "y < x" | "x = y" by force
  then show ?case
  proof cases
    case 1
    then show ?thesis using step [of x y xs ys] bx Cons.hyps
      by (auto simp: be_val_Cons word_less_nat_alt)
  next
    case 2
    then have "\<not> x < y" by simp
    then show ?thesis using step [of y x ys xs] 2 by' Cons.hyps
      by (auto simp: be_val_Cons word_less_nat_alt)
  next
    case 3
    then show ?thesis using Cons by (simp add: be_val_Cons)
  qed
qed

lemma memcmp_le_iff: "length xs = length ys \<Longrightarrow> memcmp xs ys \<le> 0 \<longleftrightarrow> be_val xs \<le> be_val ys"
  using memcmp_be_val [of xs ys] by linarith

lemma memcmp_eq_iff: "length xs = length ys \<Longrightarrow> memcmp xs ys = 0 \<longleftrightarrow> xs = ys"
  using memcmp_be_val [of xs ys] be_val_inject [of xs ys] by auto

section \<open>Single bits of a big-endian number\<close>

lemma unat_or_bit:
  fixes x :: u8
  assumes "\<not> bit x j" and "j < 8"
  shows "unat (x OR push_bit j 1) = unat x + 2 ^ j"
proof -
  have or_add: "x OR push_bit j 1 = x + push_bit j 1"
    using assms(1) by (intro disjunctive_add [symmetric]) (auto simp: bit_simps)
  have "unat (x OR push_bit j 1) = unat x OR unat (push_bit j (1 :: u8))"
    by (simp add: unsigned_or_eq)
  also have "unat (push_bit j (1 :: u8)) = push_bit j 1"
    using assms(2) by (simp add: push_bit_eq_mult unat_pow2)
  also have "unat x OR push_bit j 1 = unat x + push_bit j 1"
    using assms(1) by (intro disjunctive_add [symmetric]) (auto simp: bit_simps bit_unat)
  finally show ?thesis by (simp add: push_bit_eq_mult)
qed

lemma be_val_split_at:
  assumes "length out = 32" and "k < 32"
  shows "out = take (31 - k) out @ out ! (31 - k) # drop (32 - k) out"
    and "be_val (take (31 - k) out @ y # drop (32 - k) out) =
           (be_val (take (31 - k) out) * 256 + unat y) * 256 ^ k + be_val (drop (32 - k) out)"
proof -
  have i: "31 - k < length out" using assms by simp
  show "out = take (31 - k) out @ out ! (31 - k) # drop (32 - k) out"
    using id_take_nth_drop [OF i] Suc_diff_le [of k 31] assms by simp
  have "length (drop (32 - k) out) = k" using assms by simp
  then show "be_val (take (31 - k) out @ y # drop (32 - k) out) =
           (be_val (take (31 - k) out) * 256 + unat y) * 256 ^ k + be_val (drop (32 - k) out)"
    by (simp add: be_val_append be_val_Cons algebra_simps)
qed

lemma bit_be_val:
  assumes "length out = 32" and "pos < 256"
  shows "bit (be_val out) pos \<longleftrightarrow> bit (out ! (31 - pos div 8)) (pos mod 8)"
proof -
  define k j where "k = pos div 8" and "j = pos mod 8"
  have k: "k < 32" and j: "j < 8" and p: "pos = 8 * k + j" using assms(2) by (simp_all add: k_def j_def)
  let ?A = "take (31 - k) out" and ?x = "out ! (31 - k)" and ?B = "drop (32 - k) out"
  have B: "be_val ?B < 256 ^ k" using be_val_less [of ?B] assms(1) k by simp
  have v: "be_val out = (be_val ?A * 256 + unat ?x) * 256 ^ k + be_val ?B"
    using be_val_split_at [OF assms(1) k] by metis
  have "be_val out div 2 ^ pos = be_val out div 256 ^ k div 2 ^ j"
    by (simp add: p power_add pow256 div_mult2_eq)
  also have "be_val out div 256 ^ k = be_val ?A * 256 + unat ?x" using B by (simp add: v)
  also have "be_val ?A * 256 = 2 ^ j * (2 ^ (8 - j) * be_val ?A)"
    using j by (simp add: mult.assoc [symmetric] flip: power_add)
  also have "(2 ^ j * (2 ^ (8 - j) * be_val ?A) + unat ?x) div 2 ^ j = 2 ^ (8 - j) * be_val ?A + unat ?x div 2 ^ j"
    by (rule div_mult_self4) simp
  finally have "odd (be_val out div 2 ^ pos) \<longleftrightarrow> odd (unat ?x div 2 ^ j)" using j by simp
  then show ?thesis using bit_unat [of ?x j] by (simp add: bit_iff_odd k_def j_def)
qed

lemma set_bit_be_val:
  assumes len: "length out = 32" and pos: "pos < 256" and clear: "\<not> bit (be_val out) pos"
  shows "be_val (out[31 - pos div 8 := out ! (31 - pos div 8) OR push_bit (pos mod 8) 1]) = be_val out + 2 ^ pos"
proof -
  define k j where "k = pos div 8" and "j = pos mod 8"
  have k: "k < 32" and j: "j < 8" and p: "pos = 8 * k + j" using pos by (simp_all add: k_def j_def)
  let ?A = "take (31 - k) out" and ?x = "out ! (31 - k)" and ?B = "drop (32 - k) out"
  have "\<not> bit ?x j" using clear bit_be_val [OF len pos] by (simp add: k_def j_def)
  then have u: "unat (?x OR push_bit j 1) = unat ?x + 2 ^ j" using j by (rule unat_or_bit)
  have "out[31 - k := ?x OR push_bit j 1] = ?A @ (?x OR push_bit j 1) # ?B"
    using upd_conv_take_nth_drop [of "31 - k" out] Suc_diff_le [of k 31] len k by simp
  then have "be_val (out[31 - k := ?x OR push_bit j 1]) = (be_val ?A * 256 + (unat ?x + 2 ^ j)) * 256 ^ k + be_val ?B"
    by (simp only: be_val_split_at(2) [OF len k] u)
  also have "\<dots> = ((be_val ?A * 256 + unat ?x) * 256 ^ k + be_val ?B) + 2 ^ pos"
    by (simp add: p power_add pow256 algebra_simps)
  also have "(be_val ?A * 256 + unat ?x) * 256 ^ k + be_val ?B = be_val out"
    using be_val_split_at [OF len k] by metis
  finally show ?thesis by (simp add: k_def j_def)
qed

lemma set_bit_be_val_low:
  assumes "length out = 32" and "pos < 256" and "be_val out < 2 ^ pos"
  shows "be_val (out[31 - pos div 8 := out ! (31 - pos div 8) OR push_bit (pos mod 8) 1]) = be_val out + 2 ^ pos"
  using assms by (intro set_bit_be_val) (simp_all add: bit_iff_odd)

section \<open>Fixed-size blocks\<close>

fun chunks :: "nat \<Rightarrow> 'a list \<Rightarrow> 'a list list" where
  "chunks n xs = (if n = 0 \<or> length xs < n then [] else take n xs # chunks n (drop n xs))"

declare chunks.simps [simp del]

lemma chunks_short [simp]: "length xs < n \<Longrightarrow> chunks n xs = []"
  by (simp add: chunks.simps)

lemma chunks_one [simp]: "0 < n \<Longrightarrow> length xs = n \<Longrightarrow> chunks n xs = [xs]"
  by (simp add: chunks.simps [of n xs])

lemma chunks_append_block:
  "0 < n \<Longrightarrow> length b = n \<Longrightarrow> chunks n (b @ xs) = b # chunks n xs"
  by (simp add: chunks.simps [of n "b @ xs"])

lemma chunks_append:
  "0 < n \<Longrightarrow> n dvd length xs \<Longrightarrow> chunks n (xs @ ys) = chunks n xs @ chunks n ys"
proof (induction n xs rule: chunks.induct)
  case (1 n xs)
  show ?case
  proof (cases "length xs < n")
    case True
    with "1.prems" have "xs = []" by (auto dest: dvd_imp_le)
    then show ?thesis using "1.prems" by simp
  next
    case False
    with "1.prems" have "n dvd length (drop n xs)" by simp
    then have "chunks n (drop n xs @ ys) = chunks n (drop n xs) @ chunks n ys"
      using "1.IH" "1.prems" False by simp
    then show ?thesis using False "1.prems"
      by (simp add: chunks.simps [of n "xs @ ys"] chunks.simps [of n xs])
  qed
qed

lemma length_chunks_elem: "c \<in> set (chunks n xs) \<Longrightarrow> length c = n"
proof (induction n xs rule: chunks.induct)
  case (1 n xs)
  then show ?case
    by (auto simp: chunks.simps [of n xs] split: if_splits)
qed

end
