(* ===== verification/Sha256.thy ===== *)
theory Sha256
  imports Prelude
begin

text \<open>
  SHA-256 and the Bitcoin tagged hash (\<^verbatim>\<open>src/miner/sha256.c\<close>, \<^verbatim>\<open>sha256.h\<close>).

  The C code is a streaming implementation: a context with a 64-byte buffer, fed one byte
  at a time, compressed whenever the buffer fills and padded in place by
  \<^verbatim>\<open>sha256_final\<close>.  The specification is the one-shot definition of FIPS 180-4: pad the
  whole message, cut it into 64-byte blocks, fold the compression function.  The locale
  \<open>streaming_hash\<close> states what a streaming hash promises its callers; \<open>sha256\<close> is
  shown to implement it, and the callers (\<open>tagged_hash\<close>, \<open>sha256d\<close>) only use
  that contract.
\<close>

unbundle bit_operations_syntax

section \<open>The compression function\<close>

definition ROTR :: "u32 \<Rightarrow> nat \<Rightarrow> u32" where
  "ROTR a b = drop_bit b a OR push_bit (32 - b) a"

definition CH :: "u32 \<Rightarrow> u32 \<Rightarrow> u32 \<Rightarrow> u32" where
  "CH x y z = (x AND y) XOR (NOT x AND z)"

definition MAJ :: "u32 \<Rightarrow> u32 \<Rightarrow> u32 \<Rightarrow> u32" where
  "MAJ x y z = (x AND y) XOR (x AND z) XOR (y AND z)"

definition EP0 :: "u32 \<Rightarrow> u32" where
  "EP0 x = ROTR x 2 XOR ROTR x 13 XOR ROTR x 22"

definition EP1 :: "u32 \<Rightarrow> u32" where
  "EP1 x = ROTR x 6 XOR ROTR x 11 XOR ROTR x 25"

definition SIG0 :: "u32 \<Rightarrow> u32" where
  "SIG0 x = ROTR x 7 XOR ROTR x 18 XOR drop_bit 3 x"

definition SIG1 :: "u32 \<Rightarrow> u32" where
  "SIG1 x = ROTR x 17 XOR ROTR x 19 XOR drop_bit 10 x"

definition K :: "u32 list" where
  "K = [
    0x428A2F98, 0x71374491, 0xB5C0FBCF, 0xE9B5DBA5, 0x3956C25B, 0x59F111F1,
    0x923F82A4, 0xAB1C5ED5, 0xD807AA98, 0x12835B01, 0x243185BE, 0x550C7DC3,
    0x72BE5D74, 0x80DEB1FE, 0x9BDC06A7, 0xC19BF174, 0xE49B69C1, 0xEFBE4786,
    0x0FC19DC6, 0x240CA1CC, 0x2DE92C6F, 0x4A7484AA, 0x5CB0A9DC, 0x76F988DA,
    0x983E5152, 0xA831C66D, 0xB00327C8, 0xBF597FC7, 0xC6E00BF3, 0xD5A79147,
    0x06CA6351, 0x14292967, 0x27B70A85, 0x2E1B2138, 0x4D2C6DFC, 0x53380D13,
    0x650A7354, 0x766A0ABB, 0x81C2C92E, 0x92722C85, 0xA2BFE8A1, 0xA81A664B,
    0xC24B8B70, 0xC76C51A3, 0xD192E819, 0xD6990624, 0xF40E3585, 0x106AA070,
    0x19A4C116, 0x1E376C08, 0x2748774C, 0x34B0BCB5, 0x391C0CB3, 0x4ED8AA4A,
    0x5B9CCA4F, 0x682E6FF3, 0x748F82EE, 0x78A5636F, 0x84C87814, 0x8CC70208,
    0x90BEFFFA, 0xA4506CEB, 0xBEF9A3F7, 0xC67178F2]"

text \<open>The sixteen big-endian message words, then the extension loop up to 64 words.\<close>

definition load_words :: "bytes \<Rightarrow> u32 list" where
  "load_words d = map (\<lambda>i. push_bit 24 (ucast (d ! (4 * i))) OR push_bit 16 (ucast (d ! (4 * i + 1)))
     OR push_bit 8 (ucast (d ! (4 * i + 2))) OR ucast (d ! (4 * i + 3))) [0..<16]"

fun extend_words :: "nat \<Rightarrow> u32 list \<Rightarrow> u32 list" where
  "extend_words 0 m = m"
| "extend_words (Suc n) m =
     (let i = length m in
      extend_words n (m @ [SIG1 (m ! (i - 2)) + m ! (i - 7) + SIG0 (m ! (i - 15)) + m ! (i - 16)]))"

type_synonym working = "u32 \<times> u32 \<times> u32 \<times> u32 \<times> u32 \<times> u32 \<times> u32 \<times> u32"

fun sha256_round :: "working \<Rightarrow> u32 \<times> u32 \<Rightarrow> working" where
  "sha256_round (a, b, cc, dd, e, f, g, h) (k, m) =
     (let t1 = h + EP1 e + CH e f g + k + m;
          t2 = EP0 a + MAJ a b cc
      in (t1 + t2, a, b, cc, dd + t1, e, f, g))"

definition sha256_compress :: "u32 list \<Rightarrow> bytes \<Rightarrow> u32 list" where
  "sha256_compress st d =
     (let m = extend_words 48 (load_words d);
          (a, b, cc, dd, e, f, g, h) =
            foldl sha256_round (st ! 0, st ! 1, st ! 2, st ! 3, st ! 4, st ! 5, st ! 6, st ! 7) (zip K m)
      in [st ! 0 + a, st ! 1 + b, st ! 2 + cc, st ! 3 + dd,
          st ! 4 + e, st ! 5 + f, st ! 6 + g, st ! 7 + h])"

section \<open>The streaming context\<close>

record sha256_ctx =
  ctx_data :: bytes
  ctx_datalen :: nat
  ctx_bitlen :: u64
  ctx_state :: "u32 list"

definition sha256_transform :: "sha256_ctx \<Rightarrow> bytes \<Rightarrow> sha256_ctx" where
  "sha256_transform c d = c\<lparr>ctx_state := sha256_compress (ctx_state c) d\<rparr>"

definition sha256_H0 :: "u32 list" where
  "sha256_H0 = [0x6A09E667, 0xBB67AE85, 0x3C6EF372, 0xA54FF53A,
                0x510E527F, 0x9B05688C, 0x1F83D9AB, 0x5BE0CD19]"

text \<open>
  The C context is an uninitialised stack object; \<^verbatim>\<open>sha256_init\<close> leaves its 64-byte buffer
  as it finds it, so the buffer is an argument here.
\<close>

definition sha256_init :: "bytes \<Rightarrow> sha256_ctx" where
  "sha256_init garbage =
     \<lparr>ctx_data = garbage, ctx_datalen = 0, ctx_bitlen = 0, ctx_state = sha256_H0\<rparr>"

definition sha256_update_byte :: "sha256_ctx \<Rightarrow> u8 \<Rightarrow> sha256_ctx" where
  "sha256_update_byte c b =
     (let c1 = c\<lparr>ctx_data := (ctx_data c)[ctx_datalen c := b], ctx_datalen := ctx_datalen c + 1\<rparr>
      in if ctx_datalen c1 = 64
         then (sha256_transform c1 (ctx_data c1))\<lparr>ctx_bitlen := ctx_bitlen c + 512, ctx_datalen := 0\<rparr>
         else c1)"

definition sha256_update :: "sha256_ctx \<Rightarrow> bytes \<Rightarrow> sha256_ctx" where
  "sha256_update c d = foldl sha256_update_byte c d"

text \<open>\<^verbatim>\<open>while (i < lim) c->data[i++] = 0x00;\<close>\<close>

function zero_fill :: "bytes \<Rightarrow> nat \<Rightarrow> nat \<Rightarrow> bytes" where
  "zero_fill d i lim = (if i < lim then zero_fill (d[i := 0]) (Suc i) lim else d)"
  by pat_completeness auto
termination
  by (relation "measure (\<lambda>(d, i, lim). lim - i)") auto

declare zero_fill.simps [simp del]

definition put_bitlen :: "bytes \<Rightarrow> u64 \<Rightarrow> bytes" where
  "put_bitlen d bl = foldl (\<lambda>d i. d[63 - i := ucast (drop_bit (i * 8) bl)]) d [0..<8]"

definition sha256_output :: "u32 list \<Rightarrow> bytes" where
  "sha256_output st =
     map (\<lambda>k. ucast (drop_bit (24 - (k mod 4) * 8) (st ! (k div 4)) AND 0xff)) [0..<32]"

definition sha256_final :: "sha256_ctx \<Rightarrow> bytes" where
  "sha256_final c =
     (let i = ctx_datalen c;
          c1 = (if i < 56
                then c\<lparr>ctx_data := zero_fill ((ctx_data c)[i := 0x80]) (i + 1) 56\<rparr>
                else let c' = c\<lparr>ctx_data := zero_fill ((ctx_data c)[i := 0x80]) (i + 1) 64\<rparr>;
                         c'' = sha256_transform c' (ctx_data c')
                     in c''\<lparr>ctx_data := blit (ctx_data c'') 0 (replicate 56 0)\<rparr>);
          bl = ctx_bitlen c1 + of_nat (ctx_datalen c) * 8;
          c2 = c1\<lparr>ctx_bitlen := bl, ctx_data := put_bitlen (ctx_data c1) bl\<rparr>
      in sha256_output (ctx_state (sha256_transform c2 (ctx_data c2))))"

definition uninit64 :: bytes where
  "uninit64 = replicate 64 0"

definition sha256 :: "bytes \<Rightarrow> bytes" where
  "sha256 d = sha256_final (sha256_update (sha256_init uninit64) d)"

definition string_bytes :: "string \<Rightarrow> bytes" where
  "string_bytes s = map of_char s"

definition tagged_hash :: "string \<Rightarrow> bytes \<Rightarrow> bytes" where
  "tagged_hash tag payload =
     (let th = sha256 (string_bytes tag)
      in sha256_final (sha256_update (sha256_update (sha256_update (sha256_init uninit64) th) th) payload))"

definition sha256d :: "bytes \<Rightarrow> bytes" where
  "sha256d d = sha256 (sha256 d)"

section \<open>Specification: FIPS 180-4\<close>

definition sha256_pad :: "bytes \<Rightarrow> bytes" where
  "sha256_pad msg = msg @ [0x80] @ replicate ((119 - length msg mod 64) mod 64) 0
     @ rev (le_bytes 8 (of_nat (8 * length msg) :: u64))"

definition sha256_spec :: "bytes \<Rightarrow> bytes" where
  "sha256_spec msg =
     concat (map (\<lambda>w. rev (le_bytes 4 w)) (foldl sha256_compress sha256_H0 (chunks 64 (sha256_pad msg))))"

text \<open>The message schedule as the recurrence of the standard.\<close>

fun W :: "bytes \<Rightarrow> nat \<Rightarrow> u32" where
  "W d t = (if t < 16 then load_words d ! t
            else SIG1 (W d (t - 2)) + W d (t - 7) + SIG0 (W d (t - 15)) + W d (t - 16))"

declare W.simps [simp del]

section \<open>The contract of a streaming hash\<close>

locale streaming_hash =
  fixes init :: 'c
    and upd :: "'c \<Rightarrow> bytes \<Rightarrow> 'c"
    and fin :: "'c \<Rightarrow> bytes"
    and spec :: "bytes \<Rightarrow> bytes"
    and rep :: "'c \<Rightarrow> bytes \<Rightarrow> bool"
  assumes rep_init: "rep init []"
    and rep_upd: "rep c m \<Longrightarrow> rep (upd c d) (m @ d)"
    and rep_fin: "rep c m \<Longrightarrow> fin c = spec m"
begin

lemma rep_run: "rep c m \<Longrightarrow> rep (foldl upd c ds) (m @ concat ds)"
proof (induction ds arbitrary: c m)
  case Nil
  then show ?case by simp
next
  case (Cons d ds)
  then show ?case using Cons.IH [OF rep_upd [OF Cons.prems, of d]] by simp
qed

lemma run_spec: "fin (foldl upd init ds) = spec (concat ds)"
  using rep_fin [OF rep_run [OF rep_init, of ds]] by simp

lemma one_shot: "fin (upd init d) = spec d"
  using run_spec [of "[d]"] by simp

lemma split_irrelevant: "concat ds = concat ds' \<Longrightarrow> fin (foldl upd init ds) = fin (foldl upd init ds')"
  by (simp add: run_spec)

end

section \<open>The C code implements the contract\<close>

lemma length_compress [simp]: "length (sha256_compress st d) = 8"
  by (simp add: sha256_compress_def Let_def split: prod.split)

lemma length_H0 [simp]: "length sha256_H0 = 8"
  by (simp add: sha256_H0_def)

lemma length_fold_compress [simp]:
  "length st = 8 \<Longrightarrow> length (foldl sha256_compress st bs) = 8"
  by (induction bs rule: rev_induct) simp_all

lemma sha256_output_eq:
  assumes "length st = 8"
  shows "sha256_output st = concat (map (\<lambda>w. rev (le_bytes 4 w)) st)"
proof -
  have low: "ucast (x AND 0xff) = (ucast x :: u8)" for x :: u32
  proof -
    have "x AND 0xff = take_bit 8 x" by (simp add: take_bit_eq_mask mask_eq_exp_minus_1)
    then show ?thesis by (simp add: bit_eq_iff bit_simps)
  qed
  obtain a b c d e f g h where st: "st = [a, b, c, d, e, f, g, h]"
    using assms by (auto simp: length_Suc_conv numeral_eq_Suc)
  show ?thesis unfolding st sha256_output_def low
    by (simp add: le_bytes_def upt_rec)
qed

lemma length_sha256_output [simp]: "length (sha256_output st) = 32"
  by (simp add: sha256_output_def)

lemma zero_fill_eq:
  "i \<le> lim \<Longrightarrow> lim \<le> length d \<Longrightarrow>
     zero_fill d i lim = take i d @ replicate (lim - i) 0 @ drop lim d"
proof (induction d i lim rule: zero_fill.induct)
  case (1 d i lim)
  show ?case
  proof (cases "i < lim")
    case True
    with "1.prems" have "zero_fill (d[i := 0]) (Suc i) lim =
        take (Suc i) (d[i := 0]) @ replicate (lim - Suc i) 0 @ drop lim (d[i := 0])"
      using "1.IH" by simp
    also have "take (Suc i) (d[i := 0]) = take i d @ [0]"
      using True "1.prems" by (simp add: take_Suc_conv_app_nth)
    also have "drop lim (d[i := 0]) = drop lim d" using True by simp
    finally have "zero_fill (d[i := 0]) (Suc i) lim =
        take i d @ replicate (Suc (lim - Suc i)) 0 @ drop lim d" by simp
    then show ?thesis using True
      by (simp add: zero_fill.simps [of d i lim] Suc_diff_Suc del: replicate_Suc)
  next
    case False
    with "1.prems" show ?thesis by (simp add: zero_fill.simps [of d lim lim])
  qed
qed

lemma put_bitlen_eq:
  assumes "length d = 64"
  shows "put_bitlen d bl = take 56 d @ rev (le_bytes 8 bl)"
proof (rule nth_equalityI)
  show len: "length (put_bitlen d bl) = length (take 56 d @ rev (le_bytes 8 bl))"
    using assms by (simp add: put_bitlen_def upt_rec)
  fix i assume "i < length (put_bitlen d bl)"
  then have i: "i < 64" using len assms by simp
  show "put_bitlen d bl ! i = (take 56 d @ rev (le_bytes 8 bl)) ! i"
  proof (cases "i < 56")
    case True
    then show ?thesis using assms by (simp add: put_bitlen_def upt_rec nth_append)
  next
    case False
    with i consider "i = 56" | "i = 57" | "i = 58" | "i = 59" | "i = 60" | "i = 61" | "i = 62" | "i = 63"
      by linarith
    then show ?thesis
      by cases (simp_all add: put_bitlen_def upt_rec nth_append assms le_bytes_def)
  qed
qed

definition sha_rep :: "sha256_ctx \<Rightarrow> bytes \<Rightarrow> bytes \<Rightarrow> bool" where
  "sha_rep c full tail \<longleftrightarrow>
     length (ctx_data c) = 64 \<and> length tail < 64 \<and> 64 dvd length full \<and>
     ctx_datalen c = length tail \<and> take (length tail) (ctx_data c) = tail \<and>
     ctx_bitlen c = of_nat (8 * length full) \<and>
     ctx_state c = foldl sha256_compress sha256_H0 (chunks 64 full)"

definition sha256_rep :: "sha256_ctx \<Rightarrow> bytes \<Rightarrow> bool" where
  "sha256_rep c m \<longleftrightarrow> (\<exists>full tail. m = full @ tail \<and> sha_rep c full tail)"

lemma sha_rep_init: "length g = 64 \<Longrightarrow> sha_rep (sha256_init g) [] []"
  by (simp add: sha_rep_def sha256_init_def)

lemma sha_rep_update_byte:
  assumes r: "sha_rep c full tail"
  shows "if Suc (length tail) = 64 then sha_rep (sha256_update_byte c b) (full @ tail @ [b]) []
         else sha_rep (sha256_update_byte c b) full (tail @ [b])"
proof -
  let ?d = "(ctx_data c)[length tail := b]"
  from r have len: "length (ctx_data c) = 64" and lt: "length tail < 64"
    and tk: "take (length tail) (ctx_data c) = tail" by (simp_all add: sha_rep_def)
  have d: "take (Suc (length tail)) ?d = tail @ [b]"
    using len lt tk by (simp add: take_Suc_conv_app_nth)
  show ?thesis
  proof (cases "Suc (length tail) = 64")
    case True
    with d len have full: "?d = tail @ [b]" by (metis length_list_update order_refl take_all)
    have "chunks 64 (full @ tail @ [b]) = chunks 64 full @ [tail @ [b]]"
      using r True by (simp add: sha_rep_def chunks_append)
    moreover have "64 dvd length full + Suc (length tail)"
      unfolding True using r by (simp add: sha_rep_def)
    moreover have "(of_nat (8 * length full) :: u64) + 512 =
        of_nat (8 * (length full + Suc (length tail)))"
      unfolding True by simp
    ultimately show ?thesis using r full True
      by (simp add: sha_rep_def sha256_update_byte_def sha256_transform_def Let_def)
  next
    case False
    with r d show ?thesis
      by (simp add: sha_rep_def sha256_update_byte_def Let_def)
  qed
qed

lemma sha256_rep_update: "sha256_rep c m \<Longrightarrow> sha256_rep (sha256_update c d) (m @ d)"
proof (induction d arbitrary: c m)
  case Nil
  then show ?case by (simp add: sha256_update_def)
next
  case (Cons b d)
  from Cons.prems obtain full tail where m: "m = full @ tail" and r: "sha_rep c full tail"
    by (auto simp: sha256_rep_def)
  have "sha256_rep (sha256_update_byte c b) (m @ [b])"
  proof (cases "Suc (length tail) = 64")
    case True
    then have "sha_rep (sha256_update_byte c b) (full @ tail @ [b]) []"
      using sha_rep_update_byte [OF r, of b] by simp
    then show ?thesis unfolding sha256_rep_def m by force
  next
    case False
    then have "sha_rep (sha256_update_byte c b) full (tail @ [b])"
      using sha_rep_update_byte [OF r, of b] by simp
    then show ?thesis unfolding sha256_rep_def m by force
  qed
  from Cons.IH [OF this] show ?case by (simp add: sha256_update_def)
qed

lemma pad_short:
  assumes "64 dvd length full" and "length tail < 56"
  shows "sha256_pad (full @ tail) = full @ (tail @ [0x80] @ replicate (55 - length tail) 0
           @ rev (le_bytes 8 (of_nat (8 * length (full @ tail)) :: u64)))"
proof -
  have "length (full @ tail) mod 64 = length tail" using assms by auto
  moreover have "(119 - length tail) mod 64 = 55 - length tail"
    using assms(2) by (simp add: mod_if)
  ultimately show ?thesis by (simp add: sha256_pad_def del: length_append)
qed

lemma pad_long:
  assumes "64 dvd length full" and "56 \<le> length tail" and "length tail < 64"
  shows "sha256_pad (full @ tail) = full @ (tail @ [0x80] @ replicate (63 - length tail) 0)
           @ (replicate 56 0 @ rev (le_bytes 8 (of_nat (8 * length (full @ tail)) :: u64)))"
proof -
  have "length (full @ tail) mod 64 = length tail" using assms by auto
  moreover have "(119 - length tail) mod 64 = 119 - length tail"
    using assms(2,3) by simp
  moreover have "replicate (119 - length tail) (0::u8) = replicate (63 - length tail) 0 @ replicate 56 0"
    using assms(3) by (simp flip: replicate_add)
  ultimately show ?thesis by (simp add: sha256_pad_def del: length_append)
qed

lemma sha_rep_final:
  assumes r: "sha_rep c full tail"
  shows "sha256_final c = sha256_spec (full @ tail)"
proof -
  let ?n = "length tail" and ?L = "rev (le_bytes 8 (of_nat (8 * length (full @ tail)) :: u64))"
  from r have len: "length (ctx_data c) = 64" and lt: "?n < 64" and dv: "64 dvd length full"
    and tk: "take ?n (ctx_data c) = tail" and dl: "ctx_datalen c = ?n"
    and st: "ctx_state c = foldl sha256_compress sha256_H0 (chunks 64 full)"
    and bl: "ctx_bitlen c + of_nat ?n * 8 = of_nat (8 * length (full @ tail))"
    by (simp_all add: sha_rep_def algebra_simps)
  have tk1: "take (Suc ?n) ((ctx_data c)[?n := 0x80]) = tail @ [0x80]"
    using len lt tk by (simp add: take_Suc_conv_app_nth)
  show ?thesis
  proof (cases "?n < 56")
    case True
    let ?b = "tail @ [0x80] @ replicate (55 - ?n) 0 @ ?L"
    have z: "zero_fill ((ctx_data c)[?n := 0x80]) (Suc ?n) 56 =
        (tail @ [0x80] @ replicate (55 - ?n) 0) @ drop 56 ((ctx_data c)[?n := 0x80])"
      using True len by (simp add: zero_fill_eq tk1)
    have "put_bitlen (zero_fill ((ctx_data c)[?n := 0x80]) (Suc ?n) 56)
        (of_nat (8 * length (full @ tail))) = ?b"
      unfolding z using True len by (subst put_bitlen_eq) (simp_all add: take_Cons')
    then have "sha256_final c = sha256_output (sha256_compress (ctx_state c) ?b)"
      using True bl by (simp add: sha256_final_def dl sha256_transform_def Let_def del: length_append)
    moreover have "chunks 64 (sha256_pad (full @ tail)) = chunks 64 full @ [?b]"
      using True by (simp add: pad_short [OF dv True] chunks_append dv)
    ultimately show ?thesis by (simp add: sha256_spec_def st sha256_output_eq)
  next
    case False
    then have ge: "56 \<le> ?n" by simp
    let ?b1 = "tail @ [0x80] @ replicate (63 - ?n) 0" and ?b2 = "replicate 56 0 @ ?L"
    have z: "zero_fill ((ctx_data c)[?n := 0x80]) (Suc ?n) 64 = ?b1"
      using lt len by (simp add: zero_fill_eq tk1)
    have l1: "length ?b1 = 64" using lt by simp
    have "put_bitlen (blit ?b1 0 (replicate 56 0)) (of_nat (8 * length (full @ tail))) = ?b2"
      using l1 by (subst put_bitlen_eq) (simp_all add: blit_def)
    then have "sha256_final c = sha256_output (sha256_compress (sha256_compress (ctx_state c) ?b1) ?b2)"
      using False bl by (simp add: sha256_final_def dl sha256_transform_def z Let_def del: length_append)
    moreover have "chunks 64 (sha256_pad (full @ tail)) = chunks 64 full @ [?b1, ?b2]"
      using l1 unfolding pad_long [OF dv ge lt]
      by (simp add: chunks_append dv chunks_append_block [of 64 ?b1, simplified])
    ultimately show ?thesis by (simp add: sha256_spec_def st sha256_output_eq)
  qed
qed

interpretation sha: streaming_hash "sha256_init uninit64" sha256_update sha256_final sha256_spec sha256_rep
proof
  show "sha256_rep (sha256_init uninit64) []"
    using sha_rep_init [of uninit64] by (auto simp: sha256_rep_def uninit64_def)
  show "sha256_rep (sha256_update c d) (m @ d)" if "sha256_rep c m" for c m d
    using that by (rule sha256_rep_update)
  show "sha256_final c = sha256_spec m" if "sha256_rep c m" for c m
    using that sha_rep_final by (auto simp: sha256_rep_def)
qed

lemma length_concat_words: "length (concat (map (\<lambda>w. rev (le_bytes 4 w)) ws)) = 4 * length ws"
  by (induction ws) simp_all

lemma length_sha256_spec: "length (sha256_spec m) = 32"
  by (simp add: sha256_spec_def length_concat_words)

lemma sha256_eq_spec: "sha256 m = sha256_spec m"
  by (simp add: sha256_def sha.one_shot)

lemma length_sha256 [simp, byte_lengths]: "length (sha256 m) = 32"
  by (simp add: sha256_eq_spec length_sha256_spec)

lemma tagged_hash_eq_spec:
  "tagged_hash tag p =
     sha256_spec (sha256_spec (string_bytes tag) @ sha256_spec (string_bytes tag) @ p)"
  using sha.run_spec [of "[sha256 (string_bytes tag), sha256 (string_bytes tag), p]"]
  by (simp add: tagged_hash_def Let_def sha256_eq_spec)

lemma length_tagged_hash [simp, byte_lengths]: "length (tagged_hash tag p) = 32"
  by (simp add: tagged_hash_eq_spec length_sha256_spec)

lemma length_sha256d [simp, byte_lengths]: "length (sha256d d) = 32"
  by (simp add: sha256d_def)

section \<open>The message schedule\<close>

lemma length_extend_words: "length (extend_words n m) = length m + n"
  by (induction n m rule: extend_words.induct) (simp_all add: Let_def)

lemma extend_words_W:
  "m = map (W d) [0..<k] \<Longrightarrow> 16 \<le> k \<Longrightarrow> extend_words n m = map (W d) [0..<k + n]"
proof (induction n m arbitrary: k rule: extend_words.induct)
  case (1 m)
  then show ?case by simp
next
  case (2 n m)
  have "W d k = SIG1 (m ! (k - 2)) + m ! (k - 7) + SIG0 (m ! (k - 15)) + m ! (k - 16)"
    using "2.prems" by (simp add: W.simps [of d k])
  then have "m @ [SIG1 (m ! (k - 2)) + m ! (k - 7) + SIG0 (m ! (k - 15)) + m ! (k - 16)] =
      map (W d) [0..<Suc k]"
    using "2.prems" by simp
  then show ?case using "2.IH" [of "length m" "Suc k"] "2.prems" by simp
qed

text \<open>
  the 64 message words that the two loops of \<^verbatim>\<open>sha256_transform\<close> put into \<^verbatim>\<open>m[64]\<close>
  are the message schedule \<open>W\<^sub>0 \<dots> W\<^sub>6\<^sub>3\<close> of FIPS 180-4, defined by its recurrence.
\<close>

theorem sha256_schedule_correct:
  "extend_words 48 (load_words d) = map (W d) [0..<64]"
proof -
  have "load_words d = map (W d) [0..<16]"
    by (rule nth_equalityI) (simp_all add: load_words_def W.simps)
  from extend_words_W [OF this, of 48] show ?thesis by simp
qed

text \<open>
  C31: the streaming implementation computes SHA-256.  However the input is cut into
  \<^verbatim>\<open>sha256_update\<close> calls, \<^verbatim>\<open>sha256_final\<close> returns the digest FIPS 180-4 defines for the
  concatenation: padding with 0x80, zeros and the 64-bit big-endian bit length, then the
  fold of the compression function over the 64-byte blocks.  The buffer handling around
  the 56-byte boundary and the running bit count (which wraps at 64 bits, as the
  standard's length field does) are covered for every length.
\<close>

theorem sha256_streaming_correct:
  "sha256_final (foldl sha256_update (sha256_init uninit64) ds) = sha256_spec (concat ds)"
  by (rule sha.run_spec)

end
