(* ===== verification/Blake2b.thy ===== *)
theory Blake2b
  imports Prelude
begin

text \<open>
  Unkeyed BLAKE2b (\<^verbatim>\<open>src/miner/blake2b.c\<close>).  The definitions follow the C file: the tables,
  the \<open>G\<close> macro on the working vector, \<open>compress\<close> and the block loop of
  \<open>blake2b_nokey\<close>.  The specification is RFC 7693: the ten-row permutation table with
  row \<open>r mod 10\<close>, a 128-bit byte counter, and the message cut into zero-padded
  128-byte blocks of which only the last carries the final flag.
\<close>

unbundle bit_operations_syntax

section \<open>The C code\<close>

definition IV :: "u64 list" where
  "IV = [0x6A09E667F3BCC908, 0xBB67AE8584CAA73B,
         0x3C6EF372FE94F82B, 0xA54FF53A5F1D36F1,
         0x510E527FADE682D1, 0x9B05688C2B3E6C1F,
         0x1F83D9ABFB41BD6B, 0x5BE0CD19137E2179]"

definition BLAKE2B_SIGMA :: "nat list list" where
  "BLAKE2B_SIGMA = [
    [ 0, 1, 2, 3, 4, 5, 6, 7, 8, 9,10,11,12,13,14,15],
    [14,10, 4, 8, 9,15,13, 6, 1,12, 0, 2,11, 7, 5, 3],
    [11, 8,12, 0, 5, 2,15,13,10,14, 3, 6, 7, 1, 9, 4],
    [ 7, 9, 3, 1,13,12,11,14, 2, 6, 5,10, 4, 0,15, 8],
    [ 9, 0, 5, 7, 2, 4,10,15,14, 1,11,12, 6, 8, 3,13],
    [ 2,12, 6,10, 0,11, 8, 3, 4,13, 7, 5,15,14, 1, 9],
    [12, 5, 1,15,14,13, 4,10, 0, 7, 6, 3, 9, 2, 8,11],
    [13,11, 7,14,12, 1, 3, 9, 5, 0,15, 4, 8, 6, 2,10],
    [ 6,15,14, 9,11, 3, 0, 8,12, 2,13, 7, 1, 4,10, 5],
    [10, 2, 8, 4, 7, 6, 1, 5,15,11, 9,14, 3,12,13, 0],
    [ 0, 1, 2, 3, 4, 5, 6, 7, 8, 9,10,11,12,13,14,15],
    [14,10, 4, 8, 9,15,13, 6, 1,12, 0, 2,11, 7, 5, 3]]"

definition rotr64 :: "u64 \<Rightarrow> nat \<Rightarrow> u64" where
  "rotr64 x n = drop_bit n x OR push_bit (64 - n) x"

definition load64 :: "bytes \<Rightarrow> u64" where
  "load64 p = acc_bytes (rev (take 8 p))"

definition store64 :: "u64 \<Rightarrow> bytes" where
  "store64 v = map (\<lambda>i. ucast (drop_bit (i * 8) v)) [0..<8]"

definition G :: "nat \<Rightarrow> nat \<Rightarrow> nat \<Rightarrow> nat \<Rightarrow> nat \<Rightarrow> nat \<Rightarrow> u64 list \<Rightarrow> u64 list \<Rightarrow> u64 list" where
  "G r i a b c d m v =
     (let va = v ! a + v ! b + m ! (BLAKE2B_SIGMA ! r ! (2 * i));
          vd = rotr64 (v ! d XOR va) 32;
          vc = v ! c + vd;
          vb = rotr64 (v ! b XOR vc) 24;
          va = va + vb + m ! (BLAKE2B_SIGMA ! r ! (2 * i + 1));
          vd = rotr64 (vd XOR va) 16;
          vc = vc + vd;
          vb = rotr64 (vb XOR vc) 63
      in v[a := va, b := vb, c := vc, d := vd])"

definition blake2b_round :: "u64 list \<Rightarrow> nat \<Rightarrow> u64 list \<Rightarrow> u64 list" where
  "blake2b_round m r v =
     (let v = G r 0 0 4  8 12 m v;
          v = G r 1 1 5  9 13 m v;
          v = G r 2 2 6 10 14 m v;
          v = G r 3 3 7 11 15 m v;
          v = G r 4 0 5 10 15 m v;
          v = G r 5 1 6 11 12 m v;
          v = G r 6 2 7  8 13 m v;
          v = G r 7 3 4  9 14 m v
      in v)"

definition compress :: "u64 list \<Rightarrow> bytes \<Rightarrow> u64 \<Rightarrow> bool \<Rightarrow> u64 list" where
  "compress h block t is_last =
     (let m = map (\<lambda>i. load64 (drop (i * 8) block)) [0..<16];
          v = map (\<lambda>i. h ! i) [0..<8] @ map (\<lambda>i. IV ! i) [0..<8];
          v = v[12 := v ! 12 XOR t];
          v = (if is_last then v[14 := NOT (v ! 14)] else v);
          v = foldl (\<lambda>v r. blake2b_round m r v) v [0..<12]
      in map (\<lambda>i. h ! i XOR (v ! i XOR v ! (i + 8))) [0..<8])"

text \<open>The loop over the complete blocks that are not final; \<open>inp\<close> is \<^verbatim>\<open>in + off\<close>.\<close>

function blake2b_blocks :: "u64 list \<Rightarrow> bytes \<Rightarrow> u64 \<Rightarrow> u64 list \<times> bytes \<times> u64" where
  "blake2b_blocks h inp counter =
     (if length inp > 128
      then blake2b_blocks (compress h (take 128 inp) (counter + 128) False) (drop 128 inp) (counter + 128)
      else (h, inp, counter))"
  by pat_completeness auto
termination
  by (relation "measure (\<lambda>(h, inp, counter). length inp)") auto

declare blake2b_blocks.simps [simp del]

definition blake2b_output :: "u64 list \<Rightarrow> nat \<Rightarrow> bytes" where
  "blake2b_output h outlen = map (\<lambda>i. ucast (drop_bit (8 * (i mod 8)) (h ! (i div 8)))) [0..<outlen]"

definition blake2b_nokey :: "bytes \<Rightarrow> nat \<Rightarrow> bytes" where
  "blake2b_nokey inp outlen =
     (let h = IV[0 := IV ! 0 XOR (0x01010000 XOR of_nat outlen)];
          (h, rest, counter) = blake2b_blocks h inp 0;
          block = blit (replicate 128 0) 0 rest;
          counter = counter + of_nat (length rest)
      in blake2b_output (compress h block counter True) outlen)"

section \<open>Specification: RFC 7693\<close>

text \<open>Section 2.7: ten permutations; round \<open>r\<close> uses row \<open>r mod 10\<close>.\<close>

definition sigma10 :: "nat \<Rightarrow> nat list" where
  "sigma10 r = take 10 BLAKE2B_SIGMA ! (r mod 10)"

text \<open>Section 3.1: the mixing function on four working words.\<close>

definition mix :: "u64 \<Rightarrow> u64 \<Rightarrow> u64 \<Rightarrow> u64 \<Rightarrow> u64 \<Rightarrow> u64 \<Rightarrow> u64 \<times> u64 \<times> u64 \<times> u64" where
  "mix a b c d x y =
     (let a1 = a + b + x;   d1 = word_rotr 32 (d XOR a1);
          c1 = c + d1;      b1 = word_rotr 24 (b XOR c1);
          a2 = a1 + b1 + y; d2 = word_rotr 16 (d1 XOR a2);
          c2 = c1 + d2;     b2 = word_rotr 63 (b1 XOR c2)
      in (a2, b2, c2, d2))"

definition mix_at :: "nat \<times> nat \<times> nat \<times> nat \<Rightarrow> u64 \<Rightarrow> u64 \<Rightarrow> u64 list \<Rightarrow> u64 list" where
  "mix_at = (\<lambda>(a, b, c, d) x y v.
     case mix (v ! a) (v ! b) (v ! c) (v ! d) x y of
       (va, vb, vc, vd) \<Rightarrow> v[a := va, b := vb, c := vc, d := vd])"

definition mix_lanes :: "(nat \<times> nat \<times> nat \<times> nat) list" where
  "mix_lanes = [(0, 4, 8, 12), (1, 5, 9, 13), (2, 6, 10, 14), (3, 7, 11, 15),
                (0, 5, 10, 15), (1, 6, 11, 12), (2, 7, 8, 13), (3, 4, 9, 14)]"

text \<open>Section 3.2: the compression function with a 128-bit counter \<open>t\<close> and final flag \<open>f\<close>.\<close>

definition F :: "u64 list \<Rightarrow> u64 list \<Rightarrow> nat \<Rightarrow> bool \<Rightarrow> u64 list" where
  "F h m t f =
     (let v = h @ IV;
          v = v[12 := v ! 12 XOR of_nat (t mod 2 ^ 64), 13 := v ! 13 XOR of_nat (t div 2 ^ 64)];
          v = (if f then v[14 := v ! 14 XOR (- 1)] else v);
          v = foldl (\<lambda>v r. foldl (\<lambda>v i. mix_at (mix_lanes ! i)
                 (m ! (sigma10 r ! (2 * i))) (m ! (sigma10 r ! (2 * i + 1))) v) v [0..<8]) v [0..<12]
      in map (\<lambda>i. h ! i XOR v ! i XOR v ! (i + 8)) [0..<8])"

text \<open>Section 3.3: block \<open>i\<close> of the zero-padded message, as sixteen little-endian words.\<close>

definition data_block :: "bytes \<Rightarrow> nat \<Rightarrow> u64 list" where
  "data_block msg i =
     map (\<lambda>b. of_nat (le_val b)) (chunks 8 (take 128 (drop (128 * i) msg @ replicate 128 0)))"

definition blake2b_spec :: "nat \<Rightarrow> bytes \<Rightarrow> bytes" where
  "blake2b_spec nn msg =
     (let dd = max 1 ((length msg + 127) div 128);
          h = IV[0 := IV ! 0 XOR 0x01010000 XOR of_nat nn];
          h = foldl (\<lambda>h i. F h (data_block msg i) ((i + 1) * 128) False) h [0..<dd - 1];
          h = F h (data_block msg (dd - 1)) (length msg) True
      in take nn (concat (map (le_bytes 8) h)))"

section \<open>Correctness of the compression function\<close>

lemma length_IV [simp]: "length IV = 8"
  by (simp add: IV_def)

lemma sigma10_eq: "r < 12 \<Longrightarrow> sigma10 r = BLAKE2B_SIGMA ! r"
proof -
  assume "r < 12"
  then consider "r < 10" | "r = 10" | "r = 11" by linarith
  then show ?thesis by cases (simp_all add: sigma10_def, simp_all add: BLAKE2B_SIGMA_def)
qed

lemma BLAKE2B_SIGMA_perm: "\<forall>p \<in> set BLAKE2B_SIGMA. sort p = [0..<16]"
  by code_simp

lemma rotr64_eq: "0 < n \<Longrightarrow> n < 64 \<Longrightarrow> rotr64 x n = word_rotr n x"
proof (rule bit_word_eqI)
  fix k assume n: "0 < n" "n < 64" and "k < LENGTH(64)"
  then have k: "k < 64" by simp
  show "bit (rotr64 x n) k = bit (word_rotr n x) k"
  proof (cases "k + n < 64")
    case True
    then have "(k + n) mod 64 = k + n" by simp
    then show ?thesis using True n k
      by (auto simp: rotr64_def bit_simps not_le add.commute)
  next
    case False
    then have "(k + n) mod 64 = k + n - 64" using n k by (simp add: mod_if)
    moreover have "\<not> bit x (n + k)" using False bit_imp_le_length [of x "n + k"] by auto
    ultimately show ?thesis using False n k
      by (auto simp: rotr64_def bit_simps add.commute)
  qed
qed

lemma store64_load64: "load64 (store64 v) = v"
  using acc_bytes_rev_le_bytes [of v]
  by (simp add: load64_def store64_def le_bytes_def mult.commute)

lemma G_mix:
  "G r i a b c d m v =
     mix_at (a, b, c, d) (m ! (BLAKE2B_SIGMA ! r ! (2 * i))) (m ! (BLAKE2B_SIGMA ! r ! (2 * i + 1))) v"
  by (simp add: G_def mix_at_def mix_def rotr64_eq Let_def)

lemma blake2b_round_eq:
  assumes "r < 12"
  shows "blake2b_round m r v =
    foldl (\<lambda>v i. mix_at (mix_lanes ! i)
      (m ! (sigma10 r ! (2 * i))) (m ! (sigma10 r ! (2 * i + 1))) v) v [0..<8]"
  by (simp add: blake2b_round_def G_mix mix_lanes_def sigma10_eq assms upt_rec Let_def)

lemma blake2b_rounds_eq:
  "(\<forall>r \<in> set rs. r < 12) \<Longrightarrow>
   foldl (\<lambda>v r. blake2b_round m r v) v rs =
   foldl (\<lambda>v r. foldl (\<lambda>v i. mix_at (mix_lanes ! i)
      (m ! (sigma10 r ! (2 * i))) (m ! (sigma10 r ! (2 * i + 1))) v) v [0..<8]) v rs"
  by (induction rs arbitrary: v) (simp_all add: blake2b_round_eq)

lemma compress_eq_F:
  assumes "length h = 8" and "t < 2 ^ 64"
  shows "compress h block (of_nat t) is_last = F h (map (\<lambda>i. load64 (drop (i * 8) block)) [0..<16]) t is_last"
proof -
  have id8: "map (\<lambda>i. h ! i) [0..<8] = h" "map (\<lambda>i. IV ! i) [0..<8] = IV"
    using map_nth [of h] map_nth [of IV] assms(1) by simp_all
  have t: "t mod 18446744073709551616 = t" "t div 18446744073709551616 = 0" using assms(2) by simp_all
  have u: "(h @ IV)[12 := x, 13 := (h @ IV) ! 13] = (h @ IV)[12 := x]" for x
    by (rule nth_equalityI) (auto simp: nth_list_update nth_append)
  show ?thesis
    by (simp add: compress_def F_def id8 t Let_def blake2b_rounds_eq u xor.assoc)
qed

lemma load64_eq: "length p \<le> 8 \<Longrightarrow> load64 p = of_nat (le_val p)"
proof -
  assume "length p \<le> 8"
  then have "unat (load64 p) = le_val p"
    by (simp add: load64_def unat_acc_bytes be_val_def)
  moreover have "load64 p = of_nat (unat (load64 p))" by simp
  ultimately show ?thesis by simp
qed

lemma load_block_eq:
  assumes "length block = 128"
  shows "map (\<lambda>i. load64 (drop (i * 8) block)) [0..<16] = map (\<lambda>b. of_nat (le_val b)) (chunks 8 block)"
proof -
  have "chunks 8 block = map (\<lambda>i. take 8 (drop (i * 8) block)) [0..<16]"
    using assms by (simp add: chunks.simps upt_rec)
  moreover have "load64 (drop k block) = load64 (take 8 (drop k block))" for k
    by (simp add: load64_def)
  ultimately show ?thesis by (simp add: load64_eq)
qed

section \<open>Correctness of the block loop\<close>

lemma length_blake_compress [simp]: "length (compress h block t f) = 8"
  by (simp add: compress_def Let_def)

lemma length_F [simp]: "length (F h m t f) = 8"
  by (simp add: F_def Let_def)

definition chain :: "bytes \<Rightarrow> u64 \<Rightarrow> u64 list \<Rightarrow> nat \<Rightarrow> u64 list" where
  "chain msg c h i = compress h (take 128 (drop (128 * i) msg)) (c + of_nat (128 * Suc i)) False"

definition chain_spec :: "bytes \<Rightarrow> u64 list \<Rightarrow> nat \<Rightarrow> u64 list" where
  "chain_spec msg h i = F h (data_block msg i) ((i + 1) * 128) False"

lemma chain_drop: "chain (drop 128 msg) (c + 128) h i = chain msg c h (Suc i)"
proof -
  have "drop (128 * i) (drop 128 msg) = drop (128 * Suc i) msg" by (simp add: add.commute)
  moreover have "(c + 128) + of_nat (128 * Suc i) = c + (of_nat (128 * Suc (Suc i)) :: u64)" by simp
  ultimately show ?thesis by (simp only: chain_def)
qed

lemma chain_fold_Suc:
  "foldl (chain msg c) h [0..<Suc k] = foldl (chain (drop 128 msg) (c + 128)) (chain msg c h 0) [0..<k]"
proof -
  have "foldl (chain msg c) h [0..<Suc k] = foldl (chain msg c) (chain msg c h 0) (map Suc [0..<k])"
    by (simp add: upt_conv_Cons map_Suc_upt del: upt_Suc)
  moreover have "chain (drop 128 msg) (c + 128) = (\<lambda>h i. chain msg c h (Suc i))"
    by (intro ext) (rule chain_drop)
  ultimately show ?thesis by (simp only: foldl_map)
qed

lemma blake2b_blocks_eq:
  "k = (length msg - 1) div 128 \<Longrightarrow>
   blake2b_blocks h msg c = (foldl (chain msg c) h [0..<k], drop (128 * k) msg, c + of_nat (128 * k))"
proof (induction h msg c arbitrary: k rule: blake2b_blocks.induct)
  case (1 h msg c)
  show ?case
  proof (cases "length msg > 128")
    case True
    let ?k = "(length (drop 128 msg) - 1) div 128"
    have k: "k = Suc ?k" unfolding "1.prems" using True by (simp add: div_if)
    have c0: "compress h (take 128 msg) (c + 128) False = chain msg c h 0" by (simp add: chain_def)
    have "blake2b_blocks h msg c = blake2b_blocks (chain msg c h 0) (drop 128 msg) (c + 128)"
      using True by (simp only: blake2b_blocks.simps [of h msg] c0 if_True)
    also have "\<dots> = (foldl (chain (drop 128 msg) (c + 128)) (chain msg c h 0) [0..<?k],
        drop (128 * ?k) (drop 128 msg), (c + 128) + of_nat (128 * ?k))"
      using "1.IH" [OF True refl] by (simp only: c0)
    also have "\<dots> = (foldl (chain msg c) h [0..<Suc ?k], drop (128 * Suc ?k) msg, c + of_nat (128 * Suc ?k))"
      by (simp only: chain_fold_Suc) (simp add: add.commute)
    finally show ?thesis by (simp only: k)
  next
    case False
    then have "k = 0" using "1.prems" by simp
    with False show ?thesis by (simp add: blake2b_blocks.simps [of h msg])
  qed
qed

lemma chain_eq_spec:
  assumes "length h = 8" and "128 * Suc i < length msg" and "length msg < 2 ^ 64"
  shows "chain msg 0 h i = chain_spec msg h i"
proof -
  let ?b = "take 128 (drop (128 * i) msg)"
  have len: "length ?b = 128" using assms(2) by simp
  have "?b = take 128 (drop (128 * i) msg @ replicate 128 0)" using assms(2) by simp
  then have db: "data_block msg i = map (\<lambda>i. load64 (drop (i * 8) ?b)) [0..<16]"
    by (simp add: data_block_def load_block_eq [OF len])
  have "chain msg 0 h i = compress h ?b (of_nat ((i + 1) * 128)) False"
    by (simp add: chain_def algebra_simps)
  also have "\<dots> = F h (map (\<lambda>i. load64 (drop (i * 8) ?b)) [0..<16]) ((i + 1) * 128) False"
    using assms by (intro compress_eq_F) simp_all
  finally show ?thesis by (simp only: chain_spec_def db)
qed

lemma length_chain_fold: "length h = 8 \<Longrightarrow> length (foldl (chain msg c) h is) = 8"
  by (induction "is" arbitrary: h) (simp_all add: chain_def)

lemma chain_fold_eq_spec:
  assumes "length h = 8" and "length msg < 2 ^ 64"
  shows "128 * k < length msg \<or> k = 0 \<Longrightarrow> foldl (chain msg 0) h [0..<k] = foldl (chain_spec msg) h [0..<k]"
proof (induction k)
  case 0
  then show ?case by simp
next
  case (Suc k)
  then have "128 * Suc k < length msg" by simp
  from chain_eq_spec [OF length_chain_fold [OF assms(1), of msg 0 "[0..<k]"] this assms(2)] Suc
  show ?case by simp
qed

lemma blake2b_output_eq:
  assumes "length h = 8" and "n \<le> 64"
  shows "blake2b_output h n = take n (concat (map (le_bytes 8) h))"
proof -
  obtain a b c d e f g i where h: "h = [a, b, c, d, e, f, g, i]"
    using assms(1) by (auto simp: length_Suc_conv numeral_eq_Suc)
  have "take n [0..<64] = [0..<n]" using assms(2) by simp
  then have "blake2b_output h n = take n (blake2b_output h 64)"
    by (simp only: blake2b_output_def take_map)
  moreover have "blake2b_output h 64 = concat (map (le_bytes 8) h)"
    unfolding h by (simp add: blake2b_output_def le_bytes_def upt_rec)
  ultimately show ?thesis by simp
qed

lemma block_count: "max 1 ((n + 127) div 128) - 1 = (n - 1) div (128::nat)"
proof (cases n)
  case (Suc m)
  have "(m + 128) div 128 = Suc (m div 128)" by (rule div_add_self2 [of 128 m, simplified])
  then show ?thesis using Suc by simp
qed simp

lemma blake2b_nokey_eq_spec:
  assumes "length msg < 2 ^ 64" and "n \<le> 64"
  shows "blake2b_nokey msg n = blake2b_spec n msg"
proof -
  define h0 where "h0 = IV[0 := IV ! 0 XOR 0x01010000 XOR (of_nat n :: u64)]"
  define k where "k = (length msg - 1) div 128"
  let ?h = "foldl (chain msg 0) h0 [0..<k]" and ?rest = "drop (128 * k) msg"
  let ?b = "take 128 (?rest @ replicate 128 0)"
  have len: "length h0 = 8" "length ?h = 8" by (simp_all add: h0_def length_chain_fold)
  have "128 * k \<le> length msg - 1" by (simp add: k_def)
  then have le: "128 * k \<le> length msg" "128 * k < length msg \<or> k = 0" by linarith+
  have dd: "max 1 ((length msg + 127) div 128) - 1 = k"
    by (simp only: k_def block_count)
  have fold: "foldl (chain_spec msg) h0 [0..<k] = ?h"
    using chain_fold_eq_spec [OF len(1) assms(1) le(2)] by simp
  have "length ?rest \<le> 128" by (simp add: k_def)
  then have b: "blit (replicate 128 0) 0 ?rest = ?b" by (simp add: blit_def)
  have "length ?b = 128" by simp
  then have db: "data_block msg k = map (\<lambda>i. load64 (drop (i * 8) ?b)) [0..<16]"
    by (simp only: data_block_def load_block_eq)
  have cnt: "0 + of_nat (128 * k) + of_nat (length ?rest) = (of_nat (length msg) :: u64)"
    using le(1) by (simp flip: of_nat_add of_nat_mult)
  have "blake2b_nokey msg n = blake2b_output (compress ?h ?b (of_nat (length msg)) True) n"
    unfolding blake2b_nokey_def Let_def h0_def [symmetric]
    by (simp only: blake2b_blocks_eq [OF k_def] prod.case b cnt)
  also have "\<dots> = take n (concat (map (le_bytes 8) (F ?h (data_block msg k) (length msg) True)))"
    using assms len(2) by (simp only: compress_eq_F db blake2b_output_eq length_F)
  finally show ?thesis
    unfolding blake2b_spec_def Let_def dd h0_def [symmetric] fold [symmetric]
    by (simp only: chain_spec_def [abs_def])
qed

lemma length_blake2b_nokey [simp, byte_lengths]: "length (blake2b_nokey msg n) = n"
  by (simp add: blake2b_nokey_def blake2b_output_def Let_def split: prod.split)

text \<open>
  C32: \<^verbatim>\<open>blake2b_nokey\<close> computes unkeyed BLAKE2b as RFC 7693 defines it, for every message
  shorter than \<open>2^64\<close> bytes and every digest length up to 64.  The twelve-row table of the
  C file agrees with the RFC's ten rows taken modulo 10, the 64-bit counter agrees with the
  128-bit one, and the loop splits the message so that the last block (and only it) is
  padded and flagged final, also for the empty message and for exact multiples of 128.
\<close>

theorem blake2b_correct:
  assumes "length msg < 2 ^ 64" and "outlen \<le> 64"
  shows "blake2b_nokey msg outlen = blake2b_spec outlen msg"
  using assms by (rule blake2b_nokey_eq_spec)

theorem blake2b_correct_witness:
  "length (replicate 80 (0::u8)) < 2 ^ 64 \<and> (32::nat) \<le> 64 \<and>
   blake2b_nokey (replicate 80 0) 32 = blake2b_spec 32 (replicate 80 0)"
  using blake2b_correct [of "replicate 80 0" 32] by simp

end
