(* ===== verification/Bytecodec.thy ===== *)
theory Bytecodec
  imports Prelude
begin

text \<open>
  The serialisation helpers that \<^verbatim>\<open>work_item.c\<close>, \<^verbatim>\<open>block.c\<close>, \<^verbatim>\<open>coinbase.c\<close> and
  \<^verbatim>\<open>worksrc.c\<close> each carry as static functions: little-endian integers of 2, 4 and 8
  bytes and Bitcoin's CompactSize.  The locale \<open>prefix_codec\<close> is the contract of a
  self-delimiting field; every helper is shown to satisfy it with a decoder that a reader
  of the block would run, and the facts about whole messages (a parser that consumes the
  fields in order, injectivity of a serialisation) come from the locale.
\<close>

unbundle bit_operations_syntax

section \<open>The C helpers\<close>

definition put_u16le :: "u16 \<Rightarrow> bytes" where
  "put_u16le v = [ucast v, ucast (drop_bit 8 v)]"

definition put_u32le :: "u32 \<Rightarrow> bytes" where
  "put_u32le v = [ucast v, ucast (drop_bit 8 v), ucast (drop_bit 16 v), ucast (drop_bit 24 v)]"

definition put_u64le :: "u64 \<Rightarrow> bytes" where
  "put_u64le v = map (\<lambda>i. ucast (drop_bit (8 * i) v)) [0..<8]"

definition get_le64 :: "bytes \<Rightarrow> u64" where
  "get_le64 p = acc_bytes (rev (take 8 p))"

definition put_compact :: "u64 \<Rightarrow> bytes" where
  "put_compact v =
     (if v < 0xfd then [ucast v]
      else if v \<le> 0xffff then 0xfd # put_u16le (ucast v)
      else if v \<le> 0xffffffff then 0xfe # put_u32le (ucast v)
      else 0xff # map (\<lambda>i. ucast (drop_bit (8 * i) v)) [0..<8])"

text \<open>The copy of \<^verbatim>\<open>put_compact\<close> in \<^verbatim>\<open>coinbase.c\<close>, which spells the 16-bit case out.\<close>

definition put_compact_cb :: "u64 \<Rightarrow> bytes" where
  "put_compact_cb v =
     (if v < 0xfd then [ucast v]
      else if v \<le> 0xffff then [0xfd, ucast v, ucast (drop_bit 8 v)]
      else if v \<le> 0xffffffff then 0xfe # put_u32le (ucast v)
      else 0xff # put_u64le v)"

section \<open>Decoders: what a reader of the serialisation does\<close>

definition take_exact :: "nat \<Rightarrow> bytes \<Rightarrow> (bytes \<times> bytes) option" where
  "take_exact n bs = (if length bs < n then None else Some (take n bs, drop n bs))"

definition read_le :: "nat \<Rightarrow> bytes \<Rightarrow> ('a::len word \<times> bytes) option" where
  "read_le n bs = (if length bs < n then None else Some (of_nat (le_val (take n bs)), drop n bs))"

definition read_compact :: "bytes \<Rightarrow> (u64 \<times> bytes) option" where
  "read_compact bs =
     (case bs of [] \<Rightarrow> None
      | b # r \<Rightarrow> (if b = 0xfd then read_le 2 r else if b = 0xfe then read_le 4 r
                  else if b = 0xff then read_le 8 r else Some (ucast b, r)))"

section \<open>The contract of a self-delimiting field\<close>

fun dec_many :: "(bytes \<Rightarrow> ('a \<times> bytes) option) \<Rightarrow> nat \<Rightarrow> bytes \<Rightarrow> ('a list \<times> bytes) option" where
  "dec_many dec 0 bs = Some ([], bs)"
| "dec_many dec (Suc n) bs =
     (case dec bs of None \<Rightarrow> None
      | Some (x, r) \<Rightarrow> map_option (\<lambda>(xs, r'). (x # xs, r')) (dec_many dec n r))"

locale prefix_codec =
  fixes enc :: "'a \<Rightarrow> bytes"
    and dec :: "bytes \<Rightarrow> ('a \<times> bytes) option"
    and ok :: "'a \<Rightarrow> bool"
  assumes dec_enc: "ok x \<Longrightarrow> dec (enc x @ rest) = Some (x, rest)"
begin

lemma prefix_free: "ok x \<Longrightarrow> ok y \<Longrightarrow> enc x @ r = enc y @ s \<Longrightarrow> x = y \<and> r = s"
  by (metis dec_enc option.inject prod.inject)

lemma dec_many_enc: "list_all ok xs \<Longrightarrow> dec_many dec (length xs) (concat (map enc xs) @ rest) = Some (xs, rest)"
  by (induction xs) (simp_all add: dec_enc)

end

text \<open>A codec of elements gives the codec of CompactSize-counted vectors of them.\<close>

definition enc_vec :: "('a \<Rightarrow> bytes) \<Rightarrow> 'a list \<Rightarrow> bytes" where
  "enc_vec enc xs = put_compact (of_nat (length xs)) @ concat (map enc xs)"

definition dec_vec :: "(bytes \<Rightarrow> ('a \<times> bytes) option) \<Rightarrow> bytes \<Rightarrow> ('a list \<times> bytes) option" where
  "dec_vec dec bs = (case read_compact bs of None \<Rightarrow> None | Some (n, r) \<Rightarrow> dec_many dec (unat n) r)"

section \<open>The helpers satisfy it\<close>

lemma put_u16le_eq [codec_defs]: "put_u16le v = le_bytes 2 v"
  by (simp add: put_u16le_def le_bytes_def upt_rec)

lemma put_u32le_eq [codec_defs]: "put_u32le v = le_bytes 4 v"
  by (simp add: put_u32le_def le_bytes_def upt_rec)

lemma put_u64le_eq [codec_defs]: "put_u64le v = le_bytes 8 v"
  by (simp add: put_u64le_def le_bytes_def)

lemma length_put [simp, byte_lengths]:
  "length (put_u16le a) = 2" "length (put_u32le b) = 4" "length (put_u64le c) = 8"
  by (simp_all add: codec_defs)

lemma get_le64_put: "get_le64 (put_u64le v @ r) = v"
  by (simp add: get_le64_def put_u64le_eq acc_bytes_rev_le_bytes)

lemma get_le64_eq: "get_le64 bs = of_nat (le_val (take 8 bs))"
proof -
  have "unat (get_le64 bs) = le_val (take 8 bs)"
    by (simp add: get_le64_def unat_acc_bytes be_val_def)
  moreover have "get_le64 bs = of_nat (unat (get_le64 bs))" by simp
  ultimately show ?thesis by simp
qed

lemma read_le_bytes:
  fixes v :: "'a::len word"
  assumes "8 \<le> LENGTH('a)" and "LENGTH('a) \<le> 8 * n"
  shows "read_le n (le_bytes n v @ rest) = Some (v, rest)"
  by (simp add: read_le_def le_val_le_bytes_full [OF assms])

interpretation u16le: prefix_codec put_u16le "read_le 2 :: bytes \<Rightarrow> (u16 \<times> bytes) option" "\<lambda>_. True"
  by unfold_locales (simp add: codec_defs read_le_bytes)

interpretation u32le: prefix_codec put_u32le "read_le 4 :: bytes \<Rightarrow> (u32 \<times> bytes) option" "\<lambda>_. True"
  by unfold_locales (simp add: codec_defs read_le_bytes)

interpretation u64le: prefix_codec put_u64le "read_le 8 :: bytes \<Rightarrow> (u64 \<times> bytes) option" "\<lambda>_. True"
  by unfold_locales (simp add: codec_defs read_le_bytes)

lemma put_compact_cb_eq: "put_compact_cb v = put_compact v"
proof -
  have "ucast (drop_bit 8 (ucast v :: u16)) = (ucast (drop_bit 8 v) :: u8)"
    by (rule bit_word_eqI) (auto simp: bit_simps)
  moreover have "ucast (ucast v :: u16) = (ucast v :: u8)"
    by (rule bit_word_eqI) (auto simp: bit_simps)
  ultimately show ?thesis by (simp add: put_compact_cb_def put_compact_def put_u16le_def put_u64le_def)
qed

lemma unat_ucast_small:
  fixes v :: "'a::len word"
  assumes "unat v < 2 ^ LENGTH('b::len)"
  shows "unat (ucast v :: 'b word) = unat v"
  using assms by (simp add: unsigned_ucast_eq take_bit_nat_eq_self)

lemma ucast_ucast_small:
  fixes v :: "'a::len word"
  assumes "unat v < 2 ^ LENGTH('b::len)" and "LENGTH('b) \<le> LENGTH('a)"
  shows "of_nat (unat (ucast v :: 'b word)) = v"
  by (simp add: unat_ucast_small [OF assms(1)])

lemma read_le_narrow:
  fixes v :: u64
  assumes "unat v < 2 ^ LENGTH('b::len)" and "8 \<le> LENGTH('b)" "LENGTH('b) \<le> 64" "LENGTH('b) \<le> 8 * n"
  shows "read_le n (le_bytes n (ucast v :: 'b word) @ rest) = Some (v, rest)"
  using assms by (simp add: read_le_def le_val_le_bytes_full unat_ucast_small)

interpretation compact: prefix_codec put_compact read_compact "\<lambda>_. True"
proof
  fix v :: u64 and rest
  consider "v < 0xfd" | "\<not> v < 0xfd" "v \<le> 0xffff"
    | "\<not> v < 0xfd" "\<not> v \<le> 0xffff" "v \<le> 0xffffffff" | "\<not> v < 0xfd" "\<not> v \<le> 0xffff" "\<not> v \<le> 0xffffffff"
    by blast
  then show "read_compact (put_compact v @ rest) = Some (v, rest)"
  proof cases
    case 1
    then have n: "unat v < 253" by (simp add: word_less_nat_alt)
    then have u: "unat (ucast v :: u8) = unat v" by (intro unat_ucast_small) simp
    have "ucast v \<noteq> (0xfd :: u8)" "ucast v \<noteq> (0xfe :: u8)" "ucast v \<noteq> (0xff :: u8)"
      using n u by (auto dest: arg_cong [where f = unat])
    moreover have "unat (ucast (ucast v :: u8) :: u64) = unat v"
      using n u by (subst unat_ucast_small) simp_all
    then have "ucast (ucast v :: u8) = v" by (simp only: word_unat_eq_iff)
    ultimately show ?thesis using 1 by (simp add: put_compact_def read_compact_def)
  next
    case 2
    then have "unat v < 2 ^ LENGTH(16)" by (simp add: word_le_nat_alt)
    then show ?thesis using 2
      by (simp add: put_compact_def read_compact_def codec_defs read_le_narrow)
  next
    case 3
    then have "unat v < 2 ^ LENGTH(32)" by (simp add: word_le_nat_alt)
    then show ?thesis using 3
      by (simp add: put_compact_def read_compact_def codec_defs read_le_narrow)
  next
    case 4
    then show ?thesis
      by (simp add: put_compact_def read_compact_def read_le_bytes flip: le_bytes_def)
  qed
qed

lemma length_put_compact:
  "length (put_compact v) = (if v < 0xfd then 1 else if v \<le> 0xffff then 3 else if v \<le> 0xffffffff then 5 else 9)"
  by (simp add: put_compact_def)

lemma length_put_compact_le [byte_lengths]: "length (put_compact v) \<le> 9"
  by (simp add: length_put_compact)

definition script_ok :: "bytes \<Rightarrow> bool" where
  "script_ok s \<longleftrightarrow> length s < 2 ^ 64"

definition enc_script :: "bytes \<Rightarrow> bytes" where
  "enc_script s = put_compact (of_nat (length s)) @ s"

definition dec_script :: "bytes \<Rightarrow> (bytes \<times> bytes) option" where
  "dec_script bs = (case read_compact bs of None \<Rightarrow> None | Some (n, r) \<Rightarrow> take_exact (unat n) r)"

lemma unat_of_nat_u64: "n < 2 ^ 64 \<Longrightarrow> unat (of_nat n :: u64) = n"
  by (simp add: unat_of_nat take_bit_nat_eq_self)

interpretation script: prefix_codec enc_script dec_script script_ok
  by unfold_locales (simp add: enc_script_def dec_script_def script_ok_def compact.dec_enc take_exact_def
      unat_of_nat_u64)

context prefix_codec
begin

lemma vec_dec_enc:
  "length xs < 2 ^ 64 \<Longrightarrow> list_all ok xs \<Longrightarrow> dec_vec dec (enc_vec enc xs @ rest) = Some (xs, rest)"
  by (simp add: enc_vec_def dec_vec_def compact.dec_enc unat_of_nat_u64 dec_many_enc)

end

text \<open>
  CompactSize, in both copies the miner carries: a reader of the standard format gets
  back exactly the value written and the bytes after it, for every 64-bit value; so no two
  values share an encoding, and no encoding is a prefix of another.
\<close>

theorem put_compact_roundtrip:
  "read_compact (put_compact v @ rest) = Some (v, rest) \<and> put_compact_cb v = put_compact v"
  by (simp add: compact.dec_enc put_compact_cb_eq)

end
