(* ===== verification/Work_Item.thy ===== *)
theory Work_Item
  imports Sha256 Blake2b Bytecodec
begin

text \<open>
  The Knots v2 header, the five-stage proof of work and the FPGA wire formats
  (\<^verbatim>\<open>src/miner/work_item.c\<close>, \<^verbatim>\<open>work_item.h\<close>).

  The header is a record with the fields of \<^verbatim>\<open>knots_header_t\<close>; the fixed-size byte arrays
  are byte lists whose lengths are the invariant \<open>wf_header\<close>.  \<open>m_height\<close> is an
  \<^verbatim>\<open>int32_t\<close> that the code only ever casts to \<^verbatim>\<open>uint32_t\<close>, so it is kept as its
  32-bit pattern.  A negative return code \<open>c\<close> is \<open>Inl c\<close>.
\<close>

unbundle bit_operations_syntax

definition STAGE3_LEN :: nat where "STAGE3_LEN = 52"
definition STAGE4_LEN :: nat where "STAGE4_LEN = 80"
definition SLOTS :: nat where "SLOTS = 10"
definition WORK_ITEM_LEN :: nat where "WORK_ITEM_LEN = 168"
definition RESULT_LEN :: nat where "RESULT_LEN = 17"
definition BLAKE2B_TARGET_SHIFT_MAINNET :: nat where "BLAKE2B_TARGET_SHIFT_MAINNET = 22"

lemmas wire_sizes = STAGE3_LEN_def STAGE4_LEN_def SLOTS_def WORK_ITEM_LEN_def RESULT_LEN_def

section \<open>The header\<close>

record knots_header =
  nVersion :: u32
  hashPrevBlock :: bytes
  hashMerkleRoot :: bytes
  nTime :: u32
  nBits :: u32
  nNonce :: u32
  m_nonce2 :: u32
  m_nonce3 :: u32
  m_extranonce :: bytes
  m_time_offset :: u32
  m_txcount :: u16
  m_flags :: u8
  m_xor_key_mask_clear_bits :: u8
  m_xor_key :: bytes
  m_height :: u32
  m_mm_rhs :: bytes

definition wf_header :: "knots_header \<Rightarrow> bool" where
  "wf_header h \<longleftrightarrow> length (hashPrevBlock h) = 32 \<and> length (hashMerkleRoot h) = 32 \<and>
     length (m_extranonce h) = 16 \<and> length (m_xor_key h) = 16 \<and> length (m_mm_rhs h) = 32"

definition knots_header_init :: knots_header where
  "knots_header_init =
     \<lparr>nVersion = 0x20000000, hashPrevBlock = replicate 32 0, hashMerkleRoot = replicate 32 0,
      nTime = 0, nBits = 0x1d00ffff, nNonce = 0, m_nonce2 = 0, m_nonce3 = 0,
      m_extranonce = replicate 16 0, m_time_offset = 0, m_txcount = 0, m_flags = 0,
      m_xor_key_mask_clear_bits = 0, m_xor_key = replicate 16 0, m_height = 0,
      m_mm_rhs = replicate 32 0\<rparr>"

definition HEADER_V2_FLAG :: u32 where "HEADER_V2_FLAG = 0x80000000"
definition USE_TIME_OFFSET :: u8 where "USE_TIME_OFFSET = 4"

definition knots_complete_version :: "knots_header \<Rightarrow> u32" where
  "knots_complete_version h = HEADER_V2_FLAG OR (nVersion h AND NOT HEADER_V2_FLAG)"

definition knots_time_on_wire :: "knots_header \<Rightarrow> u32" where
  "knots_time_on_wire h =
     (if m_flags h AND USE_TIME_OFFSET = 0 then nTime h else nTime h - m_time_offset h)"

section \<open>Stages 1 to 4\<close>

definition h1_payload :: "knots_header \<Rightarrow> bytes" where
  "h1_payload h =
     put_u32le (knots_complete_version h) @ rev (hashPrevBlock h) @ put_u32le (m_height h) @
     hashMerkleRoot h @ put_u32le (knots_time_on_wire h) @ [0x00] @ put_u32le (nBits h) @
     put_u32le (ucast (m_txcount h)) @ [m_flags h] @ [m_xor_key_mask_clear_bits h] @
     tagged_hash ''Bitcoin block hash PoW XOR key'' (m_xor_key h)"

definition h2_hash :: "knots_header \<Rightarrow> bytes" where
  "h2_hash h = tagged_hash ''Merge-mining hook''
     (tagged_hash ''Bitcoin block header 1'' (h1_payload h) @ replicate 32 0 @ m_mm_rhs h)"

definition prev_hidden :: "knots_header \<Rightarrow> bytes" where
  "prev_hidden h =
     blit (tagged_hash ''Bitcoin prevblock header, hashed'' (rev (hashPrevBlock h))) 0 (replicate 6 0)"

definition stage_inputs :: "knots_header \<Rightarrow> int + bytes \<times> bytes \<times> bytes" where
  "stage_inputs h =
     (if m_flags h AND 3 \<noteq> 0 then Inl (-1)
      else if length (h1_payload h) \<noteq> 119 then Inl (-2)
      else let ss3 = put_u32le 0 @ h2_hash h @ m_extranonce h;
               hash_a = blake2b_nokey ss3 32;
               ss4 = prev_hidden h @ put_u32le (nNonce h) @ put_u32le (m_nonce2 h) @
                     put_u32le (m_time_offset h) @ put_u32le (m_nonce3 h) @ hash_a
           in if length ss4 \<noteq> STAGE4_LEN then Inl (-3) else Inr (ss3, ss4, hash_a))"

definition build_work_item :: "knots_header \<Rightarrow> u64 \<Rightarrow> int + bytes" where
  "build_work_item h target_top64 =
     (case stage_inputs h of
        Inl rc \<Rightarrow> Inl rc
      | Inr (ss3, ss4, hash_a) \<Rightarrow>
          let out = replicate WORK_ITEM_LEN 0;
              out = blit out 0 ss3;
              out = blit out (SLOTS * 8) ss4;
              out = blit out (2 * SLOTS * 8) (put_u64le target_top64)
          in Inr out)"

section \<open>Stage 5\<close>

definition clear_mask :: "bytes \<Rightarrow> nat \<Rightarrow> bytes" where
  "clear_mask msk clear_bits =
     (let clear_bytes = clear_bits div 8;
          msk = foldl (\<lambda>m i. m[i := 0]) msk [0..<min clear_bytes 32];
          rem = clear_bits mod 8
      in if rem \<noteq> 0 \<and> clear_bytes < 32
         then msk[clear_bytes := msk ! clear_bytes AND ucast (drop_bit rem (0xff :: u32))]
         else msk)"

definition pow_mask :: "knots_header \<Rightarrow> bytes" where
  "pow_mask h =
     (if list_all (\<lambda>b. b = 0) (m_xor_key h) then replicate 32 0
      else clear_mask (tagged_hash ''Bitcoin block hash PoW XOR mask'' (m_xor_key h))
             (unat (m_xor_key_mask_clear_bits h)))"

definition get_pow_hash :: "knots_header \<Rightarrow> int + bytes" where
  "get_pow_hash h =
     (case stage_inputs h of
        Inl rc \<Rightarrow> Inl rc
      | Inr (ss3, ss4, hash_a) \<Rightarrow>
          let hash_b = blake2b_nokey ss4 32; msk = pow_mask h
          in Inr (map (\<lambda>k. hash_b ! (31 - k) XOR msk ! (31 - k)) [0..<32]))"

section \<open>Targets\<close>

text \<open>
  \<^verbatim>\<open>long\<close> arithmetic on bit positions; the C expressions stay far inside the range of a
  32-bit \<^verbatim>\<open>long\<close> for every shift below \<open>2^31 - 2048\<close>.
\<close>

definition set_target_bit :: "u32 \<Rightarrow> int \<Rightarrow> bytes \<Rightarrow> nat \<Rightarrow> bytes" where
  "set_target_bit mant bitpos out b =
     (if \<not> bit mant b then out
      else let pos = bitpos + int b in
        if pos < 0 \<or> 256 \<le> pos then out
        else let k = 31 - nat (pos div 8)
             in out[k := out ! k OR push_bit (nat (pos mod 8)) 1])"

definition compact_to_target_shifted :: "u32 \<Rightarrow> nat \<Rightarrow> bytes" where
  "compact_to_target_shifted nbits shift =
     (let ex = unat (drop_bit 24 nbits AND 0xff);
          mant = nbits AND 0x007fffff
      in if nbits AND 0x00800000 \<noteq> 0 then replicate 32 0
         else let (mant, bitpos) =
                (if ex \<le> 3 then (drop_bit (8 * (3 - ex)) mant, int shift)
                 else (mant, 8 * (int ex - 3) + int shift))
              in foldl (set_target_bit mant bitpos) (replicate 32 0) [0..<24])"

definition target_top64_from_bits :: "u32 \<Rightarrow> nat \<Rightarrow> u64" where
  "target_top64_from_bits nbits shift = acc_bytes (take 8 (compact_to_target_shifted nbits shift))"

definition hash_meets_target :: "bytes \<Rightarrow> bytes \<Rightarrow> bool" where
  "hash_meets_target hash_be target_be \<longleftrightarrow> memcmp hash_be target_be \<le> 0"

section \<open>Result frames\<close>

record fpga_result =
  r_success :: bool
  r_nonce :: u64
  r_hash_top64 :: u64

definition parse_result :: "bytes \<Rightarrow> int \<times> fpga_result" where
  "parse_result buf =
     (let r = \<lparr>r_success = (buf ! 0 = 0x01), r_nonce = get_le64 (drop 1 buf), r_hash_top64 = get_le64 (drop 9 buf)\<rparr>
      in (if r_success r then 0 else -1, r))"

section \<open>Well-formedness and lengths\<close>

lemma wf_header_init: "wf_header knots_header_init"
  by (simp add: wf_header_def knots_header_init_def)

lemma length_h1_payload: "wf_header h \<Longrightarrow> length (h1_payload h) = 119"
  by (simp add: wf_header_def h1_payload_def)

lemma length_h2_hash [simp, byte_lengths]: "length (h2_hash h) = 32"
  by (simp add: h2_hash_def)

lemma length_prev_hidden [simp, byte_lengths]: "length (prev_hidden h) = 32"
  by (simp add: prev_hidden_def)

text \<open>The three error codes: with a well-formed header only the mode check can fail.\<close>

lemma stage_inputs_eq:
  assumes "wf_header h"
  shows "stage_inputs h =
    (if m_flags h AND 3 \<noteq> 0 then Inl (-1)
     else let ss3 = put_u32le 0 @ h2_hash h @ m_extranonce h
          in Inr (ss3, prev_hidden h @ put_u32le (nNonce h) @ put_u32le (m_nonce2 h) @
               put_u32le (m_time_offset h) @ put_u32le (m_nonce3 h) @ blake2b_nokey ss3 32,
               blake2b_nokey ss3 32))"
  using assms by (simp add: stage_inputs_def length_h1_payload wire_sizes Let_def)

lemma stage_inputs_lengths:
  assumes "wf_header h" and "stage_inputs h = Inr (ss3, ss4, hash_a)"
  shows "length ss3 = STAGE3_LEN \<and> length ss4 = STAGE4_LEN \<and> length hash_a = 32 \<and>
         hash_a = blake2b_nokey ss3 32 \<and> drop 48 ss4 = hash_a"
  using assms by (auto simp: stage_inputs_eq wf_header_def wire_sizes Let_def split: if_splits)

lemma stage_inputs_init: "\<exists>ss3 ss4 a. stage_inputs knots_header_init = Inr (ss3, ss4, a)"
proof -
  have "m_flags knots_header_init AND 3 = 0" by (simp add: knots_header_init_def)
  then show ?thesis by (simp add: stage_inputs_eq [OF wf_header_init] Let_def)
qed

lemma hash_meets_target_iff:
  "length hash = 32 \<Longrightarrow> length target = 32 \<Longrightarrow>
     hash_meets_target hash target \<longleftrightarrow> be_val hash \<le> be_val target"
  by (simp add: hash_meets_target_def memcmp_le_iff)

section \<open>Targets: the bit loop computes the shifted compact value\<close>

lemma target_loop:
  fixes mant :: u32
  assumes "0 \<le> bitpos"
  shows "length (foldl (set_target_bit mant bitpos) (replicate 32 0) [0..<n]) = 32 \<and>
         be_val (foldl (set_target_bit mant bitpos) (replicate 32 0) [0..<n]) =
           (unat mant mod 2 ^ n) * 2 ^ nat bitpos mod 2 ^ 256"
proof (induction n)
  case 0
  then show ?case by simp
next
  case (Suc n)
  let ?o = "foldl (set_target_bit mant bitpos) (replicate 32 0) [0..<n]"
  let ?p = "nat bitpos + n" and ?m = "unat mant mod 2 ^ n"
  have len: "length ?o = 32" and val: "be_val ?o = ?m * 2 ^ nat bitpos mod 2 ^ 256"
    using Suc by simp_all
  have step: "unat mant mod 2 ^ Suc n = ?m + of_bool (bit mant n) * 2 ^ n"
  proof -
    have "bit mant n = odd (unat mant div 2 ^ n)" using bit_unat [of mant n] by (simp add: bit_iff_odd)
    then show ?thesis
      using mod_mult2_eq [of "unat mant" "2 ^ n" 2] by (simp add: mult.commute mod_2_eq_odd)
  qed
  have nn: "nat (bitpos + int n) = ?p" "\<not> bitpos + int n < 0" using assms by (simp_all add: nat_add_distrib)
  show ?case
  proof (cases "bit mant n")
    case False
    then have "set_target_bit mant bitpos ?o n = ?o" by (simp add: set_target_bit_def)
    with False len val step show ?thesis by simp
  next
    case True
    have full: "(?m + 2 ^ n) * 2 ^ nat bitpos = ?m * 2 ^ nat bitpos + 2 ^ ?p"
      by (simp add: algebra_simps power_add)
    show ?thesis
    proof (cases "256 \<le> bitpos + int n")
      case big: True
      then have "set_target_bit mant bitpos ?o n = ?o" by (simp add: set_target_bit_def Let_def)
      moreover have "(2::nat) ^ ?p = 2 ^ 256 * 2 ^ (?p - 256)"
        using big assms by (subst power_add [symmetric]) simp
      then have "(2::nat) ^ ?p mod 2 ^ 256 = 0" by simp
      then have "(?m * 2 ^ nat bitpos + 2 ^ ?p) mod 2 ^ 256 = ?m * 2 ^ nat bitpos mod 2 ^ 256"
        by (metis add.right_neutral mod_add_right_eq)
      ultimately show ?thesis using True len val step by (simp add: full)
    next
      case small: False
      then have p: "?p < 256" using assms by linarith
      have "?m * 2 ^ nat bitpos < 2 ^ n * 2 ^ nat bitpos" by simp
      then have lt: "?m * 2 ^ nat bitpos < 2 ^ ?p" by (simp add: power_add mult.commute)
      have le: "(2::nat) ^ Suc ?p \<le> 2 ^ 256" using p by (intro power_increasing) simp_all
      have vo: "be_val ?o = ?m * 2 ^ nat bitpos" using lt le val by simp
      have dm: "nat ((bitpos + int n) div 8) = ?p div 8" "nat ((bitpos + int n) mod 8) = ?p mod 8"
        using assms by (simp_all add: nat_div_distrib nat_mod_distrib nn(1))
      have "set_target_bit mant bitpos ?o n =
          ?o[31 - ?p div 8 := ?o ! (31 - ?p div 8) OR push_bit (?p mod 8) 1]"
        using True small nn(2) by (simp add: set_target_bit_def Let_def dm)
      moreover have "be_val ?o < 2 ^ ?p" using vo lt by simp
      ultimately have "be_val (set_target_bit mant bitpos ?o n) = ?m * 2 ^ nat bitpos + 2 ^ ?p"
        using set_bit_be_val_low [OF len p] vo by simp
      moreover have "?m * 2 ^ nat bitpos + 2 ^ ?p < 2 ^ 256" using lt le by simp
      moreover have "length (set_target_bit mant bitpos ?o n) = 32"
        using len by (simp add: set_target_bit_def Let_def)
      ultimately show ?thesis using True step by (simp add: full)
    qed
  qed
qed

text \<open>
  The specification of compact bits: sign, exponent and 23-bit mantissa as numbers.
\<close>

definition compact_value :: "u32 \<Rightarrow> nat" where
  "compact_value nbits =
     (let ex = unat nbits div 2 ^ 24; mant = unat nbits mod 2 ^ 23 in
      if odd (unat nbits div 2 ^ 23) then 0
      else if ex \<le> 3 then mant div 256 ^ (3 - ex) else mant * 256 ^ (ex - 3))"

lemma compact_sign: "(nbits :: u32) AND 0x00800000 \<noteq> 0 \<longleftrightarrow> odd (unat nbits div 2 ^ 23)"
  using and_exp_eq_0_iff_not_bit [of nbits 23] bit_unat [of nbits 23] by (simp add: bit_iff_odd)

lemma compact_exponent: "unat (drop_bit 24 (nbits :: u32) AND 0xff) = unat nbits div 2 ^ 24"
proof -
  have "unat nbits < 2 ^ 32" using unsigned_less [of nbits, where ?'a = nat] by simp
  then have "unat nbits div 2 ^ 24 < 256" by (simp add: div_less_iff_less_mult)
  then show ?thesis by (simp only: unat_and_ff unat_drop_bit_div mod_less)
qed

lemma compact_mantissa: "unat ((nbits :: u32) AND 0x007fffff) = unat nbits mod 2 ^ 23"
  using unat_and_mask [of nbits 23] by (simp add: mask_eq_exp_minus_1)

lemma target_loop_full:
  fixes mant :: u32
  assumes "unat mant < 2 ^ 23" and "0 \<le> bitpos"
  shows "length (foldl (set_target_bit mant bitpos) (replicate 32 0) [0..<24]) = 32"
    and "be_val (foldl (set_target_bit mant bitpos) (replicate 32 0) [0..<24]) =
           unat mant * 2 ^ nat bitpos mod 2 ^ 256"
proof -
  have "unat mant mod 2 ^ 24 = unat mant" using assms(1) by simp
  then show "length (foldl (set_target_bit mant bitpos) (replicate 32 0) [0..<24]) = 32"
    and "be_val (foldl (set_target_bit mant bitpos) (replicate 32 0) [0..<24]) =
           unat mant * 2 ^ nat bitpos mod 2 ^ 256"
    using target_loop [OF assms(2), of mant 24] by (simp_all only:)
qed

lemma compact_to_target_spec:
  "length (compact_to_target_shifted nbits shift) = 32 \<and>
   be_val (compact_to_target_shifted nbits shift) = compact_value nbits * 2 ^ shift mod 2 ^ 256"
proof (cases "odd (unat nbits div 2 ^ 23)")
  case True
  then have "compact_to_target_shifted nbits shift = replicate 32 0"
    using compact_sign [of nbits] by (simp add: compact_to_target_shifted_def)
  then show ?thesis using True by (simp add: compact_value_def)
next
  case False
  define m where "m = nbits AND 0x007fffff"
  define e where "e = unat nbits div 2 ^ 24"
  have m: "unat m = unat nbits mod 2 ^ 23" "unat m < 2 ^ 23"
    by (simp_all add: m_def compact_mantissa)
  have e: "unat (drop_bit 24 nbits AND 0xff) = e" by (simp only: compact_exponent e_def)
  have s: "\<not> nbits AND 0x00800000 \<noteq> 0" using False compact_sign [of nbits] by blast
  show ?thesis
  proof (cases "e \<le> 3")
    case True
    have d: "unat (drop_bit (8 * (3 - e)) m) = unat m div 256 ^ (3 - e)"
      by (simp only: unat_drop_bit_div pow256)
    have lt: "unat (drop_bit (8 * (3 - e)) m) < 2 ^ 23"
      unfolding d using m(2) by (rule le_less_trans [OF div_le_dividend])
    have "compact_to_target_shifted nbits shift =
        foldl (set_target_bit (drop_bit (8 * (3 - e)) m) (int shift)) (replicate 32 0) [0..<24]"
      using s True by (simp only: compact_to_target_shifted_def Let_def e m_def [symmetric]) simp
    then show ?thesis using target_loop_full [OF lt, of "int shift"] True False
      by (simp only: d m(1) compact_value_def Let_def e_def [symmetric]) simp
  next
    case big: False
    have "compact_to_target_shifted nbits shift =
        foldl (set_target_bit m (8 * (int e - 3) + int shift)) (replicate 32 0) [0..<24]"
      using s big by (simp only: compact_to_target_shifted_def Let_def e m_def [symmetric]) simp
    moreover have "nat (8 * (int e - 3) + int shift) = 8 * (e - 3) + shift" using big by simp
    moreover have "0 \<le> 8 * (int e - 3) + int shift" using big by simp
    ultimately show ?thesis using target_loop_full [OF m(2), of "8 * (int e - 3) + int shift"] big False
      by (simp only: m(1) compact_value_def Let_def e_def [symmetric] power_add pow256) (simp add: mult.assoc)
  qed
qed

lemma length_compact_to_target [simp, byte_lengths]: "length (compact_to_target_shifted nbits shift) = 32"
  by (simp add: compact_to_target_spec)


definition top64 :: "bytes \<Rightarrow> u64" where
  "top64 be = acc_bytes (take 8 be)"

lemma unat_top64: "length be = 32 \<Longrightarrow> unat (top64 be) = be_val be div 2 ^ 192"
  by (simp add: top64_def unat_acc_bytes be_val_take [of be 8 24])

lemma top64_target: "target_top64_from_bits nbits shift = top64 (compact_to_target_shifted nbits shift)"
  by (simp add: target_top64_from_bits_def top64_def)

text \<open>
  Comparing the top words decides the full comparison except when they are equal.
\<close>

lemma top64_prefilter:
  assumes "length hash = 32" and "length target = 32"
  shows "top64 hash < top64 target \<Longrightarrow> hash_meets_target hash target"
    and "hash_meets_target hash target \<Longrightarrow> top64 hash \<le> top64 target"
proof -
  have u: "unat (top64 hash) = be_val hash div 2 ^ 192" "unat (top64 target) = be_val target div 2 ^ 192"
    using assms by (simp_all only: unat_top64)
  show "top64 hash < top64 target \<Longrightarrow> hash_meets_target hash target"
    unfolding word_less_nat_alt u hash_meets_target_iff [OF assms]
    by (meson div_le_mono le_less_trans linorder_not_less nat_le_linear)
  show "hash_meets_target hash target \<Longrightarrow> top64 hash \<le> top64 target"
    unfolding word_le_nat_alt u hash_meets_target_iff [OF assms] by (rule div_le_mono)
qed

section \<open>The work item as the bitstream reads it\<close>

text \<open>
  What the bitstream hashes for one nonce (\<^verbatim>\<open>src/src/OspreyBlake2bTop.vhd\<close>): the stage-4
  message with the 64-bit nonce in slot 4 and \<open>hash_a\<close> in slots 6 to 9, either recomputed
  from the stage-3 slots (\<^verbatim>\<open>kOnChipStage3\<close>) or taken from the item.
\<close>

definition bitstream_digest :: "bool \<Rightarrow> bytes \<Rightarrow> u64 \<Rightarrow> bytes" where
  "bitstream_digest on_chip_stage3 item nonce =
     (let ss4 = take 80 (drop 80 item);
          hash_a = (if on_chip_stage3 then blake2b_nokey (take 52 item) 32 else drop 48 ss4)
      in blake2b_nokey (take 32 ss4 @ put_u64le nonce @ take 8 (drop 40 ss4) @ hash_a) 32)"

definition with_nonce :: "knots_header \<Rightarrow> u64 \<Rightarrow> knots_header" where
  "with_nonce h nonce = h\<lparr>nNonce := ucast nonce, m_nonce2 := ucast (drop_bit 32 nonce)\<rparr>"

lemma put_nonce_halves: "put_u32le (ucast n) @ put_u32le (ucast (drop_bit 32 n)) = put_u64le n"
  for n :: u64
proof -
  have a: "ucast (drop_bit k (ucast n :: u32)) = (ucast (drop_bit k n) :: u8)" if "k \<le> 24" for k
    using that by (intro bit_word_eqI) (auto simp: bit_simps)
  have b: "ucast (drop_bit k (ucast (drop_bit 32 n) :: u32)) = (ucast (drop_bit (k + 32) n) :: u8)"
    if "k \<le> 24" for k
    using that by (intro bit_word_eqI) (auto simp: bit_simps ac_simps)
  show ?thesis
    using a [of 0] a [of 8] a [of 16] a [of 24] b [of 0] b [of 8] b [of 16] b [of 24]
    by (simp add: put_u32le_def put_u64le_def upt_rec)
qed

lemma stage_inputs_with_nonce:
  assumes wf: "wf_header h" and ok: "stage_inputs h = Inr (ss3, ss4, hash_a)"
  shows "stage_inputs (with_nonce h n) = Inr (ss3, blit ss4 32 (put_u64le n), hash_a)"
proof -
  have wf': "wf_header (with_nonce h n)" using wf by (simp add: wf_header_def with_nonce_def)
  have same: "h2_hash (with_nonce h n) = h2_hash h" "prev_hidden (with_nonce h n) = prev_hidden h"
    "m_flags (with_nonce h n) = m_flags h" "m_extranonce (with_nonce h n) = m_extranonce h"
    "m_time_offset (with_nonce h n) = m_time_offset h" "m_nonce3 (with_nonce h n) = m_nonce3 h"
    by (simp_all add: h2_hash_def h1_payload_def prev_hidden_def with_nonce_def
        knots_complete_version_def knots_time_on_wire_def)
  have nn: "put_u32le (nNonce (with_nonce h n)) @ put_u32le (m_nonce2 (with_nonce h n)) = put_u64le n"
    by (simp add: with_nonce_def put_nonce_halves)
  show ?thesis
    using ok unfolding stage_inputs_eq [OF wf] stage_inputs_eq [OF wf'] same Let_def
    by (auto simp: blit_def nn [symmetric] split: if_splits)
qed

lemma build_work_item_layout:
  assumes "wf_header h" and "stage_inputs h = Inr (ss3, ss4, hash_a)"
  shows "build_work_item h t = Inr (ss3 @ replicate 28 0 @ ss4 @ put_u64le t)"
  using stage_inputs_lengths [OF assms] assms(2)
  by (simp add: build_work_item_def wire_sizes blit_def)

section \<open>The XOR mask\<close>

lemma zero_prefix: "n \<le> length xs \<Longrightarrow> foldl (\<lambda>m i. m[i := 0]) xs [0..<n] = replicate n 0 @ drop n xs"
proof (induction n)
  case (Suc n)
  then have "foldl (\<lambda>m i. m[i := 0]) xs [0..<Suc n] = (replicate n 0 @ drop n xs)[n := 0]" by simp
  also have "\<dots> = replicate n 0 @ 0 # drop (Suc n) xs"
    using Suc.prems by (simp add: list_update_append flip: Cons_nth_drop_Suc)
  finally show ?case by (simp flip: replicate_append_same)
qed simp

lemma be_val_zero_prefix: "be_val (replicate n 0 @ xs) = be_val xs"
  by (simp add: be_val_append)

lemma mod_split_block:
  fixes a b t :: nat
  assumes "t < 256 ^ k" and "r \<le> 8"
  shows "((a * 256 + b) * 256 ^ k + t) mod (2 ^ (8 - r) * 256 ^ k) = (b mod 2 ^ (8 - r)) * 256 ^ k + t"
proof -
  have "(256::nat) = 2 ^ (8 - r) * 2 ^ r" using assms(2) by (simp flip: power_add)
  then have d: "(a * 256 + b) mod 2 ^ (8 - r) = b mod 2 ^ (8 - r)"
    by (metis mod_mult_self3 mult.assoc mult.commute)
  have "((a * 256 + b) * 256 ^ k + t) mod (256 ^ k * 2 ^ (8 - r)) =
      256 ^ k * (((a * 256 + b) * 256 ^ k + t) div 256 ^ k mod 2 ^ (8 - r)) +
      ((a * 256 + b) * 256 ^ k + t) mod 256 ^ k"
    by (rule mod_mult2_eq)
  then show ?thesis using assms(1) d by (simp add: mult.commute)
qed

lemma ucast_drop_mask: "n \<le> LENGTH('a) \<Longrightarrow> ucast (drop_bit r (mask n :: 'a::len word)) = (mask (n - r) :: 'b::len word)"
  by (rule bit_word_eqI) (auto simp: bit_simps)

lemma clear_mask_value:
  assumes len: "length msk = 32" and c: "c < 256"
  shows "length (clear_mask msk c) = 32 \<and> be_val (clear_mask msk c) = be_val msk mod 2 ^ (256 - c)"
proof -
  define q where "q = c div 8"
  define r where "r = c mod 8"
  have q: "q < 32" and r: "r < 8" and cq: "c = 8 * q + r" using c by (simp_all add: q_def r_def)
  let ?A = "take q msk" and ?x = "msk ! q" and ?B = "drop (Suc q) msk"
  have dq: "drop q msk = ?x # ?B" using len q by (simp add: Cons_nth_drop_Suc)
  have lB: "length ?B = 31 - q" using len q by simp
  have "(2::nat) ^ (256 - c) = 2 ^ (8 - r) * 256 ^ (31 - q)"
    using q r by (simp add: cq pow256 flip: power_add)
  moreover have "be_val msk = (be_val ?A * 256 + unat ?x) * 256 ^ (31 - q) + be_val ?B"
  proof -
    have "be_val msk = be_val (?A @ ?x # ?B)" by (metis dq append_take_drop_id)
    also have "256 ^ (32 - q) = 256 * (256::nat) ^ (31 - q)" using q Suc_diff_le [of q 31] by simp
    ultimately show ?thesis using lB q len by (simp add: be_val_append be_val_Cons algebra_simps Suc_diff_le)
  qed
  moreover have "be_val ?B < 256 ^ (31 - q)" using be_val_less [of ?B] lB by simp
  ultimately have rhs: "be_val msk mod 2 ^ (256 - c) = (unat ?x mod 2 ^ (8 - r)) * 256 ^ (31 - q) + be_val ?B"
    using mod_split_block [of "be_val ?B" "31 - q" r] r by simp
  have z: "foldl (\<lambda>m i. m[i := 0]) msk [0..<min q 32] = replicate q 0 @ ?x # ?B"
    using zero_prefix [of q msk] len q dq by simp
  show ?thesis
  proof (cases "r = 0")
    case True
    then have "clear_mask msk c = replicate q 0 @ ?x # ?B"
      using z by (simp add: clear_mask_def Let_def q_def r_def)
    then show ?thesis using True rhs lB q by (simp add: be_val_append be_val_Cons)
  next
    case False
    have e: "ucast (drop_bit r (0xff :: u32)) = (mask (8 - r) :: u8)"
      using ucast_drop_mask [where 'a = 32 and 'b = 8 and n = 8 and r = r] by (simp add: mask_eq_exp_minus_1)
    have "clear_mask msk c = replicate q 0 @ (?x AND mask (8 - r)) # ?B"
      using z False q by (simp add: clear_mask_def Let_def q_def [symmetric] r_def [symmetric] e
          list_update_append nth_append)
    then show ?thesis using rhs lB q unat_and_mask [of ?x "8 - r"]
      by (simp add: be_val_append be_val_Cons)
  qed
qed

lemma length_pow_mask: "length (pow_mask h) = 32"
  using clear_mask_value [of "tagged_hash ''Bitcoin block hash PoW XOR mask'' (m_xor_key h)"
      "unat (m_xor_key_mask_clear_bits h)"]
  by (simp add: pow_mask_def unat_u8_less [simplified])

section \<open>Properties\<close>

text \<open>
  the target routine: for every compact value and every fork shift, the 32 bytes are the
  big-endian form of the compact value shifted left and reduced to 256 bits (zero for a
  negative one), and the prefilter word is the top 64 bits of that number.
\<close>

theorem compact_to_target_correct:
  "length (compact_to_target_shifted nbits shift) = 32 \<and>
   be_val (compact_to_target_shifted nbits shift) = compact_value nbits * 2 ^ shift mod 2 ^ 256 \<and>
   unat (target_top64_from_bits nbits shift) = (compact_value nbits * 2 ^ shift mod 2 ^ 256) div 2 ^ 192"
  by (simp add: compact_to_target_spec unat_top64 top64_target del: power_numeral)

lemma get_pow_hash_rev:
  assumes "stage_inputs h = Inr (ss3, ss4, hash_a)"
  shows "get_pow_hash h = Inr (rev (map2 (XOR) (blake2b_nokey ss4 32) (pow_mask h)))"
  using assms length_pow_mask [of h]
  by (simp add: get_pow_hash_def Let_def) (intro nth_equalityI, simp_all add: rev_nth)

lemma build_work_item_ok:
  assumes "wf_header h" and "build_work_item h t = Inr item"
  obtains ss3 ss4 hash_a where "stage_inputs h = Inr (ss3, ss4, hash_a)"
    and "item = ss3 @ replicate 28 0 @ ss4 @ put_u64le t"
    and "length ss3 = 52" and "length ss4 = 80" and "hash_a = blake2b_nokey ss3 32" and "drop 48 ss4 = hash_a"
proof (cases "stage_inputs h")
  case (Inl rc)
  then show thesis using assms(2) by (simp add: build_work_item_def)
next
  case (Inr x)
  obtain ss3 ss4 hash_a where x: "x = (ss3, ss4, hash_a)" by (cases x)
  have st: "stage_inputs h = Inr (ss3, ss4, hash_a)" using Inr x by simp
  from stage_inputs_lengths [OF assms(1) st] build_work_item_layout [OF assms(1) st, of t] assms(2)
  show thesis by (intro that [OF st]) (simp_all add: wire_sizes)
qed

lemma bitstream_digest_item:
  assumes wf: "wf_header h" and ok: "build_work_item h t = Inr item"
  shows "\<exists>ss3 ss4 hash_a. stage_inputs (with_nonce h n) = Inr (ss3, ss4, hash_a) \<and>
           bitstream_digest on_chip item n = blake2b_nokey ss4 32"
proof -
  obtain ss3 ss4 hash_a where st: "stage_inputs h = Inr (ss3, ss4, hash_a)"
    and item: "item = ss3 @ replicate 28 0 @ ss4 @ put_u64le t"
    and len: "length ss3 = 52" "length ss4 = 80"
    and a: "hash_a = blake2b_nokey ss3 32" "drop 48 ss4 = hash_a"
    using build_work_item_ok [OF wf ok] .
  have "drop 40 ss4 = take 8 (drop 40 ss4) @ drop 48 ss4"
    using append_take_drop_id [of 8 "drop 40 ss4"] by simp
  then have "bitstream_digest on_chip item n = blake2b_nokey (blit ss4 32 (put_u64le n)) 32"
    using len a by (simp add: bitstream_digest_def item blit_def)
  then show ?thesis using stage_inputs_with_nonce [OF wf st] by blast
qed

text \<open>
  the work item carries the whole search.  For a well-formed header whose item was built,
  the digest the bitstream computes for any 64-bit nonce, whether it recomputes stage 3 or
  takes \<open>hash_a\<close> from the item, is the stage-4 digest of the header with that nonce in
  \<open>nNonce\<close> and \<open>m_nonce2\<close>: the software proof-of-work hash is that digest XOR the mask,
  byte-reversed.
\<close>

theorem pow_hash_of_work_item:
  assumes "wf_header h" and "build_work_item h t = Inr item"
  shows "get_pow_hash (with_nonce h n) =
           Inr (rev (map2 (XOR) (bitstream_digest on_chip item n) (pow_mask h)))"
proof -
  have "pow_mask (with_nonce h n) = pow_mask h" by (simp add: pow_mask_def with_nonce_def)
  then show ?thesis using bitstream_digest_item [OF assms] get_pow_hash_rev by metis
qed

lemma build_work_item_total:
  assumes "wf_header h"
  shows "if m_flags h AND 3 = 0 then \<exists>item. build_work_item h t = Inr item \<and> length item = WORK_ITEM_LEN
         else build_work_item h t = Inl (-1)"
proof (cases "m_flags h AND 3 = 0")
  case True
  then obtain ss3 ss4 a where st: "stage_inputs h = Inr (ss3, ss4, a)"
    by (simp add: stage_inputs_eq [OF assms] Let_def)
  show ?thesis
    using True build_work_item_layout [OF assms st, of t] stage_inputs_lengths [OF assms st]
    by (simp add: wire_sizes)
next
  case False
  then show ?thesis by (simp add: build_work_item_def stage_inputs_def)
qed

lemma build_work_item_init: "\<exists>item. build_work_item knots_header_init t = Inr item"
proof -
  have "m_flags knots_header_init AND 3 = 0" by (simp add: knots_header_init_def)
  then show ?thesis using build_work_item_total [OF wf_header_init, of t] by auto
qed

theorem pow_hash_of_work_item_witness:
  "\<exists>item. wf_header knots_header_init \<and> build_work_item knots_header_init 5 = Inr item \<and>
     get_pow_hash (with_nonce knots_header_init 7) =
       Inr (rev (map2 (XOR) (bitstream_digest True item 7) (pow_mask knots_header_init)))"
proof -
  obtain item where "build_work_item knots_header_init 5 = Inr item" using build_work_item_init by blast
  with pow_hash_of_work_item [OF wf_header_init this, of 7 True] wf_header_init show ?thesis by blast
qed

lemma map2_xor_zero: "length xs = n \<Longrightarrow> map2 (XOR) xs (replicate n 0) = (xs :: bytes)"
  by (intro nth_equalityI) simp_all

text \<open>
  C6: the 64-bit prefilter.  With no XOR key (the case of every template the miner builds), the
  word the bitstream compares is the top of the reversed digest; when it is below the target's
  top word the nonce is a real solution of the full 256-bit test, and every real solution has
  a word at most the target's.  Only a word equal to the target's top word is undecided.
\<close>

theorem prefilter_correct:
  assumes "wf_header h" and "build_work_item h (target_top64_from_bits nbits shift) = Inr item"
    and "m_xor_key h = replicate 16 0"
  shows "\<exists>pow. get_pow_hash (with_nonce h n) = Inr pow \<and>
     (top64 (rev (bitstream_digest on_chip item n)) < target_top64_from_bits nbits shift \<longrightarrow>
        hash_meets_target pow (compact_to_target_shifted nbits shift)) \<and>
     (hash_meets_target pow (compact_to_target_shifted nbits shift) \<longrightarrow>
        top64 (rev (bitstream_digest on_chip item n)) \<le> target_top64_from_bits nbits shift)"
proof -
  have len: "length (bitstream_digest on_chip item n) = 32" by (simp add: bitstream_digest_def Let_def)
  have "pow_mask (with_nonce h n) = replicate 32 0"
    using assms(3) by (simp add: pow_mask_def with_nonce_def list_all_iff)
  then have pow: "get_pow_hash (with_nonce h n) = Inr (rev (bitstream_digest on_chip item n))"
    using bitstream_digest_item [OF assms(1,2), of n on_chip] get_pow_hash_rev len
    by (metis map2_xor_zero)
  show ?thesis
    using pow top64_prefilter [of "rev (bitstream_digest on_chip item n)" "compact_to_target_shifted nbits shift"] len
    by (simp add: top64_target)
qed

theorem prefilter_correct_witness:
  "\<exists>item pow. build_work_item knots_header_init (target_top64_from_bits 0x1903c2d4 22) = Inr item \<and>
     get_pow_hash (with_nonce knots_header_init 7) = Inr pow \<and>
     (top64 (rev (bitstream_digest False item 7)) < target_top64_from_bits 0x1903c2d4 22 \<longrightarrow>
        hash_meets_target pow (compact_to_target_shifted 0x1903c2d4 22)) \<and>
     (hash_meets_target pow (compact_to_target_shifted 0x1903c2d4 22) \<longrightarrow>
        top64 (rev (bitstream_digest False item 7)) \<le> target_top64_from_bits 0x1903c2d4 22)"
proof -
  have k: "m_xor_key knots_header_init = replicate 16 0" by (simp add: knots_header_init_def)
  obtain item where b: "build_work_item knots_header_init (target_top64_from_bits 0x1903c2d4 22) = Inr item"
    using build_work_item_init by blast
  from prefilter_correct [OF wf_header_init b k, of 7 False] b show ?thesis by blast
qed

text \<open>
  the stage-5 mask.  Clearing \<open>c\<close> bits keeps exactly the low \<open>256 - c\<close> bits of the mask read
  big-endian, for every clear count an 8-bit field can hold.
\<close>

theorem clear_mask_correct:
  assumes "length msk = 32"
  shows "length (clear_mask msk (unat (c :: u8))) = 32 \<and>
         be_val (clear_mask msk (unat c)) = be_val msk mod 2 ^ (256 - unat c)"
  using clear_mask_value [OF assms unat_u8_less] .

theorem clear_mask_correct_witness:
  "be_val (clear_mask (replicate 32 0xff) (unat (13 :: u8))) = be_val (replicate 32 0xff) mod 2 ^ (256 - unat (13 :: u8))"
  using clear_mask_correct [of "replicate 32 0xff" 13] by simp

text \<open>
  result frames.  Whatever nonce and hash word the bitstream reports, the host reads back
  exactly those values from the 17 bytes, and reports success only for the flag byte 1.
\<close>

theorem parse_result_roundtrip:
  "parse_result (flag # put_u64le n @ put_u64le w) =
     (if flag = 1 then 0 else -1, \<lparr>r_success = (flag = 1), r_nonce = n, r_hash_top64 = w\<rparr>)"
proof -
  have "drop 8 (put_u64le n @ put_u64le w) = put_u64le w @ []" by simp
  then show ?thesis
    using get_le64_put [of n "put_u64le w"] get_le64_put [of w "[]"]
    by (simp add: parse_result_def eval_nat_numeral)
qed

end
