(* ===== verification/Sia_Stratum.thy ===== *)
theory Sia_Stratum
  imports Work_Item
begin

text \<open>
  Pool jobs to stage messages (\<^verbatim>\<open>src/miner/sia_stratum.c\<close>).  \<open>coinb1\<close> and \<open>coinb2\<close> are the first
  \<^verbatim>\<open>coinb1_len\<close> and \<^verbatim>\<open>coinb2_len\<close> bytes of the C arrays, \<open>branches\<close> the first \<^verbatim>\<open>nbranches\<close> rows.
\<close>

unbundle bit_operations_syntax

definition STRATUM_MAX_BRANCHES :: nat where "STRATUM_MAX_BRANCHES = 32"
definition STRATUM_MAX_CB :: nat where "STRATUM_MAX_CB = 512"
definition STRATUM_MAX_EN1 :: nat where "STRATUM_MAX_EN1 = 32"
definition STRATUM_MAX_EN2 :: nat where "STRATUM_MAX_EN2 = 32"

lemmas stratum_sizes = STRATUM_MAX_BRANCHES_def STRATUM_MAX_CB_def STRATUM_MAX_EN1_def STRATUM_MAX_EN2_def

record stratum_job =
  job_id :: string
  prevhash :: bytes
  coinb1 :: bytes
  coinb2 :: bytes
  branches :: "bytes list"
  ntime :: bytes
  nbits :: u32
  clean :: bool
  seq :: u64

definition wf_job :: "stratum_job \<Rightarrow> bool" where
  "wf_job j \<longleftrightarrow> length (prevhash j) = 32 \<and> length (ntime j) = 8 \<and>
     length (coinb1 j) \<le> STRATUM_MAX_CB \<and> length (coinb2 j) \<le> STRATUM_MAX_CB \<and>
     length (branches j) \<le> STRATUM_MAX_BRANCHES \<and> list_all (\<lambda>b. length b = 32) (branches j) \<and>
     length (job_id j) < 64"

definition sia_arbtx :: "stratum_job \<Rightarrow> bytes \<Rightarrow> bytes \<Rightarrow> nat \<Rightarrow> bytes option" where
  "sia_arbtx j en1 en2 maxlen =
     (let need = length (coinb1 j) + length en1 + length en2 + length (coinb2 j)
      in if need > maxlen then None else Some (coinb1 j @ en1 @ en2 @ coinb2 j))"

definition sia_arbtx_leaf :: "bytes \<Rightarrow> bytes" where
  "sia_arbtx_leaf arbtx =
     (let len = (if length arbtx > 4 * STRATUM_MAX_CB then 4 * STRATUM_MAX_CB else length arbtx)
      in blake2b_nokey (0x00 # take len arbtx) 32)"

definition sia_merkle_root :: "stratum_job \<Rightarrow> bytes \<Rightarrow> bytes" where
  "sia_merkle_root j leaf = foldl (\<lambda>acc b. blake2b_nokey (0x01 # b @ acc) 32) leaf (branches j)"

definition sia_header :: "stratum_job \<Rightarrow> bytes \<Rightarrow> bytes" where
  "sia_header j root =
     (let h = replicate STAGE4_LEN 0;
          h = blit h 0 (prevhash j);
          h = blit h 40 (ntime j)
      in blit h 48 root)"

definition sia_build_stages :: "stratum_job \<Rightarrow> bytes \<Rightarrow> bytes \<Rightarrow> (bytes \<times> bytes \<times> bytes) option" where
  "sia_build_stages j en1 en2 =
     (case sia_arbtx j en1 en2 (4 * STRATUM_MAX_CB) of
        None \<Rightarrow> None
      | Some arbtx \<Rightarrow>
          if length arbtx + 1 \<noteq> STAGE3_LEN then None
          else let ss3 = 0x00 # arbtx;
                   leaf = sia_arbtx_leaf arbtx;
                   root = sia_merkle_root j leaf
               in Some (ss3, sia_header j root, root))"

definition put_nonce :: "bytes \<Rightarrow> u64 \<Rightarrow> bytes" where
  "put_nonce ss4 nonce = foldl (\<lambda>m i. m[32 + i := ucast (drop_bit (8 * i) nonce AND 0xff)]) ss4 [0..<8]"

definition sia_expected_top64 :: "bytes \<Rightarrow> u64 \<Rightarrow> u64" where
  "sia_expected_top64 ss4 nonce =
     (let hb = blake2b_nokey (put_nonce ss4 nonce) 32 in acc_bytes (map (\<lambda>i. hb ! i) [24..<32]))"

definition sia_pow_compare :: "bytes \<Rightarrow> u64 \<Rightarrow> bytes" where
  "sia_pow_compare ss4 nonce =
     (let hb = blake2b_nokey (put_nonce ss4 nonce) 32 in map (\<lambda>i. hb ! (31 - i)) [0..<32])"

definition sia_build_header :: "stratum_job \<Rightarrow> bytes \<Rightarrow> bytes \<Rightarrow> (bytes \<times> bytes) option" where
  "sia_build_header j en1 en2 =
     (case sia_arbtx j en1 en2 (4 * STRATUM_MAX_CB) of
        None \<Rightarrow> None
      | Some arbtx \<Rightarrow>
          let leaf = sia_arbtx_leaf arbtx;
              root = sia_merkle_root j leaf
          in Some (sia_header j root, root))"

definition sia_chain_expected_top64 :: "bytes \<Rightarrow> u64 \<Rightarrow> u64" where
  "sia_chain_expected_top64 header nonce =
     (let hb = blake2b_nokey (put_nonce header nonce) 32 in acc_bytes (map (\<lambda>i. hb ! i) [0..<8]))"

definition sia_chain_pow_compare :: "bytes \<Rightarrow> u64 \<Rightarrow> bytes" where
  "sia_chain_pow_compare header nonce = blake2b_nokey (put_nonce header nonce) 32"

section \<open>Shapes\<close>

lemma foldl_update_blit:
  "off + n \<le> length xs \<Longrightarrow> foldl (\<lambda>m i. m[off + i := f i]) xs [0..<n] = blit xs off (map f [0..<n])"
proof (induction n)
  case 0
  then show ?case by (simp add: blit_def)
next
  case (Suc n)
  have "drop (off + n) xs = xs ! (off + n) # drop (Suc (off + n)) xs"
    using Suc.prems by (simp add: Cons_nth_drop_Suc)
  then show ?case using Suc by (simp add: blit_def list_update_append)
qed

lemma put_nonce_eq: "length ss4 = 80 \<Longrightarrow> put_nonce ss4 n = blit ss4 32 (put_u64le n)"
proof -
  assume "length ss4 = 80"
  moreover have "ucast (w AND 0xff) = (ucast w :: u8)" for w :: u64
  proof -
    have m: "(0xff :: u64) = mask 8" by (simp add: mask_eq_exp_minus_1)
    have "ucast (w AND mask 8) = (ucast w :: u8)" by (rule bit_word_eqI) (auto simp: bit_simps)
    then show ?thesis by (simp only: m)
  qed
  ultimately show ?thesis
    using foldl_update_blit [of 32 8 ss4 "\<lambda>i. ucast (drop_bit (8 * i) n AND 0xff)"]
    by (simp add: put_nonce_def put_u64le_def)
qed

lemma length_sia_merkle_root: "length leaf = 32 \<Longrightarrow> length (sia_merkle_root j leaf) = 32"
proof -
  assume "length leaf = 32"
  then have "length (foldl (\<lambda>acc b. blake2b_nokey (0x01 # b @ acc) 32) leaf bs) = 32" for bs
    by (induction bs rule: rev_induct) simp_all
  then show ?thesis by (simp add: sia_merkle_root_def)
qed

lemma length_sia_arbtx_leaf [simp]: "length (sia_arbtx_leaf a) = 32"
  by (simp add: sia_arbtx_leaf_def Let_def)

lemma sia_header_eq:
  "length (prevhash j) = 32 \<Longrightarrow> length (ntime j) = 8 \<Longrightarrow> length root = 32 \<Longrightarrow>
     sia_header j root = prevhash j @ replicate 8 0 @ ntime j @ root"
  by (simp add: sia_header_def blit_def wire_sizes Let_def)

lemma length_put_nonce [simp]: "length (put_nonce ss4 n) = length ss4"
proof -
  have "length (foldl (\<lambda>m i. m[32 + i := f i]) ss4 xs) = length ss4" for f :: "nat \<Rightarrow> u8" and xs
    by (induction xs rule: rev_induct) simp_all
  then show ?thesis by (simp add: put_nonce_def)
qed

lemma build_stages_some:
  assumes "sia_build_stages j en1 en2 = Some (ss3, ss4, root)" and "wf_job j"
  shows "ss3 = 0 # coinb1 j @ en1 @ en2 @ coinb2 j" and "length ss3 = 52"
    and "root = sia_merkle_root j (blake2b_nokey ss3 32)" and "length root = 32"
    and "ss4 = prevhash j @ replicate 8 0 @ ntime j @ root" and "length ss4 = 80"
proof -
  let ?a = "coinb1 j @ en1 @ en2 @ coinb2 j"
  have len: "length ?a = 51" and ss3: "ss3 = 0 # ?a" and root: "root = sia_merkle_root j (sia_arbtx_leaf ?a)"
    and ss4: "ss4 = sia_header j root"
    using assms(1) by (auto simp: sia_build_stages_def sia_arbtx_def Let_def wire_sizes split: if_splits)
  show "ss3 = 0 # ?a" "length ss3 = 52" using ss3 len by simp_all
  have "sia_arbtx_leaf ?a = blake2b_nokey ss3 32" using len by (simp add: sia_arbtx_leaf_def ss3 stratum_sizes Let_def)
  then show "root = sia_merkle_root j (blake2b_nokey ss3 32)" using root by simp
  show lr: "length root = 32" using root length_sia_merkle_root by simp
  show s4: "ss4 = prevhash j @ replicate 8 0 @ ntime j @ root"
    using assms(2) lr by (simp add: ss4 sia_header_eq wf_job_def)
  show "length ss4 = 80" using assms(2) lr by (simp add: s4 wf_job_def)
qed

lemma sia_pow_compare_rev: "sia_pow_compare ss4 n = rev (blake2b_nokey (put_nonce ss4 n) 32)"
  by (intro nth_equalityI) (simp_all add: sia_pow_compare_def Let_def rev_nth)

section \<open>Words\<close>

definition byteswap64 :: "u64 \<Rightarrow> u64" where
  "byteswap64 w = acc_bytes (put_u64le w)"

lemma acc_bytes_rev:
  assumes "length bs = 8"
  shows "acc_bytes bs = byteswap64 (acc_bytes (rev bs))"
proof -
  have "unat (acc_bytes (rev bs)) = le_val bs" using assms by (simp add: unat_acc_bytes be_val_def)
  then have "acc_bytes (rev bs) = of_nat (le_val bs)" by (metis of_nat_unat ucast_id)
  then have "put_u64le (acc_bytes (rev bs)) = bs"
    using le_bytes_le_val [of bs 8, where 'a = 64] assms by (simp add: put_u64le_eq)
  then show ?thesis by (simp add: byteswap64_def)
qed

lemma map_nth_slice: "b \<le> length xs \<Longrightarrow> map (\<lambda>i. xs ! i) [a..<b] = take (b - a) (drop a xs)"
  by (intro nth_equalityI) simp_all

lemma sia_expected_swap: "sia_expected_top64 ss4 n = byteswap64 (top64 (sia_pow_compare ss4 n))"
proof -
  let ?hb = "blake2b_nokey (put_nonce ss4 n) 32"
  have "sia_expected_top64 ss4 n = acc_bytes (drop 24 ?hb)"
    unfolding sia_expected_top64_def Let_def by (subst map_nth_slice) simp_all
  also have "\<dots> = byteswap64 (acc_bytes (rev (drop 24 ?hb)))" by (rule acc_bytes_rev) simp
  also have "rev (drop 24 ?hb) = take 8 (rev ?hb)" by (simp add: rev_drop)
  finally show ?thesis by (simp add: top64_def sia_pow_compare_rev)
qed

lemma sia_chain_expected_eq: "sia_chain_expected_top64 h n = top64 (sia_chain_pow_compare h n)"
  by (simp add: sia_chain_expected_top64_def sia_chain_pow_compare_def top64_def Let_def map_nth_slice)

section \<open>Properties\<close>

text \<open>
  C18: the Sia job is the Knots header.  Take any well-formed mode-0 header without XOR key, and any
  way of splitting its stage-3 bytes over \<open>coinb1\<close>, the two extranonces and \<open>coinb2\<close>, with the
  masked previous block as prevhash and the time words as ntime: the stages built from that pool
  job are the stages of the header with a zero nonce, and for every nonce the pool-mode compare
  value is the header's proof-of-work hash.
\<close>

theorem sia_job_is_header:
  assumes wf: "wf_header h" and mode: "m_flags h AND 3 = 0" and key: "m_xor_key h = replicate 16 0"
    and cb: "coinb1 j @ en1 @ en2 @ coinb2 j = [0, 0, 0] @ h2_hash h @ m_extranonce h"
    and prev: "prevhash j = prev_hidden h"
    and time: "ntime j = put_u32le (m_time_offset h) @ put_u32le (m_nonce3 h)" and br: "branches j = []"
  shows "\<exists>ss3 ss4 root. sia_build_stages j en1 en2 = Some (ss3, ss4, root) \<and>
           stage_inputs (with_nonce h 0) = Inr (ss3, ss4, root) \<and>
           get_pow_hash (with_nonce h n) = Inr (sia_pow_compare ss4 n)"
proof -
  have len: "length (coinb1 j @ en1 @ en2 @ coinb2 j) = 51" using wf by (simp add: cb wf_header_def)
  let ?ss3 = "0 # coinb1 j @ en1 @ en2 @ coinb2 j"
  define root where "root = blake2b_nokey ?ss3 32"
  let ?ss4 = "prevhash j @ replicate 8 0 @ ntime j @ root"
  have "sia_arbtx_leaf (coinb1 j @ en1 @ en2 @ coinb2 j) = root"
    using len by (simp add: sia_arbtx_leaf_def root_def stratum_sizes Let_def)
  then have st: "sia_build_stages j en1 en2 = Some (?ss3, ?ss4, root)"
    using len by (simp add: sia_build_stages_def sia_arbtx_def sia_merkle_root_def br sia_header_eq prev time
        root_def wire_sizes stratum_sizes Let_def)
  have h3: "?ss3 = put_u32le 0 @ h2_hash h @ m_extranonce h" by (simp add: cb put_u32le_def)
  have z: "put_u64le 0 = replicate 8 0" by (simp add: put_u64le_def map_replicate_const)
  obtain ss3 ss4 a where s0: "stage_inputs h = Inr (ss3, ss4, a)"
    using mode by (simp add: stage_inputs_eq [OF wf] Let_def)
  have l4: "length ss4 = 80" using stage_inputs_lengths [OF wf s0] by (simp add: wire_sizes)
  have eq: "ss3 = ?ss3" "a = root" "blit ss4 32 (put_u64le m) = prevhash j @ put_u64le m @ ntime j @ root" for m
    using s0 mode unfolding stage_inputs_eq [OF wf] Let_def
    by (auto simp: h3 root_def prev time blit_def)
  have h0: "stage_inputs (with_nonce h m) = Inr (?ss3, prevhash j @ put_u64le m @ ntime j @ root, root)" for m
    using stage_inputs_with_nonce [OF wf s0] eq by simp
  have mk: "pow_mask (with_nonce h n) = replicate 32 0" using key by (simp add: pow_mask_def with_nonce_def list_all_iff)
  have "put_nonce ?ss4 n = prevhash j @ put_u64le n @ ntime j @ root"
    by (simp add: put_nonce_eq prev time root_def blit_def)
  then have "get_pow_hash (with_nonce h n) = Inr (sia_pow_compare ?ss4 n)"
    using get_pow_hash_rev [OF h0 [of n]] mk by (simp add: sia_pow_compare_rev map2_xor_zero)
  then show ?thesis using st h0 [of 0] by (auto simp: z)
qed

theorem sia_job_is_header_witness:
  "\<exists>ss3 ss4 root.
     sia_build_stages \<lparr>job_id = ''1'', prevhash = prev_hidden knots_header_init,
        coinb1 = [0, 0, 0] @ h2_hash knots_header_init @ replicate 4 0, coinb2 = [], branches = [],
        ntime = replicate 8 0, nbits = 0, clean = True, seq = 1\<rparr> (replicate 4 0) (replicate 8 0) = Some (ss3, ss4, root) \<and>
     stage_inputs (with_nonce knots_header_init 0) = Inr (ss3, ss4, root) \<and>
     get_pow_hash (with_nonce knots_header_init 7) = Inr (sia_pow_compare ss4 7)"
  by (rule sia_job_is_header [OF wf_header_init])
     (simp_all add: knots_header_init_def put_u32le_def numeral_eq_Suc)

text \<open>
  the two conventions.  In Knots mode the word the bitstream reports is the byte-swapped top
  word of the compare value (so it certifies the frame but is not what is compared with the
  target); in Siacoin mode it is that top word itself.
\<close>

theorem reported_words:
  "sia_expected_top64 ss4 n = byteswap64 (top64 (sia_pow_compare ss4 n)) \<and>
   sia_chain_expected_top64 hdr n = top64 (sia_chain_pow_compare hdr n)"
  by (simp add: sia_expected_swap sia_chain_expected_eq)

text \<open>
  a Knots job is accepted exactly when the arbitrary transaction is 51 bytes; nothing is
  truncated.  A Siacoin job is accepted whenever its parts respect their protocol limits.
\<close>

theorem sia_acceptance:
  assumes "wf_job j" and "length en1 \<le> STRATUM_MAX_EN1" and "length en2 \<le> STRATUM_MAX_EN2"
  shows "(sia_build_stages j en1 en2 \<noteq> None \<longleftrightarrow>
            length (coinb1 j) + length en1 + length en2 + length (coinb2 j) = 51) \<and>
         sia_build_header j en1 en2 \<noteq> None"
  using assms by (auto simp: sia_build_stages_def sia_build_header_def sia_arbtx_def Let_def wire_sizes
      stratum_sizes wf_job_def)

theorem sia_acceptance_witness:
  "sia_build_stages \<lparr>job_id = ''1'', prevhash = replicate 32 0, coinb1 = replicate 39 1, coinb2 = [], branches = [],
        ntime = replicate 8 0, nbits = 0, clean = True, seq = 1\<rparr> (replicate 4 0) (replicate 8 0) \<noteq> None"
  using sia_acceptance [of "\<lparr>job_id = ''1'', prevhash = replicate 32 0, coinb1 = replicate 39 1, coinb2 = [],
      branches = [], ntime = replicate 8 0, nbits = 0, clean = True, seq = 1\<rparr>" "replicate 4 0" "replicate 8 0"]
  by (simp add: wf_job_def stratum_sizes)

end
