(* ===== verification/Worksrc.thy ===== *)
theory Worksrc
  imports Sia_Stratum
begin

text \<open>
  The work-source seam (\<^verbatim>\<open>src/miner/worksrc.c\<close>, \<^verbatim>\<open>worksrc.h\<close>): the context a source fills, the packing
  of a context into the wire item of the loaded bitstream, and the registry of sources.  The
  function pointers of a source are the constructors of \<open>backend\<close>; their behaviour is modelled
  where the functions are.  The registry is the list of the first \<^verbatim>\<open>g_count\<close> pointers; a null
  source or a null name is \<open>None\<close>.
\<close>

unbundle bit_operations_syntax

record work_ctx =
  ss3 :: bytes
  ss4 :: bytes
  target_top64 :: u64
  ctx_valid :: bool

definition wf_ctx :: "work_ctx \<Rightarrow> bool" where
  "wf_ctx c \<longleftrightarrow> length (ss3 c) = STAGE3_LEN \<and> length (ss4 c) = STAGE4_LEN"

datatype cand = CAND_BAD | CAND_OK | CAND_SOLUTION

datatype backend = Gbt | Synthetic | Stratum_source

record worksrc =
  src_name :: "string option"
  src_backend :: backend
  has_poll :: bool
  refresh_s :: nat
  item_len :: nat

definition put_target_le :: "u64 \<Rightarrow> bytes" where
  "put_target_le v = map (\<lambda>i. ucast (drop_bit (8 * i) v AND 0xff)) [0..<8]"

definition worksrc_pack_item :: "work_ctx \<Rightarrow> nat \<Rightarrow> nat \<times> bytes" where
  "worksrc_pack_item ctx len =
     (let out = replicate WORK_ITEM_LEN 0 in
      if len = WORK_ITEM_LEN then
        let out = blit out 0 (ss3 ctx);
            out = blit out (SLOTS * 8) (ss4 ctx);
            out = blit out (2 * SLOTS * 8) (put_target_le (target_top64 ctx))
        in (WORK_ITEM_LEN, out)
      else if len = STAGE4_LEN + 8 then
        let out = blit out 0 (ss4 ctx);
            out = blit out STAGE4_LEN (put_target_le (target_top64 ctx))
        in (STAGE4_LEN + 8, out)
      else (0, out))"

section \<open>The registry\<close>

definition MAX_SOURCES :: nat where "MAX_SOURCES = 4"

fun replace_named :: "worksrc \<Rightarrow> worksrc list \<Rightarrow> worksrc list option" where
  "replace_named s [] = None"
| "replace_named s (x # xs) =
     (if src_name x = src_name s then Some (s # xs) else map_option (\<lambda>ys. x # ys) (replace_named s xs))"

definition worksrc_register :: "worksrc option \<Rightarrow> worksrc list \<Rightarrow> worksrc list" where
  "worksrc_register src g_sources =
     (case src of
        None \<Rightarrow> g_sources
      | Some s \<Rightarrow>
          if src_name s = None \<or> length g_sources \<ge> MAX_SOURCES then g_sources
          else (case replace_named s g_sources of
                  Some g \<Rightarrow> g
                | None \<Rightarrow> g_sources @ [s]))"

definition worksrc_find :: "string option \<Rightarrow> worksrc list \<Rightarrow> worksrc option" where
  "worksrc_find name g_sources =
     (case name of None \<Rightarrow> None | Some n \<Rightarrow> find (\<lambda>s. src_name s = Some n) g_sources)"

fun list_loop :: "worksrc list \<Rightarrow> string \<Rightarrow> string" where
  "list_loop [] buf = buf"
| "list_loop (s # ss) buf =
     (let txt = (if length buf \<noteq> 0 then '' | '' else []) @ (case src_name s of Some n \<Rightarrow> n | None \<Rightarrow> [])
      in if length txt \<ge> 128 - length buf then buf @ take (127 - length buf) txt
         else list_loop ss (buf @ txt))"

definition worksrc_list :: "worksrc list \<Rightarrow> string" where
  "worksrc_list g_sources = list_loop g_sources []"

section \<open>The contract of a named table\<close>

locale named_table =
  fixes find_by :: "'n \<Rightarrow> 't \<Rightarrow> 's option"
    and insert_at :: "'s \<Rightarrow> 't \<Rightarrow> 't"
    and name_of :: "'s \<Rightarrow> 'n"
    and room :: "'t \<Rightarrow> bool"
    and inv :: "'t \<Rightarrow> bool"
    and named :: "'s \<Rightarrow> bool"
  assumes find_insert: "inv t \<Longrightarrow> room t \<Longrightarrow> named s \<Longrightarrow>
      find_by n (insert_at s t) = (if n = name_of s then Some s else find_by n t)"
    and insert_full: "\<not> room t \<Longrightarrow> insert_at s t = t"
    and insert_inv: "inv t \<Longrightarrow> inv (insert_at s t)"
begin

lemma inv_fold: "inv t \<Longrightarrow> inv (fold insert_at ss t)"
  by (induction ss arbitrary: t) (simp_all add: insert_inv)

lemma insert_order:
  assumes "inv t" "room t" "named s" "named s'" "room (insert_at s t)" "room (insert_at s' t)" "name_of s \<noteq> name_of s'"
  shows "find_by n (insert_at s (insert_at s' t)) = find_by n (insert_at s' (insert_at s t))"
  using assms by (simp add: find_insert insert_inv)

end

definition reg_inv :: "worksrc list \<Rightarrow> bool" where
  "reg_inv t \<longleftrightarrow> length t \<le> MAX_SOURCES \<and> distinct (map src_name t) \<and> None \<notin> set (map src_name t)"

lemma replace_named_None: "replace_named s xs = None \<longleftrightarrow> src_name s \<notin> set (map src_name xs)"
  by (induction xs) auto

lemma replace_named_names: "replace_named s xs = Some ys \<Longrightarrow> map src_name ys = map src_name xs"
  by (induction xs arbitrary: ys) (auto split: if_splits)

lemma replace_named_find:
  "replace_named s xs = Some ys \<Longrightarrow> distinct (map src_name xs) \<Longrightarrow>
     find (\<lambda>x. src_name x = Some n) ys =
       (if src_name s = Some n then Some s else find (\<lambda>x. src_name x = Some n) xs)"
  by (induction xs arbitrary: ys) (auto split: if_splits)

lemma find_append: "find P (xs @ ys) = (case find P xs of None \<Rightarrow> find P ys | Some x \<Rightarrow> Some x)"
  by (induction xs) auto

lemma find_name_None: "find (\<lambda>x. src_name x = n) xs = None \<longleftrightarrow> n \<notin> set (map src_name xs)"
  by (auto simp: find_None_iff)

lemma register_find:
  assumes "reg_inv t" "length t < MAX_SOURCES" "src_name s = Some m"
  shows "worksrc_find (Some n) (worksrc_register (Some s) t) = (if n = m then Some s else worksrc_find (Some n) t)"
proof (cases "replace_named s t")
  case None
  then have "Some m \<notin> set (map src_name t)" using assms(3) by (metis replace_named_None)
  then have "find (\<lambda>x. src_name x = Some m) t = None" by (simp only: find_name_None) simp
  then show ?thesis using None assms
    by (auto simp: worksrc_find_def worksrc_register_def find_append split: option.split)
next
  case (Some ys)
  then show ?thesis using assms replace_named_find [OF Some, of n]
    by (auto simp: worksrc_find_def worksrc_register_def reg_inv_def)
qed

lemma register_inv:
  assumes t: "reg_inv t"
  shows "reg_inv (worksrc_register s t)"
proof (cases "s = None \<or> src_name (the s) = None \<or> length t \<ge> MAX_SOURCES")
  case True
  then show ?thesis using t by (cases s) (auto simp: worksrc_register_def)
next
  case False
  then obtain x where x: "s = Some x" "src_name x \<noteq> None" "length t < MAX_SOURCES" by auto
  show ?thesis
  proof (cases "replace_named x t")
    case None
    then have "src_name x \<notin> set (map src_name t)" by (simp only: replace_named_None) simp
    then have "reg_inv (t @ [x])" using t x by (auto simp: reg_inv_def)
    then show ?thesis using None x by (auto simp: worksrc_register_def)
  next
    case (Some y)
    have "map src_name y = map src_name t" by (rule replace_named_names [OF Some])
    moreover from this have "length y = length t" by (rule map_eq_imp_length_eq)
    ultimately have "reg_inv y" using t unfolding reg_inv_def by simp
    then show ?thesis using Some x by (auto simp: worksrc_register_def)
  qed
qed

interpretation registry: named_table worksrc_find "\<lambda>s. worksrc_register (Some s)" src_name
    "\<lambda>t. length t < MAX_SOURCES" reg_inv "\<lambda>s. src_name s \<noteq> None"
proof
  fix t :: "worksrc list" and s :: worksrc and n
  show "reg_inv t \<Longrightarrow> length t < MAX_SOURCES \<Longrightarrow> src_name s \<noteq> None \<Longrightarrow>
      worksrc_find n (worksrc_register (Some s) t) = (if n = src_name s then Some s else worksrc_find n t)"
    using register_find [of t s] by (cases n) (auto simp: worksrc_find_def)
  show "\<not> length t < MAX_SOURCES \<Longrightarrow> worksrc_register (Some s) t = t"
    by (simp add: worksrc_register_def)
  show "reg_inv t \<Longrightarrow> reg_inv (worksrc_register (Some s) t)" by (rule register_inv)
qed

section \<open>Packing\<close>

lemma put_target_le_eq: "put_target_le v = put_u64le v"
proof -
  have m: "(0xff :: u64) = mask 8" by (simp add: mask_eq_exp_minus_1)
  have "ucast (w AND mask 8) = (ucast w :: u8)" for w :: u64 by (rule bit_word_eqI) (auto simp: bit_simps)
  then show ?thesis by (simp only: put_target_le_def put_u64le_def m)
qed

lemma pack_168:
  assumes "wf_ctx c"
  shows "worksrc_pack_item c 168 = (168, ss3 c @ replicate 28 0 @ ss4 c @ put_u64le (target_top64 c))"
  using assms by (simp add: worksrc_pack_item_def wf_ctx_def wire_sizes blit_def put_target_le_eq Let_def)

lemma pack_88:
  assumes "wf_ctx c"
  shows "worksrc_pack_item c 88 = (88, ss4 c @ put_u64le (target_top64 c) @ replicate 80 0)"
  using assms by (simp add: worksrc_pack_item_def wf_ctx_def wire_sizes blit_def put_target_le_eq Let_def)

section \<open>Properties\<close>

text \<open>
  one layout.  For a header that builds, packing the context made of its stage messages gives
  byte for byte the item of \<^verbatim>\<open>build_work_item\<close>, so the source seam cannot drift from the direct path.
\<close>

theorem pack_item_is_build_work_item:
  assumes "wf_header h" and "stage_inputs h = Inr (m3, m4, a)"
  shows "build_work_item h t = Inr (snd (worksrc_pack_item \<lparr>ss3 = m3, ss4 = m4, target_top64 = t, ctx_valid = True\<rparr> 168)) \<and>
         fst (worksrc_pack_item \<lparr>ss3 = m3, ss4 = m4, target_top64 = t, ctx_valid = True\<rparr> 168) = WORK_ITEM_LEN"
  using build_work_item_layout [OF assms, of t] stage_inputs_lengths [OF assms]
    pack_168 [of "\<lparr>ss3 = m3, ss4 = m4, target_top64 = t, ctx_valid = True\<rparr>"]
  by (simp add: wf_ctx_def wire_sizes)

theorem pack_item_is_build_work_item_witness:
  "\<exists>m3 m4 a. stage_inputs knots_header_init = Inr (m3, m4, a) \<and> build_work_item knots_header_init 9 =
     Inr (snd (worksrc_pack_item \<lparr>ss3 = m3, ss4 = m4, target_top64 = 9, ctx_valid = True\<rparr> 168))"
proof -
  obtain m3 m4 a where st: "stage_inputs knots_header_init = Inr (m3, m4, a)"
    using stage_inputs_init by blast
  from pack_item_is_build_work_item [OF wf_header_init st] st show ?thesis by blast
qed

text \<open>
  a pool job without merkle branches mines the right root.  The item packed from its stages makes
  the Knots bitstream hash, for every nonce and in both of its stage-3 modes, exactly the message
  the software checks: the compare value is the reversed bitstream digest.
\<close>

theorem pool_item_digest:
  assumes "wf_job j" and "branches j = []" and "sia_build_stages j en1 en2 = Some (m3, m4, root)"
  shows "sia_pow_compare m4 n =
     rev (bitstream_digest on_chip (snd (worksrc_pack_item \<lparr>ss3 = m3, ss4 = m4, target_top64 = t, ctx_valid = True\<rparr> 168)) n)"
proof -
  note b = build_stages_some [OF assms(3,1)]
  have r: "root = blake2b_nokey m3 32" using b(3) assms(2) by (simp add: sia_merkle_root_def)
  have p: "snd (worksrc_pack_item \<lparr>ss3 = m3, ss4 = m4, target_top64 = t, ctx_valid = True\<rparr> 168) =
      m3 @ replicate 28 0 @ m4 @ put_u64le t"
    using b by (subst pack_168) (simp_all add: wf_ctx_def wire_sizes)
  have l: "length (prevhash j) = 32" "length (ntime j) = 8" using assms(1) by (simp_all add: wf_job_def)
  have pn: "put_nonce m4 n = prevhash j @ put_u64le n @ ntime j @ root"
    using b(5,6) l by (simp add: put_nonce_eq blit_def)
  have tk: "take 80 (drop 80 (m3 @ replicate 28 0 @ m4 @ put_u64le t)) = m4"
    and t3: "take 52 (m3 @ replicate 28 0 @ m4 @ put_u64le t) = m3"
    using b(2,6) by simp_all
  have m4: "take 32 m4 = prevhash j" "take 8 (drop 40 m4) = ntime j" "drop 48 m4 = root"
    using b(5) l by simp_all
  show ?thesis
    unfolding p sia_pow_compare_rev pn bitstream_digest_def Let_def tk t3 m4 using r by simp
qed

theorem pool_item_digest_witness:
  "\<exists>m3 m4 root. sia_build_stages \<lparr>job_id = ''1'', prevhash = replicate 32 5, coinb1 = replicate 39 1, coinb2 = [],
       branches = [], ntime = replicate 8 0, nbits = 0, clean = True, seq = 1\<rparr> (replicate 4 0) (replicate 8 0) =
         Some (m3, m4, root) \<and>
     sia_pow_compare m4 7 = rev (bitstream_digest True
       (snd (worksrc_pack_item \<lparr>ss3 = m3, ss4 = m4, target_top64 = 9, ctx_valid = True\<rparr> 168)) 7)"
proof -
  let ?j = "\<lparr>job_id = ''1'', prevhash = replicate 32 5, coinb1 = replicate 39 1, coinb2 = [], branches = [],
       ntime = replicate 8 0, nbits = 0, clean = True, seq = 1\<rparr> :: stratum_job"
  have wf: "wf_job ?j" by (simp add: wf_job_def stratum_sizes)
  obtain m3 m4 root where b: "sia_build_stages ?j (replicate 4 0) (replicate 8 0) = Some (m3, m4, root)"
    by (simp add: sia_build_stages_def sia_arbtx_def wire_sizes stratum_sizes Let_def)
  show ?thesis using pool_item_digest [OF wf _ b, of 7 True 9] b by (intro exI) auto
qed

text \<open>
  the registry.  From any start, after any sequence of registrations there are at most four
  sources with distinct non-null names; and while there is room, a registered source is found under
  its name (replacing an earlier one of that name) and no other lookup changes.
\<close>

theorem registry_lookup:
  assumes "length (fold (\<lambda>s. worksrc_register (Some s)) ss []) < MAX_SOURCES" and "src_name s = Some m"
  shows "worksrc_find (Some n) (fold (\<lambda>s. worksrc_register (Some s)) (ss @ [s]) []) =
           (if n = m then Some s else worksrc_find (Some n) (fold (\<lambda>s. worksrc_register (Some s)) ss [])) \<and>
         reg_inv (fold (\<lambda>s. worksrc_register (Some s)) (ss @ [s]) [])"
proof -
  have e: "reg_inv []" by (simp add: reg_inv_def)
  show ?thesis
    using registry.find_insert [OF registry.inv_fold [OF e] assms(1), of s "Some n"] assms(2)
      registry.inv_fold [OF e, of "ss @ [s]"] by auto
qed

theorem registry_lookup_witness:
  "worksrc_find (Some ''gbt'') (fold (\<lambda>s. worksrc_register (Some s))
     ([] @ [\<lparr>src_name = Some ''gbt'', src_backend = Gbt, has_poll = False, refresh_s = 30, item_len = 168\<rparr>]) []) =
   Some \<lparr>src_name = Some ''gbt'', src_backend = Gbt, has_poll = False, refresh_s = 30, item_len = 168\<rparr>"
  using registry_lookup [of "[]" "\<lparr>src_name = Some ''gbt'', src_backend = Gbt, has_poll = False, refresh_s = 30, item_len = 168\<rparr>"
      "''gbt''" "''gbt''"] by (simp add: MAX_SOURCES_def)

end
