(* ===== verification/Hex.thy ===== *)
theory Hex
  imports Prelude
begin

text \<open>
  The hexadecimal helpers: \<^verbatim>\<open>hexval\<close> (the same function in \<^verbatim>\<open>coinbase.c\<close> and \<^verbatim>\<open>stratum.c\<close>), the pair
  loop that \<^verbatim>\<open>hex2bin\<close> and \<^verbatim>\<open>js_hex\<close> share, and \<^verbatim>\<open>bin2hex\<close> of \<^verbatim>\<open>stratum.c\<close>.
\<close>

unbundle bit_operations_syntax

definition hexval :: "char \<Rightarrow> int" where
  "hexval c =
     (if ch CHR ''0'' \<le> ch c \<and> ch c \<le> ch CHR ''9'' then int (ch c) - int (ch CHR ''0'')
      else if ch CHR ''a'' \<le> ch c \<and> ch c \<le> ch CHR ''f'' then int (ch c) - int (ch CHR ''a'') + 10
      else if ch CHR ''A'' \<le> ch c \<and> ch c \<le> ch CHR ''F'' then int (ch c) - int (ch CHR ''A'') + 10
      else -1)"

fun hex_pairs :: "string \<Rightarrow> bytes option" where
  "hex_pairs (a # b # r) =
     (let hi = hexval a; lo = hexval b in
      if hi < 0 \<or> lo < 0 then None
      else map_option (\<lambda>bs. word_of_int (push_bit 4 hi OR lo) # bs) (hex_pairs r))"
| "hex_pairs _ = Some []"

definition HEXDIGITS :: string where "HEXDIGITS = ''0123456789abcdef''"

definition bin2hex :: "bytes \<Rightarrow> string" where
  "bin2hex bs = concat (map (\<lambda>b. [HEXDIGITS ! unat (drop_bit 4 b), HEXDIGITS ! unat (b AND 15)]) bs)"

section \<open>Digits\<close>

lemma hexval_digit: "n < 16 \<Longrightarrow> hexval (HEXDIGITS ! n) = int n"
proof -
  assume "n < 16"
  moreover have "\<forall>n \<in> {0..<16}. hexval (HEXDIGITS ! n) = int n"
    by (simp add: hexval_def HEXDIGITS_def atLeastLessThan_nat_numeral)
  ultimately show ?thesis by simp
qed

lemma hexval_range: "hexval c < 16"
  by (auto simp: hexval_def)

lemma nibbles: "unat (drop_bit 4 b) < 16" "unat (b AND 15) < 16"
  "word_of_int (push_bit 4 (int (unat (drop_bit 4 b))) OR int (unat (b AND 15))) = b" for b :: u8
proof -
  have u: "unat (drop_bit 4 b) = unat b div 16" "unat (b AND 15) = unat b mod 16"
    using unat_drop_bit_div [of 4 b] unat_and_mask [of b 4] by (simp_all add: mask_eq_exp_minus_1)
  then show "unat (drop_bit 4 b) < 16" "unat (b AND 15) < 16"
    using unat_u8_less [of b] by (simp_all del: unat_u8_less)
  have "push_bit 4 x OR y = push_bit 4 x + y" if "0 \<le> y" "y < 16" for x y :: int
  proof -
    have "take_bit 4 y = y" using that by (simp add: take_bit_int_eq_self)
    then have "\<not> (bit (push_bit 4 x) n \<and> bit y n)" for n
      by (metis bit_push_bit_iff bit_take_bit_iff linorder_not_less)
    then show ?thesis by (subst disjunctive_add) auto
  qed
  then have "push_bit 4 (int (unat b div 16)) OR int (unat b mod 16) =
      push_bit 4 (int (unat b div 16)) + int (unat b mod 16)" by simp
  also have "\<dots> = int (unat b div 16 * 16 + unat b mod 16)" by (simp only: push_bit_eq_mult of_nat_add of_nat_mult) simp
  also have "\<dots> = int (unat b)" by (simp only: div_mult_mod_eq)
  finally show "word_of_int (push_bit 4 (int (unat (drop_bit 4 b))) OR int (unat (b AND 15))) = b"
    by (simp only: u) simp
qed

lemma hex_pairs_bin2hex: "hex_pairs (bin2hex bs) = Some bs"
  by (induction bs) (simp_all add: bin2hex_def hexval_digit nibbles nibbles(3) [simplified] Let_def)

lemma length_bin2hex [simp]: "length (bin2hex bs) = 2 * length bs"
  by (induction bs) (simp_all add: bin2hex_def)

lemma length_hex_pairs: "hex_pairs s = Some bs \<Longrightarrow> length bs = length s div 2"
  by (induction s arbitrary: bs rule: hex_pairs.induct) (auto simp: Let_def split: if_splits)

end
