(* ===== verification/Json.thy ===== *)
theory Json
  imports Hex
begin

text \<open>
  The JSON scanner of \<^verbatim>\<open>src/miner/stratum.c\<close>.  A \<^verbatim>\<open>const char *\<close> into a NUL-terminated line is the
  suffix it points at; the empty list is the terminating NUL, so \<^verbatim>\<open>*p\<close> is the head and no
  function can step past the end.  \<^verbatim>\<open>NULL\<close> is \<open>None\<close>.  Buffers a function fills (\<^verbatim>\<open>out\<close>) are lists of
  their full size that keep what a failing call has already written.
\<close>

unbundle bit_operations_syntax

definition js_space :: "char \<Rightarrow> bool" where
  "js_space c \<longleftrightarrow> c = CHR '' '' \<or> c = CHR 0x09 \<or> c = CHR 0x0D \<or> c = CHR 0x0A"

definition js_ws :: "string \<Rightarrow> string" where
  "js_ws p = dropWhile js_space p"

text \<open>The loop \<^verbatim>\<open>while (*p && *p != '"') p += (*p == '\\' && p[1]) ? 2 : 1\<close>.\<close>

function str_end :: "string \<Rightarrow> string" where
  "str_end [] = []"
| "str_end (c # cs) =
     (if c = CHR 0x22 then c # cs
      else if c = CHR 0x5C \<and> cs \<noteq> [] then str_end (tl cs)
      else str_end cs)"
  by pat_completeness auto
termination by (relation "measure length") auto

lemma length_str_end: "length (str_end p) \<le> length p"
proof (induction p rule: str_end.induct)
  case (2 c cs)
  then show ?case by (cases cs) auto
qed simp

function js_brackets :: "char \<Rightarrow> char \<Rightarrow> int \<Rightarrow> string \<Rightarrow> string option" where
  "js_brackets op cl depth [] = None"
| "js_brackets op cl depth (c # p) =
     (if c = CHR 0x22 then
        (case str_end p of [] \<Rightarrow> None | _ # q \<Rightarrow> js_brackets op cl depth q)
      else
        let depth = (if c = op then depth + 1 else depth) in
        if c = cl then (let depth = depth - 1 in if depth = 0 then Some p else js_brackets op cl depth p)
        else js_brackets op cl depth p)"
  by pat_completeness auto
termination
proof (relation "measure (\<lambda>(op, cl, d, p). length p)")
  fix op cl :: char and depth :: int and c x :: char and p q :: string
  assume "str_end p = x # q"
  then show "((op, cl, depth, q), op, cl, depth, c # p) \<in> measure (\<lambda>(op, cl, d, p). length p)"
    using length_str_end [of p] by simp
qed auto

definition js_delim :: "char \<Rightarrow> bool" where
  "js_delim c \<longleftrightarrow> c = CHR '','' \<or> c = CHR '']'' \<or> c = CHR ''}'' \<or> js_space c"

definition js_skip :: "string \<Rightarrow> string option" where
  "js_skip p =
     (let p = js_ws p in
      if p \<noteq> [] \<and> hd p = CHR 0x22 then
        (case str_end (tl p) of [] \<Rightarrow> None | _ # q \<Rightarrow> Some q)
      else if p \<noteq> [] \<and> (hd p = CHR ''['' \<or> hd p = CHR ''{'') then
        js_brackets (hd p) (if hd p = CHR ''['' then CHR '']'' else CHR ''}'') 0 p
      else
        let q = dropWhile (\<lambda>c. \<not> js_delim c) p in if length q < length p then Some q else None)"

fun starts :: "char \<Rightarrow> string \<Rightarrow> bool" where
  "starts c [] = False"
| "starts c (x # xs) = (x = c)"

lemma starts_iff: "starts c p \<longleftrightarrow> p \<noteq> [] \<and> hd p = c"
  by (cases p) auto

section \<open>Progress\<close>

text \<open>Every scanner returns a suffix of what it was given; skipping a value consumes something.\<close>

definition suffix_of :: "string \<Rightarrow> string \<Rightarrow> bool" where
  "suffix_of q p \<longleftrightarrow> (\<exists>pre. p = pre @ q)"

lemma suffix_of_trans: "suffix_of r q \<Longrightarrow> suffix_of q p \<Longrightarrow> suffix_of r p"
  unfolding suffix_of_def by auto

lemma suffix_of_refl [simp]: "suffix_of p p"
  by (simp add: suffix_of_def)

lemma suffix_of_Cons: "suffix_of q p \<Longrightarrow> suffix_of q (c # p)"
  unfolding suffix_of_def by (metis append_Cons)

lemma suffix_of_length: "suffix_of q p \<Longrightarrow> length q \<le> length p"
  unfolding suffix_of_def by auto

lemma suffix_of_tl: "suffix_of q (tl p) \<Longrightarrow> suffix_of q p"
  by (cases p) (auto simp: suffix_of_Cons)

lemma suffix_of_dropWhile: "suffix_of (dropWhile P p) p"
  unfolding suffix_of_def by (metis takeWhile_dropWhile_id)

lemma js_ws_suffix: "suffix_of (js_ws p) p"
  by (simp add: js_ws_def suffix_of_dropWhile)

lemma str_end_suffix: "suffix_of (str_end p) p"
proof (induction p rule: str_end.induct)
  case (2 c cs)
  then show ?case by (auto intro: suffix_of_Cons suffix_of_tl)
qed simp

lemma js_brackets_suffix: "js_brackets op cl d p = Some q \<Longrightarrow> suffix_of q p \<and> length q < length p"
proof (induction op cl d p rule: js_brackets.induct)
  case (2 op cl depth c p)
  show ?case
  proof (cases "c = CHR 0x22")
    case True
    then obtain x r where r: "str_end p = x # r" and q: "js_brackets op cl depth r = Some q"
      using "2.prems" by (auto split: list.splits)
    have "suffix_of (x # r) p" using str_end_suffix [of p] r by simp
    then have "suffix_of r p" by (rule suffix_of_trans [rotated]) (simp add: suffix_of_Cons)
    moreover have "suffix_of q r" using "2.IH"(1) [OF True r q] by simp
    ultimately show ?thesis using suffix_of_trans suffix_of_Cons suffix_of_length by fastforce
  next
    case False
    have "q = p \<or> (\<exists>d. js_brackets op cl d p = Some q \<and> suffix_of q p)"
      using 2 False by (auto simp: Let_def split: if_splits)
    then have "suffix_of q p" by auto
    then show ?thesis using suffix_of_Cons suffix_of_length by fastforce
  qed
qed simp

lemma js_skip_progress:
  assumes "js_skip p = Some q"
  shows "suffix_of q p \<and> length q < length p"
proof -
  let ?p = "js_ws p"
  have "suffix_of q ?p \<and> length q < length ?p"
  proof (cases "?p \<noteq> [] \<and> hd ?p = CHR 0x22")
    case True
    then obtain x where "str_end (tl ?p) = x # q"
      using assms by (auto simp: js_skip_def Let_def split: list.splits)
    then have "suffix_of (x # q) (tl ?p)" using str_end_suffix [of "tl ?p"] by simp
    then have "suffix_of q (tl ?p)" by (rule suffix_of_trans [rotated]) (simp add: suffix_of_Cons)
    then show ?thesis using True suffix_of_tl suffix_of_length [of q "tl ?p"]
      by (cases "js_ws p") auto
  next
    case False
    show ?thesis
    proof (cases "?p \<noteq> [] \<and> (hd ?p = CHR ''['' \<or> hd ?p = CHR ''{'')")
      case True
      then show ?thesis using assms False js_brackets_suffix by (auto simp: js_skip_def Let_def)
    next
      case nb: False
      then have "q = dropWhile (\<lambda>c. \<not> js_delim c) ?p \<and> length q < length ?p"
        using assms False by (auto simp: js_skip_def Let_def split: if_splits)
      then show ?thesis using suffix_of_dropWhile by metis
    qed
  qed
  then show ?thesis using js_ws_suffix suffix_of_trans suffix_of_length by (meson order_less_le_trans)
qed

section \<open>Objects and arrays\<close>

function get_loop :: "string \<Rightarrow> string \<Rightarrow> string option" where
  "get_loop key p =
     (let p = js_ws p in
      if \<not> starts (CHR 0x22) p then None
      else let ks = tl p; ke = str_end ks in
      if ke = [] then None
      else let hit = (length ks - length ke = length key \<and> take (length key) ks = key);
               p = js_ws (tl ke) in
      if \<not> starts (CHR '':'') p then None
      else let p = js_ws (tl p) in
      if hit then Some p
      else (case js_skip p of
              None \<Rightarrow> None
            | Some q \<Rightarrow> let q = js_ws q in if starts (CHR '','') q then get_loop key (tl q) else None))"
  by pat_completeness auto
termination
proof (relation "measure (\<lambda>(key, p). length p)", simp, clarsimp)
  fix p q :: string
  assume a: "starts (CHR 0x22) (js_ws p)" "js_skip (js_ws (tl (js_ws (tl (str_end (tl (js_ws p))))))) = Some q"
    and c: "starts (CHR '','') (js_ws q)"
  have "length q < length (js_ws (tl (js_ws (tl (str_end (tl (js_ws p)))))))" using js_skip_progress [OF a(2)] by simp
  also have "\<dots> \<le> length (tl (js_ws (tl (str_end (tl (js_ws p))))))" by (rule suffix_of_length [OF js_ws_suffix])
  also have "\<dots> \<le> length (js_ws (tl (str_end (tl (js_ws p)))))" by simp
  also have "\<dots> \<le> length (tl (str_end (tl (js_ws p))))" by (rule suffix_of_length [OF js_ws_suffix])
  also have "\<dots> \<le> length (str_end (tl (js_ws p)))" by simp
  also have "\<dots> \<le> length (tl (js_ws p))" by (rule length_str_end)
  also have "\<dots> \<le> length (js_ws p)" by simp
  also have "\<dots> \<le> length p" by (rule suffix_of_length [OF js_ws_suffix])
  finally have "length q < length p" .
  moreover have "length (js_ws q) \<le> length q" by (rule suffix_of_length [OF js_ws_suffix])
  ultimately show "length (js_ws q) - Suc 0 < length p" by simp
qed

declare get_loop.simps [simp del]

definition js_get :: "string \<Rightarrow> string \<Rightarrow> string option" where
  "js_get obj key =
     (let obj = js_ws obj in
      if \<not> starts (CHR ''{'') obj then None
      else let p = js_ws (tl obj) in
      if starts (CHR ''}'') p then None
      else get_loop key p)"

primrec elem_loop :: "nat \<Rightarrow> string \<Rightarrow> string option" where
  "elem_loop 0 p = Some p"
| "elem_loop (Suc n) p =
     (case js_skip p of
        None \<Rightarrow> None
      | Some q \<Rightarrow> let q = js_ws q in
          if starts (CHR '','') q then elem_loop n (js_ws (tl q)) else None)"

definition js_elem :: "string \<Rightarrow> nat \<Rightarrow> string option" where
  "js_elem arr idx =
     (let arr = js_ws arr in
      if \<not> starts (CHR ''['') arr then None
      else let p = js_ws (tl arr) in
      if starts (CHR '']'') p then None
      else elem_loop idx p)"

function count_loop :: "int \<Rightarrow> string \<Rightarrow> int" where
  "count_loop n p =
     (case js_skip p of
        None \<Rightarrow> -1
      | Some q \<Rightarrow> let q = js_ws q in
          if starts (CHR '','') q then count_loop (n + 1) (js_ws (tl q))
          else if starts (CHR '']'') q then n + 1 else -1)"
  by pat_completeness auto
termination
proof (relation "measure (\<lambda>(n, p). length p)", simp, clarsimp)
  fix p q :: string
  assume "js_skip p = Some q"
  then have "length q < length p" using js_skip_progress by blast
  moreover have "length (js_ws (tl (js_ws q))) \<le> length (tl (js_ws q))" by (rule suffix_of_length [OF js_ws_suffix])
  moreover have "length (js_ws q) \<le> length q" by (rule suffix_of_length [OF js_ws_suffix])
  ultimately show "length (js_ws (tl (js_ws q))) < length p" by simp
qed

declare count_loop.simps [simp del]

definition js_count :: "string \<Rightarrow> int" where
  "js_count arr =
     (let arr = js_ws arr in
      if \<not> starts (CHR ''['') arr then -1
      else let p = js_ws (tl arr) in
      if starts (CHR '']'') p then 0
      else count_loop 0 p)"

section \<open>Scalars\<close>

definition cstr :: "string \<Rightarrow> string" where
  "cstr buf = takeWhile (\<lambda>c. c \<noteq> CHR 0x00) buf"

text \<open>
  A write through an index the code does not check by itself.  Outside the array the array is lost, so that a
  bound on the length of an array after a sequence of writes says that every write was inside.
\<close>

definition poke :: "'a list \<Rightarrow> nat \<Rightarrow> 'a \<Rightarrow> 'a list" where
  "poke buf i c = (if i < length buf then buf[i := c] else [])"

fun str_copy :: "string \<Rightarrow> nat \<Rightarrow> string \<Rightarrow> bool \<times> string" where
  "str_copy [] k out = (False, out)"
| "str_copy (c # v) k out =
     (if c = CHR 0x22 then (True, poke out k (CHR 0x00))
      else if k + 1 \<ge> length out then (False, out)
      else str_copy v (k + 1) (poke out k c))"

definition js_str :: "string \<Rightarrow> string \<Rightarrow> bool \<times> string" where
  "js_str v out =
     (let v = js_ws v in
      if \<not> starts (CHR 0x22) v then (False, out) else str_copy (tl v) 0 out)"

fun hex_write :: "string \<Rightarrow> nat \<Rightarrow> bytes \<Rightarrow> bool \<times> bytes" where
  "hex_write (a # b # r) i out =
     (let hi = hexval a; lo = hexval b in
      if hi < 0 \<or> lo < 0 then (False, out)
      else hex_write r (i + 1) (poke out i (word_of_int (push_bit 4 hi OR lo))))"
| "hex_write _ i out = (True, out)"

definition js_hex_buf :: nat where "js_hex_buf = 2 * 512 + 4"

text \<open>\<^verbatim>\<open>js_hex\<close>: success, the buffer, and the new \<^verbatim>\<open>*outlen\<close> when it is set.\<close>

definition js_hex :: "string \<Rightarrow> bytes \<Rightarrow> bool \<times> bytes \<times> nat option" where
  "js_hex v out =
     (case js_str v (replicate js_hex_buf (CHR 0x00)) of
        (False, _) \<Rightarrow> (False, out, None)
      | (True, buf) \<Rightarrow>
          let s = cstr buf; n = length s in
          if n mod 2 \<noteq> 0 then (False, out, None)
          else if n div 2 > length out then (False, out, None)
          else (case hex_write s 0 out of
                  (False, out) \<Rightarrow> (False, out, None)
                | (True, out) \<Rightarrow> (True, out, Some (n div 2))))"

definition js_true :: "string \<Rightarrow> bool" where
  "js_true v = (take 4 (js_ws v) = ''true'')"

section \<open>A printer\<close>

datatype json = JStr string | JRaw string | JArr "json list" | JObj "(string \<times> json) list"

fun esc_ok :: "string \<Rightarrow> bool" where
  "esc_ok [] = True"
| "esc_ok [c] = (c \<noteq> CHR 0x22 \<and> c \<noteq> CHR 0x5C)"
| "esc_ok (c # d # cs) = (c \<noteq> CHR 0x22 \<and> (if c = CHR 0x5C then esc_ok cs else esc_ok (d # cs)))"

definition raw_ok :: "string \<Rightarrow> bool" where
  "raw_ok t \<longleftrightarrow> t \<noteq> [] \<and> list_all (\<lambda>c. \<not> js_delim c \<and> c \<noteq> CHR 0x22 \<and> c \<noteq> CHR ''['' \<and> c \<noteq> CHR ''{'') t"

fun json_ok :: "json \<Rightarrow> bool" where
  "json_ok (JStr t) = esc_ok t"
| "json_ok (JRaw t) = raw_ok t"
| "json_ok (JArr vs) = list_all json_ok vs"
| "json_ok (JObj kvs) = list_all (\<lambda>(k, v). esc_ok k \<and> json_ok v) kvs"

fun sep_by :: "string \<Rightarrow> string list \<Rightarrow> string" where
  "sep_by s [] = []"
| "sep_by s [x] = x"
| "sep_by s (x # y # r) = x @ s @ sep_by s (y # r)"

text \<open>\<open>w\<close> is any run of white space, used at every place the grammar allows one.\<close>

fun print :: "string \<Rightarrow> json \<Rightarrow> string" where
  "print w (JStr t) = CHR 0x22 # t @ [CHR 0x22]"
| "print w (JRaw t) = t"
| "print w (JArr vs) = CHR ''['' # w @ sep_by (w @ CHR '','' # w) (map (print w) vs) @ w @ [CHR '']'']"
| "print w (JObj kvs) = CHR ''{'' # w @ sep_by (w @ CHR '','' # w)
     (map (\<lambda>(k, v). CHR 0x22 # k @ CHR 0x22 # w @ CHR '':'' # w @ print w v) kvs) @ w @ [CHR ''}'']"

section \<open>Skipping what was printed\<close>

definition wsp :: "string \<Rightarrow> bool" where
  "wsp w \<longleftrightarrow> list_all js_space w"

definition solid :: "string \<Rightarrow> bool" where
  "solid p \<longleftrightarrow> p \<noteq> [] \<and> \<not> js_space (hd p)"

lemma js_ws_append: "wsp w \<Longrightarrow> js_ws (w @ p) = js_ws p"
  by (induction w) (simp_all add: wsp_def js_ws_def)

lemma js_ws_solid: "solid p \<Longrightarrow> js_ws p = p"
  by (cases p) (simp_all add: solid_def js_ws_def)

lemma str_end_esc: "esc_ok t \<Longrightarrow> str_end (t @ CHR 0x22 # r) = CHR 0x22 # r"
  by (induction t rule: esc_ok.induct) (auto split: if_splits)

definition transparent :: "char \<Rightarrow> char \<Rightarrow> string \<Rightarrow> bool" where
  "transparent op cl x \<longleftrightarrow> (\<forall>d \<ge> 1. \<forall>r. js_brackets op cl d (x @ r) = js_brackets op cl d r)"

definition bracket_pair :: "char \<Rightarrow> char \<Rightarrow> bool" where
  "bracket_pair op cl \<longleftrightarrow> (op = CHR ''['' \<and> cl = CHR '']'') \<or> (op = CHR ''{'' \<and> cl = CHR ''}'')"

lemma bracket_pairE:
  assumes "bracket_pair op cl"
  obtains "op = CHR ''[''" "cl = CHR '']''" | "op = CHR ''{''" "cl = CHR ''}''"
  using assms by (auto simp: bracket_pair_def)

lemma bracket_pair_chars:
  "bracket_pair op cl \<Longrightarrow> op \<noteq> cl \<and> op \<noteq> CHR 0x22 \<and> cl \<noteq> CHR 0x22 \<and> op \<noteq> CHR '','' \<and> cl \<noteq> CHR '','' \<and>
     op \<noteq> CHR '':'' \<and> cl \<noteq> CHR '':'' \<and> \<not> js_space op \<and> \<not> js_space cl"
  by (elim bracket_pairE) (simp_all add: js_space_def)

lemma bracket_pair_same: "bracket_pair op cl \<Longrightarrow> bracket_pair op c' \<Longrightarrow> c' = cl"
  and bracket_pair_diff: "bracket_pair op cl \<Longrightarrow> bracket_pair o' c' \<Longrightarrow> o' \<noteq> op \<Longrightarrow> o' \<noteq> cl \<and> c' \<noteq> cl \<and> c' \<noteq> op"
  by (auto simp: bracket_pair_def)

lemma js_brackets_open:
  "bracket_pair op cl \<Longrightarrow> js_brackets op cl d (op # p) = js_brackets op cl (d + 1) p"
  by (elim bracket_pairE) simp_all

lemma js_brackets_close:
  "bracket_pair op cl \<Longrightarrow> js_brackets op cl d (cl # p) = (if d = 1 then Some p else js_brackets op cl (d - 1) p)"
  by (elim bracket_pairE) simp_all

lemma js_brackets_plain:
  "c \<noteq> CHR 0x22 \<Longrightarrow> c \<noteq> op \<Longrightarrow> c \<noteq> cl \<Longrightarrow> js_brackets op cl d (c # p) = js_brackets op cl d p"
  by simp

lemma js_brackets_str:
  "esc_ok t \<Longrightarrow> js_brackets op cl d (CHR 0x22 # t @ CHR 0x22 # r) = js_brackets op cl d r"
  by (simp add: str_end_esc)

declare js_brackets.simps [simp del]

lemma transparent_Nil [simp]: "transparent op cl []"
  by (simp add: transparent_def)

lemma transparent_append: "transparent op cl x \<Longrightarrow> transparent op cl y \<Longrightarrow> transparent op cl (x @ y)"
  by (simp add: transparent_def)

lemma transparent_plain:
  "list_all (\<lambda>c. c \<noteq> CHR 0x22 \<and> c \<noteq> op \<and> c \<noteq> cl) x \<Longrightarrow> transparent op cl x"
  by (induction x) (simp_all add: transparent_def js_brackets_plain)

lemma transparent_ws:
  assumes "bracket_pair op cl" "wsp w"
  shows "transparent op cl w"
proof (rule transparent_plain)
  have "\<not> js_space (CHR 0x22)" by (simp add: js_space_def)
  then show "list_all (\<lambda>c. c \<noteq> CHR 0x22 \<and> c \<noteq> op \<and> c \<noteq> cl) w"
    using assms(2) bracket_pair_chars [OF assms(1)] unfolding wsp_def list_all_iff by metis
qed

lemma transparent_str: "esc_ok t \<Longrightarrow> transparent op cl (CHR 0x22 # t @ [CHR 0x22])"
  by (simp add: transparent_def js_brackets_str)

lemma transparent_nest:
  assumes bp: "bracket_pair op cl" and bp': "bracket_pair o' c'" and x: "transparent op cl x"
  shows "transparent op cl (o' # x @ [c'])"
proof -
  have "js_brackets op cl d (o' # x @ c' # r) = js_brackets op cl d r" if d: "d \<ge> 1" for d r
  proof (cases "o' = op")
    case True
    then have c: "c' = cl" using bp bp' bracket_pair_same by blast
    have "js_brackets op cl (d + 1) (x @ cl # r) = js_brackets op cl (d + 1) (cl # r)"
      using x d by (simp add: transparent_def)
    then show ?thesis using True c d by (simp add: js_brackets_open [OF bp] js_brackets_close [OF bp])
  next
    case False
    have "js_brackets op cl d (x @ c' # r) = js_brackets op cl d (c' # r)"
      using x d by (simp add: transparent_def)
    then show ?thesis using False bracket_pair_diff [OF bp bp'] bracket_pair_chars [OF bp']
      by (simp add: js_brackets_plain)
  qed
  then show ?thesis by (simp add: transparent_def)
qed

lemma transparent_sep_by:
  "transparent op cl s \<Longrightarrow> (\<And>x. x \<in> set xs \<Longrightarrow> transparent op cl x) \<Longrightarrow> transparent op cl (sep_by s xs)"
  by (induction s xs rule: sep_by.induct) (auto intro!: transparent_append)

lemma transparent_comma:
  assumes "bracket_pair op cl" "wsp w"
  shows "transparent op cl (w @ CHR '','' # w)"
proof -
  have "transparent op cl [CHR '','']" using bracket_pair_chars [OF assms(1)] by (intro transparent_plain) auto
  with transparent_ws [OF assms] have "transparent op cl (w @ [CHR '',''] @ w)" by (intro transparent_append)
  then show ?thesis by simp
qed

lemma transparent_list:
  assumes "bracket_pair op cl" "wsp w" "\<And>x. x \<in> set xs \<Longrightarrow> transparent op cl x"
  shows "transparent op cl (w @ sep_by (w @ CHR '','' # w) xs @ w)"
  using assms by (intro transparent_append [OF transparent_ws transparent_append [OF transparent_sep_by transparent_ws]] transparent_comma) auto

lemma transparent_field:
  assumes "bracket_pair op cl" "wsp w" "esc_ok k" "transparent op cl x"
  shows "transparent op cl (CHR 0x22 # k @ CHR 0x22 # w @ CHR '':'' # w @ x)"
proof -
  have "transparent op cl [CHR '':'']" using bracket_pair_chars [OF assms(1)] by (intro transparent_plain) auto
  with transparent_ws [OF assms(1,2)] transparent_str [OF assms(3)] assms(4)
  have "transparent op cl ((CHR 0x22 # k @ [CHR 0x22]) @ w @ [CHR '':''] @ w @ x)" by (intro transparent_append)
  then show ?thesis by simp
qed

definition print_field :: "string \<Rightarrow> string \<times> json \<Rightarrow> string" where
  "print_field w kv = CHR 0x22 # fst kv @ CHR 0x22 # w @ CHR '':'' # w @ print w (snd kv)"

lemma print_JObj: "print w (JObj kvs) = CHR ''{'' # w @ sep_by (w @ CHR '','' # w) (map (print_field w) kvs) @ w @ [CHR ''}'']"
  by (simp add: print_field_def [abs_def] case_prod_unfold)

lemma raw_chars:
  assumes "raw_ok t" "bracket_pair op cl"
  shows "list_all (\<lambda>c. c \<noteq> CHR 0x22 \<and> c \<noteq> op \<and> c \<noteq> cl) t"
  using assms unfolding raw_ok_def list_all_iff js_delim_def bracket_pair_def by blast

lemma transparent_print:
  assumes bp: "bracket_pair op cl" and w: "wsp w"
  shows "json_ok v \<Longrightarrow> transparent op cl (print w v)"
proof (induction v)
  case (JStr t)
  then show ?case by (simp add: transparent_str)
next
  case (JRaw t)
  then show ?case using raw_chars [OF _ bp] transparent_plain by simp
next
  case (JArr vs)
  have b: "bracket_pair (CHR ''['') (CHR '']'')" by (simp add: bracket_pair_def)
  have "transparent op cl (w @ sep_by (w @ CHR '','' # w) (map (print w) vs) @ w)"
    using JArr by (intro transparent_list bp w) (auto simp: list_all_iff)
  from transparent_nest [OF bp b this] show ?case by simp
next
  case (JObj kvs)
  have b: "bracket_pair (CHR ''{'') (CHR ''}'')" by (simp add: bracket_pair_def)
  have "transparent op cl (print_field w kv)" if "kv \<in> set kvs" for kv
    unfolding print_field_def using that JObj
    by (intro transparent_field bp w) (cases kv; fastforce simp: list_all_iff)+
  then have "transparent op cl (w @ sep_by (w @ CHR '','' # w) (map (print_field w) kvs) @ w)"
    by (intro transparent_list bp w) auto
  from transparent_nest [OF bp b this] show ?case unfolding print_JObj by simp
qed

lemma print_solid: "json_ok v \<Longrightarrow> solid (print w v @ r)"
proof (cases v)
  case (JRaw t)
  assume "json_ok v"
  then show ?thesis using JRaw by (cases t) (simp_all add: solid_def raw_ok_def js_delim_def)
qed (simp_all add: solid_def js_space_def)

definition ends :: "string \<Rightarrow> bool" where
  "ends r \<longleftrightarrow> (r \<noteq> [] \<longrightarrow> js_delim (hd r))"

lemma bracketed_skip:
  assumes bp: "bracket_pair o' c'" and x: "transparent o' c' x"
  shows "js_skip (o' # x @ c' # r) = Some r"
proof -
  have "js_brackets o' c' 0 (o' # x @ c' # r) = js_brackets o' c' 1 (x @ c' # r)"
    by (simp add: js_brackets_open [OF bp])
  also have "\<dots> = js_brackets o' c' 1 (c' # r)" using x by (simp add: transparent_def)
  also have "\<dots> = Some r" by (simp add: js_brackets_close [OF bp])
  finally have "js_brackets o' c' 0 (o' # x @ c' # r) = Some r" .
  moreover have "js_ws (o' # x @ c' # r) = o' # x @ c' # r"
    using bracket_pair_chars [OF bp] by (simp add: js_ws_def)
  moreover have "js_skip (o' # x @ c' # r) = js_brackets o' c' 0 (o' # x @ c' # r)"
    using bp calculation(2) by (elim bracket_pairE) (simp_all add: js_skip_def)
  ultimately show ?thesis by simp
qed

lemma dropWhile_token: "list_all P t \<Longrightarrow> (r = [] \<or> \<not> P (hd r)) \<Longrightarrow> dropWhile P (t @ r) = r"
  by (induction t) (auto simp: dropWhile_eq_self_iff)

lemma js_skip_print:
  assumes w: "wsp w" and v: "json_ok v" and r: "ends r"
  shows "js_skip (print w v @ r) = Some r"
proof (cases v)
  case (JStr t)
  then show ?thesis using v by (simp add: js_skip_def js_ws_def js_space_def str_end_esc)
next
  case (JRaw t)
  then have t: "t \<noteq> []" "list_all (\<lambda>c. \<not> js_delim c) t" "hd t \<noteq> CHR 0x22" "hd t \<noteq> CHR ''[''" "hd t \<noteq> CHR ''{''"
    using v by (auto simp: raw_ok_def list_all_iff)
  have ws: "js_ws (t @ r) = t @ r" using js_ws_solid [OF print_solid [OF v, of w r]] JRaw by simp
  have "dropWhile (\<lambda>c. \<not> js_delim c) (t @ r) = r"
    using t(2) r by (intro dropWhile_token) (auto simp: ends_def)
  then show ?thesis using JRaw t by (simp add: js_skip_def ws)
next
  case (JArr vs)
  have b: "bracket_pair (CHR ''['') (CHR '']'')" by (simp add: bracket_pair_def)
  have "transparent (CHR ''['') (CHR '']'') (w @ sep_by (w @ CHR '','' # w) (map (print w) vs) @ w)"
    using v JArr by (intro transparent_list b w) (auto simp: list_all_iff intro: transparent_print [OF b w])
  from bracketed_skip [OF b this] JArr show ?thesis by simp
next
  case (JObj kvs)
  have b: "bracket_pair (CHR ''{'') (CHR ''}'')" by (simp add: bracket_pair_def)
  have "transparent (CHR ''{'') (CHR ''}'') (print_field w kv)" if "kv \<in> set kvs" for kv
    unfolding print_field_def using that v JObj
    by (intro transparent_field b w transparent_print) (cases kv; fastforce simp: list_all_iff)+
  then have "transparent (CHR ''{'') (CHR ''}'') (w @ sep_by (w @ CHR '','' # w) (map (print_field w) kvs) @ w)"
    by (intro transparent_list b w) auto
  from bracketed_skip [OF b this] show ?thesis unfolding JObj print_JObj by simp
qed

section \<open>Finding what was printed\<close>

lemma wsp_Nil_cases: "wsp w \<Longrightarrow> w = [] \<or> js_space (hd w)"
  by (cases w) (simp_all add: wsp_def)

lemma ends_sep:
  assumes "wsp w" "js_delim c"
  shows "ends (w @ c # r)"
  using assms by (cases w) (simp_all add: ends_def wsp_def js_delim_def)

lemma js_ws_sep: "wsp w \<Longrightarrow> \<not> js_space c \<Longrightarrow> js_ws (w @ c # r) = c # r"
  by (simp add: js_ws_append js_ws_solid solid_def)

lemma js_delims [simp]: "js_delim (CHR '','')" "js_delim (CHR '']'')" "js_delim (CHR ''}'')"
  by (simp_all add: js_delim_def)

lemma js_not_space [simp]:
  "\<not> js_space (CHR '','')" "\<not> js_space (CHR '']'')" "\<not> js_space (CHR ''}'')" "\<not> js_space (CHR 0x22)"
  "\<not> js_space (CHR ''['')" "\<not> js_space (CHR ''{'')" "\<not> js_space (CHR '':'')"
  by (simp_all add: js_space_def)

text \<open>The text of a value followed by the rest of the list it stands in.\<close>

definition tail_of :: "string \<Rightarrow> char \<Rightarrow> string list \<Rightarrow> string \<Rightarrow> string" where
  "tail_of w cl xs r = (if xs = [] then w @ cl # r else w @ CHR '','' # w @ sep_by (w @ CHR '','' # w) xs @ w @ cl # r)"

lemma sep_by_tail:
  "sep_by (w @ CHR '','' # w) (x # xs) @ w @ cl # r = x @ tail_of w cl xs r"
  by (cases xs) (simp_all add: tail_of_def)

lemma ends_tail_of: "wsp w \<Longrightarrow> js_delim cl \<Longrightarrow> ends (tail_of w cl xs r)"
  by (simp add: tail_of_def ends_sep)

lemma js_ws_tail_of_Nil: "wsp w \<Longrightarrow> \<not> js_space cl \<Longrightarrow> js_ws (tail_of w cl [] r) = cl # r"
  by (simp add: tail_of_def js_ws_sep)

lemma js_ws_tail_of_Cons:
  "wsp w \<Longrightarrow> js_ws (tail_of w cl (x # xs) r) = CHR '','' # w @ x @ tail_of w cl xs r"
  using sep_by_tail [of w x xs cl r] by (simp add: tail_of_def js_ws_sep)

lemma js_ws_print: "wsp w \<Longrightarrow> json_ok v \<Longrightarrow> js_ws (w @ print w v @ r) = print w v @ r"
  by (simp add: js_ws_append js_ws_solid print_solid)

lemma js_skip_elem:
  assumes "wsp w" "json_ok v"
  shows "js_skip (print w v @ tail_of w (CHR '']'') xs r) = Some (tail_of w (CHR '']'') xs r)"
  using assms by (intro js_skip_print ends_tail_of) auto

lemma elem_loop_print:
  assumes w: "wsp w"
  shows "list_all json_ok (v # vs) \<Longrightarrow>
    elem_loop i (print w v @ tail_of w (CHR '']'') (map (print w) vs) r) =
      (if i < length (v # vs)
       then Some (print w ((v # vs) ! i) @ tail_of w (CHR '']'') (map (print w) (drop i vs)) r)
       else None)"
proof (induction i arbitrary: v vs)
  case (Suc i)
  then show ?case using w
    by (cases vs) (simp_all add: js_skip_elem js_ws_tail_of_Nil js_ws_tail_of_Cons js_ws_print)
qed simp

lemma count_loop_print:
  assumes w: "wsp w"
  shows "list_all json_ok (v # vs) \<Longrightarrow>
    count_loop n (print w v @ tail_of w (CHR '']'') (map (print w) vs) r) = n + int (length (v # vs))"
proof (induction vs arbitrary: n v)
  case Nil
  then show ?case using w by (subst count_loop.simps) (simp add: js_skip_elem js_ws_tail_of_Nil)
next
  case (Cons u vs)
  then show ?case using w by (subst count_loop.simps) (simp add: js_skip_elem js_ws_tail_of_Cons js_ws_print)
qed

lemma print_JArr_Cons:
  "print w (JArr (v # vs)) @ r = CHR ''['' # w @ print w v @ tail_of w (CHR '']'') (map (print w) vs) r"
  using sep_by_tail [of w "print w v" "map (print w) vs" "CHR '']''" r] by simp

lemma print_not_closing: "json_ok v \<Longrightarrow> \<not> starts (CHR '']'') (print w v @ r) \<and> \<not> starts (CHR ''}'') (print w v @ r)"
proof (cases v)
  case (JRaw t)
  assume "json_ok v"
  then show ?thesis using JRaw by (cases t) (auto simp: raw_ok_def js_delim_def)
qed simp_all

lemma js_elem_print:
  assumes w: "wsp w" and vs: "list_all json_ok vs"
  shows "js_elem (print w (JArr vs) @ r) i =
    (if i < length vs then Some (print w (vs ! i) @ tail_of w (CHR '']'') (map (print w) (drop (Suc i) vs)) r) else None)"
proof (cases vs)
  case Nil
  then show ?thesis using w by (simp add: js_elem_def js_ws_solid solid_def js_ws_append)
next
  case (Cons v us)
  have "js_elem (print w (JArr vs) @ r) i = elem_loop i (print w v @ tail_of w (CHR '']'') (map (print w) us) r)"
    using w vs Cons by (simp add: js_elem_def print_JArr_Cons js_ws_solid solid_def js_ws_print print_not_closing del: print.simps)
  then show ?thesis using elem_loop_print [OF w, of v us i r] vs Cons by simp
qed

lemma js_count_print:
  assumes w: "wsp w" and vs: "list_all json_ok vs"
  shows "js_count (print w (JArr vs) @ r) = int (length vs)"
proof (cases vs)
  case Nil
  then show ?thesis using w by (simp add: js_count_def js_ws_solid solid_def js_ws_append)
next
  case (Cons v us)
  have "js_count (print w (JArr vs) @ r) = count_loop 0 (print w v @ tail_of w (CHR '']'') (map (print w) us) r)"
    using w vs Cons by (simp add: js_count_def print_JArr_Cons js_ws_solid solid_def js_ws_print print_not_closing del: print.simps)
  then show ?thesis using count_loop_print [OF w, of v us 0 r] vs Cons by simp
qed

lemma append_tl_sep: "wsp w \<Longrightarrow> js_ws (w @ w @ p) = js_ws p"
  by (simp add: js_ws_append)

lemma get_loop_print:
  assumes w: "wsp w"
  shows "list_all (\<lambda>(k, v). esc_ok k \<and> json_ok v) (kv # kvs) \<Longrightarrow>
    (case map_of (kv # kvs) key of
       None \<Rightarrow> get_loop key (print_field w kv @ tail_of w (CHR ''}'') (map (print_field w) kvs) r) = None
     | Some v \<Rightarrow> \<exists>t. ends t \<and> get_loop key (print_field w kv @ tail_of w (CHR ''}'') (map (print_field w) kvs) r) = Some (print w v @ t))"
proof (induction kvs arbitrary: kv)
  case Nil
  obtain k v where kv: "kv = (k, v)" by fastforce
  have e: "ends (tail_of w (CHR ''}'') [] r)" using w by (intro ends_tail_of) auto
  have "get_loop key (print_field w kv @ tail_of w (CHR ''}'') [] r) =
    (if k = key then Some (print w v @ tail_of w (CHR ''}'') [] r) else None)"
    using Nil w kv e
    by (subst get_loop.simps)
      (auto simp: print_field_def js_ws_solid solid_def str_end_esc js_ws_sep js_ws_print js_skip_print js_ws_tail_of_Nil Let_def)
  then show ?case using kv e by auto
next
  case (Cons kv' kvs)
  obtain k v where kv: "kv = (k, v)" by fastforce
  have e: "ends (tail_of w (CHR ''}'') (map (print_field w) (kv' # kvs)) r)" using w by (intro ends_tail_of) auto
  let ?rest = "print_field w kv' @ tail_of w (CHR ''}'') (map (print_field w) kvs) r"
  have "get_loop key (w @ ?rest) = get_loop key ?rest" using w by (subst (1 2) get_loop.simps) (simp add: js_ws_append)
  then have "get_loop key (print_field w kv @ tail_of w (CHR ''}'') (map (print_field w) (kv' # kvs)) r) =
    (if k = key then Some (print w v @ tail_of w (CHR ''}'') (map (print_field w) (kv' # kvs)) r) else get_loop key ?rest)"
    using Cons.prems w kv e
    by (subst get_loop.simps)
      (auto simp: print_field_def js_ws_solid solid_def str_end_esc js_ws_sep js_ws_print js_skip_print js_ws_tail_of_Cons Let_def)
  then show ?case using kv e Cons.IH [of kv'] Cons.prems by (auto split: option.splits)
qed

declare print.simps [simp del]

lemma print_JObj_Cons:
  "print w (JObj (kv # kvs)) @ r = CHR ''{'' # w @ print_field w kv @ tail_of w (CHR ''}'') (map (print_field w) kvs) r"
  using sep_by_tail [of w "print_field w kv" "map (print_field w) kvs" "CHR ''}''" r] by (simp add: print_JObj)

lemma js_ws_field: "wsp w \<Longrightarrow> js_ws (w @ print_field w kv @ r) = print_field w kv @ r"
  by (simp add: js_ws_append print_field_def js_ws_solid solid_def)

lemma js_get_print:
  assumes w: "wsp w" and v: "json_ok (JObj kvs)"
  shows "case map_of kvs key of
       None \<Rightarrow> js_get (print w (JObj kvs) @ r) key = None
     | Some v \<Rightarrow> \<exists>t. ends t \<and> js_get (print w (JObj kvs) @ r) key = Some (print w v @ t)"
proof (cases kvs)
  case Nil
  then show ?thesis using w by (simp add: js_get_def js_ws_solid solid_def js_ws_append print.simps)
next
  case (Cons kv us)
  have "\<not> starts (CHR ''}'') (print_field w kv @ tail_of w (CHR ''}'') (map (print_field w) us) r)"
    by (simp add: print_field_def)
  then have eq: "js_get (print w (JObj (kv # us)) @ r) key = get_loop key (print_field w kv @ tail_of w (CHR ''}'') (map (print_field w) us) r)"
    using w Cons by (simp add: js_get_def print_JObj_Cons js_ws_field js_ws_solid [of "CHR ''{'' # _"] solid_def)
  have "list_all (\<lambda>(k, v). esc_ok k \<and> json_ok v) (kv # us)" using v Cons by simp
  from get_loop_print [OF w this, of key r] show ?thesis unfolding Cons eq .
qed

lemma js_get_Some:
  assumes "wsp w" "json_ok (JObj kvs)" "map_of kvs key = Some v"
  obtains t where "ends t" "js_get (print w (JObj kvs) @ r) key = Some (print w v @ t)"
  using js_get_print [OF assms(1,2), of r key] assms(3) by auto

section \<open>Reading strings\<close>

text \<open>A string with neither quotes nor backslashes nor NUL is what the protocol carries.\<close>

definition plain_str :: "string \<Rightarrow> bool" where
  "plain_str t \<longleftrightarrow> list_all (\<lambda>c. c \<noteq> CHR 0x22 \<and> c \<noteq> CHR 0x5C \<and> c \<noteq> CHR 0x00) t"

lemma plain_esc_ok: "plain_str t \<Longrightarrow> esc_ok t"
  by (induction t rule: esc_ok.induct) (auto simp: plain_str_def)

lemma str_copy_fits:
  assumes "list_all (\<lambda>c. c \<noteq> CHR 0x22) t" "k + length t < length out"
  shows "str_copy (t @ CHR 0x22 # r) k out = (True, take k out @ t @ CHR 0x00 # drop (k + length t + 1) out)"
  using assms
proof (induction t arbitrary: k out)
  case Nil
  then show ?case by (simp add: poke_def upd_conv_take_nth_drop)
next
  case (Cons c t)
  have "take (Suc k) (out[k := c]) = take k out @ [c]"
    using Cons.prems by (simp add: take_Suc_conv_app_nth)
  then show ?case using Cons by (simp add: poke_def)
qed

lemma str_copy_overflow:
  assumes "list_all (\<lambda>c. c \<noteq> CHR 0x22) t" "length out \<le> k + length t" "k < length out" 
  shows "\<exists>o'. str_copy (t @ r) k out = (False, o') \<and> length o' = length out"
  using assms
proof (induction t arbitrary: k out)
  case (Cons c t)
  show ?case
  proof (cases "k + 1 \<ge> length out")
    case False
    then show ?thesis using Cons.IH [of "out[k := c]" "k + 1"] Cons.prems by (simp add: poke_def)
  qed (use Cons in simp)
qed simp

lemma cstr_terminated: "list_all (\<lambda>c. c \<noteq> CHR 0x00) t \<Longrightarrow> cstr (t @ CHR 0x00 # r) = t"
  by (induction t) (simp_all add: cstr_def)

lemma js_str_print:
  assumes "plain_str t"
  shows "length t < length out \<Longrightarrow> js_str (print w (JStr t) @ r) out = (True, t @ CHR 0x00 # drop (length t + 1) out)"
    and "length out \<le> length t \<Longrightarrow> out \<noteq> [] \<Longrightarrow> \<not> fst (js_str (print w (JStr t) @ r) out)"
proof -
  have t: "list_all (\<lambda>c. c \<noteq> CHR 0x22) t" using assms by (auto simp: plain_str_def list_all_iff)
  have j: "js_str (print w (JStr t) @ r) out = str_copy (t @ CHR 0x22 # r) 0 out" for out
    by (simp add: js_str_def js_ws_solid solid_def print.simps)
  show "length t < length out \<Longrightarrow> js_str (print w (JStr t) @ r) out = (True, t @ CHR 0x00 # drop (length t + 1) out)"
    using str_copy_fits [OF t, of 0 out r] j [of out] by simp
  show "length out \<le> length t \<Longrightarrow> out \<noteq> [] \<Longrightarrow> \<not> fst (js_str (print w (JStr t) @ r) out)"
    using str_copy_overflow [OF t, of out 0 "CHR 0x22 # r"] j [of out] by (auto simp: Suc_le_eq)
qed

lemma hex_write_pairs:
  "i + length s div 2 \<le> length out \<Longrightarrow>
   (case hex_pairs s of
      None \<Rightarrow> \<not> fst (hex_write s i out)
    | Some bs \<Rightarrow> hex_write s i out = (True, take i out @ bs @ drop (i + length bs) out))"
proof (induction s i out rule: hex_write.induct)
  case (1 a b r i out)
  show ?case
  proof (cases "hexval a < 0 \<or> hexval b < 0")
    case False
    let ?x = "word_of_int (push_bit 4 (hexval a) OR hexval b) :: u8"
    have i: "i < length out" "i + 1 + length r div 2 \<le> length (out[i := ?x])" using 1(2) by simp_all
    have tk: "take (Suc i) (out[i := ?x]) = take i out @ [?x]"
      using i(1) by (simp add: take_Suc_conv_app_nth)
    have p: "poke out i ?x = out[i := ?x]" using i(1) by (simp add: poke_def)
    show ?thesis using 1(1) [OF refl refl False, unfolded p, OF i(2)] False
      by (auto simp: Let_def p tk split: option.splits)
  qed simp
qed simp_all

lemma hexdigits_plain: "n < 16 \<Longrightarrow> HEXDIGITS ! n \<noteq> CHR 0x22 \<and> HEXDIGITS ! n \<noteq> CHR 0x5C \<and> HEXDIGITS ! n \<noteq> CHR 0x00"
  unfolding HEXDIGITS_def by (auto simp: nth_Cons' less_Suc_eq numeral_eq_Suc)

lemma plain_bin2hex: "plain_str (bin2hex bs)"
  by (induction bs) (simp_all add: plain_str_def bin2hex_def hexdigits_plain nibbles)

lemma js_hex_str:
  assumes s: "plain_str s" and l: "length s < js_hex_buf"
  shows "js_hex (print w (JStr s) @ r) out =
    (if odd (length s) \<or> length s div 2 > length out then (False, out, None)
     else case hex_write s 0 out of (False, o') \<Rightarrow> (False, o', None) | (True, o') \<Rightarrow> (True, o', Some (length s div 2)))"
proof -
  let ?buf = "replicate js_hex_buf (CHR 0x00)"
  have n: "list_all (\<lambda>c. c \<noteq> CHR 0x00) s" using s by (auto simp: plain_str_def list_all_iff)
  have "js_str (print w (JStr s) @ r) ?buf = (True, s @ CHR 0x00 # drop (length s + 1) ?buf)"
    by (rule js_str_print(1) [OF s]) (simp add: l)
  then show ?thesis unfolding js_hex_def
    by (simp add: cstr_terminated [OF n] odd_iff_mod_2_eq_one Let_def cong: prod.case_cong split: prod.splits bool.splits)
qed

lemma js_hex_print:
  assumes l: "length bs \<le> 513" and o: "length bs \<le> length out"
  shows "js_hex (print w (JStr (bin2hex bs)) @ r) out = (True, bs @ drop (length bs) out, Some (length bs))"
proof -
  have "hex_write (bin2hex bs) 0 out = (True, bs @ drop (length bs) out)"
    using hex_write_pairs [of 0 "bin2hex bs" out] o by (simp add: hex_pairs_bin2hex)
  then show ?thesis using js_hex_str [OF plain_bin2hex, of bs w r out] l o by (simp add: js_hex_buf_def)
qed

text \<open>Whatever the input, every write is inside the buffer, and the length a successful call reports fits it.\<close>

lemma length_poke: "i < length buf \<or> buf = [] \<Longrightarrow> length (poke buf i c) = length buf"
  by (auto simp: poke_def)

lemma length_str_copy: "k < length out \<or> out = [] \<Longrightarrow> length (snd (str_copy v k out)) = length out"
proof (induction v k out rule: str_copy.induct)
  case (2 c v k out)
  show ?case
  proof (cases "c = CHR 0x22 \<or> k + 1 \<ge> length out")
    case True
    then show ?thesis using 2(2) by (auto simp: length_poke)
  next
    case False
    then have "k + 1 < length (poke out k c)" by (simp add: poke_def)
    then show ?thesis using 2(1) False by (auto simp: length_poke)
  qed
qed simp

lemma length_js_str [simp]: "length (snd (js_str v out)) = length out"
  using length_str_copy [of 0 out "tl (js_ws v)"] by (cases out) (simp_all add: js_str_def Let_def)

lemma length_hex_write: "i + length s div 2 \<le> length out \<Longrightarrow> length (snd (hex_write s i out)) = length out"
proof (induction s i out rule: hex_write.induct)
  case (1 a b r i out)
  let ?x = "word_of_int (push_bit 4 (hexval a) OR hexval b) :: u8"
  have "length (poke out i ?x) = length out" "Suc i + length r div 2 \<le> length (poke out i ?x)"
    using 1(2) by (simp_all add: poke_def)
  then show ?case using 1(1) by (auto simp: Let_def)
qed simp_all

lemma js_hex_safe:
  assumes "js_hex v out = (ok, o', n)"
  shows "length o' = length out \<and> (ok \<longleftrightarrow> n \<noteq> None) \<and> (\<forall>k. n = Some k \<longrightarrow> k \<le> length out)"
proof -
  obtain r buf where j: "js_str v (replicate js_hex_buf (CHR 0x00)) = (r, buf)" by fastforce
  obtain r' buf' where h: "hex_write (cstr buf) 0 out = (r', buf')" by fastforce
  have "length (cstr buf) div 2 \<le> length out \<Longrightarrow> length buf' = length out"
    using length_hex_write [of 0 "cstr buf" out] h by simp
  then show ?thesis using assms j h unfolding js_hex_def by (cases r; cases r') (auto simp: Let_def not_less split: if_splits)
qed

section \<open>Properties\<close>

text \<open>
  looking a key up in a printed object, whatever white space the sender uses, strings with brackets and
  escapes included, points at the value of the first field of that name, and fails exactly when there is none.
\<close>

theorem js_get_correct:
  assumes "wsp w" "json_ok (JObj kvs)"
  shows "case map_of kvs key of
       None \<Rightarrow> js_get (print w (JObj kvs) @ r) key = None
     | Some v \<Rightarrow> \<exists>t. ends t \<and> js_get (print w (JObj kvs) @ r) key = Some (print w v @ t)"
  using assms by (rule js_get_print)

theorem js_get_correct_witness:
  "\<exists>t. ends t \<and> js_get (print '' '' (JObj [(''id'', JRaw ''4''), (''params'', JArr [JStr ''a]'', JStr ''5c22''])]) @ []) ''params'' =
     Some (print '' '' (JArr [JStr ''a]'', JStr ''5c22'']) @ t)"
  using js_get_correct [of "'' ''" "[(''id'', JRaw ''4''), (''params'', JArr [JStr ''a]'', JStr ''5c22''])]" "[]" "''params''"]
  by (simp add: wsp_def js_space_def raw_ok_def js_delim_def)

text \<open>
  an array found in a printed message has the right number of elements, its elements are found by
  position, and one that is the hexadecimal text of some bytes is read back as those bytes, the rest of the
  buffer untouched.
\<close>

theorem js_array_correct:
  assumes "wsp w" "json_ok (JObj kvs)" "map_of kvs key = Some (JArr vs)"
    and "i < length vs" "vs ! i = JStr (bin2hex bs)" "length bs \<le> 513" "length bs \<le> length out"
  shows "\<exists>a e. js_get (print w (JObj kvs) @ r) key = Some a \<and> js_count a = int (length vs) \<and>
     js_elem a (length vs) = None \<and> js_elem a i = Some e \<and>
     js_hex e out = (True, bs @ drop (length bs) out, Some (length bs))"
proof -
  obtain t where g: "js_get (print w (JObj kvs) @ r) key = Some (print w (JArr vs) @ t)"
    using js_get_Some [OF assms(1-3)] by blast
  have vs: "list_all json_ok vs"
    using assms(2) map_of_SomeD [OF assms(3)] by (auto simp: list_all_iff)
  show ?thesis
    using g js_count_print [OF assms(1) vs, of t] js_elem_print [OF assms(1) vs, of t] assms(4-7)
    by (simp add: js_hex_print)
qed

theorem js_array_correct_witness:
  "\<exists>a e. js_get (print [] (JObj [(''params'', JArr [JRaw ''1'', JStr (bin2hex [0xAB, 0x01])])]) @ []) ''params'' = Some a \<and>
     js_count a = 2 \<and> js_elem a 2 = None \<and> js_elem a 1 = Some e \<and> js_hex e [7, 7, 7] = (True, [0xAB, 0x01, 7], Some 2)"
  using js_array_correct [of "[]" "[(''params'', JArr [JRaw ''1'', JStr (bin2hex [0xAB, 0x01])])]" "''params''"
      "[JRaw ''1'', JStr (bin2hex [0xAB, 0x01])]" 1 "[0xAB, 0x01]" "[7, 7, 7]" "[]"]
  by (simp add: wsp_def js_space_def raw_ok_def js_delim_def plain_esc_ok plain_bin2hex numeral_2_eq_2)

end
