(* ===== verification/Cdouble.thy ===== *)
theory Cdouble
  imports Json "HOL-Library.Log_Nat"
begin

text \<open>
  The floating-point part of \<^verbatim>\<open>src/miner/stratum.c\<close>: \<^verbatim>\<open>js_num\<close>, that is \<^verbatim>\<open>strtod\<close> in the C locale, the
  IEEE 754 double arithmetic of \<^verbatim>\<open>stratum_target_full\<close>, and the casts.  A finite double is the rational
  it denotes (the sign of zero is never observed), rounding is to nearest, ties to even, with
  subnormals and overflow.  A cast of a value outside the range of the integer type, and an
  \<^verbatim>\<open>atoi\<close> that overflows, have no meaning in C: what they give is the parameter \<open>platform\<close>.
\<close>

section \<open>Doubles\<close>

datatype cdouble = Fin rat | Inf bool | NaN

definition pow_rat :: "nat \<Rightarrow> int \<Rightarrow> rat" where
  "pow_rat b k = (if 0 \<le> k then of_nat b ^ nat k else 1 / of_nat b ^ nat (- k))"

definition log2_floor :: "rat \<Rightarrow> int" where
  "log2_floor x =
     (let (n, d) = quotient_of x; e = int (floorlog 2 (nat n)) - int (floorlog 2 (nat d)) in
      if pow_rat 2 e \<le> x then e else e - 1)"

definition round_even :: "rat \<Rightarrow> int" where
  "round_even x =
     (let f = \<lfloor>x\<rfloor>; r = x - of_int f in
      if r < 1 / 2 then f else if r > 1 / 2 then f + 1 else if even f then f else f + 1)"

definition to_double :: "rat \<Rightarrow> cdouble" where
  "to_double x =
     (if x = 0 then Fin 0
      else let q = max (log2_floor \<bar>x\<bar> - 52) (-1074);
               r = of_int (round_even (x / pow_rat 2 q)) * pow_rat 2 q in
           if \<bar>r\<bar> \<ge> pow_rat 2 1024 then Inf (x < 0) else Fin r)"

text \<open>The operations the code applies, each with a finite non-zero constant.\<close>

fun dmul :: "cdouble \<Rightarrow> rat \<Rightarrow> cdouble" where
  "dmul (Fin x) c = to_double (x * c)"
| "dmul (Inf s) c = Inf (s \<noteq> (c < 0))"
| "dmul NaN c = NaN"

fun dadd :: "cdouble \<Rightarrow> rat \<Rightarrow> cdouble" where
  "dadd (Fin x) c = to_double (x + c)"
| "dadd (Inf s) c = Inf s"
| "dadd NaN c = NaN"

fun dless :: "cdouble \<Rightarrow> rat \<Rightarrow> bool" where
  "dless (Fin x) c = (x < c)"
| "dless (Inf s) c = s"
| "dless NaN c = False"

fun dgreater :: "cdouble \<Rightarrow> rat \<Rightarrow> bool" where
  "dgreater (Fin x) c = (x > c)"
| "dgreater (Inf s) c = (\<not> s)"
| "dgreater NaN c = False"

definition dle :: "cdouble \<Rightarrow> rat \<Rightarrow> bool" where
  "dle x c \<longleftrightarrow> dless x c \<or> x = Fin c"

definition dge :: "cdouble \<Rightarrow> rat \<Rightarrow> bool" where
  "dge x c \<longleftrightarrow> dgreater x c \<or> x = Fin c"

definition trunc_rat :: "rat \<Rightarrow> int" where
  "trunc_rat x = (if 0 \<le> x then \<lfloor>x\<rfloor> else - \<lfloor>- x\<rfloor>)"

record platform =
  ub_u64 :: "cdouble \<Rightarrow> u64"
  ub_int :: "cdouble \<Rightarrow> int"
  ub_atoi :: "string \<Rightarrow> int"

definition to_u64 :: "platform \<Rightarrow> cdouble \<Rightarrow> u64" where
  "to_u64 pf x =
     (case x of
        Fin r \<Rightarrow> if -1 < r \<and> r < 2 ^ 64 then of_int (trunc_rat r) else ub_u64 pf x
      | _ \<Rightarrow> ub_u64 pf x)"

definition to_int :: "platform \<Rightarrow> cdouble \<Rightarrow> int" where
  "to_int pf x =
     (case x of
        Fin r \<Rightarrow> if - (2 ^ 31) - 1 < r \<and> r < 2 ^ 31 then trunc_rat r else ub_int pf x
      | _ \<Rightarrow> ub_int pf x)"

section \<open>strtod\<close>

definition c_isspace :: "char \<Rightarrow> bool" where
  "c_isspace c \<longleftrightarrow> js_space c \<or> c = CHR 0x0B \<or> c = CHR 0x0C"

definition is_digit :: "char \<Rightarrow> bool" where
  "is_digit c \<longleftrightarrow> ch CHR ''0'' \<le> ch c \<and> ch c \<le> ch CHR ''9''"

definition is_xdigit :: "char \<Rightarrow> bool" where
  "is_xdigit c \<longleftrightarrow> hexval c \<ge> 0"

definition digits_val :: "nat \<Rightarrow> string \<Rightarrow> nat" where
  "digits_val b ds = foldl (\<lambda>v c. v * b + nat (hexval c)) 0 ds"

definition ci_prefix :: "string \<Rightarrow> string \<Rightarrow> string \<Rightarrow> bool" where
  "ci_prefix lo up p \<longleftrightarrow> length p \<ge> length lo \<and> list_all2 (\<lambda>c (l, u). c = l \<or> c = u) (take (length lo) p) (zip lo up)"

definition sign_of :: "string \<Rightarrow> bool \<times> string" where
  "sign_of p = (if starts (CHR ''-'') p then (True, tl p) else if starts (CHR ''+'') p then (False, tl p) else (False, p))"

definition fraction :: "(char \<Rightarrow> bool) \<Rightarrow> string \<Rightarrow> string \<times> string" where
  "fraction P p = (if starts (CHR ''.'') p then (takeWhile P (tl p), dropWhile P (tl p)) else ([], p))"

definition exponent :: "char \<Rightarrow> char \<Rightarrow> string \<Rightarrow> int" where
  "exponent lo up p =
     (if starts lo p \<or> starts up p then
        let (neg, q) = sign_of (tl p); n = int (digits_val 10 (takeWhile is_digit q)) in if neg then - n else n
      else 0)"

definition scan_number :: "nat \<Rightarrow> (char \<Rightarrow> bool) \<Rightarrow> char \<Rightarrow> char \<Rightarrow> nat \<Rightarrow> nat \<Rightarrow> string \<Rightarrow> rat option" where
  "scan_number b P lo up eb fb p =
     (let ip = takeWhile P p; (fp, r) = fraction P (dropWhile P p) in
      if ip = [] \<and> fp = [] then None
      else Some (of_nat (digits_val b (ip @ fp)) * pow_rat eb (exponent lo up r) * pow_rat fb (- int (length fp))))"

definition strtod :: "string \<Rightarrow> cdouble" where
  "strtod p =
     (let (neg, p) = sign_of (dropWhile c_isspace p) in
      if ci_prefix ''inf'' ''INF'' p then Inf neg
      else if ci_prefix ''nan'' ''NAN'' p then NaN
      else
        let hex = (if ci_prefix ''0x'' ''0X'' p then scan_number 16 is_xdigit (CHR ''p'') (CHR ''P'') 2 16 (drop 2 p) else None);
            x = (case hex of
                   Some x \<Rightarrow> x
                 | None \<Rightarrow> (case scan_number 10 is_digit (CHR ''e'') (CHR ''E'') 10 10 p of Some x \<Rightarrow> x | None \<Rightarrow> 0))
        in to_double (if neg then - x else x))"

definition js_num :: "string \<Rightarrow> cdouble" where
  "js_num v = strtod (js_ws v)"

definition atoi :: "platform \<Rightarrow> string \<Rightarrow> int" where
  "atoi pf t =
     (let (neg, q) = sign_of (dropWhile c_isspace t); n = int (digits_val 10 (takeWhile is_digit q));
          v = (if neg then - n else n)
      in if - (2 ^ 31) \<le> v \<and> v < 2 ^ 31 then v else ub_atoi pf t)"

section \<open>Small integers are exact\<close>

lemma pow_rat_pos [simp]: "0 < b \<Longrightarrow> 0 < pow_rat b k"
  by (simp add: pow_rat_def)

lemma pow_rat_0 [simp]: "pow_rat b 0 = 1"
  by (simp add: pow_rat_def)

lemma pow_rat_2_mono: "j \<le> k \<Longrightarrow> pow_rat 2 j \<le> pow_rat 2 k"
proof -
  have e: "pow_rat 2 i = 2 powi i" for i
    by (simp add: pow_rat_def power_int_def field_simps)
  show "j \<le> k \<Longrightarrow> ?thesis" unfolding e by (intro power_int_increasing) simp_all
qed

lemma pow_rat_diff: "pow_rat 2 (int m - int n) = 2 ^ m / 2 ^ n"
proof (cases "n \<le> m")
  case True
  then show ?thesis by (simp add: pow_rat_def power_diff nat_diff_distrib)
next
  case False
  then show ?thesis by (simp add: pow_rat_def power_diff nat_diff_distrib field_simps)
qed

lemma log2_floor_le:
  assumes "0 < x"
  shows "pow_rat 2 (log2_floor x) \<le> x"
proof -
  obtain n d where q: "quotient_of x = (n, d)" by fastforce
  have d: "d > 0" using quotient_of_denom_pos [OF q] .
  have x: "x = of_int n / of_int d" using quotient_of_div [OF q] .
  then have n: "n > 0" using assms d by (simp add: zero_less_divide_iff)
  define N D where "N = nat n" "D = nat d"
  have ND: "N > 0" "D > 0" "x = of_nat N / of_nat D" using n d x by (simp_all add: N_D_def)
  define a b where "a = floorlog 2 N" "b = floorlog 2 D"
  have a: "a > 0" "2 ^ (a - 1) \<le> N" using floorlog_bounds [of N 2] ND by (simp_all add: a_b_def floorlog_def)
  have b: "D < 2 ^ b" using floorlog_bounds [of D 2] ND by (simp add: a_b_def)
  have "pow_rat 2 (int a - int b - 1) \<le> x"
  proof -
    have "pow_rat 2 (int a - int b - 1) = 2 ^ (a - 1) / 2 ^ b"
      using pow_rat_diff [of "a - 1" b] a(1) by (simp add: algebra_simps)
    also have "\<dots> \<le> of_nat N / of_nat D"
    proof (rule frac_le)
      show "(2::rat) ^ (a - 1) \<le> of_nat N" using a(2) by (metis of_nat_le_iff of_nat_numeral of_nat_power)
      show "of_nat D \<le> (2::rat) ^ b" using b by (metis less_imp_le of_nat_le_iff of_nat_numeral of_nat_power)
    qed (use ND in auto)
    finally show ?thesis using ND by simp
  qed
  then show ?thesis by (simp add: log2_floor_def q N_D_def [symmetric] a_b_def [symmetric] Let_def)
qed

lemma round_even_int [simp]: "round_even (of_int i) = i"
  by (simp add: round_even_def)

lemma to_double_int:
  assumes "n < 2 ^ 53"
  shows "to_double (of_nat n) = Fin (of_nat n)"
proof (cases "n = 0")
  case True
  then show ?thesis by (simp add: to_double_def)
next
  case False
  define e where "e = log2_floor (of_nat n)"
  have le: "pow_rat 2 e \<le> of_nat n" unfolding e_def using False by (intro log2_floor_le) simp
  have "e \<le> 52"
  proof (rule ccontr)
    assume "\<not> e \<le> 52"
    then have "pow_rat 2 53 \<le> pow_rat 2 e" by (intro pow_rat_2_mono) simp
    with le have "(2::rat) ^ 53 \<le> of_nat n" by (simp add: pow_rat_def)
    then have "(of_nat (2 ^ 53) :: rat) \<le> of_nat n" by simp
    with assms show False by (simp only: of_nat_le_iff)
  qed
  define q where "q = max (e - 52) (-1074)"
  have q: "q \<le> 0" using \<open>e \<le> 52\<close> by (simp add: q_def)
  have "of_nat n / pow_rat 2 q = (of_int (int n * 2 ^ nat (- q)) :: rat)"
    using q by (auto simp: pow_rat_def)
  then have r: "of_int (round_even (of_nat n / pow_rat 2 q)) * pow_rat 2 q = (of_nat n :: rat)"
    using q by (simp only: round_even_int) (simp add: pow_rat_def)
  have "(of_nat n :: rat) < of_nat (2 ^ 53)" using assms by (simp only: of_nat_less_iff)
  also have "\<dots> \<le> pow_rat 2 1024" using pow_rat_2_mono [of 53 1024] by (simp add: pow_rat_def)
  finally show ?thesis using False r
    by (simp add: to_double_def e_def [symmetric] q_def [symmetric] Let_def)
qed

section \<open>Decimal numbers\<close>

text \<open>What \<^verbatim>\<open>%llu\<close> prints.\<close>

function dec :: "nat \<Rightarrow> string" where
  "dec n = (if n < 10 then [HEXDIGITS ! n] else dec (n div 10) @ [HEXDIGITS ! (n mod 10)])"
  by pat_completeness auto
termination by (relation "measure id") auto

declare dec.simps [simp del]

lemma decimal_digit: "k < 10 \<Longrightarrow> is_digit (HEXDIGITS ! k) \<and> hexval (HEXDIGITS ! k) = int k"
proof -
  have "\<forall>k\<in>set [0..<10]. is_digit (HEXDIGITS ! k) \<and> hexval (HEXDIGITS ! k) = int k" by code_simp
  then show "k < 10 \<Longrightarrow> ?thesis" by simp
qed

lemma dec_digits: "list_all is_digit (dec n)"
proof (induction n rule: dec.induct)
  case (1 n)
  then show ?case by (subst dec.simps) (simp add: decimal_digit)
qed

lemma dec_val [simp]: "digits_val 10 (dec n) = n"
proof (induction n rule: dec.induct)
  case (1 n)
  then show ?case by (subst dec.simps) (simp add: digits_val_def decimal_digit)
qed

lemma dec_nonempty [simp]: "dec n \<noteq> []"
  by (subst dec.simps) simp

lemma dec_head: "dec n = c # cs \<Longrightarrow> c = CHR ''0'' \<Longrightarrow> cs = []"
proof (induction n arbitrary: cs rule: dec.induct)
  case (1 n)
  show ?case
  proof (cases "n < 10")
    case False
    then obtain ds where d: "dec (n div 10) = c # ds" "cs = ds @ [HEXDIGITS ! (n mod 10)]"
      using "1.prems"(1) by (subst (asm) dec.simps) (cases "dec (n div 10)"; simp)
    then have "ds = []" using 1(1) False "1.prems"(2) by blast
    then have "n div 10 = 0" using d(1) "1.prems"(2) dec_val [of "n div 10"] by (simp add: digits_val_def hexval_def)
    then show ?thesis using False by simp
  qed (use "1.prems" in \<open>subst (asm) dec.simps; simp\<close>)
qed

lemma digit_chars:
  assumes "is_digit c"
  shows "\<not> c_isspace c" "c \<noteq> CHR ''-''" "c \<noteq> CHR ''+''" "c \<notin> {CHR ''i'', CHR ''I'', CHR ''n'', CHR ''N''}" "\<not> js_delim c"
  using assms by (auto simp: is_digit_def c_isspace_def js_space_def js_delim_def)

lemma delim_chars:
  assumes "js_delim c"
  shows "\<not> is_digit c" "c \<notin> {CHR ''.'', CHR ''e'', CHR ''E'', CHR ''x'', CHR ''X''}"
  using assms by (auto simp: is_digit_def js_space_def js_delim_def)

lemma strtod_dec:
  assumes "n < 2 ^ 53" and r: "ends r"
  shows "strtod (dec n @ r) = Fin (of_nat n)"
proof -
  obtain c cs where d: "dec n = c # cs" by (cases "dec n") auto
  have c: "is_digit c" using dec_digits [of n] d by simp
  have tw: "takeWhile is_digit (dec n @ r) = dec n" "dropWhile is_digit (dec n @ r) = r"
    using dec_digits [of n] r delim_chars(1)
    by (cases r; simp add: list_all_iff ends_def)+
  have sg: "sign_of (dropWhile c_isspace (dec n @ r)) = (False, dec n @ r)"
    using digit_chars [OF c] by (simp add: d sign_of_def)
  have nin: "\<not> ci_prefix ''inf'' ''INF'' (dec n @ r)" "\<not> ci_prefix ''nan'' ''NAN'' (dec n @ r)"
    using digit_chars [OF c] by (auto simp: d ci_prefix_def)
  have nx: "\<not> ci_prefix ''0x'' ''0X'' (dec n @ r)"
  proof
    assume "ci_prefix ''0x'' ''0X'' (dec n @ r)"
    then have z: "c = CHR ''0''" "take 1 (cs @ r) = ''x'' \<or> take 1 (cs @ r) = ''X''"
      by (auto simp: d ci_prefix_def take_Suc_conv_app_nth list_all2_Cons1 list_all2_Cons2 numeral_2_eq_2 neq_Nil_conv take_Suc split: if_splits)
    then have "cs = []" using dec_head [OF d] by simp
    then show False using z(2) r delim_chars(2) by (cases r) (auto simp: ends_def)
  qed
  have fr: "fraction is_digit r = ([], r)" "exponent (CHR ''e'') (CHR ''E'') r = 0"
    using r delim_chars(2) by (cases r; auto simp: fraction_def exponent_def ends_def)+
  show ?thesis
    by (simp add: strtod_def sg nin nx scan_number_def tw fr Let_def to_double_int [OF assms(1)])
qed

lemma js_num_dec:
  assumes "n < 2 ^ 53" and r: "ends r"
  shows "js_num (dec n @ r) = Fin (of_nat n)"
proof -
  obtain c cs where d: "dec n = c # cs" by (cases "dec n") auto
  have "js_ws (dec n @ r) = dec n @ r"
    using dec_digits [of n] digit_chars(1) [of c] d by (intro js_ws_solid) (simp add: solid_def c_isspace_def)
  then show ?thesis using strtod_dec [OF assms] by (simp add: js_num_def)
qed

lemma raw_dec: "raw_ok (dec n)"
  using dec_digits [of n] digit_chars
  by (fastforce simp: raw_ok_def list_all_iff is_digit_def js_delim_def js_space_def)

lemma length_dec: "n < 10 ^ k \<Longrightarrow> 0 < k \<Longrightarrow> length (dec n) \<le> k"
proof (induction k arbitrary: n)
  case (Suc k)
  show ?case
  proof (cases "n < 10")
    case False
    then have "k \<noteq> 0" using Suc.prems by (cases k) auto
    moreover have "n div 10 < 10 ^ k" using Suc.prems(1) by (simp add: less_mult_imp_div_less mult.commute)
    ultimately have "length (dec (n div 10)) \<le> k" using Suc.IH by simp
    then show ?thesis using False by (subst dec.simps) simp
  qed (subst dec.simps, simp)
qed simp

lemma length_dec_u64: "length (dec (unat (i :: u64))) \<le> 20"
proof (rule length_dec)
  have "unat i < 2 ^ 64" using unsigned_less [of i] by simp
  then show "unat i < 10 ^ 20" by (rule less_trans) simp
qed simp

section \<open>Rounding to a double\<close>

lemma log2_floor_less:
  assumes "0 < x"
  shows "x < pow_rat 2 (log2_floor x + 1)"
proof -
  obtain n d where q: "quotient_of x = (n, d)" by fastforce
  have d: "d > 0" using quotient_of_denom_pos [OF q] .
  have x: "x = of_int n / of_int d" using quotient_of_div [OF q] .
  then have n: "n > 0" using assms d by (simp add: zero_less_divide_iff)
  let ?a = "floorlog 2 (nat n)" and ?b = "floorlog 2 (nat d)"
  have "nat n < 2 ^ ?a" using floorlog_bounds [of "nat n" 2] n by simp
  then have "int (nat n) < int (2 ^ ?a)" by (simp only: of_nat_less_iff)
  then have a: "(of_int n :: rat) < 2 ^ ?a" using n by (metis of_int_less_iff of_int_numeral of_int_power of_nat_numeral of_nat_power int_nat_eq less_imp_le)
  have b0: "2 ^ (?b - 1) \<le> nat d" "0 < ?b" using floorlog_bounds [of "nat d" 2] d by (simp_all add: floorlog_eq_zero_iff zero_less_iff_neq_zero)
  then have "int (2 ^ (?b - 1)) \<le> int (nat d)" by (simp only: of_nat_le_iff)
  then have b: "2 ^ (?b - 1) \<le> (of_int d :: rat)" using d by (metis of_int_le_iff of_int_numeral of_int_power of_nat_numeral of_nat_power int_nat_eq less_imp_le)
  have "x < 2 ^ ?a / 2 ^ (?b - 1)" unfolding x using a b d n by (intro frac_less) simp_all
  also have "\<dots> = pow_rat 2 (int ?a - int ?b + 1)" using pow_rat_diff [of ?a "?b - 1"] b0(2) by (simp add: algebra_simps of_nat_diff)
  finally show ?thesis using q by (auto simp: log2_floor_def Let_def)
qed

lemma log2_floor_eq:
  assumes "pow_rat 2 e \<le> x" "x < pow_rat 2 (e + 1)"
  shows "log2_floor x = e"
proof (rule antisym; rule ccontr)
  have x: "0 < x" using assms(1) pow_rat_pos [of 2 e] by linarith
  assume "\<not> log2_floor x \<le> e"
  then have "pow_rat 2 (e + 1) \<le> pow_rat 2 (log2_floor x)" by (intro pow_rat_2_mono) simp
  then show False using log2_floor_le [OF x] assms(2) by linarith
next
  have x: "0 < x" using assms(1) pow_rat_pos [of 2 e] by linarith
  assume "\<not> e \<le> log2_floor x"
  then have "pow_rat 2 (log2_floor x + 1) \<le> pow_rat 2 e" by (intro pow_rat_2_mono) simp
  then show False using log2_floor_less [OF x] assms(1) by linarith
qed

lemma round_even_eq: "\<bar>x - of_int m\<bar> < 1 / 2 \<Longrightarrow> round_even x = m"
proof -
  assume a: "\<bar>x - of_int m\<bar> < 1 / 2"
  then consider "\<lfloor>x\<rfloor> = m" | "\<lfloor>x\<rfloor> = m - 1" by linarith
  moreover have "x - of_int m < 1 / 2" "of_int m - x < 1 / 2" using a by linarith+
  ultimately show ?thesis by cases (auto simp: round_even_def Let_def)
qed

lemma to_double_eval:
  assumes "pow_rat 2 e \<le> x" "x < pow_rat 2 (e + 1)" "-1022 \<le> e" "\<bar>x / pow_rat 2 (e - 52) - of_int m\<bar> < 1 / 2" "of_int m * pow_rat 2 (e - 52) = r" "0 \<le> r" "r < 2 ^ 64"
  shows "to_double x = Fin r"
proof -
  have x: "0 < x" using assms(1) pow_rat_pos [of 2 e] by linarith
  have q: "max (log2_floor \<bar>x\<bar> - 52) (-1074) = e - 52" using log2_floor_eq [OF assms(1,2)] assms(3) x by simp
  have "pow_rat 2 64 \<le> pow_rat 2 1024" by (rule pow_rat_2_mono) simp
  then have "\<not> pow_rat 2 1024 \<le> \<bar>r\<bar>" using assms(6,7) by (simp add: pow_rat_def [of 2 64])
  then show ?thesis unfolding to_double_def q Let_def round_even_eq [OF assms(4)] assms(5) using x by simp
qed

end
