(* ===== verification/Target.thy ===== *)
theory Target
  imports Work_Item
begin

text \<open>
  The share-target arithmetic of \<^verbatim>\<open>src/miner/stratum.c\<close>: difficulty 1, the bit-serial 256-bit
  division by a 64-bit divisor and the 32-bit left shift.  The conversion of the pool's
  floating-point difficulty to the scaled divisor \<^verbatim>\<open>dscaled\<close> is in the theory of the stratum
  session; here the divisor is a parameter.
\<close>

unbundle bit_operations_syntax

definition diff1_target :: bytes where
  "diff1_target = ((replicate 32 0)[4 := 0xff])[5 := 0xff]"

definition bn_div_step :: "bytes \<Rightarrow> u64 \<Rightarrow> u64 \<times> bytes \<Rightarrow> nat \<Rightarrow> u64 \<times> bytes" where
  "bn_div_step inp divisor s i =
     (let (rem, out) = s;
          byte = i div 8;
          b = 7 - i mod 8;
          rem = push_bit 1 rem OR (ucast (drop_bit b (inp ! byte)) AND 1)
      in if rem \<ge> divisor then (rem - divisor, out[byte := out ! byte OR push_bit b 1])
         else (rem, out))"

definition bn_div_u64 :: "bytes \<Rightarrow> u64 \<Rightarrow> bytes" where
  "bn_div_u64 inp divisor =
     (if divisor = 0 then replicate 32 0
      else snd (foldl (bn_div_step inp divisor) (0, replicate 32 0) [0..<256]))"

definition bn_shl32 :: "bytes \<Rightarrow> bytes" where
  "bn_shl32 inp = take 28 (drop 4 inp) @ replicate 4 0"

definition target_of_divisor :: "u64 \<Rightarrow> bytes" where
  "target_of_divisor dscaled = bn_shl32 (bn_div_u64 diff1_target dscaled)"

section \<open>Long division\<close>

lemma shift_in_bit:
  fixes rem :: u64
  assumes "unat rem < 2 ^ 63"
  shows "unat (push_bit 1 rem OR (ucast (drop_bit b (x :: u8)) AND 1)) = 2 * unat rem + of_bool (bit x b)"
proof -
  have o: "(ucast (drop_bit b x) AND 1 :: u64) = of_bool (bit x b)"
    by (rule bit_word_eqI) (auto simp: bit_simps)
  have "push_bit 1 rem OR of_bool (bit x b) = push_bit 1 rem + of_bool (bit x b)"
    by (rule disjunctive_add [symmetric]) (simp only: bit_push_bit_iff bit_of_bool_iff, simp)
  then show ?thesis using assms unfolding o by (auto simp: push_bit_eq_mult unat_word_ariths)
qed

text \<open>After \<open>i\<close> bits: the remainder and the quotient of the top \<open>i\<close> bits of the input.\<close>

definition div_inv :: "bytes \<Rightarrow> u64 \<Rightarrow> nat \<Rightarrow> u64 \<times> bytes \<Rightarrow> bool" where
  "div_inv inp d i s \<longleftrightarrow> unat (fst s) = be_val inp div 2 ^ (256 - i) mod unat d \<and>
     length (snd s) = 32 \<and> be_val (snd s) = be_val inp div 2 ^ (256 - i) div unat d * 2 ^ (256 - i)"

lemma quotient_step:
  fixes V d :: nat
  assumes "0 < d" and "V = 2 * U + c" and "c \<le> 1"
  shows "V div d = 2 * (U div d) + of_bool (2 * (U mod d) + c \<ge> d)"
    and "V mod d = 2 * (U mod d) + c - (if 2 * (U mod d) + c \<ge> d then d else 0)"
proof -
  let ?r = "2 * (U mod d) + c"
  have "d * (2 * a) + (2 * b + c) = 2 * (d * a + b) + c" for a b by (simp add: algebra_simps)
  then have "d * (2 * (U div d)) + ?r = 2 * (d * (U div d) + U mod d) + c" .
  then have V: "V = d * (2 * (U div d)) + ?r" using assms(2) by (simp only: mult_div_mod_eq)
  have rl: "?r < 2 * d" using assms(1,3) mod_less_divisor [OF assms(1), of U] by linarith
  have q: "?r div d = of_bool (?r \<ge> d)" "?r mod d = ?r - (if ?r \<ge> d then d else 0)"
  proof -
    have "?r div d = 1" "?r mod d = ?r - d" if "d \<le> ?r"
      using that rl assms(1) by (simp_all add: le_div_geq le_mod_geq)
    then show "?r div d = of_bool (?r \<ge> d)" "?r mod d = ?r - (if ?r \<ge> d then d else 0)"
      by (cases "d \<le> ?r"; simp)+
  qed
  show "V div d = 2 * (U div d) + of_bool (2 * (U mod d) + c \<ge> d)"
    using assms(1) by (simp add: V q(1) del: of_bool_eq)
  show "V mod d = 2 * (U mod d) + c - (if 2 * (U mod d) + c \<ge> d then d else 0)"
    unfolding V by (simp only: mod_mult_self4 q(2))
qed

lemma div_inv_step:
  assumes inv: "div_inv inp d i s" and len: "length inp = 32" and i: "i < 256"
    and d: "0 < unat d" "unat d \<le> 2 ^ 63"
  shows "div_inv inp d (Suc i) (bn_div_step inp d s i)"
proof -
  obtain rem out where s: "s = (rem, out)" by (cases s)
  define p U V x where "p = 255 - i" and "U = be_val inp div 2 ^ (256 - i)"
    and "V = be_val inp div 2 ^ (256 - Suc i)" and "x = bit (be_val inp) (255 - i)"
  have e: "256 - i = Suc p" "256 - Suc i = p" "p < 256" using i by (simp_all add: p_def)
  have r: "unat rem = U mod unat d" and lo: "length out = 32" and o: "be_val out = U div unat d * 2 ^ Suc p"
    using inv by (simp_all add: div_inv_def s U_def e)
  have V: "V = 2 * U + of_bool x"
  proof -
    have "V div 2 = U" by (simp only: V_def U_def e power_Suc2 div_mult2_eq)
    moreover have "V mod 2 = of_bool x" by (simp add: V_def x_def e bit_iff_odd p_def mod_2_eq_odd)
    ultimately show ?thesis by (metis mult_div_mod_eq)
  qed
  have pos: "i div 8 = 31 - p div 8" "7 - i mod 8 = p mod 8"
  proof -
    have "i = 8 * (i div 8) + i mod 8" "i div 8 \<le> 31" "i mod 8 \<le> 7" using i by simp_all
    then have "p = 8 * (31 - i div 8) + (7 - i mod 8)" unfolding p_def by linarith
    moreover have "7 - i mod 8 < 8" by simp
    ultimately have "p div 8 = 31 - i div 8 \<and> p mod 8 = 7 - i mod 8"
      by (metis add.right_neutral div_less div_mult_self4 mod_less mod_mult_self4 zero_neq_numeral)
    then show "i div 8 = 31 - p div 8" "7 - i mod 8 = p mod 8" using i by simp_all
  qed
  define rem' where "rem' = push_bit 1 rem OR (ucast (drop_bit (7 - i mod 8) (inp ! (i div 8))) AND 1)"
  have "unat rem < 2 ^ 63" using r d mod_less_divisor [OF d(1), of U] by linarith
  moreover have "bit (inp ! (i div 8)) (7 - i mod 8) = x"
    using bit_be_val [OF len e(3)] by (simp add: x_def pos p_def)
  ultimately have r': "unat rem' = 2 * (U mod unat d) + of_bool x"
    using shift_in_bit [of rem "7 - i mod 8" "inp ! (i div 8)"] by (simp add: rem'_def r del: of_bool_eq)
  have q: "V div unat d = 2 * (U div unat d) + of_bool (d \<le> rem')"
    "V mod unat d = unat rem' - (if d \<le> rem' then unat d else 0)"
    using quotient_step [OF d(1) V] by (simp_all add: word_le_nat_alt r')
  have goal: "div_inv inp d (Suc i) t \<longleftrightarrow>
      unat (fst t) = V mod unat d \<and> length (snd t) = 32 \<and> be_val (snd t) = V div unat d * 2 ^ p" for t
    by (simp only: div_inv_def V_def e)
  have step: "bn_div_step inp d s i =
      (if rem' \<ge> d then (rem' - d, out[31 - p div 8 := out ! (31 - p div 8) OR push_bit (p mod 8) 1]) else (rem', out))"
    by (simp add: bn_div_step_def s rem'_def Let_def pos)
  have clear: "\<not> bit (be_val out) p" by (simp add: o bit_iff_odd)
  show ?thesis
  proof (cases "rem' \<ge> d")
    case True
    have "unat (rem' - d) = unat rem' - unat d" using True by (simp add: unat_sub_if' word_le_nat_alt)
    then show ?thesis
      using True q lo set_bit_be_val [OF lo e(3) clear] unfolding goal step
      by (simp add: o algebra_simps)
  next
    case False
    then show ?thesis using q lo unfolding goal step by (simp add: o algebra_simps)
  qed
qed

lemma bn_div_u64_spec:
  assumes len: "length inp = 32" and d: "0 < unat d" "unat d \<le> 2 ^ 63"
  shows "length (bn_div_u64 inp d) = 32 \<and> be_val (bn_div_u64 inp d) = be_val inp div unat d"
proof -
  have "div_inv inp d n (foldl (bn_div_step inp d) (0, replicate 32 0) [0..<n])" if "n \<le> 256" for n
    using that
  proof (induction n)
    case 0
    have "be_val inp < 256 ^ 32" using be_val_less [of inp] len by simp
    then have "be_val inp div 2 ^ 256 = 0" by simp
    then show ?case by (simp add: div_inv_def del: power_numeral)
  next
    case (Suc n)
    then show ?case using div_inv_step [OF _ len _ d, of n] by simp
  qed
  from this [of 256] show ?thesis using d by (auto simp: div_inv_def bn_div_u64_def)
qed

lemma be_val_shl32:
  assumes "length q = 32"
  shows "length (bn_shl32 q) = 32 \<and> be_val (bn_shl32 q) = be_val q * 2 ^ 32 mod 2 ^ 256"
proof -
  have "be_val q = be_val (take 4 q) * 256 ^ 28 + be_val (drop 4 q)"
    using be_val_append [of "take 4 q" "drop 4 q"] assms by simp
  moreover have "be_val (drop 4 q) < 256 ^ 28" using be_val_less [of "drop 4 q"] assms by simp
  ultimately have "be_val q * 2 ^ 32 mod 2 ^ 256 = be_val (drop 4 q) * 2 ^ 32" by simp
  moreover have "be_val (bn_shl32 q) = be_val (drop 4 q) * 2 ^ 32"
    using assms be_val_replicate_0 [of 4] by (simp add: bn_shl32_def be_val_append)
  ultimately show ?thesis using assms by (simp add: bn_shl32_def)
qed

lemma diff1_value: "length diff1_target = 32 \<and> be_val diff1_target = 0xffff * 2 ^ 208"
proof -
  have "diff1_target = replicate 4 0 @ [0xff, 0xff] @ replicate 26 0"
    by (simp add: diff1_target_def numeral_eq_Suc)
  moreover have "be_val (replicate 4 0 @ [0xff, 0xff] @ replicate 26 0) = 0xffff * 2 ^ 208"
    by (simp only: be_val_append be_val_replicate_0) (simp add: be_val_Cons)
  ultimately show ?thesis by (simp add: diff1_target_def)
qed

lemma div_cancel_outer: "0 < c \<Longrightarrow> c * M div d div c = M div d" for c M d :: nat
  by (metis div_mult2_eq mult.commute nonzero_mult_div_cancel_left not_gr0)

lemma target_of_divisor_spec:
  assumes d: "0 < unat d" "unat d \<le> 2 ^ 63"
  shows "length (target_of_divisor d) = 32 \<and>
         be_val (target_of_divisor d) = (0xffff * 2 ^ 208) div unat d * 2 ^ 32"
proof -
  note q = bn_div_u64_spec [OF _ d, of diff1_target]
  let ?q = "(0xffff * 2 ^ 208) div unat d"
  have v: "length (bn_div_u64 diff1_target d) = 32" "be_val (bn_div_u64 diff1_target d) = ?q"
    using q diff1_value by simp_all
  have "?q < 2 ^ 224" by (rule le_less_trans [OF div_le_dividend]) simp
  then have "?q * 2 ^ 32 < 2 ^ 224 * 2 ^ 32" by (rule mult_less_mono1) simp
  also have "(2::nat) ^ 224 * 2 ^ 32 = 2 ^ 256" by simp
  finally have "?q * 2 ^ 32 mod 2 ^ 256 = ?q * 2 ^ 32" by (rule mod_less)
  then show ?thesis using be_val_shl32 [OF v(1)] unfolding target_of_divisor_def v(2) by (simp only:)
qed

section \<open>Properties\<close>

text \<open>
  the bit-serial divider is exact: for every 256-bit input and every divisor up to \<open>2^63\<close> (so
  that the shifted remainder cannot leave 64 bits) the output is the big-endian quotient.
\<close>

theorem bn_div_u64_correct:
  assumes "length inp = 32" and "0 < unat d" and "unat d \<le> 2 ^ 63"
  shows "length (bn_div_u64 inp d) = 32 \<and> be_val (bn_div_u64 inp d) = be_val inp div unat d"
  using assms by (rule bn_div_u64_spec)

theorem bn_div_u64_correct_witness:
  "be_val (bn_div_u64 (replicate 32 0xff) 1000003) = be_val (replicate 32 0xff) div unat (1000003 :: u64)"
  using bn_div_u64_correct [of "replicate 32 0xff" 1000003] by simp

text \<open>
  C39: the share target.  For a scaled difficulty \<open>d = difficulty * 2^32\<close> up to \<open>2^63\<close>, the target the
  shares are judged by is the exact quotient \<open>E\<close> of difficulty 1 by the difficulty with its low 32
  bits cleared; so it never accepts what the exact target rejects, and its top 64 bits, the
  word the FPGA filters with, are those of \<open>E\<close>.
\<close>

theorem share_target_exact_up_to_32_bits:
  assumes "0 < unat d" and "unat d \<le> 2 ^ 63"
  shows "be_val (target_of_divisor d) = (0xffff * 2 ^ 240) div unat d - (0xffff * 2 ^ 240) div unat d mod 2 ^ 32 \<and>
         unat (top64 (target_of_divisor d)) = (0xffff * 2 ^ 240) div unat d div 2 ^ 192"
proof -
  let ?E = "(0xffff * 2 ^ 240) div unat d" and ?q = "(0xffff * 2 ^ 208) div unat d"
  note spec = target_of_divisor_spec [OF assms]
  have E: "?E div 2 ^ 32 = ?q"
  proof -
    have "(0xffff * 2 ^ 240 :: nat) = 2 ^ 32 * (0xffff * 2 ^ 208)" by simp
    then show ?thesis by (simp only: div_cancel_outer zero_less_power zero_less_numeral)
  qed
  then have "?q * 2 ^ 32 = ?E - ?E mod 2 ^ 32" by (simp only: minus_mod_eq_div_mult)
  moreover have "(?q * 2 ^ 32) div 2 ^ 192 = ?E div 2 ^ 192"
  proof -
    have "(2::nat) ^ 192 = 2 ^ 32 * 2 ^ 160" by simp
    moreover have "x * 2 ^ 32 div (2 ^ 32 * 2 ^ 160) = x div 2 ^ 160" for x :: nat
      by (metis div_mult2_eq nonzero_mult_div_cancel_right power_not_zero zero_neq_numeral)
    ultimately show ?thesis using E by (metis div_mult2_eq)
  qed
  ultimately show ?thesis using spec unat_top64 [of "target_of_divisor d"] by (simp only:)
qed

theorem share_target_exact_up_to_32_bits_witness:
  "unat (top64 (target_of_divisor 0x2000000000)) = (0xffff * 2 ^ 240) div 0x2000000000 div 2 ^ 192"
  using share_target_exact_up_to_32_bits [of "0x2000000000"] by simp

end
