(* ===== verification/Stratum.thy ===== *)
theory Stratum
  imports Cdouble Target Sia_Stratum
begin

text \<open>
  The pool session of \<^verbatim>\<open>src/miner/stratum.c\<close>.  The record \<open>stratum\<close> is \<^verbatim>\<open>stratum_t\<close>: character arrays that
  are only ever written whole by \<^verbatim>\<open>snprintf\<close> are the C string they hold, arrays that a failing scan can
  leave half written (\<open>extranonce1\<close>, \<open>reconnect_host\<close>, \<open>last_reject\<close>) are the whole array, and a write outside one would lose it, and \<open>rx\<close> is the
  first \<^verbatim>\<open>rx_len\<close> bytes of the line buffer.  \<open>sent\<close> is not in the code: it is what \<^verbatim>\<open>send\<close> has accepted so far.
  The operating system is an argument: what \<^verbatim>\<open>send\<close> and \<^verbatim>\<open>recv\<close> return, call by call, and the outcome of
  resolving, opening and connecting.  Logging is left out.
\<close>

section \<open>State\<close>

definition BACKOFF_MIN_S :: u32 where "BACKOFF_MIN_S = 2"
definition BACKOFF_MAX_S :: u32 where "BACKOFF_MAX_S = 120"
definition RX_SIZE :: nat where "RX_SIZE = 262144"

record stratum =
  host :: string
  addr :: string
  port :: int
  worker :: string
  password :: string
  fd :: int
  rx :: string
  extranonce1 :: bytes
  en1_len :: nat
  en2_size :: nat
  difficulty :: cdouble
  job :: stratum_job
  have_job :: bool
  subscribed :: bool
  authorized :: bool
  next_id :: u64
  sub_id :: u64
  auth_id :: u64
  suggest_diff_id :: u64
  backoff_s :: u32
  retry_at :: u64
  reconnect_host :: string
  reconnect_port :: int
  reconnect_pending :: bool
  jobs_received :: u64
  shares_submitted :: u64
  shares_accepted :: u64
  shares_rejected :: u64
  reconnects :: u64
  last_error :: string
  last_reject :: string
  sent :: string

definition snprintf_s :: "nat \<Rightarrow> string \<Rightarrow> string" where
  "snprintf_s n t = take (n - 1) t"

definition zero_job :: stratum_job where
  "zero_job = \<lparr>job_id = [], prevhash = replicate 32 0, coinb1 = [], coinb2 = [], branches = [],
     ntime = replicate 8 0, nbits = 0, clean = False, seq = 0\<rparr>"

definition stratum_init :: "string option \<Rightarrow> int \<Rightarrow> string option \<Rightarrow> string option \<Rightarrow> stratum" where
  "stratum_init h p w pw =
     \<lparr>host = snprintf_s 192 (case h of Some t \<Rightarrow> t | None \<Rightarrow> []), addr = [], port = p,
      worker = snprintf_s 160 (case w of Some t \<Rightarrow> t | None \<Rightarrow> []),
      password = snprintf_s 160 (case pw of Some t \<Rightarrow> t | None \<Rightarrow> ''x''),
      fd = -1, rx = [], extranonce1 = replicate STRATUM_MAX_EN1 0, en1_len = 0, en2_size = 8,
      difficulty = Fin 1, job = zero_job, have_job = False, subscribed = False, authorized = False,
      next_id = 0, sub_id = 0, auth_id = 0, suggest_diff_id = 0, backoff_s = 0, retry_at = 0,
      reconnect_host = replicate 128 (CHR 0x00), reconnect_port = 0, reconnect_pending = False,
      jobs_received = 0, shares_submitted = 0, shares_accepted = 0, shares_rejected = 0, reconnects = 0,
      last_error = [], last_reject = replicate 128 (CHR 0x00), sent = []\<rparr>"

section \<open>Targets\<close>

definition diff_floor :: rat where "diff_floor = 1 / 10 ^ 9"

text \<open>The literal \<^verbatim>\<open>1e-9\<close> is the double nearest to \<open>diff_floor\<close>.\<close>

definition dscaled :: "platform \<Rightarrow> cdouble \<Rightarrow> u64" where
  "dscaled pf x =
     (let lit = (case to_double diff_floor of Fin r \<Rightarrow> r | _ \<Rightarrow> 0);
          d = (if \<not> dgreater x lit then Fin 1 else x);
          v = to_u64 pf (dadd (dmul d 4294967296) (1 / 2))
      in if v = 0 then 1 else v)"

definition stratum_target_full :: "platform \<Rightarrow> stratum \<Rightarrow> bytes" where
  "stratum_target_full pf s = target_of_divisor (dscaled pf (difficulty s))"

definition stratum_target_top64 :: "platform \<Rightarrow> stratum \<Rightarrow> u64" where
  "stratum_target_top64 pf s = top64 (stratum_target_full pf s)"

section \<open>The socket\<close>

definition stratum_drop :: "string option \<Rightarrow> stratum \<Rightarrow> stratum" where
  "stratum_drop why s =
     (let s = s\<lparr>fd := (if fd s \<ge> 0 then -1 else fd s)\<rparr>;
          s = s\<lparr>subscribed := False, authorized := False, have_job := False, rx := []\<rparr>
      in case why of
           None \<Rightarrow> s
         | Some w \<Rightarrow> if w \<noteq> [] then s\<lparr>last_error := snprintf_s 192 w\<rparr> else s)"

definition stratum_close :: "stratum \<Rightarrow> stratum" where
  "stratum_close s = stratum_drop None s"

text \<open>
  One result per call of \<^verbatim>\<open>send\<close>.  A run of the loop that ends uses finitely many; where the list ends
  before the line does, the next call fails.
\<close>

datatype send_res = Sent nat | Send_again | Send_fail

fun send_loop :: "string \<Rightarrow> send_res list \<Rightarrow> string \<times> bool \<times> send_res list" where
  "send_loop [] rs = ([], True, rs)"
| "send_loop (c # l) [] = ([], False, [])"
| "send_loop (c # l) (Send_again # rs) = send_loop (c # l) rs"
| "send_loop (c # l) (Send_fail # rs) = ([], False, rs)"
| "send_loop (c # l) (Sent n # rs) =
     (if n = 0 then ([], False, rs)
      else let (w, ok, rs') = send_loop (drop n (c # l)) rs in (take n (c # l) @ w, ok, rs'))"

definition send_line :: "string \<Rightarrow> send_res list \<Rightarrow> stratum \<Rightarrow> bool \<times> send_res list \<times> stratum" where
  "send_line line rs s =
     (if fd s < 0 then (False, rs, s)
      else let (w, ok, rs) = send_loop line rs; s = s\<lparr>sent := sent s @ w\<rparr> in
           if ok then (True, rs, s) else (False, rs, stratum_drop (Some ''send failed'') s))"

datatype select_res = Writable nat | Select_timeout | Select_failed nat
datatype connect_res = Connected | In_progress select_res | Connect_failed nat

definition ETIMEDOUT :: nat where "ETIMEDOUT = 110"

text \<open>The errno a failed connection is reported with; \<open>None\<close> is success.\<close>

fun connect_errno :: "connect_res \<Rightarrow> nat option" where
  "connect_errno Connected = None"
| "connect_errno (Connect_failed e) = Some e"
| "connect_errno (In_progress (Writable soerr)) = (if soerr \<noteq> 0 then Some soerr else None)"
| "connect_errno (In_progress Select_timeout) = Some ETIMEDOUT"
| "connect_errno (In_progress (Select_failed e)) = Some e"

record dial_env =
  dns_resolve :: "string \<Rightarrow> string + string"
  sock :: "nat + nat"
  pton_ok :: "string \<Rightarrow> bool"
  connects :: "string \<Rightarrow> 16 word \<Rightarrow> connect_res"
  strerror :: "nat \<Rightarrow> string"

definition next_backoff :: "u32 \<Rightarrow> u32" where
  "next_backoff b =
     (let b = (if b \<noteq> 0 then b * 2 else BACKOFF_MIN_S) in if b > BACKOFF_MAX_S then BACKOFF_MAX_S else b)"

definition back_off :: "u64 \<Rightarrow> stratum \<Rightarrow> stratum" where
  "back_off now s =
     (let s = s\<lparr>backoff_s := next_backoff (backoff_s s)\<rparr> in s\<lparr>retry_at := now + ucast (backoff_s s)\<rparr>)"

definition dec_int :: "int \<Rightarrow> string" where
  "dec_int i = (if i < 0 then CHR ''-'' # dec (nat (- i)) else dec (nat i))"

definition subscribe_line :: "u64 \<Rightarrow> string" where
  \<open>subscribe_line i = ''{"id":'' @ dec (unat i) @ '',"method":"mining.subscribe","params":["osprey-blake2b/1.0"]}'' @ [CHR 0x0A]\<close>

definition authorize_line :: "u64 \<Rightarrow> string \<Rightarrow> string \<Rightarrow> string" where
  \<open>authorize_line i w pw = ''{"id":'' @ dec (unat i) @ '',"method":"mining.authorize","params":["'' @ w @ ''","'' @ pw @ ''"]}'' @ [CHR 0x0A]\<close>

definition suggest_line :: "u64 \<Rightarrow> string" where
  \<open>suggest_line i = ''{"id":'' @ dec (unat i) @ '',"method":"mining.suggest_difficulty","params":[32]}'' @ [CHR 0x0A]\<close>

definition handshake :: "send_res list \<Rightarrow> stratum \<Rightarrow> send_res list \<times> stratum" where
  "handshake rs s =
     (let s = s\<lparr>next_id := next_id s + 1\<rparr>; s = s\<lparr>sub_id := next_id s\<rparr>;
          (ok, rs, s) = send_line (snprintf_s 512 (subscribe_line (sub_id s))) rs s
      in if \<not> ok then (rs, s) else
      let s = s\<lparr>next_id := next_id s + 1\<rparr>; s = s\<lparr>auth_id := next_id s\<rparr>;
          (ok, rs, s) = send_line (snprintf_s 512 (authorize_line (auth_id s) (worker s) (password s))) rs s
      in if \<not> ok then (rs, s) else
      let s = s\<lparr>next_id := next_id s + 1\<rparr>; s = s\<lparr>suggest_diff_id := next_id s\<rparr>;
          (ok, rs, s) = send_line (snprintf_s 512 (suggest_line (suggest_diff_id s))) rs s
      in (rs, s))"

text \<open>The connection attempt proper, to address \<open>a\<close>; \<open>own\<close> when \<open>a\<close> is the cached address of the session.\<close>

definition dial_addr :: "dial_env \<Rightarrow> u64 \<Rightarrow> send_res list \<Rightarrow> bool \<Rightarrow> string \<Rightarrow> int \<Rightarrow> string \<Rightarrow> stratum \<Rightarrow> send_res list \<times> stratum" where
  "dial_addr e now rs own h p a s =
     (case sock e of
        Inl er \<Rightarrow> (rs, s\<lparr>last_error := snprintf_s 192 (''socket: '' @ strerror e er)\<rparr>)
      | Inr nfd \<Rightarrow>
          if \<not> pton_ok e a then
            (rs, (if own then s\<lparr>addr := []\<rparr> else s)\<lparr>last_error := ''bad pool address''\<rparr>)
          else (case connect_errno (connects e a (word_of_int p)) of
                  Some er \<Rightarrow>
                    (rs, back_off now (s\<lparr>last_error := snprintf_s 192
                       (''connect '' @ take 120 h @ CHR '':'' # dec_int p @ '': '' @ strerror e er)\<rparr>))
                | None \<Rightarrow>
                    handshake rs (s\<lparr>fd := int nfd, rx := [], backoff_s := 0, reconnects := reconnects s + 1\<rparr>)))"

definition dial :: "dial_env \<Rightarrow> u64 \<Rightarrow> send_res list \<Rightarrow> stratum \<Rightarrow> send_res list \<times> stratum" where
  "dial e now rs s =
     (if now < retry_at s then (rs, s)
      else
        let own = (\<not> reconnect_pending s);
            h = (if own then host s else cstr (reconnect_host s));
            p = (if own then port s else reconnect_port s);
            a = (if own then addr s else []);
            s = s\<lparr>reconnect_pending := False\<rparr>
        in if a = [] then
             (case dns_resolve e h of
                Inl err \<Rightarrow>
                  (rs, back_off now ((if own then s\<lparr>addr := []\<rparr> else s)\<lparr>last_error := snprintf_s 192 err\<rparr>))
              | Inr a \<Rightarrow> dial_addr e now rs own h p a (if own then s\<lparr>addr := a\<rparr> else s))
           else dial_addr e now rs own h p a s)"

section \<open>Dispatch\<close>

definition on_subscribe :: "platform \<Rightarrow> string \<Rightarrow> stratum \<Rightarrow> stratum" where
  "on_subscribe pf result s =
     (case (js_elem result 1, js_elem result 2) of
        (Some en1, Some sz) \<Rightarrow>
          (case js_hex en1 (extranonce1 s) of
             (False, buf, _) \<Rightarrow> s\<lparr>extranonce1 := buf\<rparr>
           | (True, buf, n) \<Rightarrow>
               let s = s\<lparr>extranonce1 := buf, en1_len := the n\<rparr>; n = js_num sz in
               if dless n 1 \<or> dgreater n (of_nat STRATUM_MAX_EN2) then s
               else s\<lparr>en2_size := unat (to_u64 pf n), subscribed := True\<rparr>)
      | _ \<Rightarrow> s)"

text \<open>A hexadecimal parameter of at most \<open>n\<close> bytes, read into a local array.\<close>

definition hex_upto :: "string \<Rightarrow> nat \<Rightarrow> bytes option" where
  "hex_upto v n = (case js_hex v (replicate n 0) of (True, buf, Some k) \<Rightarrow> Some (take k buf) | _ \<Rightarrow> None)"

definition hex_exact :: "string \<Rightarrow> nat \<Rightarrow> bytes option" where
  "hex_exact v n = (case hex_upto v n of Some b \<Rightarrow> if length b = n then Some b else None | None \<Rightarrow> None)"

fun branch_loop :: "string \<Rightarrow> nat \<Rightarrow> nat \<Rightarrow> bytes list option" where
  "branch_loop p_br i 0 = Some []"
| "branch_loop p_br i (Suc k) =
     (case js_elem p_br i of
        None \<Rightarrow> None
      | Some e \<Rightarrow> (case hex_exact e 32 of
                     None \<Rightarrow> None
                   | Some b \<Rightarrow> map_option (Cons b) (branch_loop p_br (i + 1) k)))"

definition nbits_le :: "bytes \<Rightarrow> u32" where
  "nbits_le b = (push_bit 24 (ucast (b ! 3)) OR push_bit 16 (ucast (b ! 2)) OR push_bit 8 (ucast (b ! 1)) OR ucast (b ! 0))"

definition parse_notify :: "string \<Rightarrow> u64 \<Rightarrow> stratum_job option" where
  "parse_notify params old_seq =
     (if js_count params < 9 then None else
      (case (js_elem params 0, js_elem params 1, js_elem params 2, js_elem params 3, js_elem params 4,
             js_elem params 6, js_elem params 7) of
         (Some p_job, Some p_prev, Some p_cb1, Some p_cb2, Some p_br, Some p_bits, Some p_ntime) \<Rightarrow>
           (case js_str p_job (replicate 64 (CHR 0x00)) of
              (False, _) \<Rightarrow> None
            | (True, jid) \<Rightarrow>
           (case hex_exact p_prev 32 of None \<Rightarrow> None | Some prev \<Rightarrow>
           (case hex_upto p_cb1 STRATUM_MAX_CB of None \<Rightarrow> None | Some cb1 \<Rightarrow>
           (case hex_upto p_cb2 STRATUM_MAX_CB of None \<Rightarrow> None | Some cb2 \<Rightarrow>
           (let nb = js_count p_br in
            if nb < 0 \<or> nb > int STRATUM_MAX_BRANCHES then None else
           (case branch_loop p_br 0 (nat nb) of None \<Rightarrow> None | Some brs \<Rightarrow>
           (case hex_exact p_ntime 8 of None \<Rightarrow> None | Some nt \<Rightarrow>
           (case hex_exact p_bits 4 of None \<Rightarrow> None | Some bits \<Rightarrow>
            Some \<lparr>job_id = cstr jid, prevhash = prev, coinb1 = cb1, coinb2 = cb2, branches = brs,
                  ntime = nt, nbits = nbits_le bits,
                  clean = (case js_elem params 8 of Some c \<Rightarrow> js_true c | None \<Rightarrow> True),
                  seq = old_seq + 1\<rparr>))))))))
       | _ \<Rightarrow> None))"

definition on_notify :: "string \<Rightarrow> stratum \<Rightarrow> stratum" where
  "on_notify params s =
     (case parse_notify params (seq (job s)) of
        None \<Rightarrow> s
      | Some j \<Rightarrow> s\<lparr>job := j, have_job := True, jobs_received := jobs_received s + 1\<rparr>)"

definition on_set_difficulty :: "string \<Rightarrow> stratum \<Rightarrow> stratum" where
  "on_set_difficulty params s =
     (case js_elem params 0 of Some d \<Rightarrow> s\<lparr>difficulty := js_num d\<rparr> | None \<Rightarrow> s)"

definition on_set_extranonce :: "platform \<Rightarrow> string \<Rightarrow> stratum \<Rightarrow> stratum" where
  "on_set_extranonce pf params s =
     (case js_elem params 0 of
        None \<Rightarrow> s
      | Some e \<Rightarrow>
          (case js_hex e (extranonce1 s) of
             (False, buf, _) \<Rightarrow> s\<lparr>extranonce1 := buf\<rparr>
           | (True, buf, got) \<Rightarrow>
               let s = s\<lparr>extranonce1 := buf, en1_len := the got\<rparr>;
                   s = (case js_elem params 1 of
                          None \<Rightarrow> s
                        | Some z \<Rightarrow> let n = js_num z in
                            if dge n 1 \<and> dle n (of_nat STRATUM_MAX_EN2) then s\<lparr>en2_size := unat (to_u64 pf n)\<rparr> else s)
               in s\<lparr>have_job := False\<rparr>))"

definition reconnect_wait :: "string option \<Rightarrow> cdouble" where
  "reconnect_wait w =
     (let wait = (case w of Some v \<Rightarrow> js_num v | None \<Rightarrow> Fin 0);
          wait = (if dless wait 0 then Fin 0 else wait)
      in if dgreater wait 300 then Fin 300 else wait)"

definition on_reconnect :: "platform \<Rightarrow> u64 \<Rightarrow> string \<Rightarrow> stratum \<Rightarrow> stratum" where
  "on_reconnect pf now params s =
     (let wait = reconnect_wait (js_elem params 2);
          s = (case js_elem params 0 of
                 None \<Rightarrow> s
               | Some h \<Rightarrow>
                   (case js_str h (reconnect_host s) of
                      (False, buf) \<Rightarrow> s\<lparr>reconnect_host := buf\<rparr>
                    | (True, buf) \<Rightarrow>
                        s\<lparr>reconnect_host := buf,
                          reconnect_port := (case js_elem params 1 of Some p \<Rightarrow> to_int pf (js_num p) | None \<Rightarrow> port s),
                          reconnect_pending := True, addr := [], retry_at := now + to_u64 pf wait\<rparr>))
      in stratum_drop (Some ''pool asked us to reconnect'') s)"

definition on_verdict :: "string option \<Rightarrow> string option \<Rightarrow> stratum \<Rightarrow> stratum" where
  "on_verdict res err s =
     (if (case res of Some r \<Rightarrow> js_true r | None \<Rightarrow> False) then s\<lparr>shares_accepted := shares_accepted s + 1\<rparr>
      else
        let s = s\<lparr>shares_rejected := shares_rejected s + 1, last_reject := poke (last_reject s) 0 (CHR 0x00)\<rparr> in
        case err of
          None \<Rightarrow> s
        | Some e \<Rightarrow>
            if starts (CHR ''['') (js_ws e) then
              (case js_elem e 1 of
                 None \<Rightarrow> s
               | Some msg \<Rightarrow> s\<lparr>last_reject := snd (js_str msg (last_reject s))\<rparr>)
            else s)"

definition on_response :: "platform \<Rightarrow> string \<Rightarrow> stratum \<Rightarrow> stratum" where
  "on_response pf line s =
     (case js_get line ''id'' of
        None \<Rightarrow> s
      | Some idv \<Rightarrow>
          let i = to_u64 pf (js_num idv); res = js_get line ''result''; err = js_get line ''error'' in
          if i = sub_id s then
            (case res of
               Some r \<Rightarrow> if starts (CHR ''['') (js_ws r) then on_subscribe pf r s else s
             | None \<Rightarrow> s)
          else if i = auth_id s then
            let s = s\<lparr>authorized := (case res of Some r \<Rightarrow> js_true r | None \<Rightarrow> False)\<rparr> in
            if \<not> authorized s then s\<lparr>last_error := snprintf_s 192 (''pool rejected worker '' @ worker s)\<rparr> else s
          else if i = suggest_diff_id s then s
          else on_verdict res err s)"

definition on_line :: "platform \<Rightarrow> u64 \<Rightarrow> string \<Rightarrow> stratum \<Rightarrow> stratum" where
  "on_line pf now line s =
     (case js_get line ''method'' of
        Some meth \<Rightarrow>
          (case js_str meth (replicate 64 (CHR 0x00)) of
             (False, _) \<Rightarrow> s
           | (True, buf) \<Rightarrow>
               let m = cstr buf in
               (case js_get line ''params'' of
                  None \<Rightarrow> s
                | Some params \<Rightarrow>
                    if m = ''mining.notify'' then on_notify params s
                    else if m = ''mining.set_difficulty'' then on_set_difficulty params s
                    else if m = ''mining.set_extranonce'' then on_set_extranonce pf params s
                    else if m = ''client.reconnect'' then on_reconnect pf now params s
                    else s))
      | None \<Rightarrow> on_response pf line s)"

section \<open>The interface\<close>

datatype recv_res = Data string | Recv_again | Recv_intr | Recv_error string

fun recv_loop :: "recv_res list \<Rightarrow> stratum \<Rightarrow> bool \<times> stratum" where
  "recv_loop rs s =
     (if length (rx s) + 1 \<ge> RX_SIZE then (False, stratum_drop (Some ''rx overflow with no line terminator'') s)
      else case rs of
             [] \<Rightarrow> (True, s)
           | Recv_again # _ \<Rightarrow> (True, s)
           | Recv_intr # rs \<Rightarrow> recv_loop rs s
           | Recv_error er # _ \<Rightarrow> (False, stratum_drop (Some er) s)
           | Data d # rs \<Rightarrow>
               if d = [] then (False, stratum_drop (Some ''pool closed the connection'') s)
               else recv_loop rs (s\<lparr>rx := rx s @ take (RX_SIZE - length (rx s) - 1) d\<rparr>))"

declare recv_loop.simps [simp del]

lemma length_tl_dropWhile: "dropWhile P p \<noteq> [] \<Longrightarrow> length (tl (dropWhile P p)) < length p"
  using length_dropWhile_le [of P p] by (cases "dropWhile P p") auto

function dispatch :: "platform \<Rightarrow> u64 \<Rightarrow> string \<Rightarrow> stratum \<Rightarrow> stratum" where
  "dispatch pf now p s =
     (let line = takeWhile (\<lambda>c. c \<noteq> CHR 0x0A) p; r = dropWhile (\<lambda>c. c \<noteq> CHR 0x0A) p in
      if r = [] then s\<lparr>rx := p\<rparr>
      else let s = (if line \<noteq> [] then on_line pf now (cstr line) s else s) in
           if fd s < 0 then s else dispatch pf now (tl r) s)"
  by pat_completeness auto
termination
  by (relation "measure (\<lambda>(pf, now, p, s). length p)")
    (auto simp del: dropWhile_eq_Nil_conv length_tl intro!: length_tl_dropWhile)

declare dispatch.simps [simp del]

definition stratum_poll :: "platform \<Rightarrow> dial_env \<Rightarrow> u64 \<Rightarrow> send_res list \<Rightarrow> recv_res list \<Rightarrow> stratum \<Rightarrow> stratum" where
  "stratum_poll pf e now ss rs s =
     (if fd s < 0 then snd (dial e now ss s)
      else let (ok, s) = recv_loop rs s in if ok then dispatch pf now (rx s) s else s)"

definition stratum_ready :: "stratum \<Rightarrow> bool" where
  "stratum_ready s \<longleftrightarrow> fd s \<ge> 0 \<and> subscribed s \<and> authorized s \<and> have_job s"

definition submit_line :: "u64 \<Rightarrow> string \<Rightarrow> string \<Rightarrow> bytes \<Rightarrow> bytes \<Rightarrow> bytes \<Rightarrow> string" where
  \<open>submit_line i w jid en2 nt nonce =
     ''{"id":'' @ dec (unat i) @ '',"method":"mining.submit","params":["'' @ w @ ''","'' @ jid @ ''","'' @
     bin2hex en2 @ ''","'' @ bin2hex nt @ ''","'' @ bin2hex nonce @ ''"]}'' @ [CHR 0x0A]\<close>

definition stratum_submit :: "string \<Rightarrow> bytes \<Rightarrow> bytes \<Rightarrow> bytes \<Rightarrow> send_res list \<Rightarrow> stratum \<Rightarrow> bool \<times> stratum" where
  "stratum_submit jid en2 nt nonce rs s =
     (if fd s < 0 then (False, s)
      else let s = s\<lparr>next_id := next_id s + 1\<rparr>;
               (ok, _, s) = send_line (snprintf_s 1024 (submit_line (next_id s) (worker s) jid en2 nt nonce)) rs s
           in if ok then (True, s\<lparr>shares_submitted := shares_submitted s + 1\<rparr>) else (False, s))"

section \<open>The session invariant\<close>

definition wf_stratum :: "stratum \<Rightarrow> bool" where
  "wf_stratum s \<longleftrightarrow>
     length (extranonce1 s) = STRATUM_MAX_EN1 \<and> en1_len s \<le> STRATUM_MAX_EN1 \<and> wf_job (job s) \<and>
     backoff_s s \<le> BACKOFF_MAX_S \<and> length (reconnect_host s) = 128 \<and> length (last_reject s) = 128 \<and>
     length (last_error s) < 192 \<and> length (host s) < 192 \<and> length (worker s) < 160 \<and> length (password s) < 160 \<and>
     length (rx s) < RX_SIZE \<and>
     (fd s < 0 \<longrightarrow> \<not> subscribed s \<and> \<not> authorized s \<and> \<not> have_job s \<and> rx s = [])"

lemma length_snprintf: "0 < n \<Longrightarrow> length (snprintf_s n t) < n"
  by (simp add: snprintf_s_def)

lemma wf_init: "wf_stratum (stratum_init h p w pw)"
  by (simp add: wf_stratum_def stratum_init_def length_snprintf zero_job_def wf_job_def stratum_sizes BACKOFF_MAX_S_def RX_SIZE_def)

lemma wf_drop: "wf_stratum s \<Longrightarrow> wf_stratum (stratum_drop why s)"
  by (auto simp: wf_stratum_def stratum_drop_def Let_def length_snprintf RX_SIZE_def split: option.splits)

lemma fd_drop [simp]: "fd (stratum_drop why s) < 0"
  by (auto simp: stratum_drop_def Let_def split: option.splits)

lemma wf_send_line:
  assumes "wf_stratum s" "send_line line rs s = (ok, rs', s')"
  shows "wf_stratum s' \<and> (ok \<longrightarrow> fd s' = fd s \<and> \<not> fd s < 0)"
proof -
  have "wf_stratum (s\<lparr>sent := x\<rparr>)" for x using assms(1) by (simp add: wf_stratum_def)
  then show ?thesis using assms
    by (auto simp: send_line_def Let_def wf_drop split: if_splits prod.splits)
qed

lemma wf_ids:
  "wf_stratum (s\<lparr>next_id := a\<rparr>) = wf_stratum s" "wf_stratum (s\<lparr>sub_id := a\<rparr>) = wf_stratum s"
  "wf_stratum (s\<lparr>auth_id := a\<rparr>) = wf_stratum s" "wf_stratum (s\<lparr>suggest_diff_id := a\<rparr>) = wf_stratum s"
  "wf_stratum (s\<lparr>addr := b\<rparr>) = wf_stratum s" "wf_stratum (s\<lparr>reconnect_pending := c\<rparr>) = wf_stratum s"
  "wf_stratum (s\<lparr>retry_at := a\<rparr>) = wf_stratum s" "wf_stratum (s\<lparr>shares_submitted := a\<rparr>) = wf_stratum s"
  by (simp_all add: wf_stratum_def)

lemma wf_last_error: "wf_stratum s \<Longrightarrow> length t < 192 \<Longrightarrow> wf_stratum (s\<lparr>last_error := t\<rparr>)"
  by (simp add: wf_stratum_def)

lemma wf_handshake: "wf_stratum s \<Longrightarrow> wf_stratum (snd (handshake rs s))"
  unfolding handshake_def
  by (auto simp: Let_def wf_ids split: prod.splits if_splits dest!: wf_send_line [rotated])

lemma next_backoff_le: "next_backoff b \<le> BACKOFF_MAX_S"
  by (simp add: next_backoff_def Let_def not_less)

lemma wf_back_off: "wf_stratum s \<Longrightarrow> wf_stratum (back_off now s)"
  by (simp add: wf_stratum_def back_off_def Let_def next_backoff_le)

lemma wf_dial_addr: "wf_stratum s \<Longrightarrow> wf_stratum (snd (dial_addr e now rs own h p a s))"
  unfolding dial_addr_def
  by (auto simp: wf_ids wf_back_off wf_last_error length_snprintf split: sum.splits option.splits intro!: wf_handshake)
     (auto simp: wf_stratum_def BACKOFF_MAX_S_def RX_SIZE_def)

lemma wf_dial: "wf_stratum s \<Longrightarrow> wf_stratum (snd (dial e now rs s))"
  unfolding dial_def
  by (auto simp: Let_def wf_ids length_snprintf split: sum.splits intro!: wf_dial_addr wf_back_off wf_last_error)

subsection \<open>Dispatch keeps it\<close>

lemma str_copy_nul: "str_copy v k out = (True, o') \<Longrightarrow> k < length out \<Longrightarrow> CHR 0x00 \<in> set o'"
  by (induction v k out rule: str_copy.induct) (auto simp: poke_def set_update_memI split: if_splits)

lemma cstr_shorter: "CHR 0x00 \<in> set t \<Longrightarrow> length (cstr t) < length t"
  unfolding cstr_def by (induction t) auto

lemma js_str_cstr: "js_str v out = (True, o') \<Longrightarrow> out \<noteq> [] \<Longrightarrow> length (cstr o') < length out"
  using str_copy_nul [of "tl (js_ws v)" 0 out o'] cstr_shorter [of o'] length_str_copy [of 0 out "tl (js_ws v)"]
  by (auto simp: js_str_def Let_def split: if_splits)

lemma length_hex_upto: "hex_upto v n = Some b \<Longrightarrow> length b \<le> n"
  unfolding hex_upto_def using js_hex_safe [of v "replicate n 0"]
  by (auto split: prod.splits bool.splits option.splits)

lemma length_hex_exact: "hex_exact v n = Some b \<Longrightarrow> length b = n"
  by (auto simp: hex_exact_def split: option.splits if_splits)

lemma branch_loop_lengths:
  "branch_loop p i k = Some bs \<Longrightarrow> length bs = k \<and> list_all (\<lambda>b. length b = 32) bs"
  by (induction p i k arbitrary: bs rule: branch_loop.induct) (auto split: option.splits dest: length_hex_exact)

lemma parse_notify_wf:
  assumes "parse_notify params q = Some j"
  shows "wf_job j \<and> seq j = q + 1"
proof -
  from assms obtain p_job p_br jid prev cb1 cb2 brs nt p1 p2 p3 p7 where
    e: "js_str p_job (replicate 64 (CHR 0x00)) = (True, jid)" "hex_exact p1 32 = Some prev"
      "hex_upto p2 STRATUM_MAX_CB = Some cb1" "hex_upto p3 STRATUM_MAX_CB = Some cb2"
      "0 \<le> js_count p_br" "js_count p_br \<le> int STRATUM_MAX_BRANCHES"
      "branch_loop p_br 0 (nat (js_count p_br)) = Some brs" "hex_exact p7 8 = Some nt"
    and j: "job_id j = cstr jid" "prevhash j = prev" "coinb1 j = cb1" "coinb2 j = cb2" "branches j = brs" "ntime j = nt" "seq j = q + 1"
    unfolding parse_notify_def
    by (auto simp: Let_def not_less split: if_splits option.splits prod.splits bool.splits)
  show ?thesis
    using e(5,6) js_str_cstr [OF e(1)] length_hex_exact [OF e(2)] length_hex_upto [OF e(3)] length_hex_upto [OF e(4)]
      branch_loop_lengths [OF e(7)] length_hex_exact [OF e(8)]
    by (simp add: wf_job_def j)
qed

lemma wf_extranonce:
  assumes "wf_stratum s" "js_hex v (extranonce1 s) = (ok, buf, n)"
  shows "wf_stratum (s\<lparr>extranonce1 := buf\<rparr>)" "ok \<Longrightarrow> wf_stratum (s\<lparr>extranonce1 := buf, en1_len := the n\<rparr>)"
  using assms js_hex_safe [OF assms(2)] by (auto simp: wf_stratum_def)

lemma wf_on_subscribe: 
  assumes "wf_stratum s" "0 \<le> fd s"
  shows "wf_stratum (on_subscribe pf r s) \<and> fd (on_subscribe pf r s) = fd s"
proof -
  have "wf_stratum s' \<Longrightarrow> 0 \<le> fd s' \<Longrightarrow> wf_stratum (s'\<lparr>en2_size := a, subscribed := True\<rparr>)" for s' a
    by (simp add: wf_stratum_def)
  then show ?thesis unfolding on_subscribe_def using assms wf_extranonce [OF assms(1)]
    by (auto simp: Let_def split: option.splits prod.splits bool.splits)
qed

lemma wf_on_notify: "wf_stratum s \<Longrightarrow> 0 \<le> fd s \<Longrightarrow> wf_stratum (on_notify ps s) \<and> fd (on_notify ps s) = fd s"
  by (auto simp: on_notify_def wf_stratum_def split: option.splits dest: parse_notify_wf)

lemma wf_on_set_extranonce:
  assumes "wf_stratum s"
  shows "wf_stratum (on_set_extranonce pf ps s) \<and> fd (on_set_extranonce pf ps s) = fd s"
proof -
  have "wf_stratum s' \<Longrightarrow> wf_stratum (s'\<lparr>en2_size := a, have_job := False\<rparr>)" "wf_stratum s' \<Longrightarrow> wf_stratum (s'\<lparr>have_job := False\<rparr>)" for s' a
    by (simp_all add: wf_stratum_def)
  then show ?thesis unfolding on_set_extranonce_def using wf_extranonce [OF assms] assms
    by (auto simp: Let_def split: option.splits prod.splits bool.splits)
qed

lemma wf_on_reconnect: "wf_stratum s \<Longrightarrow> wf_stratum (on_reconnect pf now ps s) \<and> fd (on_reconnect pf now ps s) < 0"
proof -
  assume w: "wf_stratum s"
  have r: "wf_stratum (s\<lparr>reconnect_host := snd (js_str h (reconnect_host s))\<rparr>)" for h
    using w by (simp add: wf_stratum_def)
  have "wf_stratum (s\<lparr>reconnect_host := buf, reconnect_port := p, reconnect_pending := True, addr := [], retry_at := t\<rparr>)"
    if "wf_stratum (s\<lparr>reconnect_host := buf\<rparr>)" for buf p t using that by (simp add: wf_stratum_def)
  then show ?thesis unfolding on_reconnect_def Let_def using w r
    by (auto intro!: wf_drop split: option.splits prod.splits bool.splits) (metis snd_conv)+
qed

lemma wf_on_verdict: "wf_stratum s \<Longrightarrow> wf_stratum (on_verdict res err s) \<and> fd (on_verdict res err s) = fd s"
  by (auto simp: on_verdict_def wf_stratum_def length_poke Let_def split: option.splits)

lemma wf_on_response:
  assumes "wf_stratum s" "0 \<le> fd s"
  shows "wf_stratum (on_response pf line s) \<and> fd (on_response pf line s) = fd s"
proof -
  have "wf_stratum (s\<lparr>authorized := a\<rparr>)" "length t < 192 \<Longrightarrow> wf_stratum (s\<lparr>authorized := a, last_error := t\<rparr>)" for a t
    using assms by (simp_all add: wf_stratum_def)
  then show ?thesis unfolding on_response_def using assms wf_on_subscribe [OF assms] wf_on_verdict [OF assms(1)]
    by (auto simp: Let_def length_snprintf split: option.splits)
qed

lemma wf_on_line:
  assumes "wf_stratum s" "0 \<le> fd s"
  shows "wf_stratum (on_line pf now line s)"
proof -
  have "wf_stratum (on_set_difficulty ps s)" for ps
    using assms by (auto simp: on_set_difficulty_def wf_stratum_def split: option.splits)
  then show ?thesis unfolding on_line_def
    using assms wf_on_notify [OF assms] wf_on_set_extranonce [OF assms(1)] wf_on_reconnect [OF assms(1)] wf_on_response [OF assms]
    by (auto simp: Let_def split: option.splits prod.splits bool.splits)
qed

lemma wf_recv_loop:
  assumes "wf_stratum s" "recv_loop rs s = (ok, s')" "0 \<le> fd s"
  shows "wf_stratum s' \<and> (ok \<longrightarrow> fd s' = fd s)"
  using assms
proof (induction rs arbitrary: s)
  case Nil
  then show ?case by (subst (asm) recv_loop.simps) (auto simp: wf_drop split: if_splits)
next
  case (Cons r rs)
  have "wf_stratum (s\<lparr>rx := rx s @ take (RX_SIZE - length (rx s) - 1) d\<rparr>)" for d
    using Cons.prems(1,3) by (auto simp: wf_stratum_def min_def)
  then show ?case using Cons.prems Cons.IH
    by (subst (asm) recv_loop.simps) (fastforce simp: wf_drop split: if_splits recv_res.splits)
qed

lemma wf_dispatch: "wf_stratum s \<Longrightarrow> 0 \<le> fd s \<Longrightarrow> length p < RX_SIZE \<Longrightarrow> wf_stratum (dispatch pf now p s)"
proof (induction pf now p s rule: dispatch.induct)
  case (1 pf now p s)
  let ?l = "takeWhile (\<lambda>c. c \<noteq> CHR 0x0A) p" and ?r = "dropWhile (\<lambda>c. c \<noteq> CHR 0x0A) p"
  show ?case
  proof (cases "?r = []")
    case True
    then show ?thesis using "1.prems" by (subst dispatch.simps) (simp add: wf_stratum_def)
  next
    case False
    let ?s = "if ?l \<noteq> [] then on_line pf now (cstr ?l) s else s"
    have w: "wf_stratum ?s" using "1.prems" wf_on_line by simp
    have "length (tl ?r) < RX_SIZE" using length_tl_dropWhile [OF False] "1.prems"(3) by linarith
    then have "\<not> fd ?s < 0 \<Longrightarrow> wf_stratum (dispatch pf now (tl ?r) ?s)"
      using "1.IH" [OF refl refl False refl] w by simp
    then show ?thesis using False w by (subst dispatch.simps) (simp add: Let_def del: dropWhile_eq_Nil_conv)
  qed
qed

lemma wf_poll: "wf_stratum s \<Longrightarrow> wf_stratum (stratum_poll pf e now ss rs s)"
proof (cases "fd s < 0")
  case False
  assume w: "wf_stratum s"
  obtain ok s' where r: "recv_loop rs s = (ok, s')" by fastforce
  have "wf_stratum s' \<and> (ok \<longrightarrow> fd s' = fd s)" using wf_recv_loop [OF w r] False by simp
  moreover from this have "length (rx s') < RX_SIZE" by (simp add: wf_stratum_def)
  ultimately show ?thesis using False r by (auto simp: stratum_poll_def intro!: wf_dispatch)
qed (simp add: stratum_poll_def wf_dial)

lemma wf_submit: "wf_stratum s \<Longrightarrow> wf_stratum (snd (stratum_submit jid en2 nt nonce rs s))"
  by (auto simp: stratum_submit_def Let_def wf_ids split: prod.splits dest!: wf_send_line [rotated])

end
