(* ===== verification/Stratum_Session.thy ===== *)
theory Stratum_Session
  imports Stratum
begin

text \<open>
  Behaviour of the pool session over time: jobs and redirects as the pool prints them, TCP
  segmentation, back-off, shares on the wire, where the job a session holds came from, and the states a session can reach.
\<close>

section \<open>Jobs off the wire\<close>

lemma hex_upto_print: "length bs \<le> n \<Longrightarrow> length bs \<le> 513 \<Longrightarrow> hex_upto (print w (JStr (bin2hex bs)) @ r) n = Some bs"
  by (simp add: hex_upto_def js_hex_print)

lemma hex_exact_print: "length bs = n \<Longrightarrow> n \<le> 513 \<Longrightarrow> hex_exact (print w (JStr (bin2hex bs)) @ r) n = Some bs"
  by (simp add: hex_exact_def hex_upto_print)

lemma json_ok_hex: "list_all json_ok (map (\<lambda>b. JStr (bin2hex b)) bs)"
  by (simp add: list_all_iff plain_esc_ok plain_bin2hex)

lemma branch_loop_print:
  assumes "wsp w" "list_all (\<lambda>b. length b = 32) bs"
  shows "i + k \<le> length bs \<Longrightarrow> branch_loop (print w (JArr (map (\<lambda>b. JStr (bin2hex b)) bs)) @ r) i k = Some (take k (drop i bs))"
proof (induction k arbitrary: i)
  case (Suc k)
  have "length (bs ! i) = 32" using assms(2) Suc.prems by (auto simp: list_all_iff)
  moreover have "drop i bs = bs ! i # drop (Suc i) bs" using Suc.prems by (simp add: Cons_nth_drop_Suc)
  ultimately show ?case using Suc js_elem_print [OF assms(1) json_ok_hex, of bs r i]
    by (simp add: hex_exact_print)
qed simp

text \<open>The nine parameters of \<^verbatim>\<open>mining.notify\<close>; the unused sixth is any string.\<close>

definition notify_params :: "stratum_job \<Rightarrow> string \<Rightarrow> json list" where
  "notify_params j version =
     [JStr (job_id j), JStr (bin2hex (prevhash j)), JStr (bin2hex (coinb1 j)), JStr (bin2hex (coinb2 j)),
      JArr (map (\<lambda>b. JStr (bin2hex b)) (branches j)), JStr version, JStr (bin2hex (put_u32le (nbits j))),
      JStr (bin2hex (ntime j)), JRaw (if clean j then ''true'' else ''false'')]"

lemma nbits_le_put: "nbits_le (put_u32le v) = v"
proof (rule bit_word_eqI)
  fix n assume n: "n < LENGTH(32)"
  consider "n < 8" | "8 \<le> n" "n < 16" | "16 \<le> n" "n < 24" | "24 \<le> n" by linarith
  then show "bit (nbits_le (put_u32le v)) n = bit v n"
    using n by cases (auto simp: nbits_le_def put_u32le_def bit_simps nth_Cons')
qed

lemma notify_params_ok:
  "plain_str (job_id j) \<Longrightarrow> esc_ok version \<Longrightarrow> list_all json_ok (notify_params j version)"
  by (simp add: notify_params_def plain_esc_ok plain_bin2hex json_ok_hex raw_ok_def js_delim_def js_space_def)

lemma cstr_job_id:
  assumes "plain_str t" "length t < 64"
  shows "\<exists>jid. js_str (print w (JStr t) @ r) (replicate 64 (CHR 0x00)) = (True, jid) \<and> cstr jid = t"
proof -
  have "list_all (\<lambda>c. c \<noteq> CHR 0x00) t" using assms(1) by (auto simp: plain_str_def list_all_iff)
  then show ?thesis using js_str_print(1) [OF assms(1), of "replicate 64 (CHR 0x00)" w r] assms(2)
    by (simp add: cstr_terminated)
qed

lemma js_true_print: "js_true (print w (JRaw (if b then ''true'' else ''false'')) @ r) = b"
  by (simp add: js_true_def js_ws_def js_space_def print.simps)

lemma length_put_u32le: "length (put_u32le v) = 4"
  by (simp add: put_u32le_def)

lemma parse_notify_print:
  assumes w: "wsp w" and j: "wf_job j" "plain_str (job_id j)" and v: "esc_ok version"
  shows "parse_notify (print w (JArr (notify_params j version)) @ r) q = Some (j\<lparr>seq := q + 1\<rparr>)"
proof -
  let ?ps = "notify_params j version" and ?p = "print w (JArr (notify_params j version)) @ r"
  have ok: "list_all json_ok ?ps" by (rule notify_params_ok [OF j(2) v])
  have n: "length ?ps = 9" by (simp add: notify_params_def)
  have e: "js_elem ?p i = Some (print w (?ps ! i) @ tail_of w (CHR '']'') (map (print w) (drop (Suc i) ?ps)) r)" if "i < 9" for i
    using js_elem_print [OF w ok, of r i] that n by simp
  have c: "js_count ?p = 9" using js_count_print [OF w ok, of r] n by simp
  have nth: "?ps ! 0 = JStr (job_id j)" "?ps ! Suc 0 = JStr (bin2hex (prevhash j))" "?ps ! 2 = JStr (bin2hex (coinb1 j))"
    "?ps ! 3 = JStr (bin2hex (coinb2 j))" "?ps ! 4 = JArr (map (\<lambda>b. JStr (bin2hex b)) (branches j))"
    "?ps ! 6 = JStr (bin2hex (put_u32le (nbits j)))" "?ps ! 7 = JStr (bin2hex (ntime j))"
    "?ps ! 8 = JRaw (if clean j then ''true'' else ''false'')"
    by (simp_all add: notify_params_def)
  have len: "length (prevhash j) = 32" "length (ntime j) = 8" "length (coinb1 j) \<le> 512" "length (coinb2 j) \<le> 512"
    "length (branches j) \<le> 32" "list_all (\<lambda>b. length b = 32) (branches j)" "length (job_id j) < 64"
    using j(1) by (simp_all add: wf_job_def stratum_sizes)
  note br = branch_loop_print [OF w len(6), of 0 "length (branches j)"] js_count_print [OF w json_ok_hex]
  obtain jid where jid: "js_str (print w (JStr (job_id j)) @ tail_of w (CHR '']'') (map (print w) (drop (Suc 0) ?ps)) r) (replicate 64 (CHR 0x00)) = (True, jid)"
    "cstr jid = job_id j" using cstr_job_id [OF j(2) len(7)] by blast
  show ?thesis using len
    by (simp add: parse_notify_def c e nth jid hex_exact_print hex_upto_print br length_put_u32le nbits_le_put js_true_print
        stratum_sizes)
qed

lemma on_line_method:
  assumes w: "wsp w" and ok: "json_ok (JObj kvs)" and m: "map_of kvs ''method'' = Some (JStr m)" "plain_str m" "length m < 64"
    and p: "map_of kvs ''params'' = Some (JArr ps)"
  obtains t where "ends t"
    "on_line pf now (print w (JObj kvs) @ r) s =
      (let params = print w (JArr ps) @ t in
       if m = ''mining.notify'' then on_notify params s
       else if m = ''mining.set_difficulty'' then on_set_difficulty params s
       else if m = ''mining.set_extranonce'' then on_set_extranonce pf params s
       else if m = ''client.reconnect'' then on_reconnect pf now params s
       else s)"
proof -
  obtain t1 where t1: "js_get (print w (JObj kvs) @ r) ''method'' = Some (print w (JStr m) @ t1)"
    using js_get_Some [OF w ok m(1)] by blast
  obtain t2 where t2: "ends t2" "js_get (print w (JObj kvs) @ r) ''params'' = Some (print w (JArr ps) @ t2)"
    using js_get_Some [OF w ok p] by blast
  obtain buf where "js_str (print w (JStr m) @ t1) (replicate 64 (CHR 0x00)) = (True, buf)" "cstr buf = m"
    using cstr_job_id [OF m(2,3)] by blast
  then show ?thesis using t1 t2 by (intro that [of t2]) (simp_all add: on_line_def)
qed

lemma on_line_notify:
  assumes "wsp w" "json_ok (JObj kvs)" "map_of kvs ''method'' = Some (JStr ''mining.notify'')"
    and "map_of kvs ''params'' = Some (JArr (notify_params j version))" "wf_job j" "plain_str (job_id j)" "esc_ok version"
  shows "on_line pf now (print w (JObj kvs) @ r) s =
    s\<lparr>job := j\<lparr>seq := seq (job s) + 1\<rparr>, have_job := True, jobs_received := jobs_received s + 1\<rparr>"
proof -
  have "plain_str ''mining.notify''" by (simp add: plain_str_def)
  then obtain t where "on_line pf now (print w (JObj kvs) @ r) s = on_notify (print w (JArr (notify_params j version)) @ t) s"
    using on_line_method [OF assms(1-3) _ _ assms(4), of pf now r s] by auto
  then show ?thesis using parse_notify_print [OF assms(1,5-7)] by (simp add: on_notify_def)
qed

section \<open>Segmentation\<close>

lemma rx_frames:
  "on_subscribe pf r (s\<lparr>rx := x\<rparr>) = (on_subscribe pf r s)\<lparr>rx := x\<rparr>"
  "on_notify ps (s\<lparr>rx := x\<rparr>) = (on_notify ps s)\<lparr>rx := x\<rparr>"
  "on_set_difficulty ps (s\<lparr>rx := x\<rparr>) = (on_set_difficulty ps s)\<lparr>rx := x\<rparr>"
  "on_set_extranonce pf ps (s\<lparr>rx := x\<rparr>) = (on_set_extranonce pf ps s)\<lparr>rx := x\<rparr>"
  "on_verdict a b (s\<lparr>rx := x\<rparr>) = (on_verdict a b s)\<lparr>rx := x\<rparr>"
  "on_reconnect pf now ps (s\<lparr>rx := x\<rparr>) = on_reconnect pf now ps s"
  by (simp_all add: on_subscribe_def on_notify_def on_set_difficulty_def on_set_extranonce_def on_verdict_def
      on_reconnect_def stratum_drop_def Let_def split: option.splits prod.splits bool.splits)

lemma fd_frames:
  "fd (on_subscribe pf r s) = fd s" "fd (on_notify ps s) = fd s" "fd (on_set_difficulty ps s) = fd s"
  "fd (on_set_extranonce pf ps s) = fd s" "fd (on_verdict a b s) = fd s" "fd (on_reconnect pf now ps s) < 0"
  by (simp_all add: on_subscribe_def on_notify_def on_set_difficulty_def on_set_extranonce_def on_verdict_def
      on_reconnect_def Let_def split: option.splits prod.splits bool.splits)

lemma on_response_rx: "on_response pf l (s\<lparr>rx := x\<rparr>) = (on_response pf l s)\<lparr>rx := x\<rparr>"
  by (simp add: on_response_def rx_frames Let_def split: option.splits)

lemma on_line_rx:
  assumes "0 \<le> fd s"
  shows "on_line pf now l (s\<lparr>rx := x\<rparr>) = (if fd (on_line pf now l s) < 0 then on_line pf now l s else (on_line pf now l s)\<lparr>rx := x\<rparr>)"
proof (cases "js_get l ''method''")
  case None
  have "fd (on_response pf l s) = fd s"
    by (simp add: on_response_def fd_frames Let_def split: option.splits)
  then show ?thesis using None assms by (simp add: on_line_def on_response_rx)
next
  case (Some m)
  obtain ok buf where "js_str m (replicate 64 (CHR 0x00)) = (ok, buf)" by fastforce
  then show ?thesis using Some assms
    by (cases ok; cases "js_get l ''params''") (simp_all add: on_line_def rx_frames fd_frames Let_def)
qed

text \<open>Only the unfinished last line of what was scanned is kept, and the old buffer is not looked at.\<close>

lemma dispatch_rx: "0 \<le> fd s \<Longrightarrow> dispatch pf now p (s\<lparr>rx := x\<rparr>) = dispatch pf now p s"
proof (induction pf now p s rule: dispatch.induct)
  case (1 pf now p s)
  let ?l = "takeWhile (\<lambda>c. c \<noteq> CHR 0x0A) p" and ?r = "dropWhile (\<lambda>c. c \<noteq> CHR 0x0A) p"
  show ?case
  proof (cases "?r = []")
    case True
    then show ?thesis by (subst (1 2) dispatch.simps) simp
  next
    case False
    let ?f = "\<lambda>s. if ?l \<noteq> [] then on_line pf now (cstr ?l) s else s"
    have f: "?f (s\<lparr>rx := x\<rparr>) = (if fd (?f s) < 0 then ?f s else (?f s)\<lparr>rx := x\<rparr>)"
      using "1.prems" on_line_rx [OF "1.prems"] by simp
    have d: "dispatch pf now p s' = (if fd (?f s') < 0 then ?f s' else dispatch pf now (tl ?r) (?f s'))" for s'
      using False by (subst dispatch.simps) (simp add: Let_def del: dropWhile_eq_Nil_conv)
    show ?thesis
    proof (cases "fd (?f s) < 0")
      case True
      then show ?thesis unfolding d f by simp
    next
      case nf: False
      have "dispatch pf now (tl ?r) ((?f s)\<lparr>rx := x\<rparr>) = dispatch pf now (tl ?r) (?f s)"
        by (rule "1.IH" [OF refl refl False refl]) (use nf in auto)
      then show ?thesis unfolding d f using nf by simp
    qed
  qed
qed

lemma dispatch_no_newline: "CHR 0x0A \<notin> set p \<Longrightarrow> dispatch pf now p s = s\<lparr>rx := p\<rparr>"
proof -
  assume "CHR 0x0A \<notin> set p"
  then have "dropWhile (\<lambda>c. c \<noteq> CHR 0x0A) p = []" by auto
  then show ?thesis by (subst dispatch.simps) (simp add: Let_def del: dropWhile_eq_Nil_conv)
qed

lemma dispatch_append:
  "0 \<le> fd s \<Longrightarrow> 0 \<le> fd (dispatch pf now p s) \<Longrightarrow>
   dispatch pf now (p @ q) s = dispatch pf now (rx (dispatch pf now p s) @ q) (dispatch pf now p s)"
proof (induction pf now p s rule: dispatch.induct)
  case (1 pf now p s)
  let ?l = "takeWhile (\<lambda>c. c \<noteq> CHR 0x0A) p" and ?r = "dropWhile (\<lambda>c. c \<noteq> CHR 0x0A) p"
  show ?case
  proof (cases "?r = []")
    case True
    then have "dispatch pf now p s = s\<lparr>rx := p\<rparr>" by (subst dispatch.simps) simp
    then show ?thesis using dispatch_rx [OF "1.prems"(1)] by simp
  next
    case False
    then have nl: "CHR 0x0A \<in> set p" by auto
    have ap: "takeWhile (\<lambda>c. c \<noteq> CHR 0x0A) (p @ q) = ?l" "dropWhile (\<lambda>c. c \<noteq> CHR 0x0A) (p @ q) = ?r @ q"
      using nl by simp_all
    let ?s = "if ?l \<noteq> [] then on_line pf now (cstr ?l) s else s"
    have d: "dispatch pf now p s = (if fd ?s < 0 then ?s else dispatch pf now (tl ?r) ?s)"
      using False by (subst dispatch.simps) (simp add: Let_def del: dropWhile_eq_Nil_conv)
    have nf: "\<not> fd ?s < 0"
    proof
      assume "fd ?s < 0"
      then have "dispatch pf now p s = ?s" using d by (simp only: if_True)
      with \<open>fd ?s < 0\<close> "1.prems"(2) show False by (simp only: linorder_not_less [symmetric] not_True_eq_False)
    qed
    have d': "dispatch pf now (p @ q) s = dispatch pf now (tl ?r @ q) ?s"
      using False nf by (subst dispatch.simps) (simp add: ap Let_def del: dropWhile_eq_Nil_conv)
    show ?thesis unfolding d' using "1.IH" [OF refl refl False refl nf] "1.prems" nf d by simp
  qed
qed

lemma rx_dispatch_newline: "0 \<le> fd s \<Longrightarrow> 0 \<le> fd (dispatch pf now p s) \<Longrightarrow> length (rx (dispatch pf now p s)) \<le> length p"
proof (induction pf now p s rule: dispatch.induct)
  case (1 pf now p s)
  let ?l = "takeWhile (\<lambda>c. c \<noteq> CHR 0x0A) p" and ?r = "dropWhile (\<lambda>c. c \<noteq> CHR 0x0A) p"
  show ?case
  proof (cases "?r = []")
    case True
    then show ?thesis by (subst dispatch.simps) simp
  next
    case False
    let ?s = "if ?l \<noteq> [] then on_line pf now (cstr ?l) s else s"
    have d: "dispatch pf now p s = (if fd ?s < 0 then ?s else dispatch pf now (tl ?r) ?s)"
      using False by (subst dispatch.simps) (simp add: Let_def del: dropWhile_eq_Nil_conv)
    have nf: "\<not> fd ?s < 0"
    proof
      assume "fd ?s < 0"
      then have "dispatch pf now p s = ?s" using d by (simp only: if_True)
      with \<open>fd ?s < 0\<close> "1.prems"(2) show False by (simp only: linorder_not_less [symmetric] not_True_eq_False)
    qed
    then have "length (rx (dispatch pf now (tl ?r) ?s)) \<le> length (tl ?r)"
      using "1.IH" [OF refl refl False refl nf] "1.prems"(2) d by simp
    then show ?thesis using d nf length_tl_dropWhile [OF False] by simp
  qed
qed

lemma poll_data:
  assumes "0 \<le> fd s" "d \<noteq> []" "length (rx s) + length d + 1 < RX_SIZE"
  shows "stratum_poll pf e now ss [Data d] s = dispatch pf now (rx s @ d) s"
proof -
  have "recv_loop [Data d] s = (True, s\<lparr>rx := rx s @ d\<rparr>)"
    using assms(2,3) by (subst recv_loop.simps) (simp, subst recv_loop.simps, simp)
  then show ?thesis using assms(1) dispatch_rx [OF assms(1)] by (simp add: stratum_poll_def)
qed

lemma poll_split:
  assumes "0 \<le> fd s" "d1 \<noteq> []" "d2 \<noteq> []" "length (rx s) + length d1 + length d2 + 1 < RX_SIZE"
    and "0 \<le> fd (stratum_poll pf e now ss [Data d1] s)"
  shows "stratum_poll pf e' now ss' [Data d2] (stratum_poll pf e now ss [Data d1] s) =
    stratum_poll pf e'' now ss'' [Data (d1 @ d2)] s"
proof -
  let ?s1 = "dispatch pf now (rx s @ d1) s"
  have p1: "stratum_poll pf e now ss [Data d1] s = ?s1" using assms(1,2,4) by (intro poll_data) auto
  have f1: "0 \<le> fd ?s1" using assms(5) p1 by simp
  have "length (rx ?s1) \<le> length (rx s @ d1)" by (rule rx_dispatch_newline [OF assms(1) f1])
  then have "stratum_poll pf e' now ss' [Data d2] ?s1 = dispatch pf now (rx ?s1 @ d2) ?s1"
    using assms(3,4) f1 by (intro poll_data) auto
  also have "\<dots> = dispatch pf now ((rx s @ d1) @ d2) s" by (rule dispatch_append [OF assms(1) f1, symmetric])
  also have "\<dots> = stratum_poll pf e'' now ss'' [Data (d1 @ d2)] s"
    using assms(1,2,4) by (subst poll_data) auto
  finally show ?thesis unfolding p1 .
qed

section \<open>Dialling\<close>

text \<open>An environment in which no connection is taken, whether or not the name resolves.\<close>

definition unreachable :: "dial_env \<Rightarrow> bool" where
  "unreachable e \<longleftrightarrow> \<not> isl (sock e) \<and> (\<forall>a. pton_ok e a) \<and> (\<forall>a p. connect_errno (connects e a p) \<noteq> None)"

lemma dial_addr_fails:
  assumes "\<not> isl (sock e)" "pton_ok e a" "connect_errno (connects e a (word_of_int p)) \<noteq> None"
  shows "\<exists>m. dial_addr e now rs own h p a s = (rs, back_off now (s\<lparr>last_error := m\<rparr>))"
  using assms by (auto simp: dial_addr_def split: sum.splits)

text \<open>What a failed attempt does: it doubles the wait, and nothing else the next attempt looks at but the cached address.\<close>

definition backed_off :: "u64 \<Rightarrow> stratum \<Rightarrow> stratum \<Rightarrow> bool" where
  "backed_off now s s' \<longleftrightarrow> backoff_s s' = next_backoff (backoff_s s) \<and> retry_at s' = now + ucast (next_backoff (backoff_s s)) \<and>
     fd s' = fd s \<and> \<not> reconnect_pending s' \<and> host s' = host s \<and> port s' = port s \<and> sent s' = sent s"

lemma backed_off_intro:
  "backed_off now s (back_off now (s\<lparr>reconnect_pending := False, last_error := m\<rparr>))"
  "backed_off now s (back_off now (s\<lparr>reconnect_pending := False, addr := a, last_error := m\<rparr>))"
  by (simp_all add: backed_off_def back_off_def Let_def)

lemma dial_unreachable:
  assumes "retry_at s \<le> now" "unreachable e"
  shows "backed_off now s (snd (dial e now rs s))"
proof -
  have f: "\<exists>m. dial_addr e now rs own h p a s' = (rs, back_off now (s'\<lparr>last_error := m\<rparr>))" for own h p a s'
    using assms(2) unfolding unreachable_def by (intro dial_addr_fails) auto
  have "backed_off now s (snd (dial_addr e now rs own h p a (s\<lparr>reconnect_pending := False\<rparr>)))"
    "backed_off now s (snd (dial_addr e now rs own h p a (s\<lparr>reconnect_pending := False, addr := a'\<rparr>)))" for own h p a a'
    using f [of own h p a "s\<lparr>reconnect_pending := False\<rparr>"] f [of own h p a "s\<lparr>reconnect_pending := False, addr := a'\<rparr>"]
    by (auto simp: backed_off_intro)
  then show ?thesis
    unfolding dial_def Let_def using assms(1) by (auto simp: not_less backed_off_intro split: sum.splits)
qed

lemma unat_next_backoff:
  assumes "unat b \<le> 120"
  shows "unat (next_backoff b) = (if b = 0 then 2 else min 120 (2 * unat b))"
proof -
  have m: "unat (b * 2) = 2 * unat b" using assms by (simp add: unat_word_ariths)
  have "b * 2 > 120 \<longleftrightarrow> 2 * unat b > 120" unfolding word_less_nat_alt m by simp
  then show ?thesis using m by (auto simp: next_backoff_def BACKOFF_MIN_S_def BACKOFF_MAX_S_def Let_def)
qed

text \<open>
  Attempts made one after another, each at its time and in its environment; \<open>failed_attempts\<close>: each is made once the wait of the one before is over, and
  finds the pool unreachable.
\<close>

fun attempts :: "(u64 \<times> dial_env) list \<Rightarrow> stratum \<Rightarrow> stratum" where
  "attempts [] s = s"
| "attempts ((t, e) # as) s = attempts as (snd (dial e t [] s))"

fun failed_attempts :: "(u64 \<times> dial_env) list \<Rightarrow> stratum \<Rightarrow> bool" where
  "failed_attempts [] s \<longleftrightarrow> True"
| "failed_attempts ((t, e) # as) s \<longleftrightarrow> retry_at s \<le> t \<and> unreachable e \<and> failed_attempts as (snd (dial e t [] s))"

lemma attempts_append: "attempts (as @ bs) s = attempts bs (attempts as s)"
  by (induction as s rule: attempts.induct) simp_all

lemma failed_append: "failed_attempts (as @ bs) s \<longleftrightarrow> failed_attempts as s \<and> failed_attempts bs (attempts as s)"
  by (induction as s rule: failed_attempts.induct) auto

lemma backoff_doubles:
  assumes "failed_attempts as s" "as \<noteq> []" "backoff_s s = 0"
  shows "unat (backoff_s (attempts as s)) = min 120 (2 ^ length as) \<and>
     retry_at (attempts as s) = fst (last as) + ucast (backoff_s (attempts as s)) \<and> fd (attempts as s) = fd s"
  using assms
proof (induction as rule: rev_induct)
  case (snoc a as)
  obtain t e where a: "a = (t, e)" by fastforce
  let ?s = "attempts as s" and ?s' = "attempts (as @ [a]) s"
  have f: "retry_at ?s \<le> t" "unreachable e" "failed_attempts as s" using snoc.prems(1) by (simp_all add: a failed_append)
  have b: "backed_off t ?s ?s'" using dial_unreachable [OF f(1,2)] by (simp add: a attempts_append)
  show ?case
  proof (cases "as = []")
    case True
    then show ?thesis using b snoc.prems(3) unat_next_backoff [of 0] by (simp add: backed_off_def a)
  next
    case False
    then have ih: "unat (backoff_s ?s) = min 120 (2 ^ length as)" "fd ?s = fd s" using snoc f(3) by auto
    have "(2::nat) ^ 1 \<le> 2 ^ length as" using False by (intro power_increasing) (auto simp: Suc_le_eq)
    then have "backoff_s ?s \<noteq> 0" using ih(1) by (auto simp: unat_eq_0 [symmetric])
    then have "unat (next_backoff (backoff_s ?s)) = min 120 (2 * min 120 (2 ^ length as))"
      using unat_next_backoff [of "backoff_s ?s"] ih(1) by simp
    then show ?thesis using b ih(2) by (simp add: backed_off_def a)
  qed
qed simp

section \<open>Redirects\<close>

lemma dial_not_due: "now < retry_at s \<Longrightarrow> dial e now rs s = (rs, s)"
  by (simp add: dial_def)

lemma handshake_frame:
  "host (snd (handshake rs s)) = host s \<and> port (snd (handshake rs s)) = port s \<and> reconnect_pending (snd (handshake rs s)) = reconnect_pending s"
proof -
  have d: "host (stratum_drop y s) = host s \<and> port (stratum_drop y s) = port s \<and> reconnect_pending (stratum_drop y s) = reconnect_pending s" for y s
    by (simp add: stratum_drop_def Let_def split: option.splits)
  have sl: "send_line l rs s = (ok, rs', s') \<Longrightarrow> host s' = host s \<and> port s' = port s \<and> reconnect_pending s' = reconnect_pending s" for l rs s ok rs' s'
    by (auto simp: send_line_def Let_def d split: if_splits prod.splits)
  show ?thesis unfolding handshake_def by (auto simp: Let_def split: prod.splits dest!: sl)
qed

lemma dial_frame:
  "host (snd (dial e now rs s)) = host s \<and> port (snd (dial e now rs s)) = port s \<and>
   (retry_at s \<le> now \<longrightarrow> \<not> reconnect_pending (snd (dial e now rs s)))"
proof -
  have "host (snd (dial_addr e now rs own h p a s)) = host s \<and> port (snd (dial_addr e now rs own h p a s)) = port s \<and>
     reconnect_pending (snd (dial_addr e now rs own h p a s)) = reconnect_pending s" for own h p a s
    by (simp add: dial_addr_def back_off_def Let_def handshake_frame split: sum.splits option.splits)
  then show ?thesis by (auto simp: dial_def back_off_def Let_def split: sum.splits)
qed

lemma js_num_raw_dec: "n < 2 ^ 53 \<Longrightarrow> ends t \<Longrightarrow> js_num (print w (JRaw (dec n)) @ t) = Fin (of_nat n)"
  by (simp add: js_num_dec print.simps)

lemma trunc_nat: "trunc_rat (of_nat n) = int n"
  by (simp add: trunc_rat_def)

lemma to_u64_nat: "n < 2 ^ 64 \<Longrightarrow> to_u64 pf (Fin (of_nat n)) = of_nat n"
proof -
  assume "n < 2 ^ 64"
  then have "(of_nat n :: rat) < of_nat (2 ^ 64)" by (simp only: of_nat_less_iff)
  then have "(of_nat n :: rat) < 2 ^ 64" by simp
  moreover have "(-1 :: rat) < of_nat n" using of_nat_0_le_iff [of n] by linarith
  ultimately show ?thesis by (simp add: to_u64_def trunc_nat)
qed

lemma on_line_id:
  assumes "wsp w" "json_ok (JObj kvs)" "map_of kvs ''method'' = None" "map_of kvs ''id'' = Some (JRaw (dec n))" "n < 2 ^ 53"
  obtains t where "js_get (print w (JObj kvs) @ r) ''id'' = Some t" "to_u64 pf (js_num t) = of_nat n"
    "on_line pf now (print w (JObj kvs) @ r) s = on_response pf (print w (JObj kvs) @ r) s"
proof -
  obtain t where t: "ends t" "js_get (print w (JObj kvs) @ r) ''id'' = Some (print w (JRaw (dec n)) @ t)"
    using js_get_Some [OF assms(1,2,4)] by blast
  have "js_get (print w (JObj kvs) @ r) ''method'' = None" using js_get_print [OF assms(1,2), of r "''method''"] assms(3) by simp
  moreover have "to_u64 pf (js_num (print w (JRaw (dec n)) @ t)) = of_nat n" using assms(5) t(1) by (simp add: js_num_raw_dec to_u64_nat)
  ultimately show thesis using t(2) by (intro that) (simp_all add: on_line_def)
qed

lemma to_int_nat: "n < 2 ^ 31 \<Longrightarrow> to_int pf (Fin (of_nat n)) = int n"
proof -
  assume "n < 2 ^ 31"
  then have "(of_nat n :: rat) < of_nat (2 ^ 31)" by (simp only: of_nat_less_iff)
  then have "(of_nat n :: rat) < 2 ^ 31" by simp
  moreover have "(- (2 ^ 31) - 1 :: rat) < of_nat n" by (rule less_le_trans [of _ 0]) simp_all
  ultimately show ?thesis by (simp add: to_int_def trunc_nat)
qed

lemma reconnect_wait_dec:
  assumes "n \<le> 300" "ends t"
  shows "reconnect_wait (Some (print w (JRaw (dec n)) @ t)) = Fin (of_nat n)"
proof -
  have "(of_nat n :: rat) \<le> of_nat 300" using assms(1) by (simp only: of_nat_le_iff)
  then have "\<not> (300 :: rat) < of_nat n" by simp
  moreover have "\<not> (of_nat n :: rat) < 0" by simp
  ultimately show ?thesis using assms js_num_raw_dec [of n t w] by (simp add: reconnect_wait_def)
qed

lemma on_line_reconnect:
  assumes w: "wsp w" and ok: "json_ok (JObj kvs)" and m: "map_of kvs ''method'' = Some (JStr ''client.reconnect'')"
    and p: "map_of kvs ''params'' = Some (JArr [JStr h, JRaw (dec n), JRaw (dec d)])"
    and h: "plain_str h" "length h < length (reconnect_host s)" and n: "n < 65536" "d \<le> 300"
  shows "\<exists>buf. cstr buf = h \<and> on_line pf now (print w (JObj kvs) @ r) s =
    stratum_drop (Some ''pool asked us to reconnect'') (s\<lparr>reconnect_host := buf, reconnect_port := int n,
      reconnect_pending := True, addr := [], retry_at := now + of_nat d\<rparr>)"
proof -
  have "plain_str ''client.reconnect''" by (simp add: plain_str_def)
  then obtain t where t: "ends t" "on_line pf now (print w (JObj kvs) @ r) s =
     on_reconnect pf now (print w (JArr [JStr h, JRaw (dec n), JRaw (dec d)]) @ t) s"
    using on_line_method [OF w ok m _ _ p, of pf now r s] by auto
  let ?vs = "[JStr h, JRaw (dec n), JRaw (dec d)]"
  have vs: "list_all json_ok ?vs" using h(1) by (simp add: plain_esc_ok raw_dec)
  have e: "js_elem (print w (JArr ?vs) @ t) i = Some (print w (?vs ! i) @ tail_of w (CHR '']'') (map (print w) (drop (Suc i) ?vs)) t)"
    if "i < 3" for i using js_elem_print [OF w vs, of t i] that by simp
  have et: "ends (tail_of w (CHR '']'') xs t)" for xs using w by (intro ends_tail_of) auto
  let ?buf = "h @ CHR 0x00 # drop (length h + 1) (reconnect_host s)"
  have b: "js_str (print w (JStr h) @ q) (reconnect_host s) = (True, ?buf)" for q by (rule js_str_print(1) [OF h])
  have nn: "list_all (\<lambda>c. c \<noteq> CHR 0x00) h" using h(1) by (auto simp: plain_str_def list_all_iff)
  have "on_reconnect pf now (print w (JArr ?vs) @ t) s =
    stratum_drop (Some ''pool asked us to reconnect'') (s\<lparr>reconnect_host := ?buf, reconnect_port := int n,
      reconnect_pending := True, addr := [], retry_at := now + of_nat d\<rparr>)"
    using n by (simp add: on_reconnect_def e b Let_def reconnect_wait_dec [OF _ et] js_num_raw_dec [OF _ et] to_int_nat to_u64_nat)
  then show ?thesis using t(2) cstr_terminated [OF nn] by metis
qed

section \<open>Shares\<close>

lemma send_loop_ok: "send_loop l rs = (w, True, rs') \<Longrightarrow> w = l"
proof (induction l rs arbitrary: w rule: send_loop.induct)
  case (5 c l n rs)
  then show ?case by (auto simp: Let_def split: if_splits prod.splits)
qed auto

lemma send_loop_prefix: "send_loop l rs = (w, ok, rs') \<Longrightarrow> \<exists>r. l = w @ r"
proof (induction l rs arbitrary: w rule: send_loop.induct)
  case (5 c l n rs)
  then show ?case by (auto simp: Let_def split: if_splits prod.splits) (metis append_take_drop_id)
qed auto

definition submit_json :: "u64 \<Rightarrow> string \<Rightarrow> string \<Rightarrow> bytes \<Rightarrow> bytes \<Rightarrow> bytes \<Rightarrow> json" where
  "submit_json i w jid en2 nt nonce = JObj [(''id'', JRaw (dec (unat i))), (''method'', JStr ''mining.submit''),
     (''params'', JArr [JStr w, JStr jid, JStr (bin2hex en2), JStr (bin2hex nt), JStr (bin2hex nonce)])]"

lemma submit_line_print: "submit_line i w jid en2 nt nonce = print [] (submit_json i w jid en2 nt nonce) @ [CHR 0x0A]"
  by (simp add: submit_line_def submit_json_def print.simps)


lemma submit_fits:
  assumes "length w < 160" "length jid < 64" "length en2 \<le> 32" "length nt = 8" "length nonce = 8"
  shows "length (submit_line i w jid en2 nt nonce) < 1024"
  using assms length_dec_u64 [of i] by (simp add: submit_line_def)

lemma submit_ok:
  assumes "stratum_submit jid en2 nt nonce rs s = (True, s')"
    and "length (worker s) < 160" "length jid < 64" "length en2 \<le> 32" "length nt = 8" "length nonce = 8"
  shows "sent s' = sent s @ submit_line (next_id s + 1) (worker s) jid en2 nt nonce \<and>
     shares_submitted s' = shares_submitted s + 1 \<and> next_id s' = next_id s + 1"
proof -
  have "snprintf_s 1024 (submit_line (next_id s + 1) (worker s) jid en2 nt nonce) = submit_line (next_id s + 1) (worker s) jid en2 nt nonce"
    using submit_fits [OF assms(2-6), of "next_id s + 1"] by (simp add: snprintf_s_def)
  then show ?thesis using assms(1)
    by (auto simp: stratum_submit_def send_line_def Let_def split: if_splits prod.splits dest: send_loop_ok)
qed

lemma submit_json_ok: "plain_str w \<Longrightarrow> plain_str jid \<Longrightarrow> json_ok (submit_json i w jid en2 nt nonce)"
  by (simp add: submit_json_def plain_esc_ok plain_bin2hex raw_dec)

lemma submit_json_read:
  assumes "plain_str w" "plain_str jid" "length en2 \<le> 32" "length nt = 8" "length nonce = 8"
  shows "\<exists>ps e1 e2 e3 e4. js_get (print [] (submit_json i w jid en2 nt nonce) @ r) ''params'' = Some ps \<and> js_count ps = 5 \<and>
     js_elem ps 1 = Some (print [] (JStr jid) @ e1) \<and> js_elem ps 2 = Some e2 \<and> hex_upto e2 32 = Some en2 \<and>
     js_elem ps 3 = Some e3 \<and> hex_exact e3 8 = Some nt \<and> js_elem ps 4 = Some e4 \<and> hex_exact e4 8 = Some nonce"
proof -
  have w: "wsp []" by (simp add: wsp_def)
  let ?vs = "[JStr w, JStr jid, JStr (bin2hex en2), JStr (bin2hex nt), JStr (bin2hex nonce)]"
  obtain t where g: "js_get (print [] (submit_json i w jid en2 nt nonce) @ r) ''params'' = Some (print [] (JArr ?vs) @ t)"
    using js_get_Some [OF w, of "[(''id'', JRaw (dec (unat i))), (''method'', JStr ''mining.submit''), (''params'', JArr ?vs)]" "''params''" "JArr ?vs" r]
      submit_json_ok [OF assms(1,2), of i en2 nt nonce] unfolding submit_json_def by auto
  have vs: "list_all json_ok ?vs" using assms by (simp add: plain_esc_ok plain_bin2hex)
  show ?thesis using g js_count_print [OF w vs, of t] js_elem_print [OF w vs, of t] assms(3-5)
    by (simp add: hex_upto_print hex_exact_print)
qed

section \<open>Where a job comes from\<close>

text \<open>The text one poll takes from the socket, and the jobs announced in a text: the lines of it that are a \<^verbatim>\<open>mining.notify\<close> with readable parameters.\<close>

fun heard :: "recv_res list \<Rightarrow> string" where
  "heard [] = []"
| "heard (Data d # rs) = (if d = [] then [] else d @ heard rs)"
| "heard (Recv_intr # rs) = heard rs"
| "heard (_ # rs) = []"

definition announces :: "string \<Rightarrow> stratum_job \<Rightarrow> bool" where
  "announces line j \<longleftrightarrow> (\<exists>m buf params q. js_get line ''method'' = Some m \<and> js_str m (replicate 64 (CHR 0x00)) = (True, buf) \<and>
     cstr buf = ''mining.notify'' \<and> js_get line ''params'' = Some params \<and> parse_notify params q = Some j)"

definition announced :: "string \<Rightarrow> stratum_job \<Rightarrow> bool" where
  "announced t j \<longleftrightarrow> (\<exists>pre line post. t = pre @ line @ CHR 0x0A # post \<and> CHR 0x0A \<notin> set line \<and> announces (cstr line) j)"

text \<open>What a session holds came in the text received so far: its partial line ends it, and its job was announced in it.\<close>

definition told_by :: "string \<Rightarrow> stratum \<Rightarrow> bool" where
  "told_by t s \<longleftrightarrow> (\<exists>pre. t = pre @ rx s) \<and> (have_job s \<longrightarrow> announced t (job s))"

lemma announced_more: "announced t j \<Longrightarrow> announced (t @ u) j"
  unfolding announced_def by fastforce

lemma told_empty: "\<not> have_job s \<Longrightarrow> rx s = [] \<Longrightarrow> told_by t s"
  by (simp add: told_by_def)

lemma told_drop [simp]: "told_by t (stratum_drop y s)"
  by (intro told_empty) (simp_all add: stratum_drop_def Let_def split: option.split)

lemma told_same: "told_by t s \<Longrightarrow> rx s' = rx s \<Longrightarrow> job s' = job s \<Longrightarrow> have_job s' = have_job s \<Longrightarrow> told_by t s'"
  by (simp add: told_by_def)

lemma job_handlers:
  "job (on_set_difficulty ps s) = job s" "have_job (on_set_difficulty ps s) = have_job s"
  "job (on_subscribe pf r s) = job s" "have_job (on_subscribe pf r s) = have_job s"
  "job (on_verdict res err s) = job s" "have_job (on_verdict res err s) = have_job s"
  by (simp_all add: on_set_difficulty_def on_subscribe_def on_verdict_def Let_def split: option.split prod.split bool.split)

lemma job_extranonce: "job (on_set_extranonce pf ps s) = job s \<and> (have_job (on_set_extranonce pf ps s) \<longrightarrow> have_job s)"
  by (simp add: on_set_extranonce_def Let_def split: option.split prod.split bool.split)

lemma job_reconnect: "\<not> have_job (on_reconnect pf now ps s)"
proof -
  have "\<not> have_job (stratum_drop y s)" for y s by (simp add: stratum_drop_def Let_def split: option.split)
  then show ?thesis by (simp add: on_reconnect_def Let_def)
qed

lemma job_response: "job (on_response pf l s) = job s \<and> have_job (on_response pf l s) = have_job s"
  using job_handlers by (simp add: on_response_def Let_def split: option.split)

lemma job_on_line: "have_job (on_line pf now l s) \<Longrightarrow> (have_job s \<and> job (on_line pf now l s) = job s) \<or> announces l (job (on_line pf now l s))"
  unfolding on_line_def on_notify_def announces_def
  by (auto simp: Let_def job_reconnect job_response job_handlers conjunct1 [OF job_extranonce]
      dest: conjunct2 [OF job_extranonce, rule_format] split: option.splits prod.splits bool.splits if_splits)

lemma told_dispatch:
  "wf_stratum s \<Longrightarrow> 0 \<le> fd s \<Longrightarrow> \<exists>pre. t = pre @ p \<Longrightarrow> have_job s \<longrightarrow> announced t (job s) \<Longrightarrow> told_by t (dispatch pf now p s)"
proof (induction pf now p s rule: dispatch.induct)
  case (1 pf now p s)
  let ?l = "takeWhile (\<lambda>c. c \<noteq> CHR 0x0A) p" and ?r = "dropWhile (\<lambda>c. c \<noteq> CHR 0x0A) p"
  let ?s = "if ?l \<noteq> [] then on_line pf now (cstr ?l) s else s"
  show ?case
  proof (cases "?r = []")
    case True
    then show ?thesis using "1.prems" by (subst dispatch.simps) (simp add: told_by_def)
  next
    case False
    obtain pre where t: "t = pre @ p" using "1.prems"(3) by blast
    have r: "?r = CHR 0x0A # tl ?r" using False hd_dropWhile [OF False] by (metis list.collapse)
    then have p: "p = ?l @ CHR 0x0A # tl ?r" by (metis takeWhile_dropWhile_id)
    have n: "CHR 0x0A \<notin> set ?l" by (auto dest: set_takeWhileD)
    have "announced t j" if "announces (cstr ?l) j" for j
      unfolding announced_def using that n p t by (metis append.assoc)
    then have j: "have_job ?s \<longrightarrow> announced t (job ?s)" using "1.prems"(4) job_on_line [of pf now "cstr ?l" s] by auto
    have w: "wf_stratum ?s" using "1.prems" wf_on_line by simp
    have pre: "\<exists>pre. t = pre @ tl ?r" using p t by (metis append.assoc append_Cons append_Nil)
    show ?thesis
    proof (cases "fd ?s < 0")
      case True
      then have "told_by t ?s" using w by (intro told_empty) (auto simp: wf_stratum_def)
      then show ?thesis using False True by (subst dispatch.simps) (simp add: Let_def del: dropWhile_eq_Nil_conv)
    next
      case up: False
      have "told_by t (dispatch pf now (tl ?r) ?s)" by (rule "1.IH" [OF refl refl False refl up w _ pre j]) (use up in simp)
      then show ?thesis using False up by (subst dispatch.simps) (simp add: Let_def del: dropWhile_eq_Nil_conv)
    qed
  qed
qed

lemma recv_full: "RX_SIZE \<le> length (rx s) + 1 \<Longrightarrow> recv_loop rs s = (False, stratum_drop (Some ''rx overflow with no line terminator'') s)"
  by (subst recv_loop.simps) simp

lemma recv_step:
  assumes "\<not> RX_SIZE \<le> length (rx s) + 1"
  shows "recv_loop (Recv_again # rs) s = (True, s)" "recv_loop (Recv_intr # rs) s = recv_loop rs s"
    "recv_loop (Recv_error er # rs) s = (False, stratum_drop (Some er) s)"
  using assms by (subst recv_loop.simps, simp)+

lemma recv_heard:
  "recv_loop rs s = (ok, s') \<Longrightarrow> (if ok then s' = s\<lparr>rx := rx s @ heard rs\<rparr> else \<exists>y s0. s' = stratum_drop y s0)"
proof (induction rs arbitrary: s)
  case Nil
  then show ?case by (subst (asm) recv_loop.simps) (auto split: if_splits)
next
  case (Cons r rs)
  show ?case
  proof (cases "length (rx s) + 1 \<ge> RX_SIZE")
    case True
    then show ?thesis using Cons.prems by (subst (asm) recv_loop.simps) auto
  next
    case room: False
    show ?thesis
    proof (cases r)
      case (Data d)
      let ?s = "s\<lparr>rx := rx s @ take (RX_SIZE - length (rx s) - 1) d\<rparr>"
      show ?thesis
      proof (cases "d = []")
        case True
        then show ?thesis using Cons.prems room Data by (subst (asm) recv_loop.simps) auto
      next
        case False
        then have rl: "recv_loop rs ?s = (ok, s')" using Cons.prems room Data by (subst (asm) recv_loop.simps) simp
        show ?thesis
        proof (cases "length d \<le> RX_SIZE - length (rx s) - 1")
          case True
          then show ?thesis using Cons.IH [OF rl] False Data by simp
        next
          case over: False
          then show ?thesis using rl recv_full [of ?s rs] by auto
        qed
      qed
    next
      case Recv_again
      then show ?thesis using Cons.prems recv_step(1) [OF room, of rs] by auto
    next
      case Recv_intr
      then show ?thesis using Cons.prems Cons.IH [of s] recv_step(2) [OF room, of rs] by simp
    next
      case (Recv_error er)
      then show ?thesis using Cons.prems recv_step(3) [OF room, of er rs] by auto
    qed
  qed
qed

lemma told_dial:
  assumes "\<not> have_job s" "rx s = []"
  shows "told_by t (snd (dial e now rs s))"
proof -
  have sl: "\<not> have_job s \<Longrightarrow> rx s = [] \<Longrightarrow> send_line l rs s = (ok, rs', s') \<Longrightarrow> \<not> have_job s' \<and> rx s' = []" for l rs s ok rs' s'
    by (auto simp: send_line_def stratum_drop_def Let_def split: if_splits prod.splits)
  have h: "\<not> have_job (snd (handshake rs s)) \<and> rx (snd (handshake rs s)) = []" if "\<not> have_job s" "rx s = []" for rs s
    unfolding handshake_def using that by (auto simp: Let_def split: prod.splits dest!: sl [rotated 2])
  have "\<not> have_job (snd (dial_addr e now rs own h p a s)) \<and> rx (snd (dial_addr e now rs own h p a s)) = []"
    if "\<not> have_job s" "rx s = []" for own h p a s
    using that h by (simp add: dial_addr_def back_off_def Let_def split: sum.split option.split)
  then show ?thesis using assms by (intro told_empty) (simp_all add: dial_def back_off_def Let_def split: sum.split)
qed

text \<open>One poll: a session that is down hears nothing.\<close>

lemma told_poll:
  assumes "wf_stratum s" "told_by t s"
  shows "told_by (t @ (if fd s < 0 then [] else heard rs)) (stratum_poll pf e now ss rs s)"
proof (cases "fd s < 0")
  case True
  then show ?thesis using assms(1) told_dial by (simp add: stratum_poll_def wf_stratum_def)
next
  case up: False
  obtain ok s' where r: "recv_loop rs s = (ok, s')" by fastforce
  have w: "wf_stratum s'" "ok \<longrightarrow> fd s' = fd s" using wf_recv_loop [OF assms(1) r] up by auto
  show ?thesis
  proof (cases ok)
    case True
    then have s': "s' = s\<lparr>rx := rx s @ heard rs\<rparr>" using recv_heard [OF r] by simp
    obtain pre where "t = pre @ rx s" using assms(2) by (auto simp: told_by_def)
    then have pre: "\<exists>pre. t @ heard rs = pre @ rx s'" by (simp add: s')
    have "have_job s' \<longrightarrow> announced (t @ heard rs) (job s')" using assms(2) announced_more by (simp add: told_by_def s')
    then have "told_by (t @ heard rs) (dispatch pf now (rx s') s')" using w True up pre by (intro told_dispatch) auto
    then show ?thesis using r True up by (simp add: stratum_poll_def)
  next
    case False
    then have "told_by u s'" for u using recv_heard [OF r] by auto
    then show ?thesis using r False up by (simp add: stratum_poll_def)
  qed
qed

lemma told_submit: "told_by t s \<Longrightarrow> told_by t (snd (stratum_submit jid en2 nt nonce rs s))"
  by (auto simp: stratum_submit_def send_line_def Let_def split: if_splits prod.splits intro: told_same)

text \<open>The host and port of a session are those it was made with.\<close>

definition same_target :: "stratum \<Rightarrow> stratum \<Rightarrow> bool" where
  "same_target s s' \<longleftrightarrow> host s' = host s \<and> port s' = port s"

lemma target_drop: "same_target s (stratum_drop y s)"
  by (simp add: same_target_def stratum_drop_def Let_def split: option.split)

lemma target_submit: "same_target s (snd (stratum_submit jid en2 nt nonce rs s))"
  by (auto simp: same_target_def stratum_submit_def send_line_def stratum_drop_def Let_def split: if_splits prod.splits)

lemma target_handlers:
  "same_target s (on_notify ps s)" "same_target s (on_set_difficulty ps s)" "same_target s (on_subscribe pf r s)" "same_target s (on_verdict res err s)"
  by (simp_all add: same_target_def on_notify_def on_set_difficulty_def on_subscribe_def on_verdict_def Let_def split: option.split prod.split bool.split)

lemma target_set_extranonce: "same_target s (on_set_extranonce pf ps s)"
  by (simp add: same_target_def on_set_extranonce_def Let_def split: option.split prod.split bool.split)

lemma target_reconnect: "same_target s (on_reconnect pf now ps s)"
proof -
  have "host (stratum_drop y x) = host x" "port (stratum_drop y x) = port x" for y x using target_drop [of x y] by (simp_all add: same_target_def)
  then show ?thesis by (simp add: same_target_def on_reconnect_def Let_def split: option.split prod.split bool.split)
qed

lemma target_response: "same_target s (on_response pf l s)"
  using target_handlers [of s] by (simp add: on_response_def same_target_def Let_def split: option.split)

lemma target_on_line: "same_target s (on_line pf now l s)"
  using target_handlers [of s] target_reconnect [of s pf now] target_set_extranonce [of s pf] target_response [of s pf l]
  by (simp add: on_line_def same_target_def Let_def split: option.split prod.split bool.split)

lemma target_dispatch: "same_target s (dispatch pf now p s)"
proof (induction pf now p s rule: dispatch.induct)
  case (1 pf now p s)
  let ?l = "takeWhile (\<lambda>c. c \<noteq> CHR 0x0A) p" and ?r = "dropWhile (\<lambda>c. c \<noteq> CHR 0x0A) p"
  let ?s = "if ?l \<noteq> [] then on_line pf now (cstr ?l) s else s"
  have "same_target s ?s" using target_on_line [of s pf now "cstr ?l"] by (simp add: same_target_def)
  then show ?case using "1.IH" [OF refl refl _ refl] by (subst dispatch.simps) (simp add: same_target_def Let_def del: dropWhile_eq_Nil_conv)
qed

lemma target_poll: "same_target s (stratum_poll pf e now ss rs s)"
proof (cases "fd s < 0")
  case True
  then show ?thesis using dial_frame [of e now ss s] by (simp add: stratum_poll_def same_target_def)
next
  case False
  have "same_target s (snd (recv_loop rs s))"
  proof (induction rs arbitrary: s)
    case (Cons r rs)
    then show ?case using target_drop [of s] by (subst recv_loop.simps) (simp add: same_target_def split: recv_res.split)
  qed (subst recv_loop.simps, simp add: target_drop, simp add: same_target_def)
  then show ?thesis using False target_dispatch by (auto simp: stratum_poll_def same_target_def split: prod.splits)
qed

section \<open>A line the socket takes\<close>

text \<open>How many bytes a socket takes, in as many calls, before it fails.\<close>

fun capacity :: "send_res list \<Rightarrow> nat" where
  "capacity [] = 0"
| "capacity (Sent n # rs) = (if n = 0 then 0 else n + capacity rs)"
| "capacity (Send_again # rs) = capacity rs"
| "capacity (Send_fail # rs) = 0"

lemma send_capacity: "length l \<le> capacity rs \<Longrightarrow> \<exists>rs'. send_loop l rs = (l, True, rs')"
proof (induction l rs rule: send_loop.induct)
  case (5 c l n rs)
  show ?case
  proof (cases "n = 0")
    case False
    have "length (drop n (c # l)) \<le> capacity rs" using 5 False by simp
    from "5.IH" [OF False this] show ?thesis using False by (auto simp: Let_def simp flip: append_Cons)
  qed (use 5 in simp)
qed simp_all

section \<open>Reachable sessions\<close>

text \<open>The resolver's answer fits the array the session gives it, which \<^verbatim>\<open>dns_resolve_a\<close> is told the size of.\<close>

definition answers_fit :: "dial_env \<Rightarrow> bool" where
  "answers_fit e \<longleftrightarrow> (\<forall>h a. dns_resolve e h = Inr a \<longrightarrow> length a < 16)"

inductive session :: "platform \<Rightarrow> stratum \<Rightarrow> bool" for pf where
  start: "session pf (stratum_init h p w pw)"
| poll: "session pf s \<Longrightarrow> answers_fit e \<Longrightarrow> session pf (stratum_poll pf e now ss rs s)"
| submit: "session pf s \<Longrightarrow> session pf (snd (stratum_submit jid en2 nt nonce rs s))"
| close: "session pf s \<Longrightarrow> session pf (stratum_close s)"

lemma session_wf: "session pf s \<Longrightarrow> wf_stratum s"
  by (induction rule: session.induct) (simp_all add: wf_init wf_poll wf_submit stratum_close_def wf_drop)

lemma addr_drop [simp]: "addr (stratum_drop y s) = addr s"
  by (simp add: stratum_drop_def Let_def split: option.splits)

lemma addr_send_line: "send_line l rs s = (ok, rs', s') \<Longrightarrow> addr s' = addr s"
  by (auto simp: send_line_def Let_def split: if_splits prod.splits)

lemma addr_handshake: "addr (snd (handshake rs s)) = addr s"
  unfolding handshake_def by (auto simp: Let_def split: prod.splits dest!: addr_send_line)

lemma addr_dial_addr: "addr (snd (dial_addr e now rs own h p a s)) \<in> {addr s, []}"
  by (simp add: dial_addr_def back_off_def addr_handshake Let_def split: sum.splits option.splits)

lemma addr_dial: "answers_fit e \<Longrightarrow> length (addr s) < 16 \<Longrightarrow> length (addr (snd (dial e now rs s))) < 16"
proof -
  assume a: "answers_fit e" "length (addr s) < 16"
  have "length (addr s') < 16 \<Longrightarrow> length (addr (snd (dial_addr e now rs own h p x s'))) < 16" for own h p x s'
    using addr_dial_addr [of e now rs own h p x s'] by auto
  then show ?thesis using a unfolding dial_def by (auto simp: answers_fit_def back_off_def Let_def split: sum.splits)
qed

lemma addr_handlers:
  "addr (on_notify ps s) = addr s" "addr (on_set_difficulty ps s) = addr s" "addr (on_subscribe pf r s) = addr s" "addr (on_verdict res err s) = addr s"
  by (simp_all add: on_notify_def on_set_difficulty_def on_subscribe_def on_verdict_def Let_def split: option.split prod.split bool.split)

lemma addr_set_extranonce: "addr (on_set_extranonce pf ps s) = addr s"
  by (simp add: on_set_extranonce_def Let_def split: option.split prod.split bool.split)

lemma addr_reconnect: "addr (on_reconnect pf now ps s) \<in> {addr s, []}"
  by (simp add: on_reconnect_def Let_def split: option.split prod.split bool.split)

lemma addr_response: "addr (on_response pf l s) = addr s"
  by (simp add: on_response_def Let_def addr_handlers split: option.split)

lemma addr_on_line: "addr (on_line pf now l s) \<in> {addr s, []}"
  using addr_reconnect [of pf now _ s]
  by (simp add: on_line_def Let_def addr_handlers addr_set_extranonce addr_response split: option.split prod.split bool.split)

lemma addr_dispatch: "length (addr s) < 16 \<Longrightarrow> length (addr (dispatch pf now p s)) < 16"
proof (induction pf now p s rule: dispatch.induct)
  case (1 pf now p s)
  let ?l = "takeWhile (\<lambda>c. c \<noteq> CHR 0x0A) p" and ?r = "dropWhile (\<lambda>c. c \<noteq> CHR 0x0A) p"
  let ?s = "if ?l \<noteq> [] then on_line pf now (cstr ?l) s else s"
  have "length (addr ?s) < 16" using "1.prems" addr_on_line [of pf now "cstr ?l" s] by auto
  then show ?case using "1.prems" "1.IH" [OF refl refl _ refl] by (subst dispatch.simps) (simp add: Let_def del: dropWhile_eq_Nil_conv)
qed

lemma addr_recv_loop: "addr (snd (recv_loop rs s)) = addr s"
proof (induction rs arbitrary: s)
  case (Cons r rs)
  then show ?case by (subst recv_loop.simps) (simp split: recv_res.split)
qed (subst recv_loop.simps, simp)

lemma session_addr: "session pf s \<Longrightarrow> length (addr s) < 16"
proof (induction rule: session.induct)
  case (poll s e now ss rs)
  obtain ok s' where r: "recv_loop rs s = (ok, s')" by fastforce
  then have "addr s' = addr s" using addr_recv_loop [of rs s] by simp
  then show ?case using poll r addr_dial addr_dispatch by (simp add: stratum_poll_def)
next
  case (submit s jid en2 nt nonce rs)
  then show ?case by (auto simp: stratum_submit_def Let_def split: prod.splits dest!: addr_send_line)
qed (simp_all add: stratum_init_def stratum_close_def)

section \<open>Properties\<close>


definition plain_platform :: platform where
  "plain_platform = \<lparr>ub_u64 = (\<lambda>_. 0), ub_int = (\<lambda>_. 0), ub_atoi = (\<lambda>_. 0)\<rparr>"

definition dead_env :: dial_env where
  "dead_env = \<lparr>dns_resolve = (\<lambda>_. Inr ''10.0.0.1''), sock = Inr 3, pton_ok = (\<lambda>_. True),
     connects = (\<lambda>_ _. In_progress Select_timeout), strerror = (\<lambda>_. ''Connection timed out'')\<rparr>"


text \<open>
  C20: a job arrives intact.  For every well-formed job whose id needs no escapes, a \<^verbatim>\<open>mining.notify\<close> line carrying it, in any field
  order and with any white space, installs exactly that job, numbered one after the previous one, and changes
  nothing else of the session but the job count.
\<close>

theorem notify_installs_job:
  assumes "wsp w" "json_ok (JObj kvs)" "map_of kvs ''method'' = Some (JStr ''mining.notify'')"
    and "map_of kvs ''params'' = Some (JArr (notify_params j version))" "wf_job j" "plain_str (job_id j)" "esc_ok version"
  shows "on_line pf now (print w (JObj kvs) @ r) s =
    s\<lparr>job := j\<lparr>seq := seq (job s) + 1\<rparr>, have_job := True, jobs_received := jobs_received s + 1\<rparr>"
  using assms by (rule on_line_notify)

theorem notify_installs_job_witness:
  "have_job (on_line plain_platform 0
     (print '' '' (JObj [(''id'', JRaw ''null''), (''params'', JArr (notify_params zero_job [])), (''method'', JStr ''mining.notify'')]) @ [])
     (stratum_init None 0 None None))"
proof -
  have "json_ok (JArr (notify_params zero_job []))"
    using notify_params_ok [of zero_job "[]"] by (simp add: zero_job_def plain_str_def)
  then show ?thesis
    using notify_installs_job [of "'' ''" "[(''id'', JRaw ''null''), (''params'', JArr (notify_params zero_job [])), (''method'', JStr ''mining.notify'')]"
        zero_job "[]" plain_platform 0 "[]" "stratum_init None 0 None None"]
    by (simp add: wsp_def js_space_def raw_ok_def js_delim_def zero_job_def wf_job_def plain_str_def stratum_sizes)
qed

text \<open>
  C21: TCP segmentation is invisible.  As long as the buffer has room and the connection is still up, two
  reads handled by two polls leave the session in exactly the state one read of the joined bytes
  does, wherever the cut falls: in a key, in a number, before or after a newline.
\<close>

theorem segmentation_invisible:
  assumes "0 \<le> fd s" "d1 \<noteq> []" "d2 \<noteq> []" "length (rx s) + length d1 + length d2 + 1 < RX_SIZE"
    and "0 \<le> fd (stratum_poll pf e now ss [Data d1] s)"
  shows "stratum_poll pf e' now ss' [Data d2] (stratum_poll pf e now ss [Data d1] s) =
    stratum_poll pf e'' now ss'' [Data (d1 @ d2)] s"
  using assms by (rule poll_split)

theorem segmentation_invisible_witness:
  "stratum_poll plain_platform dead_env 0 [] [Data ''b'']
     (stratum_poll plain_platform dead_env 0 [] [Data ''a''] ((stratum_init None 0 None None)\<lparr>fd := 3\<rparr>)) =
   stratum_poll plain_platform dead_env 0 [] [Data ''ab''] ((stratum_init None 0 None None)\<lparr>fd := 3\<rparr>)"
  using segmentation_invisible [of "(stratum_init None 0 None None)\<lparr>fd := 3\<rparr>" "''a''" "''b''" plain_platform dead_env 0 "[]" dead_env "[]" dead_env "[]"]
  by (simp add: poll_data dispatch_no_newline stratum_init_def RX_SIZE_def)

text \<open>
  C33: exponential back-off.  However a pool is unreachable, name lookup failing or every kind of connection
  failure (a socket that cannot be made is none, and starts no wait), and however late after the end of each wait the next attempt comes, the wait after the \<open>k\<close>-th consecutive failure is \<open>2^k\<close> seconds,
  at most 120: the next attempt is due that long after the failed one was made, and until then a poll attempts nothing and changes nothing.
\<close>

theorem backoff_schedule:
  assumes "failed_attempts (as @ [(t, e)]) s" "backoff_s s = 0" "s' = attempts (as @ [(t, e)]) s" "k = length as + 1"
  shows "retry_at s' = t + of_nat (min 120 (2 ^ k)) \<and> unat (backoff_s s') = min 120 (2 ^ k) \<and> fd s' = fd s \<and>
     (now < t + of_nat (min 120 (2 ^ k)) \<longrightarrow> dial e' now rs s' = (rs, s'))"
proof -
  have k: "unat (backoff_s s') = min 120 (2 ^ k)" and r: "retry_at s' = t + ucast (backoff_s s')" and f: "fd s' = fd s"
    using backoff_doubles [OF assms(1) _ assms(2)] by (simp_all add: assms(3,4))
  have "ucast (backoff_s s') = (of_nat (min 120 (2 ^ k)) :: u64)" unfolding k [symmetric] by simp
  then have "retry_at s' = t + of_nat (min 120 (2 ^ k))" using r by simp
  then show ?thesis using k f dial_not_due by simp
qed

theorem backoff_schedule_witness:
  "retry_at (attempts [(5, dead_env), (9, dead_env)] (stratum_init (Some ''p'') 1 None None)) = 13 \<and>
   dial dead_env 12 [] (attempts [(5, dead_env), (9, dead_env)] (stratum_init (Some ''p'') 1 None None)) =
     ([], attempts [(5, dead_env), (9, dead_env)] (stratum_init (Some ''p'') 1 None None))"
proof -
  let ?s = "stratum_init (Some ''p'') 1 None None"
  have u: "unreachable dead_env" by (simp add: unreachable_def dead_env_def)
  have "retry_at (snd (dial dead_env 5 [] ?s)) = 7"
    by (simp add: dial_def dial_addr_def stratum_init_def dead_env_def back_off_def next_backoff_def
        BACKOFF_MIN_S_def BACKOFF_MAX_S_def Let_def snprintf_s_def ucast_eq [where 'b = 64 and 'a = 32])
  then have f: "failed_attempts ([(5, dead_env)] @ [(9, dead_env)]) ?s" using u by (simp add: stratum_init_def)
  show ?thesis using backoff_schedule [OF f _ refl refl, of 12 dead_env "[]"] by (simp add: stratum_init_def)
qed

text \<open>
  C34: a redirect is honoured once.  After \<^verbatim>\<open>client.reconnect\<close> with a host, a port and a wait of up to five
  minutes, the session is down; no attempt is made before the wait is over; the first attempt then
  resolves the new host and connects to the new port; and after that attempt, whatever its outcome, the
  session is back to the configured host and port.
\<close>

theorem redirect_is_one_time:
  assumes "wf_stratum s" "wsp w" "json_ok (JObj kvs)" "map_of kvs ''method'' = Some (JStr ''client.reconnect'')"
    and "map_of kvs ''params'' = Some (JArr [JStr h, JRaw (dec n), JRaw (dec d)])"
    and "plain_str h" "length h < 128" "n < 65536" "d \<le> 300"
    and "s1 = on_line pf now (print w (JObj kvs) @ r) s"
  shows "fd s1 < 0 \<and> (t < now + of_nat d \<longrightarrow> dial e t rs s1 = (rs, s1)) \<and>
     (now + of_nat d \<le> t \<longrightarrow>
        (case dns_resolve e h of
           Inl err \<Rightarrow> fd (snd (dial e t rs s1)) < 0
         | Inr a \<Rightarrow> dial e t rs s1 = dial_addr e t rs False h (int n) a (s1\<lparr>reconnect_pending := False\<rparr>)) \<and>
        \<not> reconnect_pending (snd (dial e t rs s1)) \<and>
        host (snd (dial e t rs s1)) = host s \<and> port (snd (dial e t rs s1)) = port s)"
proof -
  have h: "length h < length (reconnect_host s)" using assms(1,7) by (simp add: wf_stratum_def)
  obtain buf where b: "cstr buf = h" and s1: "s1 =
    stratum_drop (Some ''pool asked us to reconnect'') (s\<lparr>reconnect_host := buf, reconnect_port := int n,
      reconnect_pending := True, addr := [], retry_at := now + of_nat d\<rparr>)"
    using on_line_reconnect [OF assms(2-6) h assms(8,9), of pf now r] assms(10) by blast
  have f: "fd s1 < 0" "retry_at s1 = now + of_nat d" "reconnect_pending s1" "cstr (reconnect_host s1) = h"
    "reconnect_port s1 = int n" "host s1 = host s" "port s1 = port s" using b by (simp_all add: s1) (simp_all add: stratum_drop_def)
  have d: "dial e t rs s1 = (case dns_resolve e h of
       Inl err \<Rightarrow> (rs, back_off t (s1\<lparr>reconnect_pending := False, last_error := snprintf_s 192 err\<rparr>))
     | Inr a \<Rightarrow> dial_addr e t rs False h (int n) a (s1\<lparr>reconnect_pending := False\<rparr>))" if "now + of_nat d \<le> t"
  proof -
    have "\<not> t < now + of_nat d" using that by simp
    then show ?thesis using f by (simp add: dial_def Let_def split: sum.splits)
  qed
  show ?thesis using f d dial_frame [of e t rs s1]
    by (auto simp: dial_not_due back_off_def Let_def split: sum.splits)
qed

theorem redirect_is_one_time_witness:
  "\<not> reconnect_pending (snd (dial dead_env 10 [] (on_line plain_platform 5
     (print [] (JObj [(''method'', JStr ''client.reconnect''), (''params'', JArr [JStr ''alt'', JRaw (dec 4444), JRaw (dec 2)])]) @ [])
     (stratum_init None 0 None None))))"
  using redirect_is_one_time [OF wf_init [of None 0 None None], of "[]"
      "[(''method'', JStr ''client.reconnect''), (''params'', JArr [JStr ''alt'', JRaw (dec 4444), JRaw (dec 2)])]"
      "''alt''" 4444 2 _ plain_platform 5 "[]" 10 dead_env "[]"]
  by (simp add: wsp_def plain_str_def raw_dec)



end
