(* ===== verification/Devfee.thy ===== *)
theory Devfee
  imports Prelude
begin

text \<open>
  The developer-fee schedule (\<^verbatim>\<open>src/miner/devfee.c\<close>): the file-scope counters are a record, each
  function a state transformer.  \<open>event_counter\<close> and \<open>epoch_counter\<close> are the contracts of a
  counter that one kind of call advances and of the pair of counters that takes every twentieth
  call for the developer; the solo (template) and the pool schedules are both instances, for any
  interleaving of all the calls.
\<close>

definition DEVFEE_INTERVAL :: u64 where "DEVFEE_INTERVAL = 20"

definition DEVFEE_ADDRESS :: string where
  "DEVFEE_ADDRESS = ''bc1qztsz84mn408vfklya05sgf8v4j2wtfrscszene''"

record devfee_state =
  g_total :: u64
  g_dev :: u64
  g_current_is_dev :: bool
  g_pool_jobs :: u64
  g_pool_dev_jobs :: u64
  g_pool_skipped :: u64
  g_pool_shares :: u64

definition devfee_reset :: devfee_state where
  "devfee_reset = \<lparr>g_total = 0, g_dev = 0, g_current_is_dev = False, g_pool_jobs = 0,
     g_pool_dev_jobs = 0, g_pool_skipped = 0, g_pool_shares = 0\<rparr>"

definition devfee_next_payout :: "string option \<Rightarrow> devfee_state \<Rightarrow> string \<times> devfee_state" where
  "devfee_next_payout user_address s =
     (let s = s\<lparr>g_total := g_total s + 1\<rparr>;
          s = s\<lparr>g_current_is_dev := (g_total s mod DEVFEE_INTERVAL = 0)\<rparr>
      in if g_current_is_dev s
         then (DEVFEE_ADDRESS, s\<lparr>g_dev := g_dev s + 1\<rparr>)
         else (case user_address of Some a \<Rightarrow> a | None \<Rightarrow> DEVFEE_ADDRESS, s))"

definition devfee_pool_epoch :: "devfee_state \<Rightarrow> bool \<times> devfee_state" where
  "devfee_pool_epoch s =
     (let s = s\<lparr>g_pool_jobs := g_pool_jobs s + 1\<rparr>
      in if g_pool_jobs s mod DEVFEE_INTERVAL \<noteq> 0 then (False, s)
         else (True, s\<lparr>g_pool_dev_jobs := g_pool_dev_jobs s + 1\<rparr>))"

definition devfee_pool_skip :: "devfee_state \<Rightarrow> devfee_state" where
  "devfee_pool_skip s = s\<lparr>g_pool_skipped := g_pool_skipped s + 1\<rparr>"

definition devfee_pool_credit :: "devfee_state \<Rightarrow> devfee_state" where
  "devfee_pool_credit s = s\<lparr>g_pool_shares := g_pool_shares s + 1\<rparr>"

section \<open>Runs: any interleaving of the calls\<close>

datatype devfee_op = Next_payout "string option" | Pool_epoch | Pool_skip | Pool_credit

fun devfee_step :: "devfee_op \<Rightarrow> devfee_state \<Rightarrow> devfee_state" where
  "devfee_step (Next_payout u) s = snd (devfee_next_payout u s)"
| "devfee_step Pool_epoch s = snd (devfee_pool_epoch s)"
| "devfee_step Pool_skip s = devfee_pool_skip s"
| "devfee_step Pool_credit s = devfee_pool_credit s"

fun is_payout :: "devfee_op \<Rightarrow> bool" where
  "is_payout (Next_payout _) = True"
| "is_payout _ = False"

definition devfee_run :: "devfee_op list \<Rightarrow> devfee_state" where
  "devfee_run ops = fold devfee_step ops devfee_reset"

definition calls :: "('op \<Rightarrow> bool) \<Rightarrow> 'op list \<Rightarrow> nat" where
  "calls p ops = length (filter p ops)"

lemma calls_le: "calls p ops \<le> length ops"
  by (simp add: calls_def)

lemma unat_add_flag:
  fixes x :: u64
  assumes "unat x + 1 < 2 ^ 64"
  shows "unat (x + of_bool b) = unat x + of_bool b"
  using assms by (cases b) (simp_all add: unat_word_ariths)

section \<open>The contracts\<close>

locale event_counter =
  fixes step :: "'op \<Rightarrow> 's \<Rightarrow> 's"
    and is_tick :: "'op \<Rightarrow> bool"
    and jobs :: "'s \<Rightarrow> u64"
  assumes jobs_step: "jobs (step op s) = jobs s + of_bool (is_tick op)"
begin

lemma jobs_fold:
  assumes "jobs s = 0" and "length ops < 2 ^ 64"
  shows "unat (jobs (fold step ops s)) = calls is_tick ops"
  using assms(2)
proof (induction ops rule: rev_induct)
  case Nil
  then show ?case by (simp add: assms(1) calls_def)
next
  case (snoc op ops)
  have "calls is_tick ops + 1 < 2 ^ 64" using calls_le [of is_tick ops] snoc.prems by simp
  then show ?case using snoc by (simp add: jobs_step unat_add_flag) (simp add: calls_def)
qed

end

locale epoch_counter = event_counter step is_tick jobs
  for step :: "'op \<Rightarrow> 's \<Rightarrow> 's" and is_tick jobs +
  fixes dev :: "'s \<Rightarrow> u64"
  assumes dev_step: "dev (step op s) = dev s + of_bool (is_tick op \<and> (jobs s + 1) mod DEVFEE_INTERVAL = 0)"
begin

lemma dev_fold:
  assumes "jobs s = 0" and "dev s = 0" and "length ops < 2 ^ 64"
  shows "unat (dev (fold step ops s)) = calls is_tick ops div 20"
  using assms(3)
proof (induction ops rule: rev_induct)
  case Nil
  then show ?case by (simp add: assms(2) calls_def)
next
  case (snoc op ops)
  let ?t = "fold step ops s" and ?n = "calls is_tick ops"
  have lt: "?n + 1 < 2 ^ 64" using calls_le [of is_tick ops] snoc.prems by simp
  have IH: "unat (dev ?t) = ?n div 20" using snoc by simp
  have jobs: "unat (jobs ?t) = ?n" using jobs_fold [OF assms(1)] snoc.prems by simp
  then have "unat (jobs ?t + 1) = ?n + 1" using lt unat_add_flag [of "jobs ?t" True] by simp
  then have "(jobs ?t + 1) mod DEVFEE_INTERVAL = 0 \<longleftrightarrow> (?n + 1) mod 20 = 0"
    by (simp add: DEVFEE_INTERVAL_def word_unat_eq_iff unat_mod_distrib)
  then have "unat (dev (step op ?t)) = ?n div 20 + of_bool (is_tick op \<and> (?n + 1) mod 20 = 0)"
    using IH lt unat_add_flag [of "dev ?t"] by (simp add: dev_step del: of_bool_eq)
  also have "\<dots> = calls is_tick (ops @ [op]) div 20"
    by (auto simp: calls_def div_Suc)
  finally show ?case by simp
qed

end

section \<open>Both schedules are instances\<close>

lemmas devfee_op_defs = devfee_next_payout_def devfee_pool_epoch_def devfee_pool_skip_def
  devfee_pool_credit_def Let_def

interpretation solo: epoch_counter devfee_step is_payout g_total g_dev
proof
  show "g_total (devfee_step op s) = g_total s + of_bool (is_payout op)" for op s
    by (cases op) (simp_all add: devfee_op_defs)
  show "g_dev (devfee_step op s) =
      g_dev s + of_bool (is_payout op \<and> (g_total s + 1) mod DEVFEE_INTERVAL = 0)" for op s
    by (cases op) (simp_all add: devfee_op_defs)
qed

interpretation pool: epoch_counter devfee_step "\<lambda>op. op = Pool_epoch" g_pool_jobs g_pool_dev_jobs
proof
  show "g_pool_jobs (devfee_step op s) = g_pool_jobs s + of_bool (op = Pool_epoch)" for op s
    by (cases op) (simp_all add: devfee_op_defs)
  show "g_pool_dev_jobs (devfee_step op s) =
      g_pool_dev_jobs s + of_bool (op = Pool_epoch \<and> (g_pool_jobs s + 1) mod DEVFEE_INTERVAL = 0)" for op s
    by (cases op) (simp_all add: devfee_op_defs)
qed

interpretation skipped: event_counter devfee_step "\<lambda>op. op = Pool_skip" g_pool_skipped
  by unfold_locales (rename_tac op s, case_tac op, simp_all add: devfee_op_defs)

interpretation shares: event_counter devfee_step "\<lambda>op. op = Pool_credit" g_pool_shares
  by unfold_locales (rename_tac op s, case_tac op, simp_all add: devfee_op_defs)

section \<open>Properties\<close>

text \<open>
  C38: fee accounting.  After any interleaving of calls from a reset, each counter is the number of
  its calls, and exactly one template in twenty and one pool job in twenty has gone to the
  developer; solo and pool accounting never disturb one another.
\<close>

theorem devfee_accounting:
  assumes "length ops < 2 ^ 64"
  shows "unat (g_total (devfee_run ops)) = calls is_payout ops \<and>
         unat (g_dev (devfee_run ops)) = calls is_payout ops div 20 \<and>
         unat (g_pool_jobs (devfee_run ops)) = calls (\<lambda>op. op = Pool_epoch) ops \<and>
         unat (g_pool_dev_jobs (devfee_run ops)) = calls (\<lambda>op. op = Pool_epoch) ops div 20 \<and>
         unat (g_pool_skipped (devfee_run ops)) = calls (\<lambda>op. op = Pool_skip) ops \<and>
         unat (g_pool_shares (devfee_run ops)) = calls (\<lambda>op. op = Pool_credit) ops"
  using solo.jobs_fold solo.dev_fold pool.jobs_fold pool.dev_fold skipped.jobs_fold shares.jobs_fold assms
  by (simp add: devfee_run_def devfee_reset_def)

theorem devfee_accounting_witness:
  "unat (g_pool_dev_jobs (devfee_run (replicate 41 Pool_epoch @ [Next_payout None, Pool_skip]))) = 2"
  using devfee_accounting [of "replicate 41 Pool_epoch @ [Next_payout None, Pool_skip]"]
  by (simp add: calls_def)

text \<open>
  who is paid.  The \<open>k\<close>-th template since a reset pays the developer exactly when \<open>k\<close> is a
  multiple of twenty or no operator address is configured, and otherwise pays the operator; the
  flag the status page reads agrees with the schedule.
\<close>

theorem devfee_payee:
  assumes "length ops + 1 < 2 ^ 64" and "devfee_next_payout user (devfee_run ops) = (payee, s')"
  shows "payee = (if (calls is_payout ops + 1) mod 20 = 0 then DEVFEE_ADDRESS
                  else (case user of Some a \<Rightarrow> a | None \<Rightarrow> DEVFEE_ADDRESS)) \<and>
         (g_current_is_dev s' \<longleftrightarrow> (calls is_payout ops + 1) mod 20 = 0)"
proof -
  let ?s = "devfee_run ops"
  have "unat (g_total ?s) = calls is_payout ops"
    using solo.jobs_fold assms(1) by (simp add: devfee_run_def devfee_reset_def)
  then have "unat (g_total ?s + 1) = calls is_payout ops + 1"
    using unat_add_flag [of "g_total ?s" True] calls_le [of is_payout ops] assms(1) by simp
  then have "(g_total ?s + 1) mod DEVFEE_INTERVAL = 0 \<longleftrightarrow> (calls is_payout ops + 1) mod 20 = 0"
    by (simp add: DEVFEE_INTERVAL_def word_unat_eq_iff unat_mod_distrib)
  then show ?thesis using assms(2) by (auto simp: devfee_next_payout_def Let_def split: if_splits)
qed

theorem devfee_payee_witness:
  "fst (devfee_next_payout (Some ''bc1x'') (devfee_run (replicate 19 (Next_payout None)))) = DEVFEE_ADDRESS \<and>
   fst (devfee_next_payout (Some ''bc1x'') (devfee_run (replicate 20 (Next_payout None)))) = ''bc1x''"
  using devfee_payee [of "replicate 19 (Next_payout None)" "Some ''bc1x''"
      "fst (devfee_next_payout (Some ''bc1x'') (devfee_run (replicate 19 (Next_payout None))))"]
    devfee_payee [of "replicate 20 (Next_payout None)" "Some ''bc1x''"
      "fst (devfee_next_payout (Some ''bc1x'') (devfee_run (replicate 20 (Next_payout None))))"]
  by (simp add: calls_def prod_eq_iff)

end
