(* ===== verification/Bech32.thy ===== *)
theory Bech32
  imports Devfee "HOL-Library.Monad_Syntax"
begin

text \<open>
  Address decoding (\<^verbatim>\<open>src/miner/bech32.c\<close>).  A \<^verbatim>\<open>char\<close> is read through its byte value, so the range
  checks are comparisons of bytes.  A decoded address is a record whose \<open>program\<close> is the first
  \<^verbatim>\<open>program_len\<close> bytes of the C array; every failure is \<open>Inl (-1)\<close>.
\<close>

unbundle bit_operations_syntax

section \<open>The code\<close>

definition CHARSET :: string where
  "CHARSET = ''qpzry9x8gf2tvdw0s3jn54khce6mua7l''"

definition BECH32_CONST :: u32 where "BECH32_CONST = 1"
definition BECH32M_CONST :: u32 where "BECH32M_CONST = 0x2bc830a3"

definition GEN :: "u32 list" where
  "GEN = [0x3b6a57b2, 0x26508e6d, 0x1ea119fa, 0x3d4233dd, 0x2a1462b3]"

definition polymod_step :: "u32 \<Rightarrow> u8 \<Rightarrow> u32" where
  "polymod_step chk v =
     (let top = drop_bit 25 chk;
          chk = push_bit 5 (chk AND 0x1ffffff) XOR ucast v
      in foldl (\<lambda>c j. if bit top j then c XOR GEN ! j else c) chk [0..<5])"

definition polymod :: "bytes \<Rightarrow> u32" where
  "polymod vals = foldl polymod_step 1 vals"

definition charset_index :: "char \<Rightarrow> int" where
  "charset_index c = (case find (\<lambda>i. CHARSET ! i = c) [0..<32] of Some i \<Rightarrow> int i | None \<Rightarrow> -1)"

fun emit_bytes :: "u32 \<Rightarrow> nat \<Rightarrow> nat \<Rightarrow> bytes \<Rightarrow> (nat \<times> bytes) option" where
  "emit_bytes acc bits outsz out =
     (if bits \<ge> 8 then
        (if length out \<ge> outsz then None
         else emit_bytes acc (bits - 8) outsz (out @ [ucast (drop_bit (bits - 8) acc AND 0xff)]))
      else Some (bits, out))"

declare emit_bytes.simps [simp del]

fun convert_loop :: "nat \<Rightarrow> bytes \<Rightarrow> u32 \<Rightarrow> nat \<Rightarrow> bytes \<Rightarrow> (u32 \<times> nat \<times> bytes) option" where
  "convert_loop outsz [] acc bits out = Some (acc, bits, out)"
| "convert_loop outsz (v # vs) acc bits out =
     (let acc = push_bit 5 acc OR ucast v in
      case emit_bytes acc (bits + 5) outsz out of
        None \<Rightarrow> None
      | Some (bits, out) \<Rightarrow> convert_loop outsz vs acc bits out)"

definition convert5to8 :: "bytes \<Rightarrow> nat \<Rightarrow> bytes option" where
  "convert5to8 inp outsz =
     (case convert_loop outsz inp 0 0 [] of
        None \<Rightarrow> None
      | Some (acc, bits, out) \<Rightarrow>
          if bits \<ge> 5 then None
          else if push_bit (8 - bits) acc AND 0xff \<noteq> 0 then None
          else Some out)"

record bech32_addr =
  hrp :: string
  witver :: nat
  program :: bytes

definition BECH32_MAX_PROGRAM :: nat where "BECH32_MAX_PROGRAM = 40"

definition is_lower :: "char \<Rightarrow> bool" where "is_lower c \<longleftrightarrow> ch CHR ''a'' \<le> ch c \<and> ch c \<le> ch CHR ''z''"
definition is_upper :: "char \<Rightarrow> bool" where "is_upper c \<longleftrightarrow> ch CHR ''A'' \<le> ch c \<and> ch c \<le> ch CHR ''Z''"

definition to_lower :: "char \<Rightarrow> char" where
  "to_lower c = (if is_upper c then char_of (ch c - ch CHR ''A'' + ch CHR ''a'') else c)"

fun strrchr :: "string \<Rightarrow> char \<Rightarrow> nat option" where
  "strrchr [] c = None"
| "strrchr (x # xs) c =
     (case strrchr xs c of Some i \<Rightarrow> Some (Suc i) | None \<Rightarrow> if x = c then Some 0 else None)"

definition hrp_expand :: "string \<Rightarrow> bytes" where
  "hrp_expand h = map (\<lambda>c. drop_bit 5 (of_char c)) h @ [0] @ map (\<lambda>c. of_char c AND 31) h"

fun data_values :: "nat \<Rightarrow> string \<Rightarrow> bytes option" where
  "data_values vlen [] = Some []"
| "data_values vlen (c # cs) =
     (let v = charset_index c in
      if v < 0 then None
      else if vlen \<ge> 128 then None
      else map_option (\<lambda>vs. word_of_int v # vs) (data_values (vlen + 1) cs))"

text \<open>
  From the checksum test on: \<open>h\<close> the lower-case prefix, \<open>dat\<close> the values of the data part.  With
  only the six checksum values the length \<^verbatim>\<open>datalen - 1 - 6\<close> wraps to \<^verbatim>\<open>SIZE_MAX\<close>, the regrouping
  runs on over the uninitialised rest of the 128-byte array and fails when the 40-byte program
  is full, whatever it reads (\<open>convert5to8_overrun\<close> below): that case is the explicit \<open>Inl (-1)\<close>.
\<close>

definition check_program :: "string \<Rightarrow> bytes \<Rightarrow> int + bech32_addr" where
  "check_program h dat =
     (let chk = polymod (hrp_expand h @ dat); wv = dat ! 0 in
      if wv = 0 \<and> chk \<noteq> BECH32_CONST then Inl (-1)
      else if wv \<noteq> 0 \<and> chk \<noteq> BECH32M_CONST then Inl (-1)
      else if wv > 16 then Inl (-1)
      else if length dat < 7 then Inl (-1)
      else (case convert5to8 (take (length dat - 1 - 6) (drop 1 dat)) BECH32_MAX_PROGRAM of
         None \<Rightarrow> Inl (-1)
       | Some prog \<Rightarrow>
           if length prog < 2 \<or> length prog > 40 then Inl (-1)
           else if wv = 0 \<and> length prog \<noteq> 20 \<and> length prog \<noteq> 32 then Inl (-1)
           else Inr \<lparr>hrp = h, witver = unat wv, program = prog\<rparr>))"

definition bech32_decode_addr :: "string \<Rightarrow> int + bech32_addr" where
  "bech32_decode_addr addr =
     (let len = length addr in
      if len < 8 \<or> len > 90 then Inl (-1)
      else if list_ex (\<lambda>c. ch c < 33 \<or> ch c > 126) addr then Inl (-1)
      else if list_ex is_lower addr \<and> list_ex is_upper addr then Inl (-1)
      else let buf = map to_lower addr in
        (case strrchr buf CHR ''1'' of
           None \<Rightarrow> Inl (-1)
         | Some hrplen \<Rightarrow>
             let datalen = len - hrplen - 1 in
             if hrplen < 1 \<or> hrplen \<ge> 8 then Inl (-1)
             else if datalen < 6 then Inl (-1)
             else (case data_values (2 * hrplen + 1) (drop (hrplen + 1) buf) of
                 None \<Rightarrow> Inl (-1)
               | Some dat \<Rightarrow> check_program (take hrplen buf) dat)))"

definition bech32_scriptpubkey :: "bech32_addr \<Rightarrow> nat \<Rightarrow> int + bytes" where
  "bech32_scriptpubkey a outsz =
     (if outsz < length (program a) + 2 then Inl (-1)
      else Inr ((if witver a = 0 then 0x00 else of_nat (0x50 + witver a)) #
                of_nat (length (program a)) # program a))"

section \<open>Regrouping 5-bit values\<close>

definition val32 :: "bytes \<Rightarrow> nat" where
  "val32 vs = foldl (\<lambda>a v. 32 * a + unat v) 0 vs"

lemma val32_snoc: "val32 (vs @ [v]) = 32 * val32 vs + unat v"
  by (simp add: val32_def)

lemma acc5_step:
  fixes acc :: u32 and v :: u8
  assumes "v < 32"
  shows "unat (push_bit 5 acc OR ucast v) = (32 * unat acc + unat v) mod 2 ^ 32"
proof -
  have v: "unat v < 32" using assms by (simp add: word_less_nat_alt)
  have nb: "\<not> bit v n" if "5 \<le> n" for n
  proof
    assume "bit v n"
    then have "2 ^ n \<le> unat v" using bit_unat [of v n] by (simp add: bit_iff_odd) (metis div_less even_zero linorder_not_less)
    moreover have "(2::nat) ^ 5 \<le> 2 ^ n" using that by (intro power_increasing) simp_all
    ultimately show False using v by simp
  qed
  have "push_bit 5 acc OR ucast v = push_bit 5 acc + ucast v"
    by (rule disjunctive_add [symmetric]) (use nb in \<open>auto simp: bit_simps not_less\<close>)
  moreover have "unat (ucast v :: u32) = unat v"
    using v by (simp add: unsigned_ucast_eq take_bit_nat_eq_self)
  ultimately show ?thesis
    by (simp add: push_bit_eq_mult unat_word_ariths mod_add_left_eq mult.commute)
qed

lemma drop_byte:
  fixes acc :: u32
  assumes "k + 8 \<le> 32" and "unat acc = V mod 2 ^ 32"
  shows "unat (ucast (drop_bit k acc AND 0xff) :: u8) = V div 2 ^ k mod 256"
proof -
  have "unat (drop_bit k acc AND 0xff) = (V mod 2 ^ 32) div 2 ^ k mod 2 ^ 8"
    by (simp only: unat_and_ff unat_drop_bit_div assms(2)) simp
  also have "\<dots> = V mod 2 ^ 32 mod 2 ^ (k + 8) div 2 ^ k" by (rule div_exp_mod_exp_eq)
  also have "V mod 2 ^ 32 mod 2 ^ (k + 8) = V mod 2 ^ (k + 8)"
    using assms(1) by (intro mod_mod_cancel le_imp_power_dvd)
  also have "V mod 2 ^ (k + 8) div 2 ^ k = V div 2 ^ k mod 2 ^ 8" by (rule div_exp_mod_exp_eq [symmetric])
  finally have u: "unat (drop_bit k acc AND 0xff) = V div 2 ^ k mod 256" by simp
  then have "unat (drop_bit k acc AND 0xff) < 256" by simp
  then show ?thesis by (simp add: unsigned_ucast_eq take_bit_nat_eq_self u)
qed

text \<open>What the loop has done after the values \<open>p\<close>: the accumulator is their value modulo \<open>2^32\<close>.\<close>

definition regrouped :: "nat \<Rightarrow> bytes \<Rightarrow> u32 \<Rightarrow> nat \<Rightarrow> bytes \<Rightarrow> bool" where
  "regrouped outsz p acc bits out \<longleftrightarrow> unat acc = val32 p mod 2 ^ 32 \<and> bits = 5 * length p mod 8 \<and>
     length out = 5 * length p div 8 \<and> length out \<le> outsz \<and> be_val out = val32 p div 2 ^ bits"

lemma div_mod8_step:
  fixes m :: nat
  shows "m mod 8 + 5 < 8 \<Longrightarrow> (m + 5) mod 8 = m mod 8 + 5 \<and> (m + 5) div 8 = m div 8"
    and "m mod 8 + 5 \<ge> 8 \<Longrightarrow> (m + 5) mod 8 = m mod 8 + 5 - 8 \<and> (m + 5) div 8 = Suc (m div 8)"
proof -
  define q r where "q = m div 8" and "r = m mod 8"
  have m: "m + 5 = 8 * q + (r + 5)" by (simp add: q_def r_def)
  show "m mod 8 + 5 < 8 \<Longrightarrow> (m + 5) mod 8 = m mod 8 + 5 \<and> (m + 5) div 8 = m div 8"
    unfolding m by (simp add: q_def [symmetric] r_def [symmetric])
  assume "m mod 8 + 5 \<ge> 8"
  then have m2: "m + 5 = 8 * Suc q + (r + 5 - 8)" and lt: "r + 5 - 8 < 8" using m by (simp_all add: r_def)
  have "(8 * Suc q + (r + 5 - 8)) mod 8 = r + 5 - 8" "(8 * Suc q + (r + 5 - 8)) div 8 = Suc q"
    using lt by (simp_all only: mod_mult_self4 div_mult_self4) simp_all
  then show "(m + 5) mod 8 = m mod 8 + 5 - 8 \<and> (m + 5) div 8 = Suc (m div 8)"
    by (simp only: m2 q_def r_def)
qed

lemma regrouped_step:
  assumes R: "regrouped outsz p acc bits out" and v: "v < 32"
  shows "case emit_bytes (push_bit 5 acc OR ucast v) (bits + 5) outsz out of
           None \<Rightarrow> outsz < 5 * length (p @ [v]) div 8
         | Some (bits', out') \<Rightarrow> regrouped outsz (p @ [v]) (push_bit 5 acc OR ucast v) bits' out'"
proof -
  let ?acc = "push_bit 5 acc OR ucast v" and ?V = "val32 (p @ [v])"
  have b: "bits < 8" and len: "length out = 5 * length p div 8" "length out \<le> outsz"
    and bits: "bits = 5 * length p mod 8" and val: "be_val out = val32 p div 2 ^ bits"
    using R by (auto simp: regrouped_def)
  have acc: "unat ?acc = ?V mod 2 ^ 32"
  proof -
    have "unat ?acc = (32 * (val32 p mod 2 ^ 32) + unat v) mod 2 ^ 32"
      using acc5_step [OF v, of acc] R by (simp add: regrouped_def)
    also have "\<dots> = ?V mod 2 ^ 32" unfolding val32_snoc by (metis mod_add_left_eq mod_mult_right_eq)
    finally show ?thesis .
  qed
  have "unat v div 32 = 0" using v by (simp add: word_less_nat_alt)
  then have up: "?V div 32 = val32 p" by (simp add: val32_snoc)
  then have shifted: "?V div 2 ^ (bits + 5) = be_val out"
    by (simp add: val power_add div_mult2_eq [symmetric] mult.commute flip: up)
  show ?thesis
  proof (cases "bits + 5 \<ge> 8")
    case False
    have "bits + 5 = 5 * length (p @ [v]) mod 8" "length out = 5 * length (p @ [v]) div 8"
      using False div_mod8_step(1) [of "5 * length p"] by (simp_all add: bits len add.commute)
    then show ?thesis using False acc len shifted
      by (simp add: emit_bytes.simps [of ?acc] regrouped_def)
  next
    case True
    then obtain k where kk: "bits + 5 = k + 8" by (metis add.commute le_Suc_ex)
    let ?b = "ucast (drop_bit k ?acc AND 0xff) :: u8"
    have k: "k = 5 * length (p @ [v]) mod 8" and l: "Suc (length out) = 5 * length (p @ [v]) div 8"
      using kk True div_mod8_step(2) [of "5 * length p"] by (simp_all add: bits len add.commute)
    have kb: "k < 8" using kk b by simp
    have byte: "unat ?b = ?V div 2 ^ k mod 256" using drop_byte [OF _ acc, of k] kb by simp
    have "be_val out = ?V div 2 ^ k div 256"
      using shifted by (simp add: kk power_add div_mult2_eq)
    then have "be_val (out @ [?b]) = 256 * (?V div 2 ^ k div 256) + ?V div 2 ^ k mod 256"
      by (simp only: be_val_snoc byte)
    then have val': "be_val (out @ [?b]) = ?V div 2 ^ k" by simp
    have "emit_bytes ?acc (bits + 5) outsz out = (if outsz \<le> length out then None else Some (k, out @ [?b]))"
      using kb by (simp add: kk emit_bytes.simps [of ?acc "k + 8"] emit_bytes.simps [of ?acc k])
    then show ?thesis
      using acc l k len(2) val' by (simp add: regrouped_def)
  qed
qed

lemma convert_loop_regroups:
  assumes "regrouped outsz p acc bits out" and "list_all (\<lambda>v. v < 32) vs"
  shows "case convert_loop outsz vs acc bits out of
           None \<Rightarrow> outsz < 5 * length (p @ vs) div 8
         | Some (acc', bits', out') \<Rightarrow> regrouped outsz (p @ vs) acc' bits' out'"
  using assms
proof (induction vs arbitrary: p acc bits out)
  case Nil
  then show ?case by simp
next
  case (Cons v vs)
  let ?acc = "push_bit 5 acc OR ucast v"
  have v: "v < 32" and vs: "list_all (\<lambda>v. v < 32) vs" using Cons.prems(2) by simp_all
  show ?case
  proof (cases "emit_bytes ?acc (bits + 5) outsz out")
    case None
    then have "outsz < 5 * length (p @ [v]) div 8" using regrouped_step [OF Cons.prems(1) v] by simp
    also have "\<dots> \<le> 5 * length (p @ v # vs) div 8" by (intro div_le_mono) simp
    finally show ?thesis using None by (simp add: Let_def)
  next
    case (Some r)
    obtain bits' out' where r: "r = (bits', out')" by (cases r)
    have "regrouped outsz (p @ [v]) ?acc bits' out'"
      using regrouped_step [OF Cons.prems(1) v] Some r by simp
    from Cons.IH [OF this vs, unfolded append_assoc append_Cons append_Nil]
    show ?thesis using Some r by (simp add: Let_def)
  qed
qed

lemma padding_zero:
  fixes acc :: u32
  assumes "bits \<le> 8" and acc: "unat acc = V mod 2 ^ 32"
  shows "push_bit (8 - bits) acc AND 0xff = 0 \<longleftrightarrow> 2 ^ bits dvd V"
proof -
  have "unat (push_bit (8 - bits) acc) = V * 2 ^ (8 - bits) mod 2 ^ 32"
    by (simp only: unsigned_push_bit_eq acc) (simp add: take_bit_eq_mod push_bit_eq_mult mod_mult_left_eq)
  then have "unat (push_bit (8 - bits) acc AND 0xff) = V * 2 ^ (8 - bits) mod 2 ^ 32 mod 2 ^ 8"
    by (simp add: unat_and_ff)
  also have "\<dots> = V * 2 ^ (8 - bits) mod 2 ^ 8" by (intro mod_mod_cancel le_imp_power_dvd) simp
  finally have "push_bit (8 - bits) acc AND 0xff = 0 \<longleftrightarrow> 2 ^ 8 dvd V * 2 ^ (8 - bits)"
    by (simp add: word_unat_eq_iff dvd_eq_mod_eq_0)
  also have "(2::nat) ^ 8 = 2 ^ bits * 2 ^ (8 - bits)" using assms(1) by (simp flip: power_add)
  finally show ?thesis by simp
qed

lemma convert5to8_spec:
  assumes "list_all (\<lambda>v. v < 32) inp"
  shows "convert5to8 inp outsz = Some out \<longleftrightarrow>
           5 * length inp mod 8 < 5 \<and> length out = 5 * length inp div 8 \<and> length out \<le> outsz \<and>
           be_val out * 2 ^ (5 * length inp mod 8) = val32 inp"
proof -
  have "regrouped outsz [] 0 0 []" by (simp add: regrouped_def val32_def)
  note L = convert_loop_regroups [OF this assms, simplified]
  show ?thesis
  proof (cases "convert_loop outsz inp 0 0 []")
    case None
    then show ?thesis using L by (auto simp: convert5to8_def)
  next
    case (Some r)
    obtain acc bits out' where r: "r = (acc, bits, out')" by (cases r) auto
    then have acc: "unat acc = val32 inp mod 2 ^ 32" and bits: "bits = 5 * length inp mod 8"
      and len: "length out' = 5 * length inp div 8" "length out' \<le> outsz"
      and val: "be_val out' = val32 inp div 2 ^ bits"
      using L Some by (simp_all add: regrouped_def)
    have pad: "push_bit (8 - bits) acc AND 0xff = 0 \<longleftrightarrow> 2 ^ bits dvd val32 inp" if "bits \<le> 8"
      using that acc by (rule padding_zero)
    show ?thesis
    proof (cases "bits < 5 \<and> 2 ^ bits dvd val32 inp")
      case True
      then have "convert5to8 inp outsz = Some out'" using Some r pad by (simp add: convert5to8_def)
      moreover have "be_val out' * 2 ^ bits = val32 inp" using True by (simp add: val)
      ultimately show ?thesis using True len bits be_val_inject [of out out'] by auto
    next
      case False
      then have "convert5to8 inp outsz = None" using Some r pad by (auto simp: convert5to8_def)
      then show ?thesis using False bits by (metis dvd_triv_right option.distinct(1))
    qed
  qed
qed

section \<open>The checksum is linear\<close>

definition gen_sum :: "u32 \<Rightarrow> u32" where
  "gen_sum t = (if bit t 0 then GEN ! 0 else 0) XOR (if bit t 1 then GEN ! 1 else 0) XOR
     (if bit t 2 then GEN ! 2 else 0) XOR (if bit t 3 then GEN ! 3 else 0) XOR (if bit t 4 then GEN ! 4 else 0)"

lemma polymod_step_eq:
  "polymod_step chk v = (push_bit 5 (chk AND mask 25) XOR ucast v) XOR gen_sum (drop_bit 25 chk)"
proof -
  have m: "(mask 25 :: u32) = 0x1ffffff" by (simp add: mask_eq_exp_minus_1)
  have u: "[0..<5] = [0, 1, 2, 3, 4 :: nat]" by (simp add: upt_rec)
  have i: "(if b then c XOR g else c) = c XOR (if b then g else 0)" for b and c g :: u32 by simp
  have "foldl (\<lambda>c j. if bit t j then c XOR GEN ! j else c) c [0..<5] = c XOR gen_sum t" for c t :: u32
    by (simp only: gen_sum_def u i foldl.simps xor.assoc)
  then show ?thesis by (simp only: polymod_step_def Let_def m)
qed

lemma gen_sum_xor: "gen_sum (s XOR t) = gen_sum s XOR gen_sum t"
proof -
  have "(if bit (s XOR t) j then g else 0) = (if bit s j then g else 0) XOR (if bit t j then g else 0)"
    for j and g :: u32
    by (simp add: bit_xor_iff)
  then show ?thesis by (simp only: gen_sum_def ac_simps)
qed

lemma polymod_step_xor: "polymod_step (a XOR b) (v XOR w) = polymod_step a v XOR polymod_step b w"
proof -
  have p: "push_bit 5 ((a XOR b) AND mask 25) = push_bit 5 (a AND mask 25) XOR push_bit 5 (b AND mask 25)"
    and u: "ucast (v XOR w) = (ucast v XOR ucast w :: u32)"
    and d: "drop_bit 25 (a XOR b) = drop_bit 25 a XOR drop_bit 25 b"
    by (rule bit_word_eqI; auto simp: bit_simps)+
  show ?thesis by (simp only: polymod_step_eq p u d gen_sum_xor ac_simps)
qed

lemma polymod_fold_xor:
  "length vs = length ws \<Longrightarrow>
     foldl polymod_step (a XOR b) (map2 (XOR) vs ws) = foldl polymod_step a vs XOR foldl polymod_step b ws"
  by (induction vs ws arbitrary: a b rule: list_induct2) (simp_all add: polymod_step_xor)

lemma xor_zero_iff: "a XOR b = 0 \<longleftrightarrow> a = b" for a b :: "'a::len word"
  by (auto simp: bit_eq_iff bit_xor_iff)

text \<open>Thirty-bit remainders: one step is injective on them.\<close>

definition below :: "nat \<Rightarrow> 'a::len word \<Rightarrow> bool" where
  "below k w \<longleftrightarrow> (\<forall>n \<ge> k. \<not> bit w n)"

lemma below_iff: "below k w \<longleftrightarrow> unat w < 2 ^ k"
proof
  assume "below k w"
  then have "take_bit k w = w" by (intro bit_word_eqI) (auto simp: bit_simps below_def, meson linorder_not_less)
  then have "unat w = unat w mod 2 ^ k"
    by (metis unsigned_take_bit_eq take_bit_eq_mod)
  then show "unat w < 2 ^ k" by (metis mod_less_divisor zero_less_numeral zero_less_power)
next
  assume "unat w < 2 ^ k"
  then have "take_bit k (unat w) = unat w" by (simp add: take_bit_nat_eq_self)
  then show "below k w" unfolding below_def by (metis bit_unat bit_take_bit_iff linorder_not_less)
qed

lemma below_xor: "below k a \<Longrightarrow> below k b \<Longrightarrow> below k (a XOR b)"
  by (simp add: below_def bit_xor_iff)

lemma gen_sum_below: "below 30 (gen_sum t)"
proof -
  have "\<forall>g \<in> set GEN. below 30 g" by (simp add: below_iff GEN_def)
  moreover have "length GEN = 5" by (simp add: GEN_def)
  ultimately have "below 30 (GEN ! j)" if "j < 5" for j using that by simp
  then show ?thesis by (simp add: gen_sum_def below_def bit_xor_iff)
qed

lemma polymod_step_below:
  assumes "v < 32"
  shows "below 30 (polymod_step chk v)"
proof -
  have "below 30 (push_bit 5 (chk AND mask 25))" by (auto simp: below_def bit_simps)
  moreover have "below 5 v" using assms by (simp add: below_iff word_less_nat_alt)
  then have "below 30 (ucast v :: u32)" by (auto simp: below_def bit_simps)
  ultimately show ?thesis by (simp add: polymod_step_eq below_xor gen_sum_below)
qed

lemma gen_sum_low:
  assumes "\<forall>n < 5. \<not> bit (gen_sum t) n" and "j < 5"
  shows "\<not> bit t j"
proof -
  have "\<not> bit (gen_sum t) 0" "\<not> bit (gen_sum t) 1" "\<not> bit (gen_sum t) 2" "\<not> bit (gen_sum t) 3"
    "\<not> bit (gen_sum t) 4" using assms(1) by simp_all
  then have "\<not> bit t 0 \<and> \<not> bit t 1 \<and> \<not> bit t 2 \<and> \<not> bit t 3 \<and> \<not> bit t 4"
    by (simp add: gen_sum_def GEN_def bit_xor_iff split: if_splits)
  then show ?thesis using assms(2) by (auto simp: less_Suc_eq eval_nat_numeral)
qed

lemma polymod_step_kernel:
  assumes "below 30 d" and "polymod_step d 0 = 0"
  shows "d = 0"
proof -
  have z: "push_bit 5 (d AND mask 25) = gen_sum (drop_bit 25 d)"
    using assms(2) by (simp add: polymod_step_eq xor_zero_iff)
  have "\<not> bit (gen_sum (drop_bit 25 d)) n" if "n < 5" for n
    using that by (simp add: z [symmetric] bit_simps)
  then have "\<not> bit (drop_bit 25 d) j" if "j < 5" for j using gen_sum_low that by blast
  then have hi: "\<not> bit d n" if "25 \<le> n" for n
  proof (cases "n < 30")
    case True
    then have "\<not> bit (drop_bit 25 d) (n - 25)" using that by (intro \<open>\<And>j. j < 5 \<Longrightarrow> \<not> bit (drop_bit 25 d) j\<close>) simp
    then show ?thesis using that by (simp add: bit_drop_bit_eq)
  next
    case False
    then show ?thesis using assms(1) by (simp add: below_def)
  qed
  have "drop_bit 25 d = 0" by (intro bit_word_eqI) (simp add: bit_simps hi)
  then have "push_bit 5 (d AND mask 25) = 0" using z by (simp add: gen_sum_def)
  then have sh: "\<not> bit (push_bit 5 (d AND mask 25)) (n + 5)" for n by simp
  have lo: "\<not> bit d n" if "n < 25" for n using that sh [of n] by (simp add: bit_simps)
  have "\<not> bit d n" for n using hi lo by (cases "n < 25") simp_all
  then show ?thesis by (intro bit_word_eqI) simp
qed

lemma polymod_fold_inject:
  assumes "below 30 a" "below 30 b" "a \<noteq> b" "list_all (\<lambda>v. v < 32) vs"
  shows "foldl polymod_step a vs \<noteq> foldl polymod_step b vs"
  using assms
proof (induction vs arbitrary: a b)
  case (Cons v vs)
  have "polymod_step a v \<noteq> polymod_step b v"
  proof
    assume "polymod_step a v = polymod_step b v"
    then have "polymod_step (a XOR b) (v XOR v) = 0"
      using polymod_step_xor [of a b v v] by (simp only: xor_self_eq)
    then have "a XOR b = 0" using polymod_step_kernel below_xor Cons.prems by (metis xor_self_eq)
    then show False using Cons.prems(3) by (simp add: xor_zero_iff)
  qed
  then show ?case using Cons polymod_step_below by simp
qed simp

section \<open>The encoder of BIP 173 and BIP 350\<close>

fun digits32 :: "nat \<Rightarrow> nat \<Rightarrow> bytes" where
  "digits32 0 V = []"
| "digits32 (Suc n) V = digits32 n (V div 32) @ [of_nat (V mod 32)]"

definition checksum_const :: "nat \<Rightarrow> u32" where
  "checksum_const wv = (if wv = 0 then BECH32_CONST else BECH32M_CONST)"

definition bech32_checksum :: "nat \<Rightarrow> bytes \<Rightarrow> bytes" where
  "bech32_checksum wv vals = digits32 6 (unat (polymod (vals @ replicate 6 0) XOR checksum_const wv))"

definition convert8to5 :: "bytes \<Rightarrow> bytes" where
  "convert8to5 prog = (let n = (8 * length prog + 4) div 5 in digits32 n (be_val prog * 2 ^ (5 * n - 8 * length prog)))"

definition bech32_data :: "bech32_addr \<Rightarrow> bytes" where
  "bech32_data a = (let body = of_nat (witver a) # convert8to5 (program a)
     in body @ bech32_checksum (witver a) (hrp_expand (hrp a) @ body))"

definition bech32_encode :: "bech32_addr \<Rightarrow> string" where
  "bech32_encode a = hrp a @ CHR ''1'' # map (\<lambda>v. CHARSET ! unat v) (bech32_data a)"

definition wf_addr :: "bech32_addr \<Rightarrow> bool" where
  "wf_addr a \<longleftrightarrow> 1 \<le> length (hrp a) \<and> length (hrp a) \<le> 7 \<and>
     list_all (\<lambda>c. 33 \<le> ch c \<and> ch c \<le> 126 \<and> \<not> is_upper c) (hrp a) \<and> witver a \<le> 16 \<and>
     2 \<le> length (program a) \<and> length (program a) \<le> 40 \<and>
     (witver a = 0 \<longrightarrow> length (program a) = 20 \<or> length (program a) = 32)"

subsection \<open>Digits\<close>

lemma length_digits32 [simp]: "length (digits32 n V) = n"
  by (induction n arbitrary: V) simp_all

lemma digits32_range: "list_all (\<lambda>v. v < 32) (digits32 n V)"
proof (induction n arbitrary: V)
  case (Suc n)
  have "(of_nat (V mod 32) :: u8) < 32"
    by (simp add: word_less_nat_alt unat_of_nat take_bit_nat_eq_self)
  then show ?case using Suc by simp
qed simp

lemma val32_digits32: "val32 (digits32 n V) = V mod 32 ^ n"
proof (induction n arbitrary: V)
  case (Suc n)
  have "unat (of_nat (V mod 32) :: u8) = V mod 32" by (simp add: unat_of_nat take_bit_nat_eq_self)
  then show ?case using Suc mod_mult2_eq [of V 32 "32 ^ n"] by (simp add: val32_snoc)
qed (simp add: val32_def)

lemma digits32_val32: "list_all (\<lambda>v. v < 32) vs \<Longrightarrow> digits32 (length vs) (val32 vs) = vs"
proof (induction vs rule: rev_induct)
  case (snoc v vs)
  have "unat v < 32" using snoc.prems by (simp add: word_less_nat_alt)
  then show ?case using snoc by (simp add: val32_snoc)
qed simp

lemma val32_less: "list_all (\<lambda>v. v < 32) vs \<Longrightarrow> val32 vs < 32 ^ length vs"
  using val32_digits32 [of "length vs" "val32 vs"] digits32_val32 [of vs] by (metis mod_less_divisor zero_less_numeral zero_less_power)

subsection \<open>The checksum symbols are determined\<close>

lemma polymod_step_small:
  assumes "unat chk < 2 ^ 25" and "v < 32"
  shows "unat (polymod_step chk v) = 32 * unat chk + unat v"
proof -
  have b: "below 25 chk" "below 5 v" using assms by (simp_all add: below_iff word_less_nat_alt)
  have "drop_bit 25 chk = 0" using b(1) by (intro bit_word_eqI) (simp add: bit_simps below_def)
  moreover have "chk AND mask 25 = chk"
    using b(1) by (intro bit_word_eqI) (auto simp: bit_simps below_def, meson linorder_not_less)
  moreover have "push_bit 5 chk XOR ucast v = push_bit 5 chk OR ucast v"
    using b(2) by (intro bit_word_eqI) (auto simp: bit_simps below_def)
  ultimately have "polymod_step chk v = push_bit 5 chk OR ucast v" by (simp add: polymod_step_eq gen_sum_def)
  moreover have "32 * unat chk + unat v < 2 ^ 32" using assms by (simp add: word_less_nat_alt)
  ultimately show ?thesis using acc5_step [OF assms(2), of chk] by simp
qed

lemma polymod_fold_small:
  "list_all (\<lambda>v. v < 32) vs \<Longrightarrow> length vs \<le> 6 \<Longrightarrow> unat (foldl polymod_step 0 vs) = val32 vs"
proof (induction vs rule: rev_induct)
  case (snoc v vs)
  have "val32 vs < 32 ^ length vs" using snoc.prems val32_less by simp
  also have "\<dots> \<le> (32::nat) ^ 5" using snoc.prems by (intro power_increasing) simp_all
  finally show ?case using snoc polymod_step_small [of "foldl polymod_step 0 vs" v]
    by (simp add: val32_snoc)
qed (simp add: val32_def)

lemma polymod_checksum_iff:
  assumes "length c = 6" and "list_all (\<lambda>v. v < 32) c"
  shows "polymod (vals @ c) = checksum_const wv \<longleftrightarrow> c = bech32_checksum wv vals"
proof -
  let ?X = "polymod (vals @ replicate 6 0)" and ?k = "checksum_const wv"
  have "map2 (XOR) (replicate 6 0) c = c" using assms(1) by (intro nth_equalityI) simp_all
  then have "polymod (vals @ c) = ?X XOR foldl polymod_step 0 c"
    using polymod_fold_xor [of "replicate 6 0" c "polymod vals" 0] assms(1) by (simp add: polymod_def)
  moreover have "?X XOR y = ?k \<longleftrightarrow> y = ?X XOR ?k" for y
    by (auto simp: bit_eq_iff bit_xor_iff)
  ultimately have "polymod (vals @ c) = ?k \<longleftrightarrow> val32 c = unat (?X XOR ?k)"
    using polymod_fold_small [OF assms(2)] assms(1) by (simp add: word_unat_eq_iff)
  also have "\<dots> \<longleftrightarrow> c = bech32_checksum wv vals"
  proof
    assume "val32 c = unat (?X XOR ?k)"
    then show "c = bech32_checksum wv vals"
      using digits32_val32 [OF assms(2)] assms(1) by (simp add: bech32_checksum_def)
  next
    have "below 30 ?X"
    proof -
      have "?X = polymod_step (foldl polymod_step (polymod vals) (replicate 5 0)) 0"
        by (simp add: polymod_def eval_nat_numeral)
      then show ?thesis using polymod_step_below [of 0] by simp
    qed
    moreover have "below 30 ?k" by (simp add: checksum_const_def below_iff BECH32_CONST_def BECH32M_CONST_def)
    ultimately have "unat (?X XOR ?k) < 32 ^ 6" using below_xor [of 30 ?X ?k] by (simp add: below_iff)
    moreover assume "c = bech32_checksum wv vals"
    ultimately show "val32 c = unat (?X XOR ?k)" by (simp add: bech32_checksum_def val32_digits32)
  qed
  finally show ?thesis .
qed

subsection \<open>Characters\<close>

lemma length_CHARSET: "length CHARSET = 32"
  by (simp add: CHARSET_def)

lemma distinct_CHARSET: "distinct CHARSET"
  by (simp add: CHARSET_def)

lemma charset_index_nth: "i < 32 \<Longrightarrow> charset_index (CHARSET ! i) = int i"
proof -
  assume i: "i < 32"
  have "find (\<lambda>j. CHARSET ! j = CHARSET ! i) [0..<32] = Some i"
    using i distinct_CHARSET by (auto simp: find_Some_iff nth_eq_iff_index_eq length_CHARSET intro!: exI [of _ i])
  then show ?thesis by (simp add: charset_index_def)
qed

lemma charset_index_Some: "0 \<le> charset_index c \<Longrightarrow> \<exists>i < 32. c = CHARSET ! i \<and> charset_index c = int i"
  by (auto simp: charset_index_def find_Some_iff split: option.splits)

lemma data_values_iff:
  "vlen + length cs \<le> 128 \<Longrightarrow>
     data_values vlen cs = Some vs \<longleftrightarrow> list_all (\<lambda>v. v < 32) vs \<and> cs = map (\<lambda>v. CHARSET ! unat v) vs"
proof (induction cs arbitrary: vlen vs)
  case (Cons c cs)
  show ?case
  proof
    assume "data_values vlen (c # cs) = Some vs"
    then obtain ws where ws: "vs = word_of_int (charset_index c) # ws" "data_values (vlen + 1) cs = Some ws"
      and c: "0 \<le> charset_index c"
      by (auto simp: Let_def split: if_splits)
    then obtain i where "i < 32" "c = CHARSET ! i" "charset_index c = int i" using charset_index_Some by blast
    moreover from this have "unat (word_of_int (charset_index c) :: u8) = i"
      by (simp add: unat_of_nat take_bit_nat_eq_self)
    ultimately show "list_all (\<lambda>v. v < 32) vs \<and> c # cs = map (\<lambda>v. CHARSET ! unat v) vs"
      using ws Cons.IH [of "vlen + 1" ws] Cons.prems by (simp add: word_less_nat_alt)
  next
    assume r: "list_all (\<lambda>v. v < 32) vs \<and> c # cs = map (\<lambda>v. CHARSET ! unat v) vs"
    then obtain v ws where vs: "vs = v # ws" by auto
    have "unat v < 32" using r vs by (simp add: word_less_nat_alt)
    then have "charset_index c = int (unat v)" using r vs charset_index_nth by simp
    then show "data_values vlen (c # cs) = Some vs"
      using r vs Cons.IH [of "vlen + 1" ws] Cons.prems by (simp add: Let_def)
  qed
qed auto

lemma strrchr_append: "c \<notin> set ys \<Longrightarrow> strrchr (xs @ c # ys) c = Some (length xs)"
proof (induction xs)
  case Nil
  have "strrchr ys c = None" if "c \<notin> set ys" for ys using that by (induction ys) auto
  then show ?case using Nil by simp
qed simp

lemma strrchr_Some: "strrchr xs c = Some i \<Longrightarrow> i < length xs \<and> xs = take i xs @ c # drop (Suc i) xs"
  by (induction xs arbitrary: i) (auto split: option.splits if_splits)

lemma to_lower_not_upper: "\<not> is_upper (to_lower c)"
  by (simp add: to_lower_def is_upper_def)

lemma to_lower_range: "33 \<le> ch (to_lower c) \<and> ch (to_lower c) \<le> 126 \<longleftrightarrow> 33 \<le> ch c \<and> ch c \<le> 126"
  by (auto simp: to_lower_def is_upper_def)

lemma charset_range:
  fixes v :: u8
  assumes "v < 32"
  shows "33 \<le> ch (CHARSET ! unat v) \<and> ch (CHARSET ! unat v) \<le> 126 \<and> CHARSET ! unat v \<noteq> CHR ''1''"
proof -
  have "\<forall>c \<in> set CHARSET. 33 \<le> ch c \<and> ch c \<le> 126 \<and> c \<noteq> CHR ''1''" by (simp add: CHARSET_def)
  then show ?thesis using assms by (simp add: length_CHARSET word_less_nat_alt)
qed

subsection \<open>Decoding accepts exactly the encodings\<close>

lemma emit_bytes_overrun:
  "emit_bytes acc bits outsz out = Some (bits', out') \<Longrightarrow>
     length out \<le> outsz \<Longrightarrow> length out' \<le> outsz \<and> 8 * length out' + bits' = 8 * length out + bits \<and> bits' < 8"
proof (induction acc bits outsz out rule: emit_bytes.induct)
  case (1 acc bits outsz out)
  then show ?case by (auto simp: emit_bytes.simps [of acc bits] split: if_splits)
qed

lemma convert_loop_overrun:
  "length out \<le> outsz \<Longrightarrow> outsz < (8 * length out + bits + 5 * length vs) div 8 \<Longrightarrow> bits < 8 \<Longrightarrow>
     convert_loop outsz vs acc bits out = None"
proof (induction vs arbitrary: acc bits out)
  case Nil
  then show ?case by simp
next
  case (Cons v vs)
  show ?case
  proof (cases "emit_bytes (push_bit 5 acc OR ucast v) (bits + 5) outsz out")
    case (Some r)
    obtain bits' out' where r: "r = (bits', out')" by (cases r)
    have "length out' \<le> outsz" "8 * length out' + bits' = 8 * length out + (bits + 5)" "bits' < 8"
      using emit_bytes_overrun Some r Cons.prems(1) by blast+
    then show ?thesis using Some r Cons by (simp add: Let_def ac_simps)
  qed (simp add: Let_def)
qed

lemma convert5to8_overrun: "66 \<le> length vs \<Longrightarrow> convert5to8 vs BECH32_MAX_PROGRAM = None"
proof -
  assume "66 \<le> length vs"
  then have "(8 * 0 + 0 + 5 * 66) div 8 \<le> (8 * 0 + 0 + 5 * length vs) div 8" by (intro div_le_mono) simp
  then show ?thesis using convert_loop_overrun [of "[]" 40 0 vs 0]
    by (simp add: convert5to8_def BECH32_MAX_PROGRAM_def)
qed

lemma group_counts:
  "(5 * n mod 8 < 5 \<and> k = 5 * n div 8) \<longleftrightarrow> n = (8 * k + 4) div 5" for n k :: nat
proof
  assume a: "5 * n mod 8 < 5 \<and> k = 5 * n div 8"
  then have "8 * k + 4 = 5 * n + (4 - 5 * n mod 8)" using mult_div_mod_eq [of 8 "5 * n"] by linarith
  then have "8 * k + 4 = 5 * n + (4 - 5 * n mod 8) \<and> 4 - 5 * n mod 8 < 5" by simp
  then show "n = (8 * k + 4) div 5" by (metis div_mult_self4 div_less add.right_neutral zero_neq_numeral)
next
  assume a: "n = (8 * k + 4) div 5"
  define r where "r = 4 - (8 * k + 4) mod 5"
  have "5 * n = 8 * k + r" "r < 5"
    using a mult_div_mod_eq [of 5 "8 * k + 4"] mod_less_divisor [of 5 "8 * k + 4"] unfolding r_def by linarith+
  then show "5 * n mod 8 < 5 \<and> k = 5 * n div 8" by simp
qed

lemma convert_inverse:
  assumes "list_all (\<lambda>v. v < 32) body"
  shows "convert5to8 body BECH32_MAX_PROGRAM = Some p \<longleftrightarrow> length p \<le> 40 \<and> body = convert8to5 p"
proof -
  let ?n = "length body" and ?N = "(8 * length p + 4) div 5"
  have "convert5to8 body BECH32_MAX_PROGRAM = Some p \<longleftrightarrow>
      ?n = ?N \<and> length p \<le> 40 \<and> be_val p * 2 ^ (5 * ?n mod 8) = val32 body"
    unfolding convert5to8_spec [OF assms] BECH32_MAX_PROGRAM_def group_counts [symmetric] by blast
  also have "\<dots> \<longleftrightarrow> length p \<le> 40 \<and> body = convert8to5 p"
  proof (cases "?n = ?N")
    case True
    then have g: "5 * ?n mod 8 < 5 \<and> length p = 5 * ?n div 8" by (simp only: group_counts)
    then have m: "5 * ?n mod 8 = 5 * ?N - 8 * length p" using True mult_div_mod_eq [of 8 "5 * ?n"] by linarith
    let ?V = "be_val p * 2 ^ (5 * ?n mod 8)"
    have "?V < 256 ^ length p * 2 ^ (5 * ?n mod 8)" using be_val_less [of p] by simp
    also have "\<dots> = 2 ^ (5 * ?n)" using g mult_div_mod_eq [of 8 "5 * ?n"] by (simp add: pow256 flip: power_add)
    also have "\<dots> = (32::nat) ^ ?n" by (simp add: power_mult)
    finally have "?V mod 32 ^ ?n = ?V" by simp
    then have "val32 body = ?V \<longleftrightarrow> body = digits32 ?n ?V"
      using digits32_val32 [OF assms] val32_digits32 [of ?n ?V] by metis
    moreover have "digits32 ?n ?V = convert8to5 p"
      unfolding convert8to5_def Let_def m using True by simp
    ultimately show ?thesis using True by metis
  next
    case False
    then show ?thesis by (auto simp: convert8to5_def Let_def)
  qed
  finally show ?thesis .
qed

lemma check_program_split:
  assumes "length c = 6"
  shows "check_program h (wv # body @ c) = Inr a \<longleftrightarrow>
      polymod ((hrp_expand h @ wv # body) @ c) = checksum_const (unat wv) \<and> unat wv \<le> 16 \<and>
      convert5to8 body BECH32_MAX_PROGRAM = Some (program a) \<and>
      2 \<le> length (program a) \<and> length (program a) \<le> 40 \<and>
      (unat wv = 0 \<longrightarrow> length (program a) = 20 \<or> length (program a) = 32) \<and> hrp a = h \<and> witver a = unat wv"
proof -
  have z: "wv = 0 \<longleftrightarrow> unat wv = 0" and s16: "wv > 16 \<longleftrightarrow> \<not> unat wv \<le> 16"
    by (auto simp: word_unat_eq_iff word_less_nat_alt)
  have b: "take (length (wv # body @ c) - 1 - 6) (drop 1 (wv # body @ c)) = body" using assms by simp
  have l: "\<not> length (wv # body @ c) < 7" using assms by simp
  let ?P = "polymod ((hrp_expand h @ wv # body) @ c)"
  have "check_program h (wv # body @ c) =
      (if ?P \<noteq> checksum_const (unat wv) then Inl (-1) else if \<not> unat wv \<le> 16 then Inl (-1)
       else (case convert5to8 body BECH32_MAX_PROGRAM of
         None \<Rightarrow> Inl (-1)
       | Some prog \<Rightarrow>
           if length prog < 2 \<or> length prog > 40 then Inl (-1)
           else if unat wv = 0 \<and> length prog \<noteq> 20 \<and> length prog \<noteq> 32 then Inl (-1)
           else Inr \<lparr>hrp = h, witver = unat wv, program = prog\<rparr>))"
    unfolding check_program_def Let_def b s16 checksum_const_def nth_Cons_0 z if_not_P [OF l]
    by (cases "unat wv = 0") (simp_all only: append_assoc append_Cons if_True if_False simp_thms)
  then show ?thesis
    by (cases a) (auto simp: not_less split: if_splits option.splits)
qed

lemma check_program_iff:
  assumes rng: "list_all (\<lambda>v. v < 32) dat" and len: "6 \<le> length dat"
  shows "check_program h dat = Inr a \<longleftrightarrow>
     hrp a = h \<and> dat = bech32_data a \<and> witver a \<le> 16 \<and> 2 \<le> length (program a) \<and> length (program a) \<le> 40 \<and>
     (witver a = 0 \<longrightarrow> length (program a) = 20 \<or> length (program a) = 32)"
proof (cases "length dat = 6")
  case True
  then have "check_program h dat \<noteq> Inr a" by (simp add: check_program_def Let_def)
  moreover have "length (bech32_data a) \<noteq> 6" by (simp add: bech32_data_def bech32_checksum_def Let_def)
  ultimately show ?thesis using True by auto
next
  case False
  define wv body c where "wv = dat ! 0" and "body = take (length dat - 7) (drop 1 dat)" and "c = drop (length dat - 6) dat"
  have l: "7 \<le> length dat" using len False by simp
  have dat: "dat = wv # body @ c"
  proof -
    have "dat = take 1 dat @ take (length dat - 7) (drop 1 dat) @ drop (length dat - 7) (drop 1 dat)"
      by (simp only: append_take_drop_id)
    moreover have "take 1 dat = [wv]" using l by (cases dat) (simp_all add: wv_def)
    moreover have "drop (length dat - 7) (drop 1 dat) = c"
      using l by (simp add: c_def Suc_diff_le [symmetric])
    ultimately show ?thesis by (simp add: body_def)
  qed
  have lc: "length c = 6" using l by (simp add: c_def)
  have rc: "list_all (\<lambda>v. v < 32) c" and rb: "list_all (\<lambda>v. v < 32) body" using rng dat by simp_all
  have "check_program h dat = Inr a \<longleftrightarrow> check_program h (wv # body @ c) = Inr a" by (simp only: dat)
  also have "\<dots> \<longleftrightarrow>
      polymod ((hrp_expand h @ wv # body) @ c) = checksum_const (unat wv) \<and> unat wv \<le> 16 \<and>
      convert5to8 body BECH32_MAX_PROGRAM = Some (program a) \<and>
      2 \<le> length (program a) \<and> length (program a) \<le> 40 \<and>
      (unat wv = 0 \<longrightarrow> length (program a) = 20 \<or> length (program a) = 32) \<and> hrp a = h \<and> witver a = unat wv"
    by (rule check_program_split [OF lc])
  also have "\<dots> \<longleftrightarrow> hrp a = h \<and> dat = bech32_data a \<and> witver a \<le> 16 \<and> 2 \<le> length (program a) \<and>
      length (program a) \<le> 40 \<and> (witver a = 0 \<longrightarrow> length (program a) = 20 \<or> length (program a) = 32)"
  proof -
    have w: "(wv = of_nat (witver a) \<and> witver a \<le> 16) \<longleftrightarrow> (witver a = unat wv \<and> unat wv \<le> 16)"
      by (auto simp: unat_of_nat take_bit_nat_eq_self)
    have "dat = bech32_data a \<longleftrightarrow> wv = of_nat (witver a) \<and> body = convert8to5 (program a) \<and>
        c = bech32_checksum (witver a) (hrp_expand (hrp a) @ of_nat (witver a) # convert8to5 (program a))"
      unfolding dat bech32_data_def Let_def using lc by (auto simp: bech32_checksum_def)
    then show ?thesis
      unfolding polymod_checksum_iff [OF lc rc] convert_inverse [OF rb] using w by auto
  qed
  finally show ?thesis .
qed

lemma bech32_data_range: "witver a \<le> 16 \<Longrightarrow> list_all (\<lambda>v. v < 32) (bech32_data a)"
  using digits32_range
  by (auto simp: bech32_data_def Let_def convert8to5_def bech32_checksum_def word_less_nat_alt
      unat_of_nat take_bit_nat_eq_self simp del: digits32.simps)

lemma length_bech32_data:
  "length (bech32_data a) = 7 + (8 * length (program a) + 4) div 5"
  by (simp add: bech32_data_def Let_def convert8to5_def bech32_checksum_def)

lemma map_to_lower_range:
  "list_ex (\<lambda>c. ch c < 33 \<or> ch c > 126) addr \<longleftrightarrow> \<not> list_all (\<lambda>c. 33 \<le> ch c \<and> ch c \<le> 126) (map to_lower addr)"
  by (auto simp: list_ex_iff list_all_iff to_lower_range not_le)

text \<open>The data part of an accepted address.\<close>

lemma decode_parts:
  assumes "map to_lower addr = h @ CHR ''1'' # map (\<lambda>v. CHARSET ! unat v) dat"
    and "list_all (\<lambda>v. v < 32) dat" and "length addr \<le> 90"
    and "\<not> (list_ex is_lower addr \<and> list_ex is_upper addr)"
    and "list_all (\<lambda>c. 33 \<le> ch c \<and> ch c \<le> 126) h" and "1 \<le> length h" "length h \<le> 7" and "6 \<le> length dat"
  shows "bech32_decode_addr addr = check_program h dat"
proof -
  let ?body = "map (\<lambda>v. CHARSET ! unat v) dat"
  have len: "length addr = length h + 1 + length dat" using arg_cong [OF assms(1), of length] by simp
  have "\<forall>c \<in> set ?body. 33 \<le> ch c \<and> ch c \<le> 126 \<and> c \<noteq> CHR ''1''"
    using assms(2) charset_range by (simp add: list_all_iff)
  then have rb: "list_all (\<lambda>c. 33 \<le> ch c \<and> ch c \<le> 126) ?body" "CHR ''1'' \<notin> set ?body"
    unfolding list_all_iff by blast+
  have "list_all (\<lambda>c. 33 \<le> ch c \<and> ch c \<le> 126) (map to_lower addr)" using rb assms(5) by (simp add: assms(1))
  then have rng: "\<not> list_ex (\<lambda>c. ch c < 33 \<or> ch c > 126) addr" by (simp only: map_to_lower_range not_not)
  have dv: "data_values (2 * length h + 1) ?body = Some dat"
    using data_values_iff [of "2 * length h + 1" ?body dat] assms(2,3,7) len by simp
  show ?thesis
    using rng assms(4,6-8) len assms(3) strrchr_append [OF rb(2), of h] dv
    by (auto simp: bech32_decode_addr_def Let_def assms(1))
qed

lemma bech32_decode_iff:
  "bech32_decode_addr addr = Inr a \<longleftrightarrow>
     wf_addr a \<and> map to_lower addr = bech32_encode a \<and> \<not> (list_ex is_lower addr \<and> list_ex is_upper addr)"
proof
  assume ok: "bech32_decode_addr addr = Inr a"
  then obtain i dat where sz: "length addr \<le> 90" "1 \<le> i" "i < 8" "6 \<le> length addr - i - 1"
    and rng: "\<not> list_ex (\<lambda>c. ch c < 33 \<or> ch c > 126) addr"
    and mixed: "\<not> (list_ex is_lower addr \<and> list_ex is_upper addr)"
    and i: "strrchr (map to_lower addr) CHR ''1'' = Some i"
    and dv: "data_values (2 * i + 1) (drop (i + 1) (map to_lower addr)) = Some dat"
    and chk: "check_program (take i (map to_lower addr)) dat = Inr a"
    by (auto simp: bech32_decode_addr_def Let_def not_less split: if_splits option.splits)
  let ?buf = "map to_lower addr"
  have buf: "?buf = take i ?buf @ CHR ''1'' # drop (Suc i) ?buf" and il: "i < length addr"
    using strrchr_Some [OF i] by simp_all
  have d: "list_all (\<lambda>v. v < 32) dat" "drop (Suc i) ?buf = map (\<lambda>v. CHARSET ! unat v) dat"
    using dv data_values_iff [of "2 * i + 1" "drop (i + 1) ?buf" dat] sz il by simp_all
  have "length dat = length addr - Suc i" by (metis d(2) length_map length_drop)
  then have ld: "6 \<le> length dat" using sz by simp
  note c = chk [unfolded check_program_iff [OF d(1) ld]]
  have "list_all (\<lambda>c. 33 \<le> ch c \<and> ch c \<le> 126) ?buf" using rng by (simp only: map_to_lower_range not_not)
  then have "list_all (\<lambda>c. 33 \<le> ch c \<and> ch c \<le> 126 \<and> \<not> is_upper c) (take i ?buf)"
    using to_lower_not_upper by (fastforce simp: list_all_iff dest: in_set_takeD)
  then have "wf_addr a" using c sz il by (simp add: wf_addr_def)
  moreover have "?buf = bech32_encode a" using buf d(2) c by (simp add: bech32_encode_def)
  ultimately show "wf_addr a \<and> ?buf = bech32_encode a \<and> \<not> (list_ex is_lower addr \<and> list_ex is_upper addr)"
    using mixed by blast
next
  assume r: "wf_addr a \<and> map to_lower addr = bech32_encode a \<and> \<not> (list_ex is_lower addr \<and> list_ex is_upper addr)"
  then have wf: "wf_addr a" by simp
  have lp: "(8 * length (program a) + 4) div 5 \<le> 64"
    using wf div_le_mono [of "8 * length (program a) + 4" 324 5] by (simp add: wf_addr_def)
  have ld: "6 \<le> length (bech32_data a)" by (simp add: length_bech32_data)
  have rd: "list_all (\<lambda>v. v < 32) (bech32_data a)" using bech32_data_range wf by (simp add: wf_addr_def)
  have "length addr = length (bech32_encode a)" using r by (metis length_map)
  then have "length addr \<le> 90" using lp wf by (simp add: bech32_encode_def length_bech32_data wf_addr_def)
  moreover have "list_all (\<lambda>c. 33 \<le> ch c \<and> ch c \<le> 126) (hrp a)" using wf by (auto simp: wf_addr_def list_all_iff)
  ultimately have "bech32_decode_addr addr = check_program (hrp a) (bech32_data a)"
    using r wf rd ld by (intro decode_parts) (simp_all add: bech32_encode_def wf_addr_def)
  also have "\<dots> = Inr a" unfolding check_program_iff [OF rd ld] using wf by (simp add: wf_addr_def)
  finally show "bech32_decode_addr addr = Inr a" .
qed

subsection \<open>Substitutions\<close>

lemma polymod_bech32_data:
  "polymod (hrp_expand (hrp a) @ bech32_data a) = checksum_const (witver a)"
proof -
  let ?body = "of_nat (witver a) # convert8to5 (program a)"
  let ?c = "bech32_checksum (witver a) (hrp_expand (hrp a) @ ?body)"
  have "length ?c = 6" "list_all (\<lambda>v. v < 32) ?c"
    using digits32_range by (simp_all only: bech32_checksum_def length_digits32)
  then have "polymod ((hrp_expand (hrp a) @ ?body) @ ?c) = checksum_const (witver a)"
    by (simp only: polymod_checksum_iff)
  then show ?thesis by (simp add: bech32_data_def Let_def)
qed

lemma ucast_zero: "(ucast (w :: u8) :: u32) = 0 \<Longrightarrow> w = 0"
proof -
  assume "(ucast w :: u32) = 0"
  moreover have "unat (ucast w :: u32) = unat w"
    using unat_u8_less [of w] by (simp add: unsigned_ucast_eq take_bit_nat_eq_self del: unat_u8_less)
  ultimately show "w = 0" by (simp add: word_unat_eq_iff)
qed

lemma polymod_substitution:
  assumes "j < length dat" and "v < 32" and "v \<noteq> dat ! j" and "list_all (\<lambda>v. v < 32) dat"
  shows "polymod (vals @ dat[j := v]) \<noteq> polymod (vals @ dat)"
proof -
  let ?A = "take j dat" and ?B = "drop (Suc j) dat"
  let ?s = "foldl polymod_step 1 (vals @ ?A)"
  have d: "dat = ?A @ dat ! j # ?B" "dat[j := v] = ?A @ v # ?B"
    using id_take_nth_drop [OF assms(1)] upd_conv_take_nth_drop [OF assms(1)] by simp_all
  have old: "dat ! j < 32" using assms(1,4) by (simp add: list_all_length)
  have "polymod_step ?s v \<noteq> polymod_step ?s (dat ! j)"
  proof
    assume eq: "polymod_step ?s v = polymod_step ?s (dat ! j)"
    have "polymod_step 0 (v XOR dat ! j) = 0"
      using polymod_step_xor [of ?s ?s v "dat ! j"] eq by (simp only: xor_self_eq)
    then have "ucast (v XOR dat ! j) = (0 :: u32)" by (simp add: polymod_step_eq gen_sum_def)
    then have "v XOR dat ! j = 0" by (rule ucast_zero)
    then show False using assms(3) by (simp add: xor_zero_iff)
  qed
  moreover have "list_all (\<lambda>v. v < 32) ?B" using assms(4) by (auto simp: list_all_iff dest: in_set_dropD)
  ultimately have "foldl polymod_step (polymod_step ?s v) ?B \<noteq> foldl polymod_step (polymod_step ?s (dat ! j)) ?B"
    using polymod_fold_inject polymod_step_below assms(2) old by blast
  moreover have "polymod (vals @ dat[j := v]) = foldl polymod_step (polymod_step ?s v) ?B"
    by (simp add: polymod_def d(2))
  moreover have "polymod (vals @ dat) = foldl polymod_step (polymod_step ?s (dat ! j)) ?B"
    by (subst d(1)) (simp add: polymod_def)
  ultimately show ?thesis by simp
qed

lemma decode_errors: "bech32_decode_addr addr = Inl (-1) \<or> (\<exists>a. bech32_decode_addr addr = Inr a)"
  by (auto simp: bech32_decode_addr_def check_program_def Let_def split: option.splits)

lemma charset_inject: "v < 32 \<Longrightarrow> w < 32 \<Longrightarrow> CHARSET ! unat v = CHARSET ! unat w \<Longrightarrow> v = w" for v w :: u8
  using distinct_CHARSET by (simp add: nth_eq_iff_index_eq length_CHARSET word_less_nat_alt word_unat_eq_iff)

lemma charset_map_inject:
  "list_all (\<lambda>v. v < 32) vs \<Longrightarrow> list_all (\<lambda>v. v < 32) ws \<Longrightarrow>
     map (\<lambda>v. CHARSET ! unat v) vs = map (\<lambda>v. CHARSET ! unat v) ws \<Longrightarrow> vs = (ws :: bytes)"
proof -
  assume r: "list_all (\<lambda>v. v < 32) vs" "list_all (\<lambda>v. v < 32) ws"
  then have "inj_on (\<lambda>v :: u8. CHARSET ! unat v) (set vs \<union> set ws)"
    by (auto simp: list_all_iff inj_on_def intro: charset_inject)
  then show "map (\<lambda>v. CHARSET ! unat v) vs = map (\<lambda>v. CHARSET ! unat v) ws \<Longrightarrow> vs = ws"
    by (rule map_inj_on [rotated])
qed

lemma substitution_encodings:
  assumes wf: "wf_addr a" "wf_addr b" and j: "1 \<le> j" "j < length (bech32_data a)"
    and c: "c \<noteq> CHR ''1''" and diff: "c \<noteq> CHARSET ! unat (bech32_data a ! j)"
    and eq: "bech32_encode b = (bech32_encode a)[length (hrp a) + 1 + j := c]"
  shows False
proof -
  let ?da = "bech32_data a" and ?db = "bech32_data b" and ?f = "\<lambda>v :: u8. CHARSET ! unat v"
  have ra: "list_all (\<lambda>v. v < 32) ?da" and rb: "list_all (\<lambda>v. v < 32) ?db"
    using bech32_data_range wf by (simp_all add: wf_addr_def)
  have no1: "CHR ''1'' \<notin> set (map ?f ?da)" "CHR ''1'' \<notin> set (map ?f ?db)"
    using ra rb charset_range by (force simp: list_all_iff)+
  have e: "hrp b @ CHR ''1'' # map ?f ?db = hrp a @ CHR ''1'' # (map ?f ?da)[j := c]"
    using eq by (simp add: bech32_encode_def list_update_append)
  have "CHR ''1'' \<notin> set ((map ?f ?da)[j := c])"
    using no1(1) c set_update_subset_insert [of "map ?f ?da" j c] by auto
  then have "length (hrp b) = length (hrp a)"
    using strrchr_append [OF no1(2), of "hrp b"] strrchr_append [of "CHR ''1''" "(map ?f ?da)[j := c]" "hrp a"] e
    by (metis option.inject)
  with e have h: "hrp b = hrp a" and m: "map ?f ?db = (map ?f ?da)[j := c]" by simp_all
  have l: "length ?db = length ?da" using arg_cong [OF m, of length] by simp
  define v where "v = ?db ! j"
  have v: "v < 32" "c = ?f v"
    using rb j l arg_cong [OF m, of "\<lambda>xs. xs ! j"] by (simp_all add: v_def list_all_length)
  have "map ?f ?db = map ?f (?da[j := v])" using m v(2) by (simp add: map_update)
  moreover have "list_all (\<lambda>v. v < 32) (?da[j := v])"
    using ra v(1) set_update_subset_insert [of ?da j v] by (auto simp: list_all_iff)
  ultimately have db: "?db = ?da[j := v]" using charset_map_inject [OF rb] by blast
  have "?db ! 0 = ?da ! 0" using db j by simp
  then have "of_nat (witver b) = (of_nat (witver a) :: u8)" by (simp add: bech32_data_def Let_def)
  then have "unat (of_nat (witver b) :: u8) = unat (of_nat (witver a) :: u8)" by simp
  then have "witver b = witver a"
    using wf by (simp add: unat_of_nat take_bit_nat_eq_self wf_addr_def)
  moreover have "v \<noteq> ?da ! j" using diff v by auto
  ultimately show False
    using polymod_substitution [OF j(2) v(1) _ ra, of "hrp_expand (hrp a)"]
      polymod_bech32_data [of a] polymod_bech32_data [of b] by (simp add: db h)
qed

lemma devfee_program:
  "bech32_decode_addr DEVFEE_ADDRESS = Inr \<lparr>hrp = ''bc'', witver = 0,
     program = [0x12, 0xe0, 0x23, 0xd7, 0x73, 0xab, 0xce, 0xc4, 0xdb, 0xe4,
                0xeb, 0xe9, 0x04, 0x24, 0xec, 0xac, 0x94, 0xe5, 0xa4, 0x70]\<rparr>"
  by code_simp

section \<open>Properties\<close>

text \<open>
  C29: decoding accepts exactly the canonical encodings.  An address string decodes to \<open>a\<close> if and
  only if \<open>a\<close> is a well-formed witness address, the string in lower case is the BIP 173 / BIP 350
  encoding of \<open>a\<close> (bech32 checksum for version 0, bech32m above), and the string does not mix
  cases.  So every valid address is accepted, none has two decodings, and no string with a
  wrong checksum, constant, padding, length or alphabet is.
\<close>

theorem bech32_decode_exact:
  "bech32_decode_addr addr = Inr a \<longleftrightarrow>
     wf_addr a \<and> map to_lower addr = bech32_encode a \<and> \<not> (list_ex is_lower addr \<and> list_ex is_upper addr)"
  by (rule bech32_decode_iff)

text \<open>
  a mistyped address is refused.  Replace any single character after the witness version of a
  valid address by a different one (case aside) other than the separator: the decoder fails,
  whatever the replacement.
\<close>

theorem bech32_substitution_detected:
  assumes ok: "bech32_decode_addr addr = Inr a" and i: "length (hrp a) + 1 < i" "i < length addr"
    and c: "c \<noteq> CHR ''1''" "to_lower c \<noteq> to_lower (addr ! i)"
  shows "bech32_decode_addr (addr[i := c]) = Inl (-1)"
proof (rule ccontr)
  assume "bech32_decode_addr (addr[i := c]) \<noteq> Inl (-1)"
  then obtain b where b: "bech32_decode_addr (addr[i := c]) = Inr b" using decode_errors by blast
  have ea: "map to_lower addr = bech32_encode a" and wf: "wf_addr a" "wf_addr b"
    and eb: "map to_lower (addr[i := c]) = bech32_encode b"
    using ok b by (simp_all add: bech32_decode_iff)
  define j where "j = i - length (hrp a) - 1"
  have ij: "i = length (hrp a) + 1 + j" "1 \<le> j" using i by (simp_all add: j_def)
  have "length addr = length (bech32_encode a)" using ea by (metis length_map)
  then have jl: "j < length (bech32_data a)" using i ij by (simp add: bech32_encode_def)
  have "to_lower (addr ! i) = bech32_encode a ! i" using i by (simp flip: ea)
  also have "\<dots> = CHARSET ! unat (bech32_data a ! j)" using jl by (simp add: bech32_encode_def ij nth_append)
  finally have "to_lower c \<noteq> CHARSET ! unat (bech32_data a ! j)" using c(2) by simp
  moreover have "to_lower c \<noteq> CHR ''1''" using c(1)
    by (auto simp: to_lower_def is_upper_def dest!: arg_cong [where f = "of_char :: char \<Rightarrow> nat"])
  moreover have "bech32_encode b = (bech32_encode a)[length (hrp a) + 1 + j := to_lower c]"
    using eb ea ij by (simp add: map_update)
  ultimately show False using substitution_encodings [OF wf ij(2) jl] by blast
qed

text \<open>
  the built-in fee address is valid and pays the documented witness program.
\<close>

theorem devfee_address_decodes:
  "bech32_decode_addr DEVFEE_ADDRESS = Inr \<lparr>hrp = ''bc'', witver = 0,
     program = [0x12, 0xe0, 0x23, 0xd7, 0x73, 0xab, 0xce, 0xc4, 0xdb, 0xe4,
                0xeb, 0xe9, 0x04, 0x24, 0xec, 0xac, 0x94, 0xe5, 0xa4, 0x70]\<rparr>"
  by (rule devfee_program)

theorem bech32_substitution_detected_witness:
  "bech32_decode_addr (DEVFEE_ADDRESS[10 := CHR ''q'']) = Inl (-1)"
  using bech32_substitution_detected [OF devfee_program, of 10 "CHR ''q''"]
  by (simp add: DEVFEE_ADDRESS_def to_lower_def is_upper_def)

end
