(* ===== verification/Worksrc_Stratum.thy ===== *)
theory Worksrc_Stratum
  imports Worksrc Stratum_Session Bech32
begin

text \<open>
  The pool work source (\<^verbatim>\<open>src/miner/worksrc_stratum.c\<close>).  Its file-static variables, with the counters of
  \<^verbatim>\<open>devfee.c\<close> it advances, are the record \<open>pool\<close>; the pointer \<^verbatim>\<open>g_cur.sess\<close> is the name of the session.
  \<open>pool_run\<close> is a history of the source with the text each session received, and \<open>mining\<close> remembers, beside the live item, the session it was
  built from as that session was then.
\<close>

unbundle bit_operations_syntax

section \<open>State\<close>

datatype chain = CHAIN_KNOTS | CHAIN_SIA
datatype sess_id = Main_session | Dev_session

record cur_work =
  cur_sess :: "sess_id option"
  cur_job_id :: string
  cur_en2 :: bytes
  cur_ntime :: bytes
  cur_target :: bytes
  cur_job_seq :: u64
  cur_is_dev :: bool
  cur_valid :: bool

record pool =
  g_main :: stratum
  g_dev_session :: stratum
  g_dev_configured :: bool
  g_cur :: cur_work
  g_en2_counter :: u64
  g_chain :: chain
  g_last_prevhash :: bytes
  g_have_pushed :: bool
  g_last_push_at :: u64
  pool_fee :: devfee_state

definition PUSH_MAX_AGE_S :: u64 where "PUSH_MAX_AGE_S = 30"

definition no_work :: cur_work where
  "no_work = \<lparr>cur_sess = None, cur_job_id = [], cur_en2 = [], cur_ntime = replicate 8 0, cur_target = replicate 32 0,
     cur_job_seq = 0, cur_is_dev = False, cur_valid = False\<rparr>"

text \<open>The static initial values.\<close>

definition pool_start :: pool where
  "pool_start = \<lparr>g_main = stratum_init None 0 None None, g_dev_session = stratum_init None 0 None None,
     g_dev_configured = False, g_cur = no_work, g_en2_counter = 0, g_chain = CHAIN_KNOTS,
     g_last_prevhash = replicate 32 0, g_have_pushed = False, g_last_push_at = 0, pool_fee = devfee_reset\<rparr>"

definition or_x :: "string option \<Rightarrow> string option" where
  "or_x pw = (case pw of Some t \<Rightarrow> if t \<noteq> [] then Some t else Some ''x'' | None \<Rightarrow> Some ''x'')"

definition nonempty :: "string option \<Rightarrow> bool" where
  "nonempty t \<longleftrightarrow> (case t of Some x \<Rightarrow> x \<noteq> [] | None \<Rightarrow> False)"

definition split_port :: "platform \<Rightarrow> string \<Rightarrow> int \<Rightarrow> string \<times> int" where
  "split_port pf h p = (case strrchr h (CHR '':'') of Some i \<Rightarrow> (take i h, atoi pf (drop (i + 1) h)) | None \<Rightarrow> (h, p))"

definition worksrc_stratum_configure ::
  "platform \<Rightarrow> chain \<Rightarrow> string option \<Rightarrow> int \<Rightarrow> string option \<Rightarrow> string option \<Rightarrow>
   string option \<Rightarrow> string option \<Rightarrow> string option \<Rightarrow> pool \<Rightarrow> pool" where
  "worksrc_stratum_configure pf c h p w pw devpool devworker devpw st =
     (let st = st\<lparr>g_chain := c, g_main := stratum_init h p w (or_x pw), g_dev_configured := False\<rparr> in
      if nonempty devpool \<and> nonempty devworker then
        let (dh, dp) = split_port pf (snprintf_s 192 (the devpool)) p in
        st\<lparr>g_dev_session := stratum_init (Some dh) dp devworker (or_x devpw), g_dev_configured := True\<rparr>
      else st)"

section \<open>Work\<close>

fun session_of :: "sess_id \<Rightarrow> pool \<Rightarrow> stratum" where
  "session_of Main_session st = g_main st"
| "session_of Dev_session st = g_dev_session st"

fun set_session :: "sess_id \<Rightarrow> stratum \<Rightarrow> pool \<Rightarrow> pool" where
  "set_session Main_session s st = st\<lparr>g_main := s\<rparr>"
| "set_session Dev_session s st = st\<lparr>g_dev_session := s\<rparr>"

text \<open>What the two sessions meet in the network during one poll.\<close>

record poll_env =
  main_dial :: dial_env
  main_sends :: "send_res list"
  main_recvs :: "recv_res list"
  dev_dial :: dial_env
  dev_sends :: "send_res list"
  dev_recvs :: "recv_res list"

definition st_poll :: "platform \<Rightarrow> poll_env \<Rightarrow> u64 \<Rightarrow> pool \<Rightarrow> pool" where
  "st_poll pf e now st =
     (let st = st\<lparr>g_main := stratum_poll pf (main_dial e) now (main_sends e) (main_recvs e) (g_main st)\<rparr> in
      if g_dev_configured st
      then st\<lparr>g_dev_session := stratum_poll pf (dev_dial e) now (dev_sends e) (dev_recvs e) (g_dev_session st)\<rparr>
      else st)"

definition en2_bytes :: "nat \<Rightarrow> u64 \<Rightarrow> bytes" where
  "en2_bytes n c = foldl (\<lambda>e i. e[n - 1 - i := ucast (drop_bit (8 * i) c AND 0xff)]) (replicate n 0) [0..<min 8 n]"

definition build_from :: "platform \<Rightarrow> sess_id \<Rightarrow> bool \<Rightarrow> work_ctx \<Rightarrow> pool \<Rightarrow> bool \<times> work_ctx \<times> pool" where
  "build_from pf which is_dev ctx st =
     (let s = session_of which st;
          en2_len = (if en2_size s \<noteq> 0 then en2_size s else 8)
      in if en2_len > STRATUM_MAX_EN2 then (False, ctx, st)
      else
      let st = st\<lparr>g_en2_counter := g_en2_counter st + 1\<rparr>;
          en2 = en2_bytes en2_len (g_en2_counter st);
          en1 = take (en1_len s) (extranonce1 s);
          (ok, ctx) =
            (case g_chain st of
               CHAIN_SIA \<Rightarrow>
                 (case sia_build_header (job s) en1 en2 of
                    None \<Rightarrow> (False, ctx)
                  | Some (h, _) \<Rightarrow> (True, ctx\<lparr>ss4 := h, ss3 := replicate STAGE3_LEN 0\<rparr>))
             | CHAIN_KNOTS \<Rightarrow>
                 (case sia_build_stages (job s) en1 en2 of
                    None \<Rightarrow> (False, ctx)
                  | Some (m3, m4, _) \<Rightarrow> (length (branches (job s)) = 0, ctx\<lparr>ss3 := m3, ss4 := m4\<rparr>)))
      in if \<not> ok then (False, ctx, st)
      else
      (True, ctx\<lparr>target_top64 := stratum_target_top64 pf s, ctx_valid := True\<rparr>,
       st\<lparr>g_cur := \<lparr>cur_sess = Some which, cur_job_id = snprintf_s 64 (job_id (job s)), cur_en2 = en2,
                     cur_ntime = ntime (job s), cur_target = stratum_target_full pf s,
                     cur_job_seq = seq (job s), cur_is_dev = is_dev, cur_valid = True\<rparr>\<rparr>))"

definition pushed :: "u64 \<Rightarrow> pool \<Rightarrow> pool" where
  "pushed now st = st\<lparr>g_last_prevhash := prevhash (job (g_main st)), g_have_pushed := True, g_last_push_at := now\<rparr>"

definition push_due :: "u64 \<Rightarrow> pool \<Rightarrow> bool" where
  "push_due now st \<longleftrightarrow>
     (\<not> g_have_pushed st \<or> g_last_prevhash st \<noteq> prevhash (job (g_main st))) \<or>
     (g_have_pushed st \<and> now - g_last_push_at st \<ge> PUSH_MAX_AGE_S)"

definition st_get_work :: "platform \<Rightarrow> u64 \<Rightarrow> work_ctx \<Rightarrow> pool \<Rightarrow> bool \<times> work_ctx \<times> pool" where
  "st_get_work pf now ctx st =
     (if \<not> stratum_ready (g_main st) then (False, ctx, st)
      else if \<not> push_due now st then (False, ctx, st)
      else
      let (want_dev, fee) = devfee_pool_epoch (pool_fee st);
          st = st\<lparr>pool_fee := fee\<rparr>;
          try_dev = (want_dev \<and> g_dev_configured st \<and> stratum_ready (g_dev_session st));
          (dev_ok, ctx, st) = (if try_dev then build_from pf Dev_session True ctx st else (False, ctx, st))
      in if dev_ok then (True, ctx, pushed now st)
      else
      let st = (if want_dev then st\<lparr>pool_fee := devfee_pool_skip (pool_fee st)\<rparr> else st);
          (ok, ctx, st) = build_from pf Main_session False ctx st
      in if ok then (True, ctx, pushed now st) else (False, ctx, st))"

section \<open>Candidates\<close>

definition chain_expected :: "chain \<Rightarrow> bytes \<Rightarrow> u64 \<Rightarrow> u64" where
  "chain_expected c m4 nonce = (if c = CHAIN_SIA then sia_chain_expected_top64 m4 nonce else sia_expected_top64 m4 nonce)"

definition chain_pow :: "chain \<Rightarrow> bytes \<Rightarrow> u64 \<Rightarrow> bytes" where
  "chain_pow c m4 nonce = (if c = CHAIN_SIA then sia_chain_pow_compare m4 nonce else sia_pow_compare m4 nonce)"

definition st_on_candidate :: "work_ctx \<Rightarrow> u64 \<Rightarrow> u64 \<Rightarrow> send_res list \<Rightarrow> pool \<Rightarrow> cand \<times> pool" where
  "st_on_candidate ctx nonce hash_top64 rs st =
     (if chain_expected (g_chain st) (ss4 ctx) nonce \<noteq> hash_top64 then (CAND_BAD, st)
      else if \<not> hash_meets_target (chain_pow (g_chain st) (ss4 ctx) nonce) (cur_target (g_cur st)) then (CAND_OK, st)
      else (case cur_sess (g_cur st) of
              None \<Rightarrow> (CAND_OK, st)
            | Some which \<Rightarrow>
                if \<not> cur_valid (g_cur st) then (CAND_OK, st)
                else let j = job (session_of which st) in
                if cur_job_seq (g_cur st) \<noteq> seq j \<and> clean j then (CAND_OK, st)
                else
                let nb = map (\<lambda>i. ucast (drop_bit (8 * i) nonce AND 0xff)) [0..<8];
                    (ok, s) = stratum_submit (cur_job_id (g_cur st)) (cur_en2 (g_cur st)) (cur_ntime (g_cur st)) nb rs
                                (session_of which st);
                    st = set_session which s st
                in if ok then (CAND_SOLUTION, if cur_is_dev (g_cur st) then st\<lparr>pool_fee := devfee_pool_credit (pool_fee st)\<rparr> else st)
                   else (CAND_OK, st)))"

section \<open>The backends and the status snapshot\<close>

definition g_backend_knots :: worksrc where
  "g_backend_knots = \<lparr>src_name = Some ''stratum'', src_backend = Stratum_source, has_poll = True, refresh_s = 5, item_len = WORK_ITEM_LEN\<rparr>"

definition g_backend_sia :: worksrc where
  "g_backend_sia = \<lparr>src_name = Some ''sia'', src_backend = Stratum_source, has_poll = True, refresh_s = 5, item_len = STAGE4_LEN + 8\<rparr>"

definition worksrc_stratum_backend :: "pool \<Rightarrow> worksrc" where
  "worksrc_stratum_backend st = (if g_chain st = CHAIN_SIA then g_backend_sia else g_backend_knots)"

record pool_status =
  s_connected :: bool
  s_subscribed :: bool
  s_authorized :: bool
  s_has_job :: bool
  s_difficulty :: cdouble
  s_jobs_received :: u64
  s_shares_submitted :: u64
  s_shares_accepted :: u64
  s_shares_rejected :: u64
  s_reconnects :: u64
  s_pool :: string
  s_job_id :: string
  s_last_error :: string
  s_last_reject :: string

definition worksrc_stratum_status :: "pool \<Rightarrow> pool_status" where
  "worksrc_stratum_status st =
     (let m = g_main st; d = g_dev_session st; dev = (\<lambda>x. if g_dev_configured st then x else 0) in
      \<lparr>s_connected = (fd m \<ge> 0), s_subscribed = subscribed m, s_authorized = authorized m, s_has_job = have_job m,
       s_difficulty = difficulty m, s_jobs_received = jobs_received m,
       s_shares_submitted = shares_submitted m + dev (shares_submitted d),
       s_shares_accepted = shares_accepted m + dev (shares_accepted d),
       s_shares_rejected = shares_rejected m + dev (shares_rejected d),
       s_reconnects = reconnects m,
       s_pool = snprintf_s 192 (take 150 (host m) @ CHR '':'' # dec_int (port m)),
       s_job_id = snprintf_s 64 (job_id (job m)), s_last_error = snprintf_s 192 (last_error m),
       s_last_reject = snprintf_s 128 (cstr (last_reject m))\<rparr>)"

section \<open>The extranonce counter\<close>

lemma ucast_low_byte: "ucast (x AND 0xff) = (ucast x :: u8)" for x :: u64
proof (rule bit_word_eqI)
  fix n assume n: "n < LENGTH(8)"
  have "bit (0xff :: u64) n" using n bit_mask_iff [of 8 n, where 'a = u64] by (simp add: mask_eq_exp_minus_1)
  then show "bit (ucast (x AND 0xff) :: u8) n = bit (ucast x :: u8) n" using n by (simp add: bit_simps)
qed

lemma en2_prefix:
  "k \<le> min 8 n \<Longrightarrow> foldl (\<lambda>e i. e[n - 1 - i := ucast (drop_bit (8 * i) c AND 0xff)]) (replicate n 0) [0..<k] =
     replicate (n - k) (0 :: u8) @ rev (le_bytes k (c :: u64))"
proof (induction k)
  case (Suc k)
  have r: "replicate (n - k) (0 :: u8) = replicate (n - Suc k) 0 @ [0]"
    using Suc.prems by (metis Suc_diff_le diff_Suc_Suc min.bounded_iff replicate_Suc replicate_append_same)
  have b: "ucast (drop_bit (8 * k) c AND 0xff) = (ucast (drop_bit (8 * k) c) :: u8)"
    by (rule ucast_low_byte)
  show ?case using Suc r b by (simp add: le_bytes_Suc list_update_append)
qed simp

lemma en2_bytes_eq: "en2_bytes n c = replicate (n - min 8 n) 0 @ rev (le_bytes (min 8 n) c)"
  unfolding en2_bytes_def by (rule en2_prefix) simp

lemma length_en2_bytes [simp]: "length (en2_bytes n c) = n"
  by (simp add: en2_bytes_eq)

lemma en2_bytes_Nil [simp]: "en2_bytes n c = [] \<longleftrightarrow> n = 0"
  by (metis length_0_conv length_en2_bytes)

lemma en2_value: "be_val (en2_bytes n c) = unat c mod 256 ^ n"
proof -
  have "be_val (en2_bytes n c) = unat c mod 256 ^ min 8 n"
    by (simp add: en2_bytes_eq be_val_append) (simp add: be_val_def le_val_le_bytes)
  moreover have "unat c mod 256 ^ 8 = unat c mod 256 ^ n" if "8 \<le> n"
  proof -
    have "unat c < 2 ^ 64" using unsigned_less [of c] by simp
    then have "unat c < 256 ^ 8" by simp
    moreover have "(256::nat) ^ 8 \<le> 256 ^ n" using that by (intro power_increasing) auto
    ultimately show ?thesis by (metis mod_less order_less_le_trans)
  qed
  ultimately show ?thesis by (cases "8 \<le> n") (auto simp: min_def)
qed

section \<open>What an item was built from\<close>

definition wf_pool :: "pool \<Rightarrow> bool" where
  "wf_pool st \<longleftrightarrow> wf_stratum (g_main st) \<and> wf_stratum (g_dev_session st)"

fun chain_item :: "chain \<Rightarrow> stratum_job \<Rightarrow> bytes \<Rightarrow> bytes \<Rightarrow> (bytes \<times> bytes) option" where
  "chain_item CHAIN_SIA j en1 en2 = map_option (\<lambda>(h, r). (replicate STAGE3_LEN 0, h)) (sia_build_header j en1 en2)"
| "chain_item CHAIN_KNOTS j en1 en2 =
     (if branches j = [] then map_option (\<lambda>(m3, m4, r). (m3, m4)) (sia_build_stages j en1 en2) else None)"

text \<open>
  The work in flight is the work described: the two stage messages are those of a well-formed job of the session
  with the recorded extranonce, and the recorded id, time, number and target are that job's.
\<close>

definition built_for :: "platform \<Rightarrow> pool \<Rightarrow> sess_id \<Rightarrow> stratum \<Rightarrow> work_ctx \<Rightarrow> bool" where
  "built_for pf st which s ctx \<longleftrightarrow>
     (let c = g_cur st; j = job s in
      wf_stratum s \<and> cur_valid c \<and> cur_sess c = Some which \<and> cur_job_id c = job_id j \<and> cur_ntime c = ntime j \<and>
      cur_job_seq c = seq j \<and> (cur_is_dev c \<longleftrightarrow> which = Dev_session) \<and> length (cur_en2 c) \<le> STRATUM_MAX_EN2 \<and>
      chain_item (g_chain st) j (take (en1_len s) (extranonce1 s)) (cur_en2 c) = Some (ss3 ctx, ss4 ctx) \<and>
      cur_target c = stratum_target_full pf s \<and> target_top64 ctx = top64 (cur_target c) \<and> ctx_valid ctx)"

lemma wf_session_of: "wf_pool st \<Longrightarrow> wf_stratum (session_of which st)"
  by (cases which) (simp_all add: wf_pool_def)

lemma build_from_ok:
  assumes "build_from pf which d ctx st = (True, ctx', st')" "wf_pool st" "d \<longleftrightarrow> which = Dev_session"
  shows "built_for pf st' which (session_of which st) ctx' \<and> g_en2_counter st' = g_en2_counter st + 1 \<and>
    be_val (cur_en2 (g_cur st')) = unat (g_en2_counter st') mod 256 ^ length (cur_en2 (g_cur st')) \<and>
    length (cur_en2 (g_cur st')) \<noteq> 0 \<and>
    g_main st' = g_main st \<and> g_dev_session st' = g_dev_session st \<and> pool_fee st' = pool_fee st \<and> g_chain st' = g_chain st"
proof -
  let ?s = "session_of which st"
  have w: "wf_stratum ?s" using assms(2) by (rule wf_session_of)
  then have "snprintf_s 64 (job_id (job ?s)) = job_id (job ?s)"
    by (simp add: wf_stratum_def wf_job_def snprintf_s_def)
  then show ?thesis using assms(1,3) w unfolding build_from_def built_for_def
    by (auto simp: Let_def en2_value not_less stratum_target_top64_def
        split: if_splits chain.splits option.splits prod.splits)
qed

lemma build_from_frame:
  assumes "build_from pf which d ctx st = (ok, ctx', st')"
  shows "g_main st' = g_main st \<and> g_dev_session st' = g_dev_session st \<and> pool_fee st' = pool_fee st \<and> g_chain st' = g_chain st \<and>
    g_dev_configured st' = g_dev_configured st \<and> (\<not> ok \<longrightarrow> g_cur st' = g_cur st) \<and> g_have_pushed st' = g_have_pushed st \<and>
    g_last_prevhash st' = g_last_prevhash st \<and> g_last_push_at st' = g_last_push_at st \<and>
    g_en2_counter st' \<in> {g_en2_counter st, g_en2_counter st + 1} \<and> (ok \<longrightarrow> cur_is_dev (g_cur st') = d)"
  using assms unfolding build_from_def
  by (auto simp: Let_def split: if_splits chain.splits option.splits prod.splits)

lemma get_work_ok:
  assumes "st_get_work pf now ctx st = (True, ctx', st')" "wf_pool st"
  obtains which c where "built_for pf st' which (session_of which st) ctx'" "stratum_ready (session_of which st)"
    "be_val (cur_en2 (g_cur st')) = unat (g_en2_counter st') mod 256 ^ length (cur_en2 (g_cur st'))"
    "length (cur_en2 (g_cur st')) \<noteq> 0"
    "c \<in> {1, 2}" "g_en2_counter st' = g_en2_counter st + c" "g_main st' = g_main st" "g_dev_session st' = g_dev_session st"
proof -
  obtain want fee where f: "devfee_pool_epoch (pool_fee st) = (want, fee)" by fastforce
  let ?st = "st\<lparr>pool_fee := fee\<rparr>"
  define try_dev where "try_dev \<longleftrightarrow> want \<and> g_dev_configured st \<and> stratum_ready (g_dev_session st)"
  obtain dok dctx dst where d: "(if try_dev then build_from pf Dev_session True ctx ?st else (False, ctx, ?st)) = (dok, dctx, dst)"
    by (metis prod_cases3)
  have wp: "wf_pool ?st" using assms(2) by (simp add: wf_pool_def)
  have p: "built_for pf (pushed now x) which s c = built_for pf x which s c" "g_main (pushed now x) = g_main x" "g_dev_session (pushed now x) = g_dev_session x"
    "g_cur (pushed now x) = g_cur x" "g_en2_counter (pushed now x) = g_en2_counter x" for x which s c
    by (simp_all add: pushed_def built_for_def)
  show thesis
  proof (cases dok)
    case True
    then have b: "build_from pf Dev_session True ctx ?st = (True, dctx, dst)" using d by (auto split: if_splits)
    have "ctx' = dctx" "st' = pushed now dst"
      using assms(1) True d f by (auto simp: st_get_work_def Let_def try_dev_def split: if_splits prod.splits)
    moreover have "stratum_ready (g_dev_session st)" using d True by (auto simp: try_dev_def split: if_splits)
    ultimately show ?thesis using build_from_ok [OF b wp] by (intro that [of Dev_session 1]) (simp_all add: p)
  next
    case False
    define mst where "mst = (if want then dst\<lparr>pool_fee := devfee_pool_skip (pool_fee dst)\<rparr> else dst)"
    obtain mok mctx mst' where m: "build_from pf Main_session False dctx mst = (mok, mctx, mst')" by (metis prod_cases3)
    have dst: "g_main dst = g_main st" "g_dev_session dst = g_dev_session st" "g_en2_counter dst \<in> {g_en2_counter st, g_en2_counter st + 1}"
      using d build_from_frame [of pf Dev_session True ctx ?st dok dctx dst] by (auto split: if_splits)
    then have mw: "wf_pool mst" "g_en2_counter mst = g_en2_counter dst" "session_of Main_session mst = g_main st" "g_dev_session mst = g_dev_session st"
      using assms(2) by (simp_all add: mst_def wf_pool_def)
    have e: "mok" "ctx' = mctx" "st' = pushed now mst'"
      using assms(1) False d f m by (auto simp: st_get_work_def Let_def try_dev_def mst_def split: if_splits prod.splits)
    have c: "g_en2_counter dst + 1 \<in> {g_en2_counter st + 1, g_en2_counter st + 2}" using dst(3) by auto
    note b = build_from_ok [OF m [unfolded e(1) [THEN eqTrueI]] mw(1)]
    have ready: "stratum_ready (g_main st)" using assms(1) by (auto simp: st_get_work_def split: if_splits)
    show ?thesis
    proof (rule that [of Main_session "g_en2_counter dst + 1 - g_en2_counter st"])
      show "g_en2_counter dst + 1 - g_en2_counter st \<in> {1, 2}" using c by auto
      show "g_en2_counter st' = g_en2_counter st + (g_en2_counter dst + 1 - g_en2_counter st)"
        using b mw by (simp add: e(3) p)
    qed (use b mw ready in \<open>simp_all add: e(2,3) p\<close>)
  qed
qed

lemma get_work_fee:
  assumes "st_get_work pf now ctx st = (ok, ctx', st')" "stratum_ready (g_main st)" "push_due now st"
  shows "g_pool_jobs (pool_fee st') = g_pool_jobs (pool_fee st) + 1 \<and>
     g_pool_dev_jobs (pool_fee st') = g_pool_dev_jobs (pool_fee st) + of_bool ((g_pool_jobs (pool_fee st) + 1) mod DEVFEE_INTERVAL = 0) \<and>
     g_pool_dev_jobs (pool_fee st') - g_pool_dev_jobs (pool_fee st) =
       (g_pool_skipped (pool_fee st') - g_pool_skipped (pool_fee st)) + of_bool (ok \<and> cur_is_dev (g_cur st')) \<and>
     g_pool_shares (pool_fee st') = g_pool_shares (pool_fee st) \<and> g_total (pool_fee st') = g_total (pool_fee st)"
proof -
  obtain want fee where f: "devfee_pool_epoch (pool_fee st) = (want, fee)" by fastforce
  have e: "want \<longleftrightarrow> (g_pool_jobs (pool_fee st) + 1) mod DEVFEE_INTERVAL = 0" "g_pool_jobs fee = g_pool_jobs (pool_fee st) + 1"
    "g_pool_dev_jobs fee = g_pool_dev_jobs (pool_fee st) + of_bool want" "g_pool_skipped fee = g_pool_skipped (pool_fee st)"
    "g_pool_shares fee = g_pool_shares (pool_fee st)" "g_total fee = g_total (pool_fee st)"
    using f by (auto simp: devfee_pool_epoch_def Let_def split: if_splits)
  have fr: "build_from pf which d c s = (b, c', s') \<Longrightarrow> pool_fee s' = pool_fee s \<and> (b \<longrightarrow> cur_is_dev (g_cur s') = d)" for which d c s b c' s'
    using build_from_frame by blast
  show ?thesis using assms f e
    by (auto simp: st_get_work_def Let_def pushed_def devfee_pool_skip_def split: if_splits prod.splits dest!: fr)
qed

lemma get_work_declined:
  "\<not> (stratum_ready (g_main st) \<and> push_due now st) \<Longrightarrow> st_get_work pf now ctx st = (False, ctx, st)"
  by (auto simp: st_get_work_def)

lemma get_work_pushed:
  assumes "st_get_work pf now ctx st = (ok, ctx', st')"
  shows "ok \<longrightarrow> g_have_pushed st' \<and> g_last_push_at st' = now \<and> g_last_prevhash st' = prevhash (job (g_main st))"
proof -
  have fr: "build_from pf which d c s = (b, c', s') \<Longrightarrow> g_main s' = g_main s" for which d c s b c' s'
    using build_from_frame by blast
  show ?thesis using assms by (auto simp: st_get_work_def Let_def pushed_def split: if_splits prod.splits dest!: fr)
qed

section \<open>Runs\<close>

text \<open>
  The states of the source reached from \<open>st0\<close> by polls, requests for work and candidates, with what the network was in each poll, in order, and the text each
  session received: a session that is not polled or not connected receives none.
\<close>

fun hears :: "poll_env \<Rightarrow> pool \<Rightarrow> sess_id \<Rightarrow> string" where
  "hears e st Main_session = (if fd (g_main st) < 0 then [] else heard (main_recvs e))"
| "hears e st Dev_session = (if \<not> g_dev_configured st \<or> fd (g_dev_session st) < 0 then [] else heard (dev_recvs e))"

inductive pool_run :: "platform \<Rightarrow> pool \<Rightarrow> poll_env list \<Rightarrow> (sess_id \<Rightarrow> string) \<Rightarrow> pool \<Rightarrow> bool" for pf st0 where
  start: "wf_pool st0 \<Longrightarrow> pool_run pf st0 [] (\<lambda>_. []) st0"
| polled: "pool_run pf st0 ps t st \<Longrightarrow> pool_run pf st0 (ps @ [e]) (\<lambda>w. t w @ hears e st w) (st_poll pf e now st)"
| work: "pool_run pf st0 ps t st \<Longrightarrow> st_get_work pf now ctx st = (ok, ctx', st') \<Longrightarrow> pool_run pf st0 ps t st'"
| candidate: "pool_run pf st0 ps t st \<Longrightarrow> pool_run pf st0 ps t (snd (st_on_candidate ctx nonce w rs st))"

text \<open>
  Pool mining from \<open>st0\<close>: the work item the hardware has, the session it was built from and that session as it was when the item was built;
  made by a successful request for work, kept over polls, candidates and requests that decline, and replaced by the next that succeeds.
\<close>

inductive mining :: "platform \<Rightarrow> pool \<Rightarrow> sess_id \<Rightarrow> stratum \<Rightarrow> pool \<Rightarrow> work_ctx \<Rightarrow> bool" for pf st0 where
  built: "pool_run pf st0 ps t st \<Longrightarrow> st_get_work pf now ctx0 st = (True, ctx, st') \<Longrightarrow> cur_sess (g_cur st') = Some which \<Longrightarrow>
     mining pf st0 which (session_of which st) st' ctx"
| declined: "mining pf st0 which s st ctx \<Longrightarrow> st_get_work pf now ctx0 st = (False, ctx', st') \<Longrightarrow> mining pf st0 which s st' ctx"
| polled: "mining pf st0 which s st ctx \<Longrightarrow> mining pf st0 which s (st_poll pf e now st) ctx"
| candidate: "mining pf st0 which s st ctx \<Longrightarrow> mining pf st0 which s (snd (st_on_candidate ctx nonce w rs st)) ctx"

lemma built_for_cong:
  "g_cur st' = g_cur st \<Longrightarrow> g_chain st' = g_chain st \<Longrightarrow> built_for pf st' which s ctx = built_for pf st which s ctx"
  by (simp add: built_for_def)

lemma get_work_false:
  assumes "st_get_work pf now ctx st = (False, ctx', st')"
  shows "g_cur st' = g_cur st \<and> g_chain st' = g_chain st \<and> g_main st' = g_main st \<and> g_dev_session st' = g_dev_session st"
proof -
  have fr: "build_from pf which d c s = (False, c', s') \<Longrightarrow> g_cur s' = g_cur s \<and> g_chain s' = g_chain s \<and> g_main s' = g_main s \<and> g_dev_session s' = g_dev_session s" for which d c s c' s'
    using build_from_frame by blast
  show ?thesis using assms
    by (auto simp: st_get_work_def Let_def split: if_splits prod.splits dest!: fr)
qed

lemma on_candidate_frame:
  "g_cur (snd (st_on_candidate ctx n w rs st)) = g_cur st \<and> g_chain (snd (st_on_candidate ctx n w rs st)) = g_chain st"
proof -
  have "g_cur (set_session which s st) = g_cur st \<and> g_chain (set_session which s st) = g_chain st" for which s
    by (cases which) simp_all
  then show ?thesis by (simp add: st_on_candidate_def Let_def split: option.splits prod.splits)
qed

lemma wf_on_candidate: "wf_pool st \<Longrightarrow> wf_pool (snd (st_on_candidate ctx n w rs st))"
proof -
  assume w: "wf_pool st"
  have "wf_pool (set_session which s st)" if "wf_stratum s" for which s
    using that w by (cases which) (simp_all add: wf_pool_def)
  moreover have "wf_stratum (snd (stratum_submit a b c d rs (session_of which st)))" for which a b c d
    using wf_submit [OF wf_session_of [OF w]] .
  ultimately have "wf_pool (set_session which s st)" if "stratum_submit a b c d rs (session_of which st) = (ok, s)" for which a b c d ok s
    using that by (metis snd_conv)
  moreover have "wf_pool (x\<lparr>pool_fee := y\<rparr>) = wf_pool x" for x y by (simp add: wf_pool_def)
  ultimately show ?thesis using w
    by (auto simp: st_on_candidate_def Let_def split: option.splits prod.splits)
qed

lemma get_work_built:
  assumes "st_get_work pf now ctx0 st = (True, ctx, st')" "wf_pool st"
  shows "wf_pool st' \<and> (\<exists>which. cur_sess (g_cur st') = Some which) \<and>
     (\<forall>which. cur_sess (g_cur st') = Some which \<longrightarrow> built_for pf st' which (session_of which st) ctx \<and> stratum_ready (session_of which st))"
proof (rule get_work_ok [OF assms])
  fix which c
  assume "built_for pf st' which (session_of which st) ctx" "g_main st' = g_main st" "g_dev_session st' = g_dev_session st" "stratum_ready (session_of which st)"
  moreover from this have "cur_sess (g_cur st') = Some which" by (simp add: built_for_def Let_def)
  ultimately show ?thesis using assms(2) unfolding wf_pool_def by auto
qed

lemma get_work_frame:
  assumes "st_get_work pf now ctx st = (ok, ctx', st')"
  shows "g_main st' = g_main st \<and> g_dev_session st' = g_dev_session st \<and> g_chain st' = g_chain st \<and> g_dev_configured st' = g_dev_configured st"
proof -
  have fr: "build_from pf which d c s = (b, c', s') \<Longrightarrow> g_main s' = g_main s \<and> g_dev_session s' = g_dev_session s \<and> g_chain s' = g_chain s \<and> g_dev_configured s' = g_dev_configured s"
    for which d c s b c' s' using build_from_frame by blast
  show ?thesis using assms by (auto simp: st_get_work_def Let_def pushed_def split: if_splits prod.splits dest!: fr)
qed

lemma frame_sessions: "g_main st' = g_main st \<and> g_dev_session st' = g_dev_session st \<and> x \<Longrightarrow> session_of w st' = session_of w st"
  by (cases w) simp_all

text \<open>What a candidate does to a session: nothing, or a submission.\<close>

lemma on_candidate_session:
  "session_of w (snd (st_on_candidate ctx n x rs st)) = session_of w st \<or>
   (\<exists>a b c d. session_of w (snd (st_on_candidate ctx n x rs st)) = snd (stratum_submit a b c d rs (session_of w st)))"
proof -
  have s: "session_of w (set_session v s st) = (if w = v then s else session_of w st)" "session_of w (st'\<lparr>pool_fee := y\<rparr>) = session_of w st'" for v s st' y
    by (cases w; cases v; simp)+
  have "session_of w (snd (st_on_candidate ctx n x rs st)) = session_of w st \<or>
    session_of w (snd (st_on_candidate ctx n x rs st)) = snd (stratum_submit (cur_job_id (g_cur st)) (cur_en2 (g_cur st)) (cur_ntime (g_cur st))
      (map (\<lambda>i. ucast (drop_bit (8 * i) n AND 0xff)) [0..<8]) rs (session_of w st))"
    by (auto simp: st_on_candidate_def s Let_def split: option.split prod.split)
  then show ?thesis by blast
qed

lemma poll_session:
  "session_of w (st_poll pf e now st) = (if w = Dev_session \<and> \<not> g_dev_configured st then session_of w st
     else stratum_poll pf (case w of Main_session \<Rightarrow> main_dial e | Dev_session \<Rightarrow> dev_dial e) now
       (case w of Main_session \<Rightarrow> main_sends e | Dev_session \<Rightarrow> dev_sends e) (case w of Main_session \<Rightarrow> main_recvs e | Dev_session \<Rightarrow> dev_recvs e) (session_of w st))"
  by (cases w) (simp_all add: st_poll_def Let_def)

lemma poll_frame: "wf_pool st \<Longrightarrow> wf_pool (st_poll pf e t st) \<and> g_chain (st_poll pf e t st) = g_chain st"
  by (simp add: st_poll_def Let_def wf_pool_def wf_poll)

lemma run_inv: "pool_run pf st0 ps t st \<Longrightarrow> wf_pool st \<and> g_chain st = g_chain st0 \<and> same_target (session_of w st0) (session_of w st)"
proof (induction rule: pool_run.induct)
  case (polled ps t st e now)
  have "same_target (session_of w st) (session_of w (st_poll pf e now st))" using target_poll by (simp add: poll_session same_target_def)
  then show ?case using polled poll_frame by (auto simp: same_target_def)
next
  case (work ps t st now ctx ok ctx' st')
  then show ?case using get_work_frame [OF work(2)] frame_sessions [of st' st _ w] by (auto simp: wf_pool_def)
next
  case (candidate ps t st ctx nonce x rs)
  have "same_target (session_of w st) (session_of w (snd (st_on_candidate ctx nonce x rs st)))"
    using on_candidate_session [of w ctx nonce x rs st] target_submit by (auto simp: same_target_def)
  then show ?case using candidate wf_on_candidate on_candidate_frame by (auto simp: same_target_def)
qed (simp add: same_target_def)

text \<open>A start at which nothing was heard: then whatever a session knows was in the text it received.\<close>

definition unheard :: "pool \<Rightarrow> bool" where
  "unheard st \<longleftrightarrow> (\<forall>w. rx (session_of w st) = [] \<and> \<not> have_job (session_of w st))"

lemma run_told: "pool_run pf st0 ps t st \<Longrightarrow> unheard st0 \<Longrightarrow> told_by (t w) (session_of w st)"
proof (induction rule: pool_run.induct)
  case (polled ps t st e now)
  have wf: "wf_stratum (session_of w st)" using run_inv [OF polled(1)] wf_session_of by blast
  show ?case using told_poll [OF wf polled.IH [OF polled.prems]] polled.IH [OF polled.prems] unfolding poll_session by (cases w) auto
next
  case (work ps t st now ctx ok ctx' st')
  then show ?case using frame_sessions [OF get_work_frame [OF work(2)]] by simp
next
  case (candidate ps t st ctx nonce x rs)
  then show ?case using on_candidate_session [of w ctx nonce x rs st] told_submit by auto
qed (simp add: unheard_def told_empty)

lemma mining_inv:
  "mining pf st0 which s st ctx \<Longrightarrow> wf_pool st \<and> g_chain st = g_chain st0 \<and> built_for pf st which s ctx \<and> stratum_ready s"
proof (induction rule: mining.induct)
  case (built ps t st now ctx0 ctx st' which)
  then show ?case using run_inv [OF built(1)] get_work_built [OF built(2)] get_work_frame [OF built(2)] by auto
next
  case (declined which s st ctx now ctx0 ctx' st')
  then show ?case using get_work_false [OF declined(2)] built_for_cong [of st' st] by (auto simp: wf_pool_def)
next
  case (polled which s st ctx e now)
  have "built_for pf (st_poll pf e now st) which s ctx = built_for pf st which s ctx"
    by (intro built_for_cong) (simp_all add: st_poll_def Let_def)
  then show ?case using polled poll_frame by auto
next
  case (candidate which s st ctx nonce w rs)
  have "built_for pf (snd (st_on_candidate ctx nonce w rs st)) which s ctx = built_for pf st which s ctx"
    using on_candidate_frame by (intro built_for_cong) auto
  then show ?case using candidate wf_on_candidate on_candidate_frame by auto
qed

lemma mining_run: "mining pf st0 which s st ctx \<Longrightarrow> \<exists>ps t. pool_run pf st0 ps t st"
  by (induction rule: mining.induct) (blast intro: pool_run.intros)+

text \<open>Where the job of the live item comes from.\<close>

lemma mining_source:
  "mining pf st0 which s st ctx \<Longrightarrow> \<exists>ps t st1 now ctx0 st2. pool_run pf st0 ps t st1 \<and> s = session_of which st1 \<and>
     st_get_work pf now ctx0 st1 = (True, ctx, st2) \<and> same_target (session_of which st0) s \<and> (unheard st0 \<longrightarrow> announced (t which) (job s))"
proof (induction rule: mining.induct)
  case (built ps t st now ctx0 ctx st' which)
  have "have_job (session_of which st)" using get_work_built [OF built(2)] run_inv [OF built(1)] built(3) by (auto simp: stratum_ready_def)
  then have "unheard st0 \<longrightarrow> announced (t which) (job (session_of which st))" using run_told [OF built(1), of which] by (simp add: told_by_def)
  then show ?case using built run_inv [OF built(1), of which] by blast
qed blast+

lemma nonce_bytes: "map (\<lambda>i. ucast (drop_bit (8 * i) nonce AND 0xff)) [0..<8] = put_u64le nonce"
  unfolding put_u64le_def ucast_low_byte by simp

lemma on_candidate_cases:
  assumes b: "built_for pf st which s ctx" and w: "wf_stratum (session_of which st)" 
  shows "let (v, st') = st_on_candidate ctx nonce x rs st; live = session_of which st; live' = session_of which st' in
    (v = CAND_BAD \<longleftrightarrow> chain_expected (g_chain st) (ss4 ctx) nonce \<noteq> x) \<and>
    (v = CAND_SOLUTION \<longrightarrow>
       hash_meets_target (chain_pow (g_chain st) (ss4 ctx) nonce) (stratum_target_full pf s) \<and>
       (seq (job live) = seq (job s) \<or> \<not> clean (job live)) \<and>
       sent live' = sent live @ submit_line (next_id live + 1) (worker live) (job_id (job s)) (cur_en2 (g_cur st)) (ntime (job s)) (put_u64le nonce) \<and>
       shares_submitted live' = shares_submitted live + 1 \<and>
       pool_fee st' = (if which = Dev_session then devfee_pool_credit (pool_fee st) else pool_fee st)) \<and>
    (v \<noteq> CAND_SOLUTION \<longrightarrow> pool_fee st' = pool_fee st \<and> shares_submitted live' = shares_submitted live)"
proof -
  let ?l = "session_of which st" and ?c = "g_cur st"
  have len: "length (job_id (job s)) < 64" "length (cur_en2 ?c) \<le> 32" "length (ntime (job s)) = 8" "length (put_u64le nonce) = 8" "length (worker ?l) < 160"
    and f: "cur_valid ?c" "cur_sess ?c = Some which" "cur_job_id ?c = job_id (job s)" "cur_ntime ?c = ntime (job s)" "cur_job_seq ?c = seq (job s)"
      "cur_is_dev ?c = (which = Dev_session)" "cur_target ?c = stratum_target_full pf s"
    using b w by (simp_all add: built_for_def wf_stratum_def wf_job_def stratum_sizes Let_def put_u64le_def)
  obtain ok s' where r: "stratum_submit (job_id (job s)) (cur_en2 ?c) (ntime (job s)) (put_u64le nonce) rs ?l = (ok, s')" by fastforce
  have s1: "ok \<Longrightarrow> sent s' = sent ?l @ submit_line (next_id ?l + 1) (worker ?l) (job_id (job s)) (cur_en2 ?c) (ntime (job s)) (put_u64le nonce) \<and>
     shares_submitted s' = shares_submitted ?l + 1"
    using submit_ok [OF _ len(5,1,2,3,4)] r by auto
  have s0: "\<not> ok \<Longrightarrow> shares_submitted s' = shares_submitted ?l"
    using r by (auto simp: stratum_submit_def send_line_def stratum_drop_def Let_def split: if_splits prod.splits)
  have ss: "session_of which (set_session which s' st) = s'" "session_of which (st''\<lparr>pool_fee := y\<rparr>) = session_of which st''"
    "pool_fee (set_session which s' st) = pool_fee st" "g_cur (set_session which s' st) = ?c" for st'' y
    by (cases which; simp)+
  show ?thesis unfolding st_on_candidate_def nonce_bytes
    using s0 s1 by (auto simp: f r ss Let_def)
qed

lemma on_candidate_accepts:
  assumes b: "built_for pf st which s ctx" and w: "wf_stratum (session_of which st)"
    and "chain_expected (g_chain st) (ss4 ctx) nonce = x"
    and "hash_meets_target (chain_pow (g_chain st) (ss4 ctx) nonce) (stratum_target_full pf s)"
    and "seq (job (session_of which st)) = seq (job s) \<or> \<not> clean (job (session_of which st))"
    and "0 \<le> fd (session_of which st)" "1024 \<le> capacity rs"
  shows "fst (st_on_candidate ctx nonce x rs st) = CAND_SOLUTION"
proof -
  let ?l = "session_of which st" and ?c = "g_cur st"
  have len: "length (job_id (job s)) < 64" "length (cur_en2 ?c) \<le> 32" "length (ntime (job s)) = 8" "length (put_u64le nonce) = 8" "length (worker ?l) < 160"
    and f: "cur_valid ?c" "cur_sess ?c = Some which" "cur_job_id ?c = job_id (job s)" "cur_ntime ?c = ntime (job s)" "cur_job_seq ?c = seq (job s)"
      "cur_target ?c = stratum_target_full pf s"
    using b w by (simp_all add: built_for_def wf_stratum_def wf_job_def stratum_sizes Let_def put_u64le_def)
  have fit: "length (snprintf_s 1024 t) \<le> capacity rs" for t using assms(7) by (simp add: snprintf_s_def)
  have "fst (stratum_submit (job_id (job s)) (cur_en2 ?c) (ntime (job s)) (put_u64le nonce) rs ?l)"
    using assms(6) send_capacity [OF fit [of "submit_line (next_id ?l + 1) (worker ?l) (job_id (job s)) (cur_en2 ?c) (ntime (job s)) (put_u64le nonce)"]]
    by (auto simp: stratum_submit_def send_line_def Let_def)
  then show ?thesis unfolding st_on_candidate_def nonce_bytes
    using assms(3-5) by (auto simp: f Let_def split: prod.splits)
qed

text \<open>
  No good share is lost: while the session the item came from is connected and takes the line, and its latest job is the item's
  or not announced clean, a reported candidate whose full hash meets the target is submitted.
\<close>

lemma good_share:
  assumes "mining pf st0 which s st ctx" "hash_meets_target (chain_pow (g_chain st0) (ss4 ctx) nonce) (stratum_target_full pf s)"
    and "seq (job (session_of which st)) = seq (job s) \<or> \<not> clean (job (session_of which st))" "0 \<le> fd (session_of which st)" "1024 \<le> capacity rs"
  shows "fst (st_on_candidate ctx nonce (chain_expected (g_chain st0) (ss4 ctx) nonce) rs st) = CAND_SOLUTION"
proof -
  have i: "wf_pool st" "g_chain st = g_chain st0" "built_for pf st which s ctx" using mining_inv [OF assms(1)] by auto
  show ?thesis using on_candidate_accepts [OF i(3) wf_session_of [OF i(1)] refl _ assms(3-5)] assms(2) unfolding i(2) by blast
qed

section \<open>Properties\<close>

text \<open>
  C7: the item on the hardware is the work described.  At every moment of pool mining, over new jobs, declined requests,
  polls and candidates: when \<open>s\<close> is the session \<open>which\<close> as it was when the live item was built, that session was ready, the two stage messages of the item are those of its
  job then, under its extranonce and the one recorded, and the session, job id, time, number and target recorded for submission are those of \<open>s\<close> and its
  job, whatever the session has become since.
\<close>

theorem live_item_is_described:
  assumes "mining pf st0 which s st ctx"
  shows "wf_stratum s \<and> stratum_ready s \<and> cur_sess (g_cur st) = Some which \<and> (cur_is_dev (g_cur st) \<longleftrightarrow> which = Dev_session) \<and>
     chain_item (g_chain st0) (job s) (take (en1_len s) (extranonce1 s)) (cur_en2 (g_cur st)) = Some (ss3 ctx, ss4 ctx) \<and>
     cur_job_id (g_cur st) = job_id (job s) \<and> cur_ntime (g_cur st) = ntime (job s) \<and> cur_job_seq (g_cur st) = seq (job s) \<and>
     cur_target (g_cur st) = stratum_target_full pf s \<and> target_top64 ctx = top64 (cur_target (g_cur st))"
  using mining_inv [OF assms] by (auto simp: built_for_def Let_def)

text \<open>
  C8: the verdict on a candidate.  With \<open>s\<close> the session \<open>which\<close> as it was when the live item was built: the candidate is refused exactly when the reported word does not reproduce.
  A share is counted only after the full hash met the target \<open>s\<close> had, and either the session's latest job is still the one the item was
  built from or that latest job was not announced clean (so a job replaced first by a clean one and then by one that is not clean is submitted again);
  then one line with that job's id and time, the item's extranonce and the
  little-endian nonce went out on the session the job came from, and the fee credit moved only for the
  developer's session.  Nothing is counted otherwise.
\<close>

theorem candidate_verdict:
  assumes "mining pf st0 which s st ctx"
  shows "let (v, st') = st_on_candidate ctx nonce x rs st; live = session_of which st; live' = session_of which st' in
    (v = CAND_BAD \<longleftrightarrow> chain_expected (g_chain st0) (ss4 ctx) nonce \<noteq> x) \<and>
    (v = CAND_SOLUTION \<longrightarrow>
       hash_meets_target (chain_pow (g_chain st0) (ss4 ctx) nonce) (stratum_target_full pf s) \<and>
       (seq (job live) = seq (job s) \<or> \<not> clean (job live)) \<and>
       sent live' = sent live @ submit_line (next_id live + 1) (worker live) (job_id (job s)) (cur_en2 (g_cur st)) (ntime (job s)) (put_u64le nonce) \<and>
       shares_submitted live' = shares_submitted live + 1 \<and>
       pool_fee st' = (if which = Dev_session then devfee_pool_credit (pool_fee st) else pool_fee st)) \<and>
    (v \<noteq> CAND_SOLUTION \<longrightarrow> pool_fee st' = pool_fee st \<and> shares_submitted live' = shares_submitted live)"
proof -
  have i: "wf_pool st" "g_chain st = g_chain st0" "built_for pf st which s ctx" using mining_inv [OF assms] by auto
  show ?thesis using on_candidate_cases [OF i(3) wf_session_of [OF i(1)]] unfolding i(2) by blast
qed

text \<open>
  C36: when work is pushed, and who it is for.  Nothing happens unless the pool session is ready and either
  nothing was pushed yet, the previous block of its job is not the one last pushed, or at least thirty seconds passed since the last push.  Otherwise the job
  counter moves by one, every twentieth job is the developer's, and each of those is either the item now being
  mined or recorded as skipped; a push that succeeds records its time and its previous block.
\<close>

theorem push_and_fee:
  assumes "st_get_work pf now ctx st = (ok, ctx', st')"
  shows "if stratum_ready (g_main st) \<and>
       (\<not> g_have_pushed st \<or> g_last_prevhash st \<noteq> prevhash (job (g_main st)) \<or> 30 \<le> now - g_last_push_at st) then
     g_pool_jobs (pool_fee st') = g_pool_jobs (pool_fee st) + 1 \<and>
     g_pool_dev_jobs (pool_fee st') = g_pool_dev_jobs (pool_fee st) + of_bool ((g_pool_jobs (pool_fee st) + 1) mod 20 = 0) \<and>
     g_pool_dev_jobs (pool_fee st') - g_pool_dev_jobs (pool_fee st) =
       (g_pool_skipped (pool_fee st') - g_pool_skipped (pool_fee st)) + of_bool (ok \<and> cur_is_dev (g_cur st')) \<and>
     g_pool_shares (pool_fee st') = g_pool_shares (pool_fee st) \<and> g_total (pool_fee st') = g_total (pool_fee st) \<and>
     (ok \<longrightarrow> g_have_pushed st' \<and> g_last_push_at st' = now \<and> g_last_prevhash st' = prevhash (job (g_main st)))
   else (ok, ctx', st') = (False, ctx, st)"
proof -
  have d: "(\<not> g_have_pushed st \<or> g_last_prevhash st \<noteq> prevhash (job (g_main st)) \<or> 30 \<le> now - g_last_push_at st) \<longleftrightarrow> push_due now st"
    by (auto simp: push_due_def PUSH_MAX_AGE_S_def)
  show ?thesis
  proof (cases "stratum_ready (g_main st) \<and> push_due now st")
    case True
    have "ok \<longrightarrow> g_have_pushed st' \<and> g_last_push_at st' = now \<and> g_last_prevhash st' = prevhash (job (g_main st))" by (rule get_work_pushed [OF assms])
    then show ?thesis unfolding d if_P [OF True] using get_work_fee [OF assms, unfolded DEVFEE_INTERVAL_def] True by blast
  next
    case False
    show ?thesis unfolding d if_not_P [OF False] using get_work_declined [OF False, of pf ctx] assms by simp
  qed
qed

text \<open>
  no search space is presented twice.  The extranonce of every new item is the big-endian value of a counter
  that each item moves on by one or two; so while fewer items than the extranonce has values are built, all
  their extranonces differ.
\<close>

theorem extranonce_is_counter:
  assumes "wf_pool st" "st_get_work pf now ctx st = (True, ctx', st')"
  shows "\<exists>c\<in>{1, 2}. g_en2_counter st' = g_en2_counter st + c \<and> cur_en2 (g_cur st') \<noteq> [] \<and>
     be_val (cur_en2 (g_cur st')) = unat (g_en2_counter st') mod 256 ^ length (cur_en2 (g_cur st'))"
proof (rule get_work_ok [OF assms(2,1)])
  fix which c
  assume "be_val (cur_en2 (g_cur st')) = unat (g_en2_counter st') mod 256 ^ length (cur_en2 (g_cur st'))"
    "length (cur_en2 (g_cur st')) \<noteq> 0" "c \<in> {1, 2}" "g_en2_counter st' = g_en2_counter st + c"
  then show ?thesis by auto
qed

definition ready_session :: stratum where
  "ready_session = (stratum_init (Some ''pool'') 3333 (Some ''w'') None)\<lparr>fd := 3, subscribed := True, authorized := True, have_job := True\<rparr>"

definition ready_pool :: pool where
  "ready_pool = pool_start\<lparr>g_main := ready_session, g_chain := CHAIN_SIA\<rparr>"

definition empty_ctx :: work_ctx where
  "empty_ctx = \<lparr>ss3 = replicate STAGE3_LEN 0, ss4 = replicate STAGE4_LEN 0, target_top64 = 0, ctx_valid = False\<rparr>"

lemma ready_pool_works:
  "wf_pool ready_pool" "\<exists>ctx st. st_get_work plain_platform 7 empty_ctx ready_pool = (True, ctx, st)"
proof -
  show w: "wf_pool ready_pool"
    using wf_init [of "Some ''pool''" 3333 "Some ''w''" None] wf_init [of None 0 None None]
    by (simp add: wf_pool_def ready_pool_def pool_start_def ready_session_def wf_stratum_def)
  have j: "wf_job zero_job" by (simp add: wf_job_def zero_job_def stratum_sizes)
  obtain h r where "sia_build_header zero_job [] (en2_bytes 8 1) = Some (h, r)"
    using sia_acceptance [OF j, of "[]" "en2_bytes 8 1"] by (auto simp: stratum_sizes)
  then show "\<exists>ctx st. st_get_work plain_platform 7 empty_ctx ready_pool = (True, ctx, st)"
    by (simp add: st_get_work_def ready_pool_def pool_start_def ready_session_def stratum_ready_def push_due_def stratum_init_def
        devfee_pool_epoch_def devfee_reset_def DEVFEE_INTERVAL_def build_from_def stratum_sizes Let_def)
qed

text \<open>A state with an item, for the witnesses.\<close>

definition first_item :: "work_ctx \<times> pool" where
  "first_item = snd (st_get_work plain_platform 7 empty_ctx ready_pool)"

lemma first_item_mining: "mining plain_platform ready_pool Main_session ready_session (snd first_item) (fst first_item)"
proof -
  obtain ctx st where g: "st_get_work plain_platform 7 empty_ctx ready_pool = (True, ctx, st)" using ready_pool_works(2) by blast
  obtain which where w: "cur_sess (g_cur st) = Some which" using get_work_built [OF g ready_pool_works(1)] by blast
  have "stratum_ready (session_of which ready_pool)" using get_work_built [OF g ready_pool_works(1)] w by blast
  then have "which = Main_session" by (cases which) (simp_all add: ready_pool_def pool_start_def stratum_init_def stratum_ready_def)
  then show ?thesis using mining.built [OF pool_run.start [OF ready_pool_works(1)] g w] g by (simp add: first_item_def) (simp add: ready_pool_def)
qed

theorem live_item_is_described_witness:
  "cur_job_id (g_cur (snd first_item)) = [] \<and> cur_ntime (g_cur (snd first_item)) = replicate 8 0 \<and>
   chain_item CHAIN_SIA zero_job [] (cur_en2 (g_cur (snd first_item))) = Some (ss3 (fst first_item), ss4 (fst first_item))"
  using live_item_is_described [OF first_item_mining] by (simp add: ready_session_def ready_pool_def stratum_init_def zero_job_def)

theorem candidate_verdict_witness:
  "fst (st_on_candidate (fst first_item) 5 (chain_expected CHAIN_SIA (ss4 (fst first_item)) 5) [] (snd first_item)) \<noteq> CAND_BAD"
proof -
  have c: "g_chain ready_pool = CHAIN_SIA" by (simp add: ready_pool_def)
  show ?thesis
    using candidate_verdict [OF first_item_mining, of 5 "chain_expected CHAIN_SIA (ss4 (fst first_item)) 5" "[]", unfolded c]
    by (cases "st_on_candidate (fst first_item) 5 (chain_expected CHAIN_SIA (ss4 (fst first_item)) 5) [] (snd first_item)") (auto simp: Let_def)
qed

theorem push_and_fee_witness:
  "g_pool_jobs (pool_fee (snd (snd (st_get_work plain_platform 7 empty_ctx ready_pool)))) = 1"
proof -
  obtain ctx st where g: "st_get_work plain_platform 7 empty_ctx ready_pool = (True, ctx, st)" using ready_pool_works(2) by blast
  have "stratum_ready (g_main ready_pool) \<and> \<not> g_have_pushed ready_pool"
    by (simp add: ready_pool_def pool_start_def ready_session_def stratum_ready_def)
  then show ?thesis using push_and_fee [OF g] g by (simp add: ready_pool_def pool_start_def devfee_reset_def)
qed

theorem extranonce_is_counter_witness:
  "be_val (cur_en2 (g_cur (snd (snd (st_get_work plain_platform 7 empty_ctx ready_pool))))) \<in> {1, 2}"
proof -
  obtain ctx st where g: "st_get_work plain_platform 7 empty_ctx ready_pool = (True, ctx, st)" using ready_pool_works(2) by blast
  obtain c where c: "c \<in> {1, 2}" "g_en2_counter st = c" "cur_en2 (g_cur st) \<noteq> []"
    "be_val (cur_en2 (g_cur st)) = unat (g_en2_counter st) mod 256 ^ length (cur_en2 (g_cur st))"
    using extranonce_is_counter [OF ready_pool_works(1) g] by (auto simp: ready_pool_def pool_start_def)
  have "(256::nat) ^ 1 \<le> 256 ^ length (cur_en2 (g_cur st))" using c(3) by (intro power_increasing) (auto simp: Suc_le_eq)
  then show ?thesis using c g by auto
qed

end
