(* ===== verification/Dns.thy ===== *)
theory Dns
  imports Stratum
begin

text \<open>
  The stub resolver (\<^verbatim>\<open>src/miner/dns.c\<close>).  The bytes a nameserver sends back, the text of \<^verbatim>\<open>/etc/resolv.conf\<close> and
  the transaction id (it depends on a pointer) are arguments.  A reply is the list of the \<^verbatim>\<open>n\<close> bytes
  received; every index read is checked against its length first, as in the code.  The library functions
  \<^verbatim>\<open>inet_pton\<close> and \<^verbatim>\<open>inet_ntop\<close> for IPv4 are written out.
\<close>

unbundle bit_operations_syntax

section \<open>Dotted quads\<close>

definition inet_ntop :: "bytes \<Rightarrow> string" where
  "inet_ntop a = dec (unat (a ! 0)) @ CHR ''.'' # dec (unat (a ! 1)) @ CHR ''.'' # dec (unat (a ! 2)) @ CHR ''.'' # dec (unat (a ! 3))"

text \<open>One octet: digits without a leading zero, at most 255.\<close>

definition octet :: "string \<Rightarrow> u8 option" where
  "octet t = (if t \<noteq> [] \<and> list_all is_digit t \<and> (length t > 1 \<longrightarrow> hd t \<noteq> CHR ''0'') \<and> digits_val 10 t \<le> 255
     then Some (of_nat (digits_val 10 t)) else None)"

definition until_dot :: "string \<Rightarrow> string" where "until_dot p = takeWhile (\<lambda>c. c \<noteq> CHR ''.'') p"
definition from_dot :: "string \<Rightarrow> string" where "from_dot p = dropWhile (\<lambda>c. c \<noteq> CHR ''.'') p"

fun octets :: "nat \<Rightarrow> string \<Rightarrow> bytes option" where
  "octets 0 p = None"
| "octets (Suc 0) p = map_option (\<lambda>b. [b]) (octet p)"
| "octets (Suc (Suc k)) p =
     (case octet (until_dot p) of
        None \<Rightarrow> None
      | Some b \<Rightarrow> if from_dot p = [] then None else map_option (Cons b) (octets (Suc k) (tl (from_dot p))))"

definition inet_pton :: "string \<Rightarrow> bytes option" where
  "inet_pton p = octets 4 p"

section \<open>Names on the wire\<close>

definition DNS_BUF :: nat where "DNS_BUF = 1500"
definition MAX_NS :: nat where "MAX_NS = 4"

function qname_loop :: "string \<Rightarrow> bytes \<Rightarrow> nat \<Rightarrow> bytes option" where
  "qname_loop p out buflen =
     (if p = [] then Some out
      else let l = until_dot p; r = from_dot p in
      if length l = 0 \<or> length l > 63 then None
      else if length out + 1 + length l + 1 > buflen then None
      else let out = out @ of_nat (length l) # map of_char l in
      if r = [] then Some out else qname_loop (tl r) out buflen)"
  by pat_completeness auto
termination
  by (relation "measure (\<lambda>(p, out, n). length p)")
    (auto simp: from_dot_def simp del: dropWhile_eq_Nil_conv length_tl intro!: length_tl_dropWhile)

declare qname_loop.simps [simp del]

definition encode_qname :: "string \<Rightarrow> nat \<Rightarrow> bytes option" where
  "encode_qname h buflen =
     (case qname_loop h [] buflen of
        None \<Rightarrow> None
      | Some out \<Rightarrow> if length out + 1 > buflen then None else Some (out @ [0]))"

function skip_name :: "bytes \<Rightarrow> nat \<Rightarrow> nat option" where
  "skip_name msg off =
     (if off < length msg then
        let l = msg ! off in
        if l = 0 then Some (off + 1)
        else if l AND 0xc0 = 0xc0 then (if off + 2 \<le> length msg then Some (off + 2) else None)
        else if l > 63 then None
        else skip_name msg (off + 1 + unat l)
      else None)"
  by pat_completeness auto
termination by (relation "measure (\<lambda>(msg, off). length msg - off)") auto

declare skip_name.simps [simp del]

section \<open>Query and reply\<close>

definition dns_query :: "string \<Rightarrow> u16 \<Rightarrow> bytes option" where
  "dns_query h i =
     (case encode_qname h (DNS_BUF - 12 - 4) of
        None \<Rightarrow> None
      | Some qn \<Rightarrow> Some ([ucast (drop_bit 8 i), ucast (i AND 0xff), 0x01, 0x00, 0x00, 0x01, 0, 0, 0, 0, 0, 0] @ qn @ [0, 1, 0, 1]))"

definition be16 :: "bytes \<Rightarrow> nat \<Rightarrow> nat" where
  "be16 r k = unat (r ! k) * 256 + unat (r ! (k + 1))"

fun skip_questions :: "bytes \<Rightarrow> nat \<Rightarrow> nat \<Rightarrow> nat option" where
  "skip_questions r 0 off = Some off"
| "skip_questions r (Suc k) off =
     (case skip_name r off of
        None \<Rightarrow> None
      | Some o1 \<Rightarrow> if o1 + 4 > length r then None else skip_questions r k (o1 + 4))"

fun find_a :: "string \<Rightarrow> bytes \<Rightarrow> nat \<Rightarrow> nat \<Rightarrow> string + bytes" where
  "find_a h r 0 off = Inl (''dns answer for '' @ h @ '' carried no A record'')"
| "find_a h r (Suc k) off =
     (case skip_name r off of
        None \<Rightarrow> Inl ''dns malformed answer''
      | Some o1 \<Rightarrow>
          if o1 + 10 > length r then Inl ''dns malformed answer''
          else let ty = be16 r o1; rdlen = be16 r (o1 + 8); o2 = o1 + 10 in
          if o2 + rdlen > length r then Inl ''dns rdata overruns packet''
          else if ty = 1 \<and> rdlen = 4 then Inr (take 4 (drop o2 r))
          else find_a h r k (o2 + rdlen))"

definition parse_reply :: "string \<Rightarrow> string \<Rightarrow> u16 \<Rightarrow> bytes \<Rightarrow> string + bytes" where
  "parse_reply server h i r =
     (if length r < 12 then Inl (''dns no reply from '' @ server)
      else if be16 r 0 \<noteq> unat i then Inl ''dns id mismatch''
      else let rcode = r ! 3 AND 0x0f in
      if rcode \<noteq> 0 then Inl (''dns rcode '' @ dec (unat rcode) @ '' for '' @ h)
      else let qd = be16 r 4; an = be16 r 6 in
      if an = 0 then Inl (''dns no answer for '' @ h)
      else (case skip_questions r qd 12 of
              None \<Rightarrow> Inl ''dns malformed question''
            | Some off \<Rightarrow> find_a h r an off))"

text \<open>What the network does with one query: the socket or the send fails, or bytes (possibly none) come back.\<close>

datatype udp_res = Udp_socket_failed nat | Udp_send_failed nat | Udp_reply bytes

record dns_env =
  udp :: "string \<Rightarrow> bytes \<Rightarrow> udp_res"
  resolv_conf :: "string option"
  dns_id :: u16
  dns_strerror :: "nat \<Rightarrow> string"

definition query_one :: "dns_env \<Rightarrow> string \<Rightarrow> string \<Rightarrow> u16 \<Rightarrow> string + string" where
  "query_one e server h i =
     (case dns_query h i of
        None \<Rightarrow> Inl (snprintf_s 192 (''hostname too long for DNS: '' @ h))
      | Some q \<Rightarrow>
          (case udp e server q of
             Udp_socket_failed er \<Rightarrow> Inl (snprintf_s 192 (''dns socket: '' @ dns_strerror e er))
           | Udp_send_failed er \<Rightarrow>
               (if inet_pton server = None then Inl (snprintf_s 192 (''bad nameserver '' @ server))
                else Inl (snprintf_s 192 (''dns sendto '' @ server @ '': '' @ dns_strerror e er)))
           | Udp_reply r \<Rightarrow>
               (if inet_pton server = None then Inl (snprintf_s 192 (''bad nameserver '' @ server))
                else (case parse_reply server h i (take DNS_BUF r) of
                        Inl m \<Rightarrow> Inl (snprintf_s 192 m)
                      | Inr a \<Rightarrow> Inr (inet_ntop a)))))"

section \<open>Nameservers\<close>

text \<open>\<^verbatim>\<open>fgets\<close> into a 256-byte array: up to 255 characters, ending with the first newline.\<close>

definition fgets_line :: "string \<Rightarrow> string" where
  "fgets_line p = (let l = takeWhile (\<lambda>c. c \<noteq> CHR 0x0A) p;
                       l = (if length l < length p then l @ [CHR 0x0A] else l) in take 255 l)"

definition blank :: "char \<Rightarrow> bool" where "blank c \<longleftrightarrow> c = CHR '' '' \<or> c = CHR 0x09"

definition ns_of_line :: "string \<Rightarrow> string option" where
  "ns_of_line line =
     (let p = dropWhile blank (cstr line) in
      if take 10 p \<noteq> ''nameserver'' then None
      else let p = dropWhile blank (drop 10 p);
               t = takeWhile (\<lambda>c. c \<noteq> CHR 0x0A \<and> c \<noteq> CHR 0x0D \<and> \<not> blank c) p
           in if inet_pton t = None then None else Some t)"

function ns_loop :: "nat \<Rightarrow> string \<Rightarrow> string list" where
  "ns_loop n f =
     (if n < MAX_NS \<and> f \<noteq> [] then
        let line = fgets_line f; f' = drop (length line) f in
        if line = [] then []
        else (case ns_of_line line of Some t \<Rightarrow> t # ns_loop (n + 1) f' | None \<Rightarrow> ns_loop n f')
      else [])"
  by pat_completeness auto
termination by (relation "measure (\<lambda>(n, f). length f)") auto

declare ns_loop.simps [simp del]

definition load_nameservers :: "string option \<Rightarrow> string list" where
  "load_nameservers f =
     (let ns = (case f of Some t \<Rightarrow> ns_loop 0 t | None \<Rightarrow> []) in
      if ns = [] then [''1.1.1.1'', ''8.8.8.8''] else ns)"

section \<open>The resolver\<close>

fun ask_all :: "dns_env \<Rightarrow> string \<Rightarrow> u16 \<Rightarrow> string \<Rightarrow> string list \<Rightarrow> string + string" where
  "ask_all e h i lst [] =
     Inl (snprintf_s 192 (''resolve '' @ h @ '' failed: '' @ (if lst \<noteq> [] then lst else ''no nameserver answered'')))"
| "ask_all e h i lst (s # ns) =
     (case query_one e s h i of
        Inr a \<Rightarrow> Inr a
      | Inl m \<Rightarrow> ask_all e h (i + 1) (snprintf_s 192 m) ns)"

definition dns_resolve_a :: "dns_env \<Rightarrow> string \<Rightarrow> string + string" where
  "dns_resolve_a e h =
     (if h = [] then Inl ''empty hostname''
      else if inet_pton h \<noteq> None then Inr (snprintf_s 16 h)
      else ask_all e h (dns_id e) [] (load_nameservers (resolv_conf e)))"

section \<open>Quads round trip\<close>

lemma octet_dec: "octet (dec (unat b)) = Some b"
proof -
  have "unat b \<le> 255" using unat_u8_less [of b] by linarith
  moreover have "length (dec (unat b)) > 1 \<longrightarrow> hd (dec (unat b)) \<noteq> CHR ''0''"
    using dec_head [of "unat b"] by (cases "dec (unat b)") auto
  ultimately show ?thesis using dec_digits [of "unat b"] by (simp add: octet_def)
qed

lemma digits_no_dot: "list_all is_digit t \<Longrightarrow> CHR ''.'' \<notin> set t"
  by (auto simp: list_all_iff is_digit_def)

lemma until_dot_append: "CHR ''.'' \<notin> set t \<Longrightarrow> until_dot (t @ CHR ''.'' # r) = t \<and> from_dot (t @ CHR ''.'' # r) = CHR ''.'' # r"
  by (induction t) (auto simp: until_dot_def from_dot_def)

lemma inet_pton_ntop:
  assumes "length a = 4"
  shows "inet_pton (inet_ntop a) = Some a"
proof -
  obtain b0 b1 b2 b3 where a: "a = [b0, b1, b2, b3]"
    using assms by (auto simp: numeral_eq_Suc length_Suc_conv)
  note nd = digits_no_dot [OF dec_digits]
  show ?thesis by (simp add: a inet_pton_def inet_ntop_def numeral_eq_Suc octet_dec until_dot_append [OF nd])
qed

lemma length_inet_ntop: "length (inet_ntop a) < 16"
proof -
  have "length (dec (unat (b :: u8))) \<le> 3" for b
    using length_dec [of "unat b" 3] unat_u8_less [of b] by simp
  from this [of "a ! 0"] this [of "a ! 1"] this [of "a ! 2"] this [of "a ! 3"] show ?thesis
    by (simp add: inet_ntop_def)
qed

lemma length_octet:
  assumes "octet t = Some b"
  shows "length t \<le> 3"
proof (rule ccontr)
  assume "\<not> length t \<le> 3"
  then obtain c d e f r where t: "t = c # d # e # f # r"
    by (cases t rule: list.exhaust; cases "tl t"; cases "tl (tl t)"; cases "tl (tl (tl t))") auto
  have c: "is_digit c" "c \<noteq> CHR ''0''" "digits_val 10 t \<le> 255" using assms t by (auto simp: octet_def split: if_splits)
  have mono: "v \<le> foldl (\<lambda>v c. v * 10 + nat (hexval c)) v ds" for v ds
  proof (induction ds arbitrary: v)
    case (Cons x ds)
    have "v \<le> v * 10 + nat (hexval x)" by simp
    also have "\<dots> \<le> foldl (\<lambda>v c. v * 10 + nat (hexval c)) (v * 10 + nat (hexval x)) ds" by (rule Cons)
    finally show ?case by simp
  qed simp
  have "ch c \<noteq> ch CHR ''0''" using c(2) of_char_eq_iff by blast
  then have "1 \<le> nat (hexval c)" using c(1) by (auto simp: is_digit_def hexval_def)
  then have "1000 \<le> ((nat (hexval c) * 10 + nat (hexval d)) * 10 + nat (hexval e)) * 10 + nat (hexval f)" by simp
  also have "\<dots> \<le> digits_val 10 t" using mono [of "((nat (hexval c) * 10 + nat (hexval d)) * 10 + nat (hexval e)) * 10 + nat (hexval f)" r]
    by (simp add: t digits_val_def)
  finally show False using c(3) by simp
qed

lemma split_dot: "length p = length (until_dot p) + length (from_dot p)"
  unfolding until_dot_def from_dot_def by (metis length_append takeWhile_dropWhile_id)

lemma length_octets: "octets k p = Some bs \<Longrightarrow> length p \<le> 4 * k - 1 \<and> length bs = k"
proof (induction k p arbitrary: bs rule: octets.induct)
  case (2 p)
  then show ?case by (auto dest: length_octet)
next
  case (3 k p)
  then obtain b bs' where o: "octet (until_dot p) = Some b" "from_dot p \<noteq> []" "octets (Suc k) (tl (from_dot p)) = Some bs'" "bs = b # bs'"
    by (auto split: option.splits if_splits)
  have "length (tl (from_dot p)) \<le> 4 * Suc k - 1 \<and> length bs' = Suc k" using "3.IH" [OF o(1,2,3)] .
  then show ?case using o split_dot [of p] length_octet [OF o(1)] by auto
qed simp

lemma inet_pton_length: "inet_pton p = Some a \<Longrightarrow> length p < 16 \<and> length a = 4"
  unfolding inet_pton_def using length_octets [of 4 p a] by simp

section \<open>Names round trip\<close>

fun split_dots :: "string list \<Rightarrow> string" where
  "split_dots [] = []"
| "split_dots [l] = l"
| "split_dots (l # ls) = l @ CHR ''.'' # split_dots ls"

definition label_ok :: "string \<Rightarrow> bool" where
  "label_ok l \<longleftrightarrow> l \<noteq> [] \<and> length l \<le> 63 \<and> CHR ''.'' \<notin> set l"

definition wire_label :: "string \<Rightarrow> bytes" where
  "wire_label l = of_nat (length l) # map of_char l"

definition wire_name :: "string list \<Rightarrow> bytes" where
  "wire_name ls = concat (map wire_label ls) @ [0]"

lemma until_dot_id: "CHR ''.'' \<notin> set l \<Longrightarrow> until_dot l = l \<and> from_dot l = []"
  by (induction l) (auto simp: until_dot_def from_dot_def)

lemma length_wire_label: "length (wire_label l) = length l + 1"
  by (simp add: wire_label_def)

lemmas wire_label_fold = wire_label_def [symmetric]

lemma qname_loop_labels:
  "list_all label_ok ls \<Longrightarrow> length out + length (concat (map wire_label ls)) + 1 \<le> n \<Longrightarrow>
   qname_loop (split_dots ls) out n = Some (out @ concat (map wire_label ls))"
proof (induction ls arbitrary: out rule: split_dots.induct)
  case 1
  then show ?case by (subst qname_loop.simps) simp
next
  case (2 l)
  then show ?case
    by (subst qname_loop.simps) (auto simp: label_ok_def until_dot_id wire_label_def Let_def)
next
  case (3 l l' ls)
  then show ?case
    by (subst qname_loop.simps) (auto simp: label_ok_def until_dot_append wire_label_fold length_wire_label Let_def)
qed

lemma encode_qname_labels:
  "list_all label_ok ls \<Longrightarrow> length (wire_name ls) \<le> n \<Longrightarrow> encode_qname (split_dots ls) n = Some (wire_name ls)"
  by (simp add: encode_qname_def wire_name_def qname_loop_labels)

lemma low_label: "k \<le> 63 \<Longrightarrow> 0 < k \<Longrightarrow> (of_nat k :: u8) \<noteq> 0 \<and> (of_nat k :: u8) AND 0xc0 \<noteq> 0xc0 \<and> \<not> (of_nat k :: u8) > 63 \<and> unat (of_nat k :: u8) = k"
proof -
  assume k: "k \<le> 63" "0 < k"
  have u: "unat (of_nat k :: u8) = k" using k by (simp add: unat_of_nat)
  have "of_nat k AND 0xc0 \<noteq> (0xc0 :: u8)"
  proof
    assume a: "of_nat k AND 0xc0 = (0xc0 :: u8)"
    have "(0xc0 :: u8) \<le> of_nat k" by (subst a [symmetric]) (rule word_and_le2)
    then show False using k u by (simp add: word_le_nat_alt)
  qed
  then show ?thesis using k u by (auto simp: word_less_nat_alt unat_eq_0 [symmetric])
qed

lemma skip_wire_labels:
  "list_all label_ok ls \<Longrightarrow>
   skip_name (pre @ concat (map wire_label ls) @ post) (length pre) = skip_name (pre @ concat (map wire_label ls) @ post) (length pre + length (concat (map wire_label ls)))"
proof (induction ls arbitrary: pre)
  case (Cons l ls)
  let ?m = "pre @ concat (map wire_label (l # ls)) @ post"
  have l: "0 < length l" "length l \<le> 63" using Cons.prems by (auto simp: label_ok_def)
  have "?m ! length pre = of_nat (length l)" by (simp add: wire_label_def)
  then have "skip_name ?m (length pre) = skip_name ?m (length (pre @ wire_label l))"
    using low_label [OF l(2,1)] by (subst skip_name.simps) (simp add: Let_def wire_label_def)
  also have "\<dots> = skip_name ((pre @ wire_label l) @ concat (map wire_label ls) @ post) (length (pre @ wire_label l) + length (concat (map wire_label ls)))"
    using Cons.IH [of "pre @ wire_label l"] Cons.prems by simp
  finally show ?case by (simp add: add.assoc)
qed simp

text \<open>A name in a packet: labels, then either the root or a two-byte compression pointer.\<close>

definition packet_name :: "bytes \<Rightarrow> bool" where
  "packet_name nm \<longleftrightarrow> (\<exists>ls. list_all label_ok ls \<and>
     (nm = wire_name ls \<or> (\<exists>a b. nm = concat (map wire_label ls) @ [a, b] \<and> a AND 0xc0 = 0xc0)))"

lemma skip_packet_name:
  assumes "packet_name nm"
  shows "skip_name (pre @ nm @ post) (length pre) = Some (length pre + length nm)"
proof -
  obtain ls t where ls: "list_all label_ok ls" "nm = concat (map wire_label ls) @ t" "t = [0] \<or> (\<exists>a b. t = [a, b] \<and> a AND 0xc0 = 0xc0)"
    using assms unfolding packet_name_def wire_name_def by blast
  let ?c = "concat (map wire_label ls)"
  have at: "(pre @ ?c @ t @ post) ! (length pre + length ?c) = hd t" using ls(3) by (auto simp: nth_append)
  have "skip_name (pre @ ?c @ t @ post) (length pre) = skip_name (pre @ ?c @ t @ post) (length pre + length ?c)"
    by (rule skip_wire_labels [OF ls(1)])
  also have "\<dots> = Some (length pre + length ?c + length t)"
    using ls(3) at by (subst skip_name.simps) (auto simp: Let_def)
  finally show ?thesis by (simp add: ls(2))
qed

section \<open>Replies as they are sent\<close>

definition be2 :: "nat \<Rightarrow> bytes" where
  "be2 n = [of_nat (n div 256), of_nat (n mod 256)]"

lemma be16_at: "n < 65536 \<Longrightarrow> be16 (pre @ be2 n @ post) (length pre) = n"
  by (simp add: be16_def be2_def nth_append unat_of_nat)

record dns_rr =
  rr_name :: bytes
  rr_type :: nat
  rr_meta :: bytes
  rr_data :: bytes

text \<open>A resource record: its name, type, class and time to live (\<open>rr_meta\<close>), and data.\<close>

definition enc_rr :: "dns_rr \<Rightarrow> bytes" where
  "enc_rr rr = rr_name rr @ be2 (rr_type rr) @ rr_meta rr @ be2 (length (rr_data rr)) @ rr_data rr"

definition rr_ok :: "dns_rr \<Rightarrow> bool" where
  "rr_ok rr \<longleftrightarrow> packet_name (rr_name rr) \<and> rr_type rr < 65536 \<and> length (rr_meta rr) = 6 \<and> length (rr_data rr) < 65536"

definition is_a :: "dns_rr \<Rightarrow> bool" where
  "is_a rr \<longleftrightarrow> rr_type rr = 1 \<and> length (rr_data rr) = 4"

lemma length_be2 [simp]: "length (be2 n) = 2"
  by (simp add: be2_def)

lemma find_a_records:
  "list_all rr_ok rrs \<Longrightarrow>
   find_a h (pre @ concat (map enc_rr rrs) @ post) (length rrs) (length pre) =
     (case find is_a rrs of Some rr \<Rightarrow> Inr (rr_data rr) | None \<Rightarrow> Inl (''dns answer for '' @ h @ '' carried no A record''))"
proof (induction rrs arbitrary: pre)
  case (Cons rr rrs)
  have ok: "packet_name (rr_name rr)" "rr_type rr < 65536" "length (rr_meta rr) = 6" "length (rr_data rr) < 65536"
    using Cons.prems by (simp_all add: rr_ok_def)
  let ?m = "pre @ concat (map enc_rr (rr # rrs)) @ post"
  let ?o = "length pre + length (rr_name rr)"
  have s: "skip_name ?m (length pre) = Some ?o"
    using skip_packet_name [OF ok(1), of pre] by (simp add: enc_rr_def)
  have t: "be16 ?m ?o = rr_type rr"
    using be16_at [OF ok(2), of "pre @ rr_name rr"] by (simp add: enc_rr_def)
  have l: "be16 ?m (?o + 8) = length (rr_data rr)"
    using be16_at [OF ok(4), of "pre @ rr_name rr @ be2 (rr_type rr) @ rr_meta rr"] ok(3) by (simp add: enc_rr_def add.assoc)
  have n: "length ?m \<ge> ?o + 10 + length (rr_data rr)" using ok(3) by (simp add: enc_rr_def)
  have d: "take 4 (drop (?o + 10) ?m) = rr_data rr" if "length (rr_data rr) = 4"
    using that ok(3) by (simp add: enc_rr_def)
  have next_off: "?o + 10 + length (rr_data rr) = length (pre @ enc_rr rr)" using ok(3) by (simp add: enc_rr_def)
  have "find_a h ?m (length (rr # rrs)) (length pre) =
    (if is_a rr then Inr (rr_data rr) else find_a h ?m (length rrs) (length (pre @ enc_rr rr)))"
    using s t l n d next_off by (simp add: is_a_def Let_def del: length_append)
  then show ?case using Cons.IH [of "pre @ enc_rr rr"] Cons.prems by simp
qed simp

definition enc_question :: "bytes \<times> bytes \<Rightarrow> bytes" where
  "enc_question qm = fst qm @ snd qm"

definition question_ok :: "bytes \<times> bytes \<Rightarrow> bool" where
  "question_ok qm \<longleftrightarrow> packet_name (fst qm) \<and> length (snd qm) = 4"

lemma skip_questions_wire:
  "list_all question_ok qs \<Longrightarrow>
   skip_questions (pre @ concat (map enc_question qs) @ post) (length qs) (length pre) = Some (length (pre @ concat (map enc_question qs)))"
proof (induction qs arbitrary: pre)
  case (Cons qm qs)
  let ?m = "pre @ concat (map enc_question (qm # qs)) @ post"
  have ok: "packet_name (fst qm)" "length (snd qm) = 4" using Cons.prems by (simp_all add: question_ok_def)
  have "skip_name ?m (length pre) = Some (length pre + length (fst qm))"
    using skip_packet_name [OF ok(1), of pre] by (simp add: enc_question_def)
  moreover have "length pre + length (fst qm) + 4 = length (pre @ enc_question qm)" "\<not> length pre + length (fst qm) + 4 > length ?m"
    using ok(2) by (simp_all add: enc_question_def)
  ultimately have "skip_questions ?m (length (qm # qs)) (length pre) = skip_questions ?m (length qs) (length (pre @ enc_question qm))"
    by (simp del: length_append)
  also have "\<dots> = Some (length ((pre @ enc_question qm) @ concat (map enc_question qs)))"
    using Cons.IH [of "pre @ enc_question qm"] Cons.prems by simp
  finally show ?case by simp
qed simp

text \<open>A successful reply: id, flags with return code 0, the two counts, and the sections.\<close>

definition enc_reply :: "u16 \<Rightarrow> u8 \<Rightarrow> u8 \<Rightarrow> bytes \<Rightarrow> (bytes \<times> bytes) list \<Rightarrow> dns_rr list \<Rightarrow> bytes \<Rightarrow> bytes" where
  "enc_reply i f1 f2 counts qs rrs extra =
     be2 (unat i) @ [f1, f2] @ be2 (length qs) @ be2 (length rrs) @ counts @
     concat (map enc_question qs) @ concat (map enc_rr rrs) @ extra"

lemma parse_reply_enc:
  assumes "f2 AND 0x0f = 0" "length counts = 4" "length qs < 65536" "length rrs < 65536" "rrs \<noteq> []"
    and "list_all question_ok qs" "list_all rr_ok rrs"
  shows "parse_reply server h i (enc_reply i f1 f2 counts qs rrs extra) =
     (case find is_a rrs of Some rr \<Rightarrow> Inr (rr_data rr) | None \<Rightarrow> Inl (''dns answer for '' @ h @ '' carried no A record''))"
proof -
  let ?r = "enc_reply i f1 f2 counts qs rrs extra" and ?q = "concat (map enc_question qs)"
  define hdr where "hdr = be2 (unat i) @ [f1, f2] @ be2 (length qs) @ be2 (length rrs) @ counts"
  have r: "?r = hdr @ ?q @ concat (map enc_rr rrs) @ extra" by (simp add: enc_reply_def hdr_def)
  have h12: "length hdr = 12" using assms(2) by (simp add: hdr_def)
  have i: "be16 ?r 0 = unat i" using be16_at [of "unat i" "[]"] unsigned_less [of i] by (simp add: enc_reply_def)
  have "?r ! 3 = f2" by (simp add: enc_reply_def be2_def)
  then have rc: "?r ! 3 AND 0x0f = 0" using assms(1) by simp
  have qd: "be16 ?r 4 = length qs" using be16_at [OF assms(3), of "be2 (unat i) @ [f1, f2]"] by (simp add: enc_reply_def numeral_eq_Suc)
  have an: "be16 ?r 6 = length rrs" using be16_at [OF assms(4), of "be2 (unat i) @ [f1, f2] @ be2 (length qs)"] by (simp add: enc_reply_def numeral_eq_Suc)
  have sq: "skip_questions ?r (length qs) 12 = Some (length (hdr @ ?q))"
    using skip_questions_wire [OF assms(6), of hdr "concat (map enc_rr rrs) @ extra"] by (simp add: r h12)
  have "find_a h ?r (length rrs) (length (hdr @ ?q)) =
     (case find is_a rrs of Some rr \<Rightarrow> Inr (rr_data rr) | None \<Rightarrow> Inl (''dns answer for '' @ h @ '' carried no A record''))"
    using find_a_records [OF assms(7), of h "hdr @ ?q" extra] by (simp add: r)
  moreover have "\<not> length ?r < 12" by (simp add: r h12)
  ultimately show ?thesis using i rc qd an sq assms(5) by (simp add: parse_reply_def Let_def)
qed

section \<open>The resolver\<close>

lemma find_a_length: "find_a h r k off = Inr a \<Longrightarrow> length a = 4"
  by (induction h r k off rule: find_a.induct) (auto simp: Let_def split: option.splits if_splits)

lemma query_one_address: "query_one e s h i = Inr a \<Longrightarrow> inet_pton a \<noteq> None \<and> length a < 16"
  unfolding query_one_def parse_reply_def
  by (auto simp: Let_def inet_pton_ntop length_inet_ntop dest!: find_a_length split: option.splits udp_res.splits sum.splits if_splits)

lemma ask_all_address: "ask_all e h i l ns = Inr a \<Longrightarrow> inet_pton a \<noteq> None \<and> length a < 16"
  by (induction e h i l ns rule: ask_all.induct) (auto split: sum.splits dest: query_one_address)

lemma ns_loop_valid: "t \<in> set (ns_loop n f) \<Longrightarrow> inet_pton t \<noteq> None"
proof (induction n f rule: ns_loop.induct)
  case (1 n f)
  then show ?case
    by (subst (asm) (3) ns_loop.simps) (auto simp: Let_def ns_of_line_def split: if_splits option.splits)
qed

lemma length_ns_loop: "n \<le> MAX_NS \<Longrightarrow> length (ns_loop n f) \<le> MAX_NS - n"
proof (induction n f rule: ns_loop.induct)
  case (1 n f)
  then show ?case
    by (subst ns_loop.simps) (fastforce simp: Let_def split: option.splits)
qed

lemma load_nameservers_ok:
  "load_nameservers f \<noteq> [] \<and> length (load_nameservers f) \<le> MAX_NS \<and> (\<forall>t \<in> set (load_nameservers f). inet_pton t \<noteq> None)"
proof -
  have "inet_pton ''1.1.1.1'' \<noteq> None" "inet_pton ''8.8.8.8'' \<noteq> None" by code_simp+
  then show ?thesis using length_ns_loop [of 0] ns_loop_valid
    by (auto simp: load_nameservers_def Let_def MAX_NS_def split: option.splits)
qed

section \<open>Properties\<close>

text \<open>
  the query is well formed.  For every host made of labels of one to 63 characters whose wire form fits, the
  packet is the standard one: the id, recursion desired, one question, the labels with their lengths, type A and class
  IN; and the resolver's own name skipper steps exactly over its question.
\<close>

theorem dns_query_correct:
  assumes "list_all label_ok ls" "length (wire_name ls) \<le> 1484"
  shows "\<exists>q. dns_query (split_dots ls) i = Some q \<and> be16 q 0 = unat i \<and> take 10 (drop 2 q) = [1, 0, 0, 1, 0, 0, 0, 0, 0, 0] \<and>
     drop 12 q = wire_name ls @ [0, 1, 0, 1] \<and> skip_questions q 1 12 = Some (length q) \<and> length q \<le> DNS_BUF"
proof -
  define hdr where "hdr = ([ucast (drop_bit 8 i), ucast (i AND 0xff), 0x01, 0x00, 0x00, 0x01, 0, 0, 0, 0, 0, 0] :: bytes)"
  define q where "q = hdr @ wire_name ls @ [0, 1, 0, 1]"
  have l: "length hdr = 12" by (simp add: hdr_def)
  have q: "dns_query (split_dots ls) i = Some q"
    using encode_qname_labels [OF assms] by (simp add: dns_query_def DNS_BUF_def q_def hdr_def)
  have ok: "list_all question_ok [(wire_name ls, [0, 1, 0, 1])]" using assms(1) by (auto simp: packet_name_def question_ok_def)
  have "skip_questions q 1 12 = Some (length q)"
    using skip_questions_wire [OF ok, of hdr "[]"] by (simp add: l q_def enc_question_def del: skip_questions.simps)
  moreover have "unat (ucast (drop_bit 8 i) :: u8) * 256 + unat (ucast (i AND 0xff) :: u8) = unat i"
  proof -
    have "unat i < 2 ^ 16" using unsigned_less [of i] by simp
    then have "unat (ucast (drop_bit 8 i) :: u8) = unat i div 256" by (simp add: unat_ucast_drop_u8)
    moreover have "unat (ucast (i AND 0xff) :: u8) = unat i mod 256" by (simp add: unsigned_ucast_eq unat_and_ff take_bit_eq_mod)
    ultimately show ?thesis by (simp only: div_mult_mod_eq)
  qed
  then have "be16 q 0 = unat i" by (simp add: be16_def q_def hdr_def)
  moreover have "take 10 (drop 2 q) = [1, 0, 0, 1, 0, 0, 0, 0, 0, 0]" by (simp add: q_def hdr_def)
  moreover have "drop 12 q = wire_name ls @ [0, 1, 0, 1]" "length q \<le> DNS_BUF" using assms(2) by (simp_all add: q_def l DNS_BUF_def)
  ultimately show ?thesis using q by blast
qed

text \<open>
  the first address wins.  For every well-formed successful reply, any number of questions and
  records, names compressed or not, aliases before the address, and anything after the answers: the parser returns
  the data of the first address record of the answer section, and reports failure when there is none.
\<close>

theorem dns_reply_correct:
  assumes "f2 AND 0x0f = 0" "length counts = 4" "length qs < 65536" "length rrs < 65536" "rrs \<noteq> []"
    and "list_all question_ok qs" "list_all rr_ok rrs"
  shows "parse_reply server h i (enc_reply i f1 f2 counts qs rrs extra) =
     (case find is_a rrs of Some rr \<Rightarrow> Inr (rr_data rr) | None \<Rightarrow> Inl (''dns answer for '' @ h @ '' carried no A record''))"
  using assms by (rule parse_reply_enc)

text \<open>
  C37: whatever the configuration file and the network hold, the resolver asks one to four servers whose
  addresses are valid, and what it returns is a dotted quad that fits the 16-byte field: the
  connection attempt that follows cannot fail on the address.
\<close>

theorem resolver_returns_address:
  "(\<forall>a. dns_resolve_a e h = Inr a \<longrightarrow> inet_pton a \<noteq> None \<and> length a < 16) \<and>
   (let ns = load_nameservers (resolv_conf e) in ns \<noteq> [] \<and> length ns \<le> MAX_NS \<and> list_all (\<lambda>t. inet_pton t \<noteq> None) ns)"
proof -
  have "snprintf_s 16 h = h" if "inet_pton h \<noteq> None" using that inet_pton_length [of h] by (auto simp: snprintf_s_def)
  then have "dns_resolve_a e h = Inr a \<Longrightarrow> inet_pton a \<noteq> None \<and> length a < 16" for a
    using ask_all_address inet_pton_length by (fastforce simp: dns_resolve_a_def split: if_splits)
  then show ?thesis using load_nameservers_ok [of "resolv_conf e"] by (simp add: Let_def list_all_iff)
qed

definition example_rr :: dns_rr where
  "example_rr = \<lparr>rr_name = [0xc0, 12], rr_type = 1, rr_meta = [0, 1, 0, 0, 0, 60], rr_data = [10, 1, 2, 3]\<rparr>"

definition example_alias :: dns_rr where
  "example_alias = example_rr\<lparr>rr_type := 5, rr_data := [1, 65, 0]\<rparr>"

theorem dns_query_correct_witness:
  "\<exists>q. dns_query ''pool.example'' 7 = Some q \<and> length q \<le> DNS_BUF"
  using dns_query_correct [of "[''pool'', ''example'']" 7] by (auto simp: label_ok_def wire_name_def wire_label_def)

theorem dns_reply_correct_witness:
  "parse_reply ''1.1.1.1'' ''pool'' 7 (enc_reply 7 0x81 0x80 [0, 0, 0, 0] [(wire_name [''pool''], [0, 1, 0, 1])] [example_alias, example_rr] []) =
     Inr [10, 1, 2, 3]"
proof -
  have "packet_name (wire_name [''pool''])"
    unfolding packet_name_def by (rule exI [of _ "[''pool'']"]) (simp add: label_ok_def)
  moreover have "packet_name [0xc0, 12]"
    unfolding packet_name_def by (rule exI [of _ "[]"]) simp
  ultimately show ?thesis
    using dns_reply_correct [of "0x80" "[0, 0, 0, 0]" "[(wire_name [''pool''], [0, 1, 0, 1])]" "[example_alias, example_rr]" "''1.1.1.1''" "''pool''" 7 "0x81" "[]"]
    by (simp add: question_ok_def rr_ok_def is_a_def example_alias_def example_rr_def)
qed

theorem resolver_returns_address_witness:
  "inet_pton ''10.0.0.7'' \<noteq> None \<and> length ''10.0.0.7'' < 16"
proof -
  let ?e = "\<lparr>udp = (\<lambda>_ _. Udp_reply []), resolv_conf = None, dns_id = 1, dns_strerror = (\<lambda>_. [])\<rparr>"
  have "dns_resolve_a ?e ''10.0.0.7'' = Inr ''10.0.0.7''" by code_simp
  then show ?thesis using resolver_returns_address [of ?e "''10.0.0.7''"] by blast
qed

end
