(* ===== verification/Rpc.thy ===== *)
theory Rpc
  imports Dns
begin

text \<open>
  The JSON-RPC client of \<^verbatim>\<open>src/miner/miner.c\<close>: \<^verbatim>\<open>b64\<close>, \<^verbatim>\<open>rpc_call\<close>, the string scanners \<^verbatim>\<open>json_num\<close> and \<^verbatim>\<open>json_str\<close>,
  and the two hexadecimal readers built on \<^verbatim>\<open>sscanf\<close>.  A pointer into a text is the rest of the memory from there on; the
  text ends at the first NUL, and the static reply buffer holds what an earlier, longer reply left behind it.  What the
  C library leaves open is a parameter: the value read from ``0x'' by \<^verbatim>\<open>%2x\<close> and the width of \<^verbatim>\<open>unsigned long\<close>.
\<close>

unbundle bit_operations_syntax

section \<open>The C string functions\<close>

fun strstr :: "string \<Rightarrow> string \<Rightarrow> string option" where
  "strstr pat [] = None"
| "strstr pat (c # cs) =
     (if take (length pat) (c # cs) = pat then Some (c # cs)
      else if c = CHR 0x00 then None else strstr pat cs)"

fun strchr :: "char \<Rightarrow> string \<Rightarrow> string option" where
  "strchr x [] = None"
| "strchr x (c # cs) = (if c = x then Some (c # cs) else if c = CHR 0x00 then None else strchr x cs)"

definition strtoll :: "string \<Rightarrow> int" where
  "strtoll p =
     (let (neg, q) = sign_of (dropWhile c_isspace p); n = int (digits_val 10 (takeWhile is_digit q))
      in if neg then max (- n) (- (2 ^ 63)) else min n (2 ^ 63 - 1))"

record libc =
  zero_x :: "u8 option"
  long_bits :: nat

definition strtoul16 :: "libc \<Rightarrow> string \<Rightarrow> nat" where
  "strtoul16 lc p =
     (let (neg, q) = sign_of (dropWhile c_isspace p);
          q = (if ci_prefix ''0x'' ''0X'' q \<and> takeWhile is_xdigit (drop 2 q) \<noteq> [] then drop 2 q else q);
          n = digits_val 16 (takeWhile is_xdigit q)
      in if n \<ge> 2 ^ long_bits lc then 2 ^ long_bits lc - 1
         else if neg then (2 ^ long_bits lc - n) mod 2 ^ long_bits lc else n)"

text \<open>One conversion \<^verbatim>\<open>%2x\<close>: white space is skipped, a sign counts as one of the two characters.\<close>

definition scan2x :: "libc \<Rightarrow> string \<Rightarrow> u8 option" where
  "scan2x lc p =
     (let p = dropWhile c_isspace p; (neg, q) = sign_of p; w = 2 - (length p - length q);
          ds = takeWhile is_xdigit (take w q); v = int (digits_val 16 ds)
      in if w = 2 \<and> ci_prefix ''0x'' ''0X'' q then zero_x lc
         else if ds = [] then None
         else Some (word_of_int (if neg then - v else v)))"

section \<open>Reading a reply\<close>

definition quoted :: "string \<Rightarrow> string" where
  "quoted key = CHR 0x22 # key @ [CHR 0x22]"

definition json_num :: "string \<Rightarrow> string \<Rightarrow> int option" where
  "json_num s key =
     (case strstr (quoted key) s of
        None \<Rightarrow> None
      | Some p \<Rightarrow> (case strchr CHR '':'' (drop (length (quoted key)) p) of
                     None \<Rightarrow> None
                   | Some p \<Rightarrow> Some (strtoll (tl p))))"

definition json_str :: "string \<Rightarrow> string \<Rightarrow> nat \<Rightarrow> string option" where
  "json_str s key outsz =
     (case strstr (quoted key) s of
        None \<Rightarrow> None
      | Some p \<Rightarrow> (case strchr CHR '':'' (drop (length (quoted key)) p) of
          None \<Rightarrow> None
        | Some p \<Rightarrow> (case strchr CHR 0x22 p of
            None \<Rightarrow> None
          | Some p \<Rightarrow> (case strchr CHR 0x22 (tl p) of
              None \<Rightarrow> None
            | Some e \<Rightarrow> let n = length (tl p) - length e in
                if n \<ge> outsz then None else Some (take n (tl p))))))"

fun hex2bin_n :: "libc \<Rightarrow> string \<Rightarrow> nat \<Rightarrow> bytes option" where
  "hex2bin_n lc p 0 = Some []"
| "hex2bin_n lc p (Suc n) =
     (case scan2x lc p of None \<Rightarrow> None | Some b \<Rightarrow> map_option (\<lambda>bs. b # bs) (hex2bin_n lc (drop 2 p) n))"

definition hex2bin_rpc :: "libc \<Rightarrow> string \<Rightarrow> nat \<Rightarrow> bytes option" where
  "hex2bin_rpc lc s outlen = (if length s \<noteq> outlen * 2 then None else hex2bin_n lc s outlen)"

section \<open>The request\<close>

definition B64 :: string where
  "B64 = ''ABCDEFGHIJKLMNOPQRSTUVWXYZabcdefghijklmnopqrstuvwxyz0123456789+/''"

fun b64_loop :: "nat \<Rightarrow> string \<Rightarrow> string \<Rightarrow> string" where
  "b64_loop outsz [] out = out"
| "b64_loop outsz (a # r) out =
     (if length out + 4 < outsz then
        let v = push_bit 16 (of_nat (ch a)) :: u32;
            v = (case r of [] \<Rightarrow> v | b # _ \<Rightarrow> v OR push_bit 8 (of_nat (ch b)));
            v = (case r of _ # c # _ \<Rightarrow> v OR of_nat (ch c) | _ \<Rightarrow> v);
            d = (\<lambda>k. B64 ! unat (drop_bit k v AND 63));
            out = out @ [d 18, d 12, if r = [] then CHR ''='' else d 6, case r of _ # _ # _ \<Rightarrow> d 0 | _ \<Rightarrow> CHR ''='']
        in b64_loop outsz (drop 2 r) out
      else out)"

definition b64 :: "string \<Rightarrow> nat \<Rightarrow> string" where
  "b64 s outsz = b64_loop outsz s []"

record rpc_config =
  rpc_host :: string
  rpc_user :: "string option"
  rpc_pass :: "string option"

definition CRLF :: string where "CRLF = [CHR 0x0D, CHR 0x0A]"

definition rpc_head :: "rpc_config \<Rightarrow> string \<Rightarrow> string" where
  "rpc_head cfg body =
     (let auth = snprintf_s 256 ((case rpc_user cfg of Some t \<Rightarrow> t | None \<Rightarrow> []) @ '':'' @ (case rpc_pass cfg of Some t \<Rightarrow> t | None \<Rightarrow> []))
      in ''POST / HTTP/1.1'' @ CRLF @ ''Host: '' @ rpc_host cfg @ CRLF @ ''Authorization: Basic '' @ b64 auth 512 @ CRLF @
         ''Content-Type: text/plain'' @ CRLF @ ''Content-Length: '' @ dec (length body) @ CRLF @ ''Connection: close'' @ CRLF @ CRLF)"

text \<open>
  What the network does during one call: whether each step succeeds, how many of the given number of bytes each \<^verbatim>\<open>write\<close> takes (\<open>None\<close>: it fails), and the
  chunks read until the end.
\<close>

record rpc_net =
  net_socket :: bool
  net_connect :: bool
  net_write_head :: "nat \<Rightarrow> nat option"
  net_write_body :: "nat \<Rightarrow> nat option"
  net_chunks :: "string list"

definition RESP_SIZE :: nat where "RESP_SIZE = 4 * 1024 * 1024"

fun read_loop :: "string list \<Rightarrow> string \<Rightarrow> string \<times> bool" where
  "read_loop [] got = (got, False)"
| "read_loop (c # cs) got =
     (if c = [] then (got, False)
      else let got = got @ take (RESP_SIZE - length got - 1) c in
      if length got \<ge> RESP_SIZE - 1 then (got, True) else read_loop cs got)"

record rpc_state =
  resp :: string
  posted :: "string list"
  rpc_error :: string

text \<open>
  \<open>None\<close> is the null pointer; otherwise the reply is the buffer.  \<open>posted\<close> records what was written; the code takes a short write for a whole one.
\<close>

definition rpc_call :: "rpc_config \<Rightarrow> rpc_net \<Rightarrow> string \<Rightarrow> rpc_state \<Rightarrow> string option \<times> rpc_state" where
  "rpc_call cfg net body st =
     (if inet_pton (rpc_host cfg) = None then
        (None, st\<lparr>rpc_error := snprintf_s 192 (''--rpc-host must be a numeric IPv4 address, got '' @ [CHR 0x27] @ rpc_host cfg @ [CHR 0x27])\<rparr>)
      else if \<not> net_socket net \<or> \<not> net_connect net then (None, st)
      else (case net_write_head net (length (rpc_head cfg body)) of
              None \<Rightarrow> (None, st)
            | Some k \<Rightarrow>
                (case net_write_body net (length body) of
                   None \<Rightarrow> (None, st\<lparr>posted := posted st @ [take k (rpc_head cfg body)]\<rparr>)
                 | Some j \<Rightarrow>
                     let st = st\<lparr>posted := posted st @ [take k (rpc_head cfg body) @ take j body]\<rparr>;
                         (got, truncated) = read_loop (net_chunks net) [];
                         mem = got @ CHR 0x00 # drop (length got + 1) (resp st);
                         st = st\<lparr>resp := mem\<rparr>;
                         st = (if truncated then st\<lparr>rpc_error := snprintf_s 192 (''RPC response hit the '' @ dec RESP_SIZE @ ''-byte buffer and was truncated'')\<rparr> else st)
                     in (Some mem, st))))"

section \<open>Finding a key\<close>

text \<open>\<open>lacks q x\<close>: \<open>q\<close> occurs nowhere in \<open>x\<close>.\<close>

fun lacks :: "string \<Rightarrow> string \<Rightarrow> bool" where
  "lacks q [] = True"
| "lacks q (c # cs) = (take (length q) (c # cs) \<noteq> q \<and> lacks q cs)"

text \<open>A search string whose first character does not come again in its distinguishing beginning \<open>q\<close>.\<close>

definition lead :: "string \<Rightarrow> string \<Rightarrow> bool" where
  "lead q pat \<longleftrightarrow> q \<noteq> [] \<and> hd q \<notin> set (tl q) \<and> take (length q) pat = q \<and> CHR 0x00 \<notin> set q"

lemma no_start:
  assumes "q \<noteq> []" "hd q \<notin> set (tl q)" "z = [] \<or> hd z = hd q" "y \<noteq> []" "take (length q) y \<noteq> q"
  shows "take (length q) (y @ z) \<noteq> q"
proof
  assume t: "take (length q) (y @ z) = q"
  show False
  proof (cases "length q \<le> length y")
    case True
    then show False using t assms(5) by simp
  next
    case False
    then have q: "q = y @ take (length q - length y) z" using t by simp
    have z: "z \<noteq> []" using t assms(5) by auto
    obtain n where "length q - length y = Suc n" using False by (metis Suc_diff_Suc not_le)
    then have "q = y @ hd q # take n (tl z)" using q z assms(3) by (cases z) simp_all
    then have "hd q \<in> set (tl q)" using assms(4) by (metis in_set_conv_decomp tl_append2)
    then show False using assms(2) by simp
  qed
qed

lemma lacks_append:
  assumes "q \<noteq> []" "hd q \<notin> set (tl q)" "z = [] \<or> hd z = hd q" "lacks q x"
  shows "lacks q (x @ z) = lacks q z"
  using assms(4)
proof (induction x)
  case (Cons c x)
  then have "take (length q) ((c # x) @ z) \<noteq> q" by (intro no_start assms) simp_all
  then show ?case using Cons by simp
qed simp

lemma take_lead: "lead q pat \<Longrightarrow> take (length pat) x = pat \<Longrightarrow> take (length q) x = q"
  by (metis lead_def min_def nat_le_linear take_all take_take)

lemma strstr_skip:
  assumes "lead q pat" "lacks q x" "CHR 0x00 \<notin> set x" "z = [] \<or> hd z = hd q"
  shows "strstr pat (x @ z) = strstr pat z"
  using assms(2,3)
proof (induction x)
  case (Cons c x)
  have "take (length q) ((c # x) @ z) \<noteq> q"
    using Cons.prems(1) assms(1,4) by (intro no_start) (simp_all add: lead_def)
  then have "take (length pat) ((c # x) @ z) \<noteq> pat" using take_lead [OF assms(1)] by blast
  then show ?case using Cons by auto
qed simp

lemma strstr_here: "x \<noteq> [] \<Longrightarrow> take (length pat) x = pat \<Longrightarrow> strstr pat x = Some x"
  by (cases x) simp_all

lemma strstr_found:
  assumes "lead q pat" "lacks q x" "CHR 0x00 \<notin> set x"
  shows "strstr pat (x @ pat @ z) = Some (pat @ z)"
proof -
  have "pat \<noteq> []" "hd pat = hd q" using assms(1) hd_take [of "length q" pat] by (auto simp: lead_def)
  then show ?thesis using strstr_skip [OF assms, of "pat @ z"] strstr_here [of "pat @ z" pat] by simp
qed

lemma strstr_absent:
  assumes "lead q pat" "lacks q x" "CHR 0x00 \<notin> set x"
  shows "strstr pat (x @ CHR 0x00 # z) = None"
  using assms(2,3)
proof (induction x)
  case Nil
  have "hd pat \<noteq> CHR 0x00" "pat \<noteq> []" using assms(1) by (auto simp: lead_def) (metis hd_in_set hd_take length_greater_0_conv)
  then show ?case by (cases pat) auto
next
  case (Cons c x)
  have "take (length q) ((c # x) @ CHR 0x00 # z) \<noteq> q"
  proof
    assume t: "take (length q) ((c # x) @ CHR 0x00 # z) = q"
    have "CHR 0x00 \<notin> set q" using assms(1) by (simp add: lead_def)
    then have "length q \<le> length (c # x)"
      using t by (metis in_set_conv_decomp linorder_not_less take_append take_all nat_less_le append_Cons take_Suc_Cons Suc_diff_Suc zero_less_diff)
    then show False using t Cons.prems(1) by (metis lacks.simps(2) append_Nil2 take_append diff_is_0_eq take0)
  qed
  then show ?case using Cons take_lead [OF assms(1)] by fastforce
qed

lemma strchr_found: "x \<notin> set y \<Longrightarrow> CHR 0x00 \<notin> set y \<Longrightarrow> strchr x (y @ x # z) = Some (x # z)"
  by (induction y) auto

section \<open>Fields of a reply\<close>

text \<open>
  A reply holds a number, or a string, under a key when the key's first appearance, in quotes, is followed by a colon and
  the value.
\<close>

definition num_field :: "string \<Rightarrow> string \<Rightarrow> nat \<Rightarrow> bool" where
  "num_field s key n \<longleftrightarrow> (\<exists>x sep post. s = x @ quoted key @ CHR '':'' # sep @ dec n @ post \<and> lacks (CHR 0x22 # key) x \<and>
     CHR 0x00 \<notin> set x \<and> list_all c_isspace sep \<and> (post = [] \<or> \<not> is_digit (hd post)))"

definition str_field :: "string \<Rightarrow> string \<Rightarrow> string \<Rightarrow> bool" where
  "str_field s key v \<longleftrightarrow> (\<exists>x sep post. s = x @ quoted key @ CHR '':'' # sep @ CHR 0x22 # v @ CHR 0x22 # post \<and>
     lacks (CHR 0x22 # key) x \<and> CHR 0x00 \<notin> set (x @ v) \<and> list_all c_isspace sep \<and> CHR 0x22 \<notin> set v)"

definition key_ok :: "string \<Rightarrow> bool" where
  "key_ok key \<longleftrightarrow> CHR 0x22 \<notin> set key \<and> CHR 0x00 \<notin> set key"

lemma strstr_key:
  assumes "key_ok key" "lacks (CHR 0x22 # key) x" "CHR 0x00 \<notin> set x"
  shows "strstr (quoted key) (x @ quoted key @ z) = Some (quoted key @ z)"
  using assms by (intro strstr_found [of "CHR 0x22 # key"]) (auto simp: lead_def key_ok_def quoted_def)

lemma strtoll_dec:
  assumes "list_all c_isspace sep" "post = [] \<or> \<not> is_digit (hd post)" "n < 2 ^ 63"
  shows "strtoll (sep @ dec n @ post) = int n"
proof -
  obtain c cs where d: "dec n = c # cs" using dec_nonempty [of n] by (cases "dec n") auto
  then have c: "is_digit c" using dec_digits [of n] by simp
  then have "\<not> c_isspace c" "c \<noteq> CHR ''-''" "c \<noteq> CHR ''+''"
    by (auto simp: is_digit_def c_isspace_def js_space_def)
  then have s: "sign_of (dropWhile c_isspace (sep @ dec n @ post)) = (False, dec n @ post)"
    using assms(1) d by (simp add: dropWhile_append list_all_iff sign_of_def)
  have "takeWhile is_digit (dec n @ post) = dec n"
    using dec_digits [of n] assms(2) by (simp add: takeWhile_append list_all_iff) (cases post; simp)
  then show ?thesis using s assms(3) by (simp add: strtoll_def)
qed

lemma json_num_field:
  assumes "num_field s key n" "key_ok key" "n < 2 ^ 63"
  shows "json_num s key = Some (int n)"
proof -
  obtain x sep post where s: "s = x @ quoted key @ CHR '':'' # sep @ dec n @ post" "lacks (CHR 0x22 # key) x"
    "CHR 0x00 \<notin> set x" "list_all c_isspace sep" "post = [] \<or> \<not> is_digit (hd post)"
    using assms(1) by (auto simp: num_field_def)
  show ?thesis
    using strstr_key [OF assms(2) s(2,3), of "CHR '':'' # sep @ dec n @ post"] strtoll_dec [OF s(4,5) assms(3)]
    by (simp add: json_num_def s(1))
qed

lemma json_str_field:
  assumes "str_field s key v" "key_ok key" "length v < outsz"
  shows "json_str s key outsz = Some v"
proof -
  obtain x sep post where s: "s = x @ quoted key @ CHR '':'' # sep @ CHR 0x22 # v @ CHR 0x22 # post" "lacks (CHR 0x22 # key) x"
    "CHR 0x00 \<notin> set (x @ v)" "list_all c_isspace sep" "CHR 0x22 \<notin> set v"
    using assms(1) unfolding str_field_def by (elim exE conjE) (rule that)
  have "\<not> c_isspace CHR 0x22" "\<not> c_isspace CHR 0x00" by (simp_all add: c_isspace_def js_space_def)
  then have sp: "CHR 0x22 \<notin> set sep" "CHR 0x00 \<notin> set sep" using s(4) by (metis list_all_iff)+
  have "strchr CHR 0x22 (CHR '':'' # sep @ CHR 0x22 # v @ CHR 0x22 # post) = Some (CHR 0x22 # v @ CHR 0x22 # post)"
    using strchr_found [of "CHR 0x22" "CHR '':'' # sep"] sp by simp
  moreover have "strchr CHR 0x22 (v @ CHR 0x22 # post) = Some (CHR 0x22 # post)"
    using strchr_found [of "CHR 0x22" v] s(3,5) by simp
  ultimately show ?thesis
    using strstr_key [OF assms(2) s(2), of "CHR '':'' # sep @ CHR 0x22 # v @ CHR 0x22 # post"] s(3) assms(3)
    by (simp add: json_str_def s(1))
qed

section \<open>Hexadecimal through \<open>sscanf\<close>\<close>

lemma hexdigit_scan: "k < 16 \<Longrightarrow> is_xdigit (HEXDIGITS ! k) \<and> \<not> c_isspace (HEXDIGITS ! k) \<and>
  HEXDIGITS ! k \<noteq> CHR ''-'' \<and> HEXDIGITS ! k \<noteq> CHR ''+'' \<and> HEXDIGITS ! k \<noteq> CHR ''x'' \<and> HEXDIGITS ! k \<noteq> CHR ''X'' \<and>
  HEXDIGITS ! k \<noteq> CHR 0x22 \<and> HEXDIGITS ! k \<noteq> CHR ''t'' \<and> HEXDIGITS ! k \<noteq> CHR 0x00"
proof -
  assume "k < 16"
  moreover have "\<forall>k \<in> {0..<16}. is_xdigit (HEXDIGITS ! k) \<and> \<not> c_isspace (HEXDIGITS ! k) \<and>
    HEXDIGITS ! k \<noteq> CHR ''-'' \<and> HEXDIGITS ! k \<noteq> CHR ''+'' \<and> HEXDIGITS ! k \<noteq> CHR ''x'' \<and> HEXDIGITS ! k \<noteq> CHR ''X'' \<and>
    HEXDIGITS ! k \<noteq> CHR 0x22 \<and> HEXDIGITS ! k \<noteq> CHR ''t'' \<and> HEXDIGITS ! k \<noteq> CHR 0x00" by code_simp
  ultimately show ?thesis by simp
qed

lemma scan2x_hex: "scan2x lc (bin2hex [b] @ z) = Some b"
proof -
  let ?a = "HEXDIGITS ! unat (drop_bit 4 b)" and ?c = "HEXDIGITS ! unat (b AND 15)"
  note a = hexdigit_scan [OF nibbles(1), of b] and c = hexdigit_scan [OF nibbles(2), of b]
  have v: "hexval ?a = int (unat (drop_bit 4 b))" "hexval ?c = int (unat (b AND 15))"
    using hexval_digit nibbles(1,2) by blast+
  have u: "unat (drop_bit 4 b) = unat b div 16" "unat (b AND 15) = unat b mod 16"
    using unat_drop_bit_div [of 4 b] unat_and_mask [of b 4] by (simp_all add: mask_eq_exp_minus_1)
  have "digits_val 16 [?a, ?c] = unat (drop_bit 4 b) * 16 + unat (b AND 15)" by (simp add: digits_val_def v)
  then have "digits_val 16 [?a, ?c] = unat b" by (simp only: u div_mult_mod_eq)
  moreover have "scan2x lc (bin2hex [b] @ z) = Some (word_of_int (int (digits_val 16 [?a, ?c])))"
    using a c by (simp add: scan2x_def bin2hex_def sign_of_def ci_prefix_def Let_def numeral_2_eq_2)
  ultimately show ?thesis by simp
qed

lemma hex2bin_n_hex: "hex2bin_n lc (bin2hex bs @ z) (length bs) = Some bs"
proof (induction bs)
  case (Cons b bs)
  have "bin2hex (b # bs) = bin2hex [b] @ bin2hex bs" by (simp add: bin2hex_def)
  then show ?case using Cons scan2x_hex [of lc b "bin2hex bs @ z"] by simp
qed simp

lemma bin2hex_chars: "x \<in> set (bin2hex bs) \<Longrightarrow> x \<noteq> CHR 0x22 \<and> x \<noteq> CHR ''t'' \<and> x \<noteq> CHR 0x00"
  using hexdigit_scan nibbles(1,2) by (auto simp: bin2hex_def)

lemma digits_val_hex: "digits_val 16 (bin2hex bs) = be_val bs"
proof (induction bs rule: rev_induct)
  case (snoc b bs)
  have u: "unat (drop_bit 4 b) = unat b div 16" "unat (b AND 15) = unat b mod 16"
    using unat_drop_bit_div [of 4 b] unat_and_mask [of b 4] by (simp_all add: mask_eq_exp_minus_1)
  have "digits_val 16 (bin2hex (bs @ [b])) = (be_val bs * 16 + unat (drop_bit 4 b)) * 16 + unat (b AND 15)"
    using snoc hexval_digit [OF nibbles(1), of b] hexval_digit [OF nibbles(2), of b]
    by (simp add: digits_val_def bin2hex_def)
  also have "\<dots> = be_val bs * 256 + (unat b div 16 * 16 + unat b mod 16)" by (simp only: u) simp
  finally show ?case by (simp only: be_val_snoc div_mult_mod_eq)
qed (simp add: digits_val_def bin2hex_def)

lemma strtoul16_hex:
  assumes "bs \<noteq> []" "be_val bs < 2 ^ long_bits lc"
  shows "strtoul16 lc (bin2hex bs) = be_val bs"
proof -
  obtain b cs where b: "bs = b # cs" using assms(1) by (cases bs) auto
  let ?a = "HEXDIGITS ! unat (drop_bit 4 b)" and ?c = "HEXDIGITS ! unat (b AND 15)"
  have h: "bin2hex bs = ?a # ?c # bin2hex cs" by (simp add: b bin2hex_def)
  note a = hexdigit_scan [OF nibbles(1), of b] and c = hexdigit_scan [OF nibbles(2), of b]
  have "\<forall>x \<in> set (bin2hex bs). is_xdigit x" using hexdigit_scan nibbles(1,2) by (auto simp: bin2hex_def)
  then have "takeWhile is_xdigit (bin2hex bs) = bin2hex bs" by (simp only: takeWhile_eq_all_conv)
  then have "digits_val 16 (takeWhile is_xdigit (bin2hex bs)) = be_val bs" by (simp only: digits_val_hex)
  moreover have "sign_of (dropWhile c_isspace (bin2hex bs)) = (False, bin2hex bs)" using a by (simp add: h sign_of_def)
  moreover have "\<not> ci_prefix ''0x'' ''0X'' (bin2hex bs)" using c by (simp add: h ci_prefix_def)
  ultimately show ?thesis using assms(2) by (simp add: strtoul16_def)
qed

section \<open>A call that goes through\<close>

definition net_ok :: "rpc_config \<Rightarrow> rpc_net \<Rightarrow> bool" where
  "net_ok cfg net \<longleftrightarrow> inet_pton (rpc_host cfg) \<noteq> None \<and> net_socket net \<and> net_connect net \<and>
     (\<forall>n. net_write_head net n = Some n) \<and> (\<forall>n. net_write_body net n = Some n)"

lemma read_loop_all:
  "\<forall>c \<in> set cs. c \<noteq> [] \<Longrightarrow> length (got @ concat cs) < RESP_SIZE - 1 \<Longrightarrow> read_loop cs got = (got @ concat cs, False)"
  by (induction cs arbitrary: got) (auto simp: Let_def)

lemma rpc_call_ok:
  assumes "net_ok cfg net" "\<forall>c \<in> set (net_chunks net). c \<noteq> []" "length (concat (net_chunks net)) < RESP_SIZE - 1"
  shows "\<exists>old. rpc_call cfg net body st = (Some (concat (net_chunks net) @ CHR 0x00 # old),
     st\<lparr>posted := posted st @ [rpc_head cfg body @ body], resp := concat (net_chunks net) @ CHR 0x00 # old\<rparr>)"
  using assms read_loop_all [of "net_chunks net" "[]"] by (auto simp: rpc_call_def net_ok_def Let_def)

lemma rpc_call_posted:
  "net_ok cfg net \<Longrightarrow> posted (snd (rpc_call cfg net body st)) = posted st @ [rpc_head cfg body @ body]"
  by (auto simp: rpc_call_def net_ok_def Let_def split: prod.splits)

lemma num_field_nul: "num_field s key n \<Longrightarrow> num_field (s @ CHR 0x00 # old) key n"
proof -
  assume "num_field s key n"
  then obtain x sep post where s: "s = x @ quoted key @ CHR '':'' # sep @ dec n @ post" "lacks (CHR 0x22 # key) x"
    "CHR 0x00 \<notin> set x" "list_all c_isspace sep" "post = [] \<or> \<not> is_digit (hd post)"
    by (auto simp: num_field_def)
  have "\<not> is_digit (hd (post @ CHR 0x00 # old))" using s(5) by (cases post) (simp_all add: is_digit_def)
  then show ?thesis unfolding num_field_def
    by (intro exI [of _ x] exI [of _ sep] exI [of _ "post @ CHR 0x00 # old"]) (simp add: s)
qed

lemma str_field_nul: "str_field s key v \<Longrightarrow> str_field (s @ CHR 0x00 # old) key v"
proof -
  assume "str_field s key v"
  then obtain x sep post where s: "s = x @ quoted key @ CHR '':'' # sep @ CHR 0x22 # v @ CHR 0x22 # post" "lacks (CHR 0x22 # key) x"
    "CHR 0x00 \<notin> set (x @ v)" "list_all c_isspace sep" "CHR 0x22 \<notin> set v"
    unfolding str_field_def by (elim exE conjE) (rule that)
  then show ?thesis unfolding str_field_def
    by (intro exI [of _ x] exI [of _ sep] exI [of _ "post @ CHR 0x00 # old"]) simp
qed

lemma json_str_absent:
  assumes "key_ok key" "lacks (CHR 0x22 # key) s" "CHR 0x00 \<notin> set s"
  shows "json_str (s @ CHR 0x00 # old) key outsz = None"
  using strstr_absent [of "CHR 0x22 # key" "quoted key" s old] assms
  by (auto simp: json_str_def lead_def quoted_def key_ok_def)

end
