(* ===== verification/Uart.thy ===== *)
theory Uart
  imports Prelude
begin

text \<open>
  The UART driver (\<^verbatim>\<open>src/miner/uio_uart.c\<close>).  What the registers read, and when, is an argument of each
  operation: a poll is the pair of the \<^verbatim>\<open>STAT\<close> word and the \<^verbatim>\<open>RX\<close> word at that moment.  A loop that waits takes
  the readings it sees in order; a clock reading is in microseconds.  \<open>wire\<close> is not in the code: it is what has
  been written to the \<^verbatim>\<open>TX\<close> register.  The scripted device of the selftests is in \<open>Sim_Uart\<close>.
\<close>

unbundle bit_operations_syntax

definition STAT_RX_VALID :: u32 where "STAT_RX_VALID = 1"
definition STAT_TX_EMPTY :: u32 where "STAT_TX_EMPTY = 4"
definition STAT_TX_FULL :: u32 where "STAT_TX_FULL = 8"
definition STAT_OVERRUN :: u32 where "STAT_OVERRUN = 32"

record uio_uart =
  uart_fd :: int
  uart_mapped :: bool
  tx_stall_us :: u64
  overruns :: u64
  rx_bytes :: u64
  tx_bytes :: u64
  wire :: bytes

text \<open>\<open>dev\<close> is what \<^verbatim>\<open>open\<close> returns, \<open>maps\<close> whether \<^verbatim>\<open>mmap\<close> succeeds; \<open>uart_mapped\<close> is a \<^verbatim>\<open>base\<close> that is not null.\<close>

definition uart_open :: "int \<Rightarrow> bool \<Rightarrow> uio_uart \<Rightarrow> bool \<times> uio_uart" where
  "uart_open dev maps u =
     (let u = u\<lparr>uart_mapped := False, tx_stall_us := 0, overruns := 0, rx_bytes := 0, tx_bytes := 0\<rparr>; u = u\<lparr>uart_fd := dev\<rparr> in
      if uart_fd u < 0 then (False, u)
      else if \<not> maps then (False, u\<lparr>uart_fd := -1, uart_mapped := False\<rparr>)
      else (True, u\<lparr>uart_mapped := True\<rparr>))"

definition uart_close :: "uio_uart \<Rightarrow> uio_uart" where
  "uart_close u = u\<lparr>uart_mapped := False, uart_fd := -1\<rparr>"

type_synonym poll = "u32 \<times> u32"

definition uart_get_nb :: "poll \<Rightarrow> uio_uart \<Rightarrow> u8 option \<times> uio_uart" where
  "uart_get_nb p u =
     (let (s, r) = p;
          u = (if s AND STAT_OVERRUN \<noteq> 0 then u\<lparr>overruns := overruns u + 1\<rparr> else u)
      in if s AND STAT_RX_VALID = 0 then (None, u)
         else (Some (ucast (r AND 0xff)), u\<lparr>rx_bytes := rx_bytes u + 1\<rparr>))"

text \<open>
  \<open>full\<close>: how long after the start each reading of \<^verbatim>\<open>STAT\<close> that shows a full FIFO is taken, up to the first
  that does not.
\<close>

fun put_wait :: "u64 \<Rightarrow> u64 \<Rightarrow> u64 list \<Rightarrow> bool \<times> u64" where
  "put_wait timeout spun [] = (True, spun)"
| "put_wait timeout spun (t # ts) = (if t > timeout then (False, t) else put_wait timeout t ts)"

definition uart_put :: "u64 list \<Rightarrow> u64 \<Rightarrow> u8 \<Rightarrow> uio_uart \<Rightarrow> bool \<times> uio_uart" where
  "uart_put full timeout b u =
     (case put_wait timeout 0 full of
        (False, spun) \<Rightarrow> (False, u\<lparr>tx_stall_us := tx_stall_us u + spun\<rparr>)
      | (True, spun) \<Rightarrow>
          let u = (if spun \<noteq> 0 then u\<lparr>tx_stall_us := tx_stall_us u + spun\<rparr> else u)
          in (True, u\<lparr>wire := wire u @ [b], tx_bytes := tx_bytes u + 1\<rparr>))"

text \<open>One list of waits per byte; a byte without one finds room at once.\<close>

fun uart_write :: "u64 list list \<Rightarrow> u64 \<Rightarrow> bytes \<Rightarrow> uio_uart \<Rightarrow> bool \<times> uio_uart" where
  "uart_write ws timeout [] u = (True, u)"
| "uart_write ws timeout (b # bs) u =
     (case uart_put (case ws of [] \<Rightarrow> [] | w # _ \<Rightarrow> w) timeout b u of
        (False, u) \<Rightarrow> (False, u)
      | (True, u) \<Rightarrow> uart_write (tl ws) timeout bs u)"

text \<open>\<open>busy\<close>: how long after the start each reading without \<^verbatim>\<open>TX_EMPTY\<close> is followed by the clock.\<close>

fun uart_drain_tx :: "u64 list \<Rightarrow> u64 \<Rightarrow> bool" where
  "uart_drain_tx [] timeout = True"
| "uart_drain_tx (t # busy) timeout = (if t > timeout then False else uart_drain_tx busy timeout)"

fun uart_purge_rx :: "poll list \<Rightarrow> uio_uart \<Rightarrow> uio_uart" where
  "uart_purge_rx [] u = u"
| "uart_purge_rx (p # ps) u = (case uart_get_nb p u of (Some _, u) \<Rightarrow> uart_purge_rx ps u | (None, u) \<Rightarrow> u)"

text \<open>
  Each turn of the loop: the poll, the clock read after it, and the clock read for the timeout.  Where the list
  ends the timeout has passed.
\<close>

fun wait_quiet_loop :: "u64 \<Rightarrow> u64 \<Rightarrow> u64 \<Rightarrow> u64 \<Rightarrow> (poll \<times> u64 \<times> u64) list \<Rightarrow> uio_uart \<Rightarrow> bool \<times> uio_uart" where
  "wait_quiet_loop start last_activity idle timeout [] u = (False, u)"
| "wait_quiet_loop start last_activity idle timeout ((p, t1, t2) # es) u =
     (case uart_get_nb p u of
        (Some _, u) \<Rightarrow>
          if t2 - start > timeout then (False, u) else wait_quiet_loop start t1 idle timeout es u
      | (None, u) \<Rightarrow>
          if t1 - last_activity \<ge> idle then (True, u)
          else if t2 - start > timeout then (False, u) else wait_quiet_loop start last_activity idle timeout es u)"

definition uart_wait_quiet :: "u64 \<Rightarrow> u64 \<Rightarrow> u64 \<Rightarrow> (poll \<times> u64 \<times> u64) list \<Rightarrow> uio_uart \<Rightarrow> bool \<times> uio_uart" where
  "uart_wait_quiet start idle timeout es u = wait_quiet_loop start start idle timeout es u"

section \<open>What goes out\<close>

lemma uart_put_wire:
  "uart_put full timeout b u = (ok, u') \<Longrightarrow> wire u' = (if ok then wire u @ [b] else wire u) \<and> rx_bytes u' = rx_bytes u \<and>
     tx_bytes u' = tx_bytes u + of_bool ok"
  by (auto simp: uart_put_def Let_def split: prod.splits bool.splits if_splits)

lemma uart_write_wire:
  "uart_write ws timeout bs u = (ok, u') \<Longrightarrow>
   \<exists>k \<le> length bs. wire u' = wire u @ take k bs \<and> (ok \<longleftrightarrow> k = length bs) \<and> rx_bytes u' = rx_bytes u"
proof (induction ws timeout bs u arbitrary: ok u' rule: uart_write.induct)
  case (2 ws timeout b bs u)
  obtain ok1 u1 where p: "uart_put (case ws of [] \<Rightarrow> [] | w # _ \<Rightarrow> w) timeout b u = (ok1, u1)" by fastforce
  show ?case
  proof (cases ok1)
    case True
    then have w: "uart_write (tl ws) timeout bs u1 = (ok, u')" using "2.prems" p by simp
    obtain k where "k \<le> length bs" "wire u' = wire u1 @ take k bs" "ok \<longleftrightarrow> k = length bs" "rx_bytes u' = rx_bytes u1"
      using "2.IH" [OF p [symmetric]] True w by auto
    then show ?thesis using uart_put_wire [OF p] True by (intro exI [of _ "Suc k"]) auto
  next
    case False
    then show ?thesis using "2.prems" p uart_put_wire [OF p] by (intro exI [of _ 0]) auto
  qed
qed simp

text \<open>
  The receiver in the FPGA, as the comments describe it: a free-running byte counter that turns every \<open>n\<close> bytes
  into an item.
\<close>

fun items :: "nat \<Rightarrow> nat \<Rightarrow> bytes \<Rightarrow> bytes list" where
  "items n 0 w = []"
| "items n (Suc k) w = take n w # items n k (drop n w)"

definition received :: "nat \<Rightarrow> bytes \<Rightarrow> bytes list" where
  "received n w = items n (length w div n) w"

lemma items_append: "length x = n * k \<Longrightarrow> items n (k + m) (x @ y) = items n k x @ items n m y"
proof (induction k arbitrary: x)
  case (Suc k)
  then have "n \<le> length x" "length (drop n x) = n * k" by simp_all
  then show ?case using Suc.IH [of "drop n x"] by simp
qed simp

lemma received_aligned:
  assumes "0 < n" "n dvd length x" "length item = n"
  shows "received n (x @ item @ y) = received n x @ item # received n y"
proof -
  obtain k where k: "length x = n * k" using assms(2) by blast
  have "length (x @ item @ y) div n = k + (1 + length y div n)" using assms(1,3) k by (simp add: div_add_self1)
  then have "received n (x @ item @ y) = items n k x @ items n (1 + length y div n) (item @ y)"
    unfolding received_def using items_append [OF k] by metis
  then show ?thesis using assms k by (simp add: received_def)
qed

lemma received_short: "length y < n \<Longrightarrow> received n y = []"
  by (simp add: received_def)

section \<open>Properties\<close>

text \<open>
  C27: items reach the FPGA whole, or the next one is spoilt.  From an aligned receiver, two items written whole
  arrive as exactly those two items.  But when the first write stalls and gives up after \<open>k\<close> bytes, the
  item the FPGA assembles when the second is written whole is the first \<open>k\<close> bytes of the abandoned item
  followed by the start of the new one: nothing in the driver realigns the counter.
\<close>

theorem written_items_received:
  assumes "0 < n" "n dvd length (wire u)" "length item = n" "length item' = n"
    and "uart_write ws timeout item u = (ok, u1)" "uart_write ws' timeout' item' u1 = (True, u2)"
  shows "\<exists>k \<le> n. (ok \<longleftrightarrow> k = n) \<and> received n (wire u2) =
     received n (wire u) @ (if ok then [item, item'] else [take k item @ take (n - k) item'])"
proof -
  obtain k where k: "k \<le> n" "wire u1 = wire u @ take k item" "ok \<longleftrightarrow> k = n"
    using uart_write_wire [OF assms(5)] assms(3) by auto
  have w2: "wire u2 = wire u1 @ item'" using uart_write_wire [OF assms(6)] by auto
  show ?thesis
  proof (cases ok)
    case True
    then have "wire u2 = wire u @ item @ item' @ []" using k w2 assms(3) by simp
    then show ?thesis
      using True k(1,3) received_aligned [OF assms(1,2,3), of "item' @ []"] received_aligned [OF assms(1) _ assms(4), of "[]" "[]"] received_short [of "[]" n] assms(1)
      by (intro exI [of _ k]) simp
  next
    case False
    let ?m = "take k item @ take (n - k) item'"
    have m: "length ?m = n" using k(1) assms(3,4) by simp
    have w: "wire u2 = wire u @ ?m @ drop (n - k) item'" using k(2) w2 by simp
    have "length (drop (n - k) item') < n" using False k assms(4) by simp
    then have "received n (wire u2) = received n (wire u) @ [?m]"
      unfolding w by (simp only: received_aligned [OF assms(1,2) m] received_short)
    then show ?thesis using False k(1,3) by auto
  qed
qed

definition idle_uart :: uio_uart where
  "idle_uart = \<lparr>uart_fd = -1, uart_mapped = False, tx_stall_us = 0, overruns = 0, rx_bytes = 0, tx_bytes = 0, wire = []\<rparr>"

theorem written_items_received_witness:
  "\<exists>k \<le> 3. k \<noteq> 3 \<and> received 3 (wire (snd (uart_write [] 5 [4, 5, 6] (snd (uart_write [[], [2, 9]] 5 [1, 2, 3] idle_uart))))) =
     [take k [1, 2, 3] @ take (3 - k) [4, 5, 6]]"
proof -
  let ?u1 = "snd (uart_write [[], [2, 9]] 5 [1, 2, 3] idle_uart)"
  have 1: "uart_write [[], [2, 9]] 5 [1, 2, 3] idle_uart = (False, ?u1)"
    by (simp add: uart_put_def idle_uart_def)
  have 2: "uart_write [] 5 [4, 5, 6] ?u1 = (True, snd (uart_write [] 5 [4, 5, 6] ?u1))"
    by (simp add: uart_put_def idle_uart_def)
  have "3 dvd length (wire idle_uart)" "received 3 (wire idle_uart) = []" by (simp_all add: idle_uart_def received_def)
  then show ?thesis using written_items_received [of 3 idle_uart "[1, 2, 3]" "[4, 5, 6]", OF _ _ _ _ 1 2] by simp
qed
end
