(* ===== verification/Framing.thy ===== *)
theory Framing
  imports Worksrc Uart
begin

text \<open>
  Framing of the FPGA's replies (\<^verbatim>\<open>frame_sync\<close> and the assembler of the mining loop in \<^verbatim>\<open>src/miner/miner.c\<close>).  The
  polls a loop makes before its deadline are its argument, one list per loop; where the list ends, the
  deadline has passed.  Logging and the last-seen strings of the status page are left out.
\<close>

unbundle bit_operations_syntax

section \<open>Finding the frame boundary\<close>

definition NSYNC :: nat where "NSYNC = 512"

record sync_stats =
  sync_quiet :: u64
  sync_gap :: u64
  sync_locked :: u64
  sync_failed :: u64

datatype sync_end = At_gap | At_quiet | No_gap

text \<open>The collection loop: 200 microseconds pass at every empty poll.\<close>

fun sync_collect :: "bool \<Rightarrow> poll list \<Rightarrow> nat \<Rightarrow> bytes \<Rightarrow> uio_uart \<Rightarrow> sync_end \<times> bytes \<times> uio_uart" where
  "sync_collect quiet_ok [] idle buf u = (No_gap, buf, u)"
| "sync_collect quiet_ok (p # ps) idle buf u =
     (case uart_get_nb p u of
        (Some b, u) \<Rightarrow>
          let buf = (if length buf < NSYNC then buf @ [b] else buf) in
          if length buf \<ge> NSYNC then (No_gap, buf, u) else sync_collect quiet_ok ps 0 buf u
      | (None, u) \<Rightarrow>
          let idle = idle + 200 in
          if idle \<ge> 3000 \<and> length buf > 0 then (At_gap, buf, u)
          else if idle \<ge> 3000 \<and> length buf = 0 \<and> quiet_ok then (At_quiet, buf, u)
          else if length buf \<ge> NSYNC then (No_gap, buf, u)
          else sync_collect quiet_ok ps idle buf u)"

definition bucket :: "bytes \<Rightarrow> nat \<Rightarrow> nat" where
  "bucket buf i = length (filter (\<lambda>j. buf ! j = 0x01 \<and> j mod RESULT_LEN = i) [0..<length buf])"

definition best_residue :: "bytes \<Rightarrow> nat" where
  "best_residue buf = foldl (\<lambda>best i. if bucket buf i > bucket buf best then i else best) 0 [1..<RESULT_LEN]"

definition lock_skip :: "bytes \<Rightarrow> nat" where
  "lock_skip buf = (best_residue buf + RESULT_LEN - length buf mod RESULT_LEN) mod RESULT_LEN"

fun skip_bytes :: "nat \<Rightarrow> poll list \<Rightarrow> uio_uart \<Rightarrow> bool \<times> uio_uart" where
  "skip_bytes 0 ps u = (True, u)"
| "skip_bytes (Suc k) [] u = (False, u)"
| "skip_bytes (Suc k) (p # ps) u =
     (case uart_get_nb p u of (Some _, u) \<Rightarrow> skip_bytes k ps u | (None, u) \<Rightarrow> skip_bytes (Suc k) ps u)"

fun read_bytes :: "nat \<Rightarrow> poll list \<Rightarrow> bytes \<Rightarrow> uio_uart \<Rightarrow> bytes \<times> uio_uart" where
  "read_bytes 0 ps out u = (out, u)"
| "read_bytes (Suc k) [] out u = (out, u)"
| "read_bytes (Suc k) (p # ps) out u =
     (case uart_get_nb p u of (Some b, u) \<Rightarrow> read_bytes k ps (out @ [b]) u | (None, u) \<Rightarrow> read_bytes (Suc k) ps out u)"

text \<open>Success, the bytes handed back, the counters and the device.\<close>

definition frame_sync ::
  "poll list \<Rightarrow> poll list \<Rightarrow> poll list \<Rightarrow> bool \<Rightarrow> sync_stats \<Rightarrow> uio_uart \<Rightarrow> bool \<times> bytes \<times> sync_stats \<times> uio_uart" where
  "frame_sync polls skips reads quiet_ok s u =
     (case sync_collect quiet_ok polls 0 [] u of
        (At_gap, buf, u) \<Rightarrow> (True, buf, s\<lparr>sync_gap := sync_gap s + 1\<rparr>, u)
      | (At_quiet, buf, u) \<Rightarrow> (True, [], s\<lparr>sync_quiet := sync_quiet s + 1\<rparr>, u)
      | (No_gap, buf, u) \<Rightarrow>
          if length buf < RESULT_LEN * 4 then (False, [], s\<lparr>sync_failed := sync_failed s + 1\<rparr>, u)
          else let best = best_residue buf; frames = length buf div RESULT_LEN in
          if bucket buf best * 2 < frames then (False, [], s\<lparr>sync_failed := sync_failed s + 1\<rparr>, u)
          else
          (case skip_bytes (lock_skip buf) skips u of
             (False, u) \<Rightarrow> (False, [], s, u)
           | (True, u) \<Rightarrow>
               let (out, u) = read_bytes (RESULT_LEN * 8) reads [] u
               in (True, out, s\<lparr>sync_locked := sync_locked s + 1\<rparr>, u)))"

text \<open>The buffer the mining loop hands in; a gap copies up to 511 bytes into it, unchecked.\<close>

definition SYNCBUF :: nat where "SYNCBUF = RESULT_LEN * 8"

section \<open>The assembler\<close>

record assembler =
  frame :: bytes
  synced :: bool
  bad_run :: nat
  frames_ok :: u64
  frames_bad :: u64
  candidates_verified :: u64
  nonce_offset :: u64

text \<open>The work source's verdict is an argument, as it is a function pointer in the code.\<close>

type_synonym 's verdict = "u64 \<Rightarrow> u64 \<Rightarrow> 's \<Rightarrow> cand \<times> 's"

definition feed :: "'s verdict \<Rightarrow> u8 \<Rightarrow> assembler \<times> 's \<Rightarrow> assembler \<times> 's" where
  "feed on_candidate b st =
     (let (m, src) = st; m = m\<lparr>frame := frame m @ [b]\<rparr> in
      if length (frame m) \<noteq> RESULT_LEN then (m, src)
      else let (rc, r) = parse_result (frame m); m = m\<lparr>frame := []\<rparr> in
      if rc \<noteq> 0 then
        let m = m\<lparr>frames_bad := frames_bad m + 1, bad_run := bad_run m + 1\<rparr> in
        (if bad_run m \<ge> 3 then m\<lparr>synced := False, bad_run := 0\<rparr> else m, src)
      else
        let m = m\<lparr>bad_run := 0, frames_ok := frames_ok m + 1\<rparr>;
            (v, src) = on_candidate (r_nonce r + nonce_offset m) (r_hash_top64 r) src
        in (if v = CAND_BAD then m\<lparr>frames_bad := frames_bad m + 1\<rparr>
            else m\<lparr>candidates_verified := candidates_verified m + 1\<rparr>, src))"

text \<open>First the bytes handed back by the synchroniser, then the FIFO until it is empty or alignment is lost.\<close>

fun drain_sync :: "'s verdict \<Rightarrow> bytes \<Rightarrow> assembler \<times> 's \<Rightarrow> assembler \<times> 's" where
  "drain_sync f [] st = st"
| "drain_sync f (b # bs) st = (if synced (fst st) then drain_sync f bs (feed f b st) else st)"

fun drain_uart :: "'s verdict \<Rightarrow> poll list \<Rightarrow> assembler \<times> 's \<Rightarrow> uio_uart \<Rightarrow> (assembler \<times> 's) \<times> uio_uart" where
  "drain_uart f [] st u = (st, u)"
| "drain_uart f (p # ps) st u =
     (if synced (fst st) then
        (case uart_get_nb p u of (Some b, u) \<Rightarrow> drain_uart f ps (feed f b st) u | (None, u) \<Rightarrow> (st, u))
      else (st, u))"

definition replay_start :: "bytes \<Rightarrow> nat" where
  "replay_start buf = length buf - (length buf div RESULT_LEN) * RESULT_LEN"

section \<open>What the loops consume\<close>

text \<open>The bytes a sequence of polls delivers, and fifteen empty polls in a row.\<close>

definition arrived :: "poll list \<Rightarrow> bytes" where
  "arrived ps = map (\<lambda>(s, r). ucast (r AND 0xff)) (filter (\<lambda>(s, r). s AND STAT_RX_VALID \<noteq> 0) ps)"

definition ends_in_gap :: "poll list \<Rightarrow> bool" where
  "ends_in_gap ps \<longleftrightarrow> 15 \<le> length ps \<and> arrived (drop (length ps - 15) ps) = []"

lemma arrived_simps [simp]:
  "arrived [] = []" "arrived (ps @ qs) = arrived ps @ arrived qs"
  by (simp_all add: arrived_def)

lemma get_nb_arrived:
  "uart_get_nb p u = (None, u') \<Longrightarrow> arrived [p] = [] \<and> rx_bytes u' = rx_bytes u \<and> wire u' = wire u"
  "uart_get_nb p u = (Some b, u') \<Longrightarrow> arrived [p] = [b] \<and> rx_bytes u' = rx_bytes u + 1 \<and> wire u' = wire u"
  by (auto simp: uart_get_nb_def arrived_def Let_def split: if_splits prod.splits)

lemma arrived_Cons: "arrived (p # ps) = arrived [p] @ arrived ps"
  by (simp add: arrived_def)

lemma gap_extends:
  assumes "n \<le> length qs" "arrived (drop (length qs - n) qs) = []" "15 \<le> n"
  shows "ends_in_gap qs"
proof -
  have "drop (length qs - n) qs = take (n - 15) (drop (length qs - n) qs) @ drop (length qs - 15) qs"
    using append_take_drop_id [of "n - 15" "drop (length qs - n) qs"] assms(1,3) by simp
  then have "arrived (drop (length qs - 15) qs) = []" using assms(2) by (metis append_is_Nil_conv arrived_simps(2))
  then show ?thesis using assms by (simp add: ends_in_gap_def)
qed

text \<open>
  What the collection loop leaves behind, after the polls \<open>qs\<close> it had made before and some of \<open>ps\<close>.
\<close>

definition collected :: "bool \<Rightarrow> poll list \<Rightarrow> poll list \<Rightarrow> uio_uart \<Rightarrow> sync_end \<Rightarrow> bytes \<Rightarrow> uio_uart \<Rightarrow> bool" where
  "collected q qs ps u e buf u' \<longleftrightarrow>
     (\<exists>k \<le> length ps. buf = arrived (qs @ take k ps) \<and> length buf \<le> NSYNC \<and> wire u' = wire u \<and>
        rx_bytes u' = rx_bytes u + of_nat (length (arrived (take k ps))) \<and>
        (e = At_gap \<longrightarrow> buf \<noteq> [] \<and> length buf < NSYNC \<and> ends_in_gap (qs @ take k ps)) \<and>
        (e = At_quiet \<longrightarrow> buf = [] \<and> q \<and> ends_in_gap (qs @ take k ps)) \<and>
        (e = No_gap \<longrightarrow> length buf = NSYNC \<or> k = length ps))"

lemma collected_step:
  assumes "collected q (qs @ [p]) ps u1 e buf u'" "wire u1 = wire u"
    and "rx_bytes u1 = rx_bytes u + of_nat (length (arrived [p]))"
  shows "collected q qs (p # ps) u e buf u'"
proof -
  obtain k where "k \<le> length ps" "buf = arrived ((qs @ [p]) @ take k ps)" "length buf \<le> NSYNC" "wire u' = wire u1"
    "rx_bytes u' = rx_bytes u1 + of_nat (length (arrived (take k ps)))"
    "e = At_gap \<longrightarrow> buf \<noteq> [] \<and> length buf < NSYNC \<and> ends_in_gap ((qs @ [p]) @ take k ps)"
    "e = At_quiet \<longrightarrow> buf = [] \<and> q \<and> ends_in_gap ((qs @ [p]) @ take k ps)"
    "e = No_gap \<longrightarrow> length buf = NSYNC \<or> k = length ps"
    using assms(1) unfolding collected_def by blast
  then show ?thesis
    unfolding collected_def using assms(2,3) arrived_Cons [of p "take k ps"]
    by (intro exI [of _ "Suc k"]) simp
qed

lemma sync_collect_collected:
  assumes "sync_collect q ps idle (arrived qs) u = (e, buf, u')" "length (arrived qs) < NSYNC"
    and "idle = 200 * n" "n \<le> length qs" "arrived (drop (length qs - n) qs) = []"
  shows "collected q qs ps u e buf u'"
  using assms
proof (induction ps arbitrary: idle qs u n)
  case Nil
  then show ?case by (auto simp: collected_def)
next
  case (Cons p ps)
  obtain v u1 where g: "uart_get_nb p u = (v, u1)" by fastforce
  show ?case
  proof (cases v)
    case None
    note g = g [unfolded None] and a = get_nb_arrived(1) [OF g [unfolded None]]
    have qs: "arrived (qs @ [p]) = arrived qs" using a by simp
    have d: "arrived (drop (length (qs @ [p]) - Suc n) (qs @ [p])) = []" using Cons.prems(4,5) a by simp
    have gap: "ends_in_gap (qs @ [p])" if "idle + 200 \<ge> 3000"
      using gap_extends [of "Suc n" "qs @ [p]"] d Cons.prems(3,4) that by simp
    show ?thesis
    proof (cases "idle + 200 \<ge> 3000 \<and> (arrived qs \<noteq> [] \<or> q)")
      case True
      then show ?thesis
        unfolding collected_def using Cons.prems(1,2) g a gap by (intro exI [of _ 1]) (auto simp: Let_def split: if_splits)
    next
      case False
      then have "sync_collect q ps (idle + 200) (arrived (qs @ [p])) u1 = (e, buf, u')"
        using Cons.prems(1,2) g qs by (auto simp: Let_def split: if_splits)
      then have "collected q (qs @ [p]) ps u1 e buf u'"
        using d Cons.prems(2,3,4) qs by (intro Cons.IH [of "idle + 200" _ _ "Suc n"]) simp_all
      then show ?thesis by (rule collected_step) (simp_all add: a)
    qed
  next
    case (Some b)
    note g = g [unfolded Some] and a = get_nb_arrived(2) [OF g [unfolded Some]]
    have qs: "arrived (qs @ [p]) = arrived qs @ [b]" using a by simp
    show ?thesis
    proof (cases "length (arrived qs @ [b]) \<ge> NSYNC")
      case True
      then show ?thesis
        unfolding collected_def using Cons.prems(1,2) g a by (intro exI [of _ 1]) (auto simp: Let_def split: if_splits)
    next
      case False
      then have "sync_collect q ps 0 (arrived (qs @ [p])) u1 = (e, buf, u')"
        using Cons.prems(1,2) g qs by (auto simp: Let_def split: if_splits)
      then have "collected q (qs @ [p]) ps u1 e buf u'"
        using False qs by (intro Cons.IH [of 0 _ _ 0]) simp_all
      then show ?thesis by (rule collected_step) (simp_all add: a)
    qed
  qed
qed

lemma sync_collect_start: "sync_collect q ps 0 [] u = (e, buf, u') \<Longrightarrow> collected q [] ps u e buf u'"
  using sync_collect_collected [of q ps 0 "[]" u e buf u' 0] by (simp add: NSYNC_def)


lemma skip_bytes_iff: "fst (skip_bytes k ps u) \<longleftrightarrow> k \<le> length (arrived ps)"
proof (induction k ps u rule: skip_bytes.induct)
  case (3 k p ps u)
  obtain v u1 where g: "uart_get_nb p u = (v, u1)" by fastforce
  then show ?case
    using "3.IH" [OF g [symmetric]] get_nb_arrived [of p u] arrived_Cons [of p ps] by (cases v) auto
qed simp_all

lemma read_bytes_eq: "fst (read_bytes k ps out u) = out @ take k (arrived ps)"
proof (induction k ps out u rule: read_bytes.induct)
  case (3 k p ps out u)
  obtain v u1 where g: "uart_get_nb p u = (v, u1)" by fastforce
  then show ?case
    using "3.IH" [OF g [symmetric]] get_nb_arrived [of p u] arrived_Cons [of p ps] by (cases v) auto
qed simp_all

lemma silent_line:
  assumes "arrived ps = []" "n < 15" "15 \<le> n + length ps"
  shows "fst (sync_collect True ps (200 * n) [] u) = At_quiet"
  using assms
proof (induction ps arbitrary: n u)
  case (Cons p ps)
  have a: "arrived [p] = []" "arrived ps = []" using Cons.prems(1) arrived_Cons [of p ps] by auto
  obtain v u1 where g: "uart_get_nb p u = (v, u1)" by fastforce
  then have v: "v = None" using get_nb_arrived(2) [of p u] a(1) by (cases v) auto
  show ?case
  proof (cases "n = 14")
    case False
    then have "fst (sync_collect True ps (200 * Suc n) [] u1) = At_quiet" using Cons.IH [of "Suc n" u1] a(2) Cons.prems(2,3) by simp
    then show ?thesis using False g v Cons.prems(2) by (simp add: Let_def NSYNC_def add.commute)
  qed (use g v in simp)
qed simp

text \<open>Reading never writes.\<close>

lemma get_nb_wire: "wire (snd (uart_get_nb p u)) = wire u"
  by (simp add: uart_get_nb_def Let_def split: prod.splits)

lemma skip_bytes_wire: "wire (snd (skip_bytes k ps u)) = wire u"
proof (induction k ps u rule: skip_bytes.induct)
  case (3 k p ps u)
  then show ?case using get_nb_wire [of p u] by (auto split: prod.splits option.splits)
qed simp_all

lemma read_bytes_wire: "wire (snd (read_bytes k ps out u)) = wire u"
proof (induction k ps out u rule: read_bytes.induct)
  case (3 k p ps out u)
  then show ?case using get_nb_wire [of p u] by (auto split: prod.splits option.splits)
qed simp_all

lemma purge_wire: "wire (uart_purge_rx ps u) = wire u"
proof (induction ps arbitrary: u)
  case (Cons p ps)
  then show ?case using get_nb_wire [of p u] by (auto split: prod.splits option.splits)
qed simp

lemma wait_quiet_wire: "wire (snd (uart_wait_quiet start idle timeout es u)) = wire u"
proof -
  have "wire (snd (wait_quiet_loop start t idle timeout es u)) = wire u" for t
  proof (induction es arbitrary: t u)
    case (Cons e es)
    then show ?case using get_nb_wire [of "fst e" u] by (cases e) (auto split: prod.splits option.splits)
  qed simp
  then show ?thesis by (simp add: uart_wait_quiet_def)
qed

lemma frame_sync_wire: "frame_sync polls skips reads q s u = (ok, out, s', u') \<Longrightarrow> wire u' = wire u"
proof -
  assume a: "frame_sync polls skips reads q s u = (ok, out, s', u')"
  obtain e b1 u1 where c: "sync_collect q polls 0 [] u = (e, b1, u1)" by (metis prod_cases3)
  have "wire u1 = wire u" using sync_collect_start [OF c] by (auto simp: collected_def)
  then show "wire u' = wire u"
    using a c skip_bytes_wire [of "lock_skip b1" skips u1] read_bytes_wire
    by (auto simp: frame_sync_def Let_def split: sync_end.splits if_splits prod.splits bool.splits) (metis snd_conv)+
qed

section \<open>The histogram\<close>

lemma foldl_strict_max:
  fixes f :: "nat \<Rightarrow> nat"
  assumes "r \<in> insert b (set xs)" "\<And>i. i \<in> insert b (set xs) \<Longrightarrow> i \<noteq> r \<Longrightarrow> f i < f r"
  shows "foldl (\<lambda>best i. if f i > f best then i else best) b xs = r"
  using assms
proof (induction xs arbitrary: b)
  case (Cons x xs)
  show ?case
  proof (cases "r = b \<or> r = x")
    case True
    then have "(if f x > f b then x else b) = r" using Cons.prems(2) [of x] Cons.prems(2) [of b] by (cases "x = b") auto
    then show ?thesis using Cons.IH [of r] Cons.prems by auto
  next
    case False
    then show ?thesis using Cons.IH [of x] Cons.IH [of b] Cons.prems by auto
  qed
qed simp

lemma best_residue_unique:
  assumes "r < RESULT_LEN" "\<And>i. i < RESULT_LEN \<Longrightarrow> i \<noteq> r \<Longrightarrow> bucket buf i < bucket buf r"
  shows "best_residue buf = r"
  unfolding best_residue_def using assms by (intro foldl_strict_max) (auto simp: RESULT_LEN_def)

lemma lock_skip_aligns: "(length buf + lock_skip buf) mod RESULT_LEN = best_residue buf mod RESULT_LEN"
proof -
  let ?l = "length buf mod RESULT_LEN" and ?b = "best_residue buf"
  have "?l < RESULT_LEN" by (simp add: RESULT_LEN_def)
  then have "length buf + (?b + RESULT_LEN - ?l) = ?b + RESULT_LEN * Suc (length buf div RESULT_LEN)"
    using mult_div_mod_eq [of RESULT_LEN "length buf"] unfolding mult_Suc_right by linarith
  then show ?thesis unfolding lock_skip_def mod_add_right_eq by (metis mod_mult_self2)
qed

section \<open>Frames\<close>

definition report :: "u64 \<times> u64 \<Rightarrow> bytes" where
  "report r = 0x01 # put_u64le (fst r) @ put_u64le (snd r)"

text \<open>What one whole frame does, and a run of them, until alignment is given up.\<close>

definition frame_step :: "'s verdict \<Rightarrow> bytes \<Rightarrow> assembler \<times> 's \<Rightarrow> assembler \<times> 's" where
  "frame_step f x st =
     (let (m, src) = st in
      if x ! 0 \<noteq> 0x01 then
        (if bad_run m + 1 \<ge> 3 then m\<lparr>frames_bad := frames_bad m + 1, synced := False, bad_run := 0\<rparr>
         else m\<lparr>frames_bad := frames_bad m + 1, bad_run := bad_run m + 1\<rparr>, src)
      else
        let (v, src) = f (get_le64 (drop 1 x) + nonce_offset m) (get_le64 (drop 9 x)) src
        in (if v = CAND_BAD then m\<lparr>frames_bad := frames_bad m + 1, bad_run := 0, frames_ok := frames_ok m + 1\<rparr>
            else m\<lparr>candidates_verified := candidates_verified m + 1, bad_run := 0, frames_ok := frames_ok m + 1\<rparr>, src))"

fun frames_run :: "'s verdict \<Rightarrow> bytes list \<Rightarrow> assembler \<times> 's \<Rightarrow> assembler \<times> 's" where
  "frames_run f [] st = st"
| "frames_run f (x # xs) st = (if synced (fst st) then frames_run f xs (frame_step f x st) else st)"

lemma drain_sync_partial:
  "synced m \<Longrightarrow> length (frame m @ bs) < RESULT_LEN \<Longrightarrow> drain_sync f (bs @ cs) (m, src) = drain_sync f cs (m\<lparr>frame := frame m @ bs\<rparr>, src)"
proof (induction bs arbitrary: m)
  case (Cons b bs)
  have "feed f b (m, src) = (m\<lparr>frame := frame m @ [b]\<rparr>, src)" using Cons.prems by (simp add: feed_def)
  then show ?case using Cons.IH [of "m\<lparr>frame := frame m @ [b]\<rparr>"] Cons.prems by simp
qed simp

lemma drain_sync_frame:
  assumes "synced m" "frame m = []" "length x = RESULT_LEN"
  shows "drain_sync f (x @ cs) (m, src) = drain_sync f cs (frame_step f x (m, src))"
proof -
  obtain y b where x: "x = y @ [b]" using assms(3) by (cases x rule: rev_cases) (auto simp: RESULT_LEN_def)
  have "drain_sync f (x @ cs) (m, src) = drain_sync f (b # cs) (m\<lparr>frame := y\<rparr>, src)"
    using drain_sync_partial [of m y f "b # cs" src] assms x by simp
  moreover have "feed f b (m\<lparr>frame := y\<rparr>, src) = frame_step f x (m, src)"
    using assms x by (cases m) (simp add: feed_def frame_step_def parse_result_def Let_def split: prod.splits)
  ultimately show ?thesis using assms(1) by simp
qed

lemma frame_step_frame: "frame (fst (frame_step f x st)) = frame (fst st)"
  by (simp add: frame_step_def Let_def split: prod.splits)

lemma drain_sync_frames:
  assumes "frame m = []" "\<forall>x \<in> set xs. length x = RESULT_LEN"
  shows "drain_sync f (concat xs) (m, src) = frames_run f xs (m, src)"
  using assms
proof (induction xs arbitrary: m src)
  case (Cons x xs)
  obtain m' src' where s: "frame_step f x (m, src) = (m', src')" by fastforce
  then have "frame m' = []" using frame_step_frame [of f x "(m, src)"] Cons.prems(1) by simp
  then have "drain_sync f (concat xs) (m', src') = frames_run f xs (m', src')" using Cons by simp
  moreover have "drain_sync f cs (m, src) = (m, src)" if "\<not> synced m" for cs using that by (cases cs) simp_all
  ultimately show ?case
    using s drain_sync_frame [of m x f "concat xs" src] Cons.prems by simp
qed simp

text \<open>The FIFO is read like the bytes handed back, up to the first poll that finds it empty.\<close>

lemma drain_uart_bytes:
  "fst (drain_uart f ps st u) = drain_sync f (arrived (takeWhile (\<lambda>(s, r). s AND STAT_RX_VALID \<noteq> 0) ps)) st"
proof (induction f ps st u rule: drain_uart.induct)
  case (2 f p ps st u)
  obtain v u1 where g: "uart_get_nb p u = (v, u1)" by fastforce
  show ?case
  proof (cases v)
    case None
    then have "\<not> (\<lambda>(s, r). s AND STAT_RX_VALID \<noteq> 0) p" using g by (auto simp: uart_get_nb_def Let_def split: if_splits prod.splits)
    then show ?thesis using g None by simp
  next
    case (Some b)
    then have v: "(\<lambda>(s, r). s AND STAT_RX_VALID \<noteq> 0) p" using g by (auto simp: uart_get_nb_def Let_def split: if_splits prod.splits)
    have a: "arrived [p] = [b]" using get_nb_arrived(2) g Some by blast
    show ?thesis
      using "2.IH" [OF _ g [symmetric] Some] g Some v arrived_Cons [of p "takeWhile (\<lambda>(s, r). s AND STAT_RX_VALID \<noteq> 0) ps"] a
      by simp
  qed
qed simp


text \<open>A candidate is one verdict; \<open>offered\<close> is what the source has seen after a list of reports.\<close>

fun offered :: "'s verdict \<Rightarrow> u64 \<Rightarrow> (u64 \<times> u64) list \<Rightarrow> 's \<Rightarrow> cand list \<times> 's" where
  "offered f off [] src = ([], src)"
| "offered f off ((n, w) # rs) src = (let (v, src) = f (n + off) w src; (vs, src) = offered f off rs src in (v # vs, src))"

lemma length_report [simp]: "length (report r) = RESULT_LEN"
  by (simp add: report_def RESULT_LEN_def)

lemma frame_step_report:
  "frame_step f (report (n, w)) (m, src) =
     (let (v, src) = f (n + nonce_offset m) w src
      in (if v = CAND_BAD then m\<lparr>frames_bad := frames_bad m + 1, bad_run := 0, frames_ok := frames_ok m + 1\<rparr>
          else m\<lparr>candidates_verified := candidates_verified m + 1, bad_run := 0, frames_ok := frames_ok m + 1\<rparr>, src))"
  using get_le64_put [of n "put_u64le w"] get_le64_put [of w "[]"]
  by (simp add: frame_step_def report_def eval_nat_numeral)

text \<open>The assembler after a run of reports, all of them offered to the source in order.\<close>

definition after_reports :: "cand list \<Rightarrow> assembler \<Rightarrow> assembler" where
  "after_reports vs m =
     m\<lparr>frames_ok := frames_ok m + of_nat (length vs),
       frames_bad := frames_bad m + of_nat (length (filter (\<lambda>v. v = CAND_BAD) vs)),
       candidates_verified := candidates_verified m + of_nat (length (filter (\<lambda>v. v \<noteq> CAND_BAD) vs)),
       bad_run := (if vs = [] then bad_run m else 0)\<rparr>"

lemma frames_run_reports:
  "synced m \<Longrightarrow> offered f (nonce_offset m) rs src = (vs, src') \<Longrightarrow>
   frames_run f (map report rs) (m, src) = (after_reports vs m, src')"
proof (induction rs arbitrary: m src vs)
  case Nil
  then show ?case by (simp add: after_reports_def)
next
  case (Cons r rs)
  obtain n w where r: "r = (n, w)" by fastforce
  obtain v src1 where v: "f (n + nonce_offset m) w src = (v, src1)" by fastforce
  obtain vs1 src2 where o: "offered f (nonce_offset m) rs src1 = (vs1, src2)" by fastforce
  have e: "vs = v # vs1" "src' = src2" using Cons.prems(2) r v o by simp_all
  let ?m = "if v = CAND_BAD then m\<lparr>frames_bad := frames_bad m + 1, bad_run := 0, frames_ok := frames_ok m + 1\<rparr>
          else m\<lparr>candidates_verified := candidates_verified m + 1, bad_run := 0, frames_ok := frames_ok m + 1\<rparr>"
  have "frames_run f (map report (r # rs)) (m, src) = frames_run f (map report rs) (?m, src1)"
    using Cons.prems(1) r v by (simp add: frame_step_report)
  also have "\<dots> = (after_reports vs1 ?m, src2)" using Cons.IH [of ?m src1 vs1] Cons.prems(1) o e by simp
  also have "after_reports vs1 ?m = after_reports vs m"
    by (cases m) (simp add: after_reports_def e add_ac)
  finally show ?case using e by simp
qed

lemma length_concat_frames: "\<forall>x \<in> set xs. length x = n \<Longrightarrow> length (concat xs) = n * length xs"
  by (induction xs) simp_all

lemma replay_whole_frames:
  assumes "length t < RESULT_LEN" "\<forall>x \<in> set xs. length x = RESULT_LEN"
  shows "drop (replay_start (t @ concat xs)) (t @ concat xs) = concat xs"
proof -
  have l: "length (concat xs) = RESULT_LEN * length xs" using assms(2) by (rule length_concat_frames)
  then have "length (t @ concat xs) div RESULT_LEN = length xs" using assms(1) by (simp add: RESULT_LEN_def)
  then have "replay_start (t @ concat xs) = length t" using l by (simp add: replay_start_def)
  then show ?thesis by simp
qed

text \<open>A burst that fits the buffer, and then silence, always ends at the gap.\<close>

lemma silence_ends:
  assumes "buf \<noteq> []" "length buf < NSYNC" "n < 15"
  shows "\<exists>u'. sync_collect q (replicate (15 - n) (0, 0)) (200 * n) buf u = (At_gap, buf, u')"
  using assms(3)
proof (induction "15 - n" arbitrary: n u)
  case (Suc k)
  have g: "uart_get_nb (0, 0) u = (None, u)" by (simp add: uart_get_nb_def)
  have r: "replicate (15 - n) (0 :: u32, 0 :: u32) = (0, 0) # replicate (15 - Suc n) (0, 0)"
    using Suc.prems by (simp flip: replicate_Suc add: Suc_diff_Suc)
  show ?case
  proof (cases "n = 14")
    case True
    then show ?thesis using assms g by simp
  next
    case False
    then have "\<exists>u'. sync_collect q (replicate (15 - Suc n) (0, 0)) (200 * Suc n) buf u = (At_gap, buf, u')"
      using Suc.hyps(2) Suc.prems by (intro Suc.hyps(1)) simp_all
    then show ?thesis using False assms g Suc.prems unfolding r by (simp add: Let_def add.commute)
  qed
qed simp

lemma burst_collected:
  assumes "\<forall>p \<in> set ps. fst p AND STAT_RX_VALID \<noteq> 0" "length buf + length ps < NSYNC"
  shows "\<exists>u'. sync_collect q (ps @ qs) 0 buf u = sync_collect q qs 0 (buf @ arrived ps) u'"
  using assms
proof (induction ps arbitrary: buf u)
  case (Cons p ps)
  obtain b u1 where g: "uart_get_nb p u = (Some b, u1)"
    using Cons.prems(1) by (cases p) (auto simp: uart_get_nb_def Let_def)
  have a: "arrived (p # ps) = b # arrived ps" using get_nb_arrived(2) [OF g] arrived_Cons [of p ps] by simp
  show ?case
    using Cons.IH [of "buf @ [b]" u1] Cons.prems g a by (simp add: Let_def)
qed auto

text \<open>The line as a list of bytes ready to be read.\<close>

definition on_line_bytes :: "bytes \<Rightarrow> poll list" where
  "on_line_bytes bs = map (\<lambda>b. (STAT_RX_VALID, ucast b)) bs"

lemma ucast_and_ff: "ucast (ucast (b :: u8) AND (0xff :: u32)) = b"
proof -
  have m: "(0xff :: u32) = mask 8" by (simp add: mask_eq_exp_minus_1)
  show ?thesis unfolding m by (rule bit_word_eqI) (auto simp: bit_simps)
qed

lemma arrived_on_line [simp]: "arrived (on_line_bytes bs) = bs"
  by (simp add: arrived_def on_line_bytes_def comp_def STAT_RX_VALID_def ucast_and_ff)

lemma length_on_line [simp]: "length (on_line_bytes bs) = length bs"
  by (simp add: on_line_bytes_def)

lemma line_collected:
  "length bs < NSYNC \<Longrightarrow> \<exists>u'. sync_collect q (on_line_bytes bs @ qs) 0 [] u = sync_collect q qs 0 bs u'"
proof -
  assume l: "length bs < NSYNC"
  have "\<forall>p \<in> set (on_line_bytes bs). fst p AND STAT_RX_VALID \<noteq> 0" by (auto simp: on_line_bytes_def STAT_RX_VALID_def)
  then show ?thesis using burst_collected [of "on_line_bytes bs" "[]" q qs u] l by simp
qed

lemma frame_sync_burst:
  assumes "bs \<noteq> []" "length bs < NSYNC"
  shows "\<exists>u'. frame_sync (on_line_bytes bs @ replicate 15 (0, 0)) skips reads q s u = (True, bs, s\<lparr>sync_gap := sync_gap s + 1\<rparr>, u')"
proof -
  obtain u1 where "sync_collect q (on_line_bytes bs @ replicate 15 (0, 0)) 0 [] u = sync_collect q (replicate 15 (0, 0)) 0 bs u1"
    using line_collected [OF assms(2)] by blast
  moreover obtain u' where "sync_collect q (replicate 15 (0, 0)) 0 bs u1 = (At_gap, bs, u')"
    using silence_ends [OF assms, of 0 q u1] by auto
  ultimately show ?thesis by (simp add: frame_sync_def)
qed

lemma frame_sync_dense:
  assumes "RESULT_LEN * 4 \<le> length bs" "length bs < NSYNC" "length bs div RESULT_LEN \<le> bucket bs (best_residue bs) * 2"
    and "lock_skip bs \<le> length (arrived skips)"
  shows "fst (snd (sync_collect q (on_line_bytes bs) 0 [] u)) = bs \<and>
    (\<exists>u'. frame_sync (on_line_bytes bs) skips reads q s u =
       (True, take (RESULT_LEN * 8) (arrived reads), s\<lparr>sync_locked := sync_locked s + 1\<rparr>, u'))"
proof -
  obtain u1 where c: "sync_collect q (on_line_bytes bs) 0 [] u = (No_gap, bs, u1)"
    using line_collected [OF assms(2), of q "[]" u] by auto
  obtain u2 where sk: "skip_bytes (lock_skip bs) skips u1 = (True, u2)"
    using skip_bytes_iff [of "lock_skip bs" skips u1] assms(4) by (metis prod.collapse)
  obtain u3 where "read_bytes (RESULT_LEN * 8) reads [] u2 = (take (RESULT_LEN * 8) (arrived reads), u3)"
    using read_bytes_eq [of "RESULT_LEN * 8" reads "[]" u2] by (metis append_Nil prod.collapse)
  then show ?thesis using c sk assms(1,3) by (simp add: frame_sync_def not_less Let_def)
qed

section \<open>Properties\<close>

text \<open>
  C13: no candidate is lost to synchronising on a gap, as long as no more bytes came than the 136 the loop's buffer holds (a longer burst overruns that
  buffer, and nothing is claimed of it).  When the loop aligns on such a gap, the bytes handed back are all
  the bytes that arrived up to fifteen empty polls in a row, and the device has counted exactly those.  If they are a fragment shorter
  than a frame followed by whole reports, replaying them as the loop does skips exactly the fragment and offers
  every report to the work source, once, in order and with the calibrated offset added, and counts each verdict.
\<close>

theorem gap_sync_delivers:
  assumes "frame_sync polls skips reads quiet_ok s u = (ok, buf, s', u')" "sync_gap s' \<noteq> sync_gap s" "length buf \<le> SYNCBUF"
    and "buf = fragment @ concat (map report rs)" "length fragment < RESULT_LEN"
    and "frame m = []" "synced m" "offered f (nonce_offset m) rs src = (vs, src')"
  shows "ok \<and> (\<exists>k \<le> length polls. buf = arrived (take k polls) \<and> ends_in_gap (take k polls)) \<and>
     rx_bytes u' = rx_bytes u + of_nat (length buf) \<and>
     drain_sync f (drop (replay_start buf) buf) (m, src) = (after_reports vs m, src')"
proof -
  obtain e b1 u1 where c: "sync_collect quiet_ok polls 0 [] u = (e, b1, u1)" by (metis prod_cases3)
  have g: "e = At_gap" "ok" "b1 = buf" "u1 = u'"
    using assms(1,2) c by (auto simp: frame_sync_def Let_def split: sync_end.splits if_splits prod.splits bool.splits)
  have "drop (replay_start buf) buf = concat (map report rs)"
    using replay_whole_frames [OF assms(5), of "map report rs"] assms(4) by simp
  then have "drain_sync f (drop (replay_start buf) buf) (m, src) = (after_reports vs m, src')"
    using drain_sync_frames [OF assms(6), of "map report rs" f src] frames_run_reports [OF assms(7,8)] by simp
  then show ?thesis using sync_collect_start [OF c] g by (auto simp: collected_def)
qed

text \<open>
  C14: the histogram lock is right when the flag stands out.  On a dense stream that is a fragment, whole frames and the beginning of
  another, if the flag byte shows up in the collected burst more often at the position of the frames' first byte than
  at any other position modulo the frame length, then the bytes read after the discarded ones resume exactly at the start of a frame,
  and what is handed back starts there.  The mining loop replays all of it when eight frames arrived; when fewer
  bytes did and they end inside a frame, it skips as many bytes as that partial frame has, at the start, where the boundary was.
\<close>

theorem dense_lock_aligns:
  assumes "frame_sync polls skips reads quiet_ok s u = (True, out, s', u')" "sync_locked s' \<noteq> sync_locked s"
    and "fst (snd (sync_collect quiet_ok polls 0 [] u)) = buf"
    and "buf @ take (lock_skip buf) (arrived skips) @ arrived reads = fragment @ concat fs @ rest"
    and "length fragment < RESULT_LEN" "length rest < RESULT_LEN"
    and "\<forall>x \<in> set fs. length x = RESULT_LEN"
    and "\<forall>i < RESULT_LEN. i \<noteq> length fragment \<longrightarrow> bucket buf i < bucket buf (length fragment)"
  shows "\<exists>j \<le> length fs. arrived reads = concat (drop j fs) @ rest \<and> out = take (RESULT_LEN * 8) (concat (drop j fs) @ rest) \<and>
     replay_start out = (if RESULT_LEN * 8 \<le> length (arrived reads) then 0 else length rest)"
proof -
  obtain e b1 u1 where c: "sync_collect quiet_ok polls 0 [] u = (e, b1, u1)" by (metis prod_cases3)
  then have b: "b1 = buf" using assms(3) by simp
  obtain u2 where sk: "skip_bytes (lock_skip buf) skips u1 = (True, u2)" and o: "out = fst (read_bytes (RESULT_LEN * 8) reads [] u2)"
    using assms(1,2) c b by (auto simp: frame_sync_def Let_def split: sync_end.splits if_splits prod.splits bool.splits)
  have out: "out = take (RESULT_LEN * 8) (arrived reads)" using o read_bytes_eq [of _ _ "[]"] by simp
  have n: "lock_skip buf \<le> length (arrived skips)" using skip_bytes_iff [of "lock_skip buf" skips u1] sk by simp
  let ?p = "length buf + lock_skip buf"
  have best: "best_residue buf = length fragment" using best_residue_unique assms(5,8) by blast
  have p: "?p mod RESULT_LEN = length fragment" using lock_skip_aligns [of buf] best assms(5) by simp
  obtain j where j: "?p = length fragment + RESULT_LEN * j"
    using mult_div_mod_eq [of RESULT_LEN ?p] p by (metis add.commute)
  note l = length_concat_frames
  have tot: "?p + length (arrived reads) = length fragment + RESULT_LEN * length fs + length rest"
    using arg_cong [OF assms(4), of length] n l [OF assms(7)] by simp
  then have jle: "j \<le> length fs" using j assms(6) by (simp add: RESULT_LEN_def)
  have cs: "concat fs = concat (take j fs) @ concat (drop j fs)" by (simp flip: concat_append)
  have "length (concat (take j fs)) = RESULT_LEN * j" using l [of "take j fs" RESULT_LEN] assms(7) jle in_set_takeD [of _ j fs] by auto
  then have drp: "drop (RESULT_LEN * j) (concat (take j fs) @ x) = x" for x by simp
  have "arrived reads = drop ?p (fragment @ concat fs @ rest)" using arg_cong [OF assms(4), of "drop ?p"] n by simp
  also have "\<dots> = drop (RESULT_LEN * j) (concat fs @ rest)" using j by simp
  also have "\<dots> = drop (RESULT_LEN * j) (concat (take j fs) @ concat (drop j fs) @ rest)"
    by (subst cs) simp
  also have "\<dots> = concat (drop j fs) @ rest"
    by (rule drp)
  finally have r: "arrived reads = concat (drop j fs) @ rest" .
  have lr: "length (arrived reads) = RESULT_LEN * (length fs - j) + length rest"
    using r l [of "drop j fs" RESULT_LEN] assms(7) in_set_dropD [of _ j fs] by auto
  have "replay_start out = length out mod RESULT_LEN"
    unfolding replay_start_def by (metis minus_div_mult_eq_mod)
  also have "\<dots> = (if RESULT_LEN * 8 \<le> length (arrived reads) then 0 else length rest)"
    using lr assms(6) by (simp add: out min_def)
  finally show ?thesis using jle out r by auto
qed

text \<open>
  a silent line.  When nothing arrives, nothing is consumed; the mining loop, which accepts quiet, succeeds after fifteen
  polls, and the loopback search, which does not, never succeeds however long it waits.
\<close>

theorem quiet_line_is_alignment_only:
  assumes "arrived polls = []" "15 \<le> length polls"
    and "frame_sync polls skips reads quiet_ok s u = (ok, out, s', u')"
  shows "ok = quiet_ok \<and> out = [] \<and> rx_bytes u' = rx_bytes u \<and>
     s' = (if quiet_ok then s\<lparr>sync_quiet := sync_quiet s + 1\<rparr> else s\<lparr>sync_failed := sync_failed s + 1\<rparr>)"
proof -
  obtain e b1 u1 where c: "sync_collect quiet_ok polls 0 [] u = (e, b1, u1)" by (metis prod_cases3)
  have k: "arrived (take k polls) = []" for k
    using assms(1) arrived_simps(2) [of "take k polls" "drop k polls"] by simp
  have b: "b1 = []" "rx_bytes u1 = rx_bytes u" "e \<noteq> At_gap" "e = At_quiet \<longrightarrow> quiet_ok"
    using sync_collect_start [OF c] k by (auto simp: collected_def)
  have q: "e = At_quiet" if quiet_ok using silent_line [of polls 0 u] assms(1,2) c that by simp
  show ?thesis using assms(3) c b q by (cases e) (auto simp: frame_sync_def RESULT_LEN_def)
qed

text \<open>
  how much is handed back.  Never more than 511 bytes; but as much as that does happen, whenever a burst of
  any 511 bytes is followed by silence, while the mining loop's buffer holds \<^verbatim>\<open>RESULT_LEN * 8 = 136\<close>.
\<close>

theorem sync_result_size:
  "(\<forall>ok out s' u'. frame_sync polls skips reads quiet_ok s u = (ok, out, s', u') \<longrightarrow> length out \<le> 511) \<and>
   (length bs = 511 \<longrightarrow> (\<exists>u'. frame_sync (on_line_bytes bs @ replicate 15 (0, 0)) skips reads quiet_ok s u =
      (True, bs, s\<lparr>sync_gap := sync_gap s + 1\<rparr>, u')) \<and> RESULT_LEN * 8 < length bs)"
proof (intro conjI allI impI)
  fix ok out s' u' assume a: "frame_sync polls skips reads quiet_ok s u = (ok, out, s', u')"
  obtain e b1 u1 where c: "sync_collect quiet_ok polls 0 [] u = (e, b1, u1)" by (metis prod_cases3)
  have "e = At_gap \<longrightarrow> length b1 < NSYNC" using sync_collect_start [OF c] by (auto simp: collected_def)
  moreover have "length (fst (read_bytes (RESULT_LEN * 8) reads [] u2)) \<le> 511" for u2
    by (simp add: read_bytes_eq RESULT_LEN_def)
  ultimately show "length out \<le> 511"
    using a c by (auto simp: frame_sync_def NSYNC_def Let_def split: sync_end.splits if_splits prod.splits bool.splits) (metis fst_conv)
next
  assume "length bs = 511"
  then show "\<exists>u'. frame_sync (on_line_bytes bs @ replicate 15 (0, 0)) skips reads quiet_ok s u = (True, bs, s\<lparr>sync_gap := sync_gap s + 1\<rparr>, u')"
    by (intro frame_sync_burst) (auto simp: NSYNC_def)
qed (simp add: RESULT_LEN_def)

definition fresh_assembler :: assembler where
  "fresh_assembler = \<lparr>frame = [], synced = True, bad_run = 0, frames_ok = 0, frames_bad = 0, candidates_verified = 0, nonce_offset = 97\<rparr>"

definition no_syncs :: sync_stats where
  "no_syncs = \<lparr>sync_quiet = 0, sync_gap = 0, sync_locked = 0, sync_failed = 0\<rparr>"

definition recorder :: "(u64 \<times> u64) list verdict" where
  "recorder n w src = (if w = 0 then CAND_BAD else CAND_OK, src @ [(n, w)])"

theorem gap_sync_delivers_witness:
  "let buf = [7, 1, 7] @ concat (map report [(5, 9), (6, 0)]) in
   \<exists>u'. frame_sync (on_line_bytes buf @ replicate 15 (0, 0)) [] [] True no_syncs idle_uart = (True, buf, no_syncs\<lparr>sync_gap := 1\<rparr>, u') \<and>
     rx_bytes u' = 37 \<and>
     drain_sync recorder (drop (replay_start buf) buf) (fresh_assembler, []) =
       (after_reports [CAND_OK, CAND_BAD] fresh_assembler, [(102, 9), (103, 0)])"
proof -
  let ?buf = "[7, 1, 7] @ concat (map report [(5, 9), (6, 0)])"
  have l: "length ?buf = 37" by (simp add: RESULT_LEN_def)
  obtain u' where u: "frame_sync (on_line_bytes ?buf @ replicate 15 (0, 0)) [] [] True no_syncs idle_uart = (True, ?buf, no_syncs\<lparr>sync_gap := 1\<rparr>, u')"
    using frame_sync_burst [of ?buf "[]" "[]" True no_syncs idle_uart] l by (auto simp: NSYNC_def no_syncs_def)
  have o: "offered recorder (nonce_offset fresh_assembler) [(5, 9), (6, 0)] [] = ([CAND_OK, CAND_BAD], [(102, 9), (103, 0)])"
    by (simp add: recorder_def fresh_assembler_def)
  show ?thesis
    unfolding Let_def
    using gap_sync_delivers [OF u _ _ refl _ _ _ o] u l
    by (simp add: fresh_assembler_def no_syncs_def RESULT_LEN_def idle_uart_def SYNCBUF_def)
qed

definition dense_line :: bytes where
  "dense_line = [9, 9] @ concat (replicate 6 (report (0, 5)))"

theorem dense_lock_aligns_witness:
  "\<exists>j \<le> 6. fst (snd (frame_sync (on_line_bytes (take 80 dense_line)) (on_line_bytes (take 7 (drop 80 dense_line)))
       (on_line_bytes (drop 87 dense_line)) True no_syncs idle_uart)) = take (RESULT_LEN * 8) (concat (drop j (replicate 6 (report (0, 5)))))"
proof -
  let ?b = "take 80 dense_line" and ?skips = "on_line_bytes (take 7 (drop 80 dense_line))" and ?reads = "on_line_bytes (drop 87 dense_line)"
  have f: "report (0, 5) = [1, 0, 0, 0, 0, 0, 0, 0, 0, 5, 0, 0, 0, 0, 0, 0, 0]" by code_simp
  have l: "dense_line = [9, 9] @ concat (replicate 6 [1, 0, 0, 0, 0, 0, 0, 0, 0, 5, 0, 0, 0, 0, 0, 0, 0])" by (simp add: dense_line_def f)
  have "list_all (\<lambda>i. i = 2 \<or> bucket ?b i < bucket ?b 2) [0..<17]" unfolding l by code_simp
  then have b: "\<forall>i < RESULT_LEN. i \<noteq> 2 \<longrightarrow> bucket ?b i < bucket ?b 2" by (auto simp: list_all_iff RESULT_LEN_def)
  have best: "best_residue ?b = 2" using b by (intro best_residue_unique) (auto simp: RESULT_LEN_def)
  have ll: "length dense_line = 104" by (simp add: l eval_nat_numeral)
  then have len: "length ?b = 80" by simp
  have s: "lock_skip ?b = 7" unfolding lock_skip_def best len by (simp add: RESULT_LEN_def)
  have "4 \<le> bucket ?b 2 * 2" unfolding l by code_simp
  then obtain u' where c: "fst (snd (sync_collect True (on_line_bytes ?b) 0 [] idle_uart)) = ?b"
    and fs: "frame_sync (on_line_bytes ?b) ?skips ?reads True no_syncs idle_uart =
      (True, take (RESULT_LEN * 8) (arrived ?reads), no_syncs\<lparr>sync_locked := sync_locked no_syncs + 1\<rparr>, u')"
    using frame_sync_dense [of ?b ?skips True idle_uart ?reads no_syncs] unfolding best s len by (auto simp: RESULT_LEN_def NSYNC_def ll)
  have split: "?b @ take (lock_skip ?b) (arrived ?skips) @ arrived ?reads = [9, 9] @ concat (replicate 6 (report (0, 5))) @ []"
    unfolding append_Nil2 dense_line_def [symmetric] s arrived_on_line using append_take_drop_id [of 80 dense_line] append_take_drop_id [of 7 "drop 80 dense_line"]
    by (simp flip: dense_line_def)
  have "\<exists>j \<le> length (replicate 6 (report (0, 5))). arrived ?reads = concat (drop j (replicate 6 (report (0, 5)))) @ [] \<and>
      take (RESULT_LEN * 8) (arrived ?reads) = take (RESULT_LEN * 8) (concat (drop j (replicate 6 (report (0, 5)))) @ []) \<and>
      replay_start (take (RESULT_LEN * 8) (arrived ?reads)) = (if RESULT_LEN * 8 \<le> length (arrived ?reads) then 0 else length ([] :: bytes))"
    by (rule dense_lock_aligns [OF fs _ c split]) (use b in \<open>simp_all add: RESULT_LEN_def no_syncs_def numeral_2_eq_2\<close>)
  then show ?thesis using fs by auto
qed

theorem quiet_line_is_alignment_only_witness:
  "fst (frame_sync (replicate 15 (0, 0)) [] [] True no_syncs idle_uart) \<and> \<not> fst (frame_sync (replicate 15 (0, 0)) [] [] False no_syncs idle_uart)"
proof -
  have a: "arrived (replicate 15 (0, 0)) = []" by (simp add: arrived_def)
  have "fst (frame_sync (replicate 15 (0, 0)) [] [] q no_syncs idle_uart) = q" for q
    using quiet_line_is_alignment_only [OF a, of "[]" "[]" q no_syncs idle_uart] by (metis fst_conv length_replicate order_refl prod_cases4)
  then show ?thesis by simp
qed

theorem sync_result_size_witness:
  "\<exists>u'. frame_sync (on_line_bytes (replicate 511 7) @ replicate 15 (0, 0)) [] [] True no_syncs idle_uart =
     (True, replicate 511 7, no_syncs\<lparr>sync_gap := sync_gap no_syncs + 1\<rparr>, u') \<and> RESULT_LEN * 8 < length (replicate 511 (7 :: u8))"
  using sync_result_size [of "[]" "[]" "[]" True no_syncs idle_uart "replicate 511 7"] by simp

end
