(* ===== verification/Loopback.thy ===== *)
theory Loopback
  imports Framing
begin

text \<open>
  The loopback calibration of \<^verbatim>\<open>src/miner/miner.c\<close>: \<^verbatim>\<open>expected_hash_top64\<close>, \<^verbatim>\<open>loopback_verify\<close> and the phase search of
  \<^verbatim>\<open>selftest_loopback\<close>.  What the device shows during one phase is a record.  The dumps and the echo frames, which are
  only logged, and the waits for the transmitter to drain, whose results are only logged, are left out.
\<close>

unbundle bit_operations_syntax

definition NONCE_GUARD :: u64 where "NONCE_GUARD = 256"
definition TX_TIMEOUT_US :: u64 where "TX_TIMEOUT_US = 200000"
definition QUIET_IDLE_US :: u64 where "QUIET_IDLE_US = 2000"
definition QUIET_WAIT_US :: u64 where "QUIET_WAIT_US = 500000"

definition expected_hash_top64 :: "knots_header \<Rightarrow> u64" where
  "expected_hash_top64 h =
     (case stage_inputs h of Inl _ \<Rightarrow> 0 | Inr (s3, s4, ha) \<Rightarrow> acc_bytes (drop 24 (blake2b_nokey s4 32)))"

text \<open>The first offset below 512 that reproduces the reported word.\<close>

definition find_offset :: "knots_header \<Rightarrow> u64 \<Rightarrow> u64 \<Rightarrow> nat option" where
  "find_offset h nonce hash_top64 =
     find (\<lambda>off. expected_hash_top64 (with_nonce h (nonce + of_nat off)) = hash_top64) [0..<512]"

fun scan_windows :: "knots_header \<Rightarrow> bytes \<Rightarrow> nat list \<Rightarrow> nat option" where
  "scan_windows h buf [] = None"
| "scan_windows h buf (w # ws) =
     (if buf ! w \<noteq> 0x01 then scan_windows h buf ws
      else let r = snd (parse_result (drop w buf)) in
      if \<not> r_success r then scan_windows h buf ws
      else if 0 - r_nonce r < NONCE_GUARD then scan_windows h buf ws
      else (case find_offset h (r_nonce r) (r_hash_top64 r) of
              Some off \<Rightarrow> Some off
            | None \<Rightarrow> scan_windows h buf ws))"

definition loopback_verify :: "knots_header \<Rightarrow> bytes \<Rightarrow> nat option" where
  "loopback_verify h buf = scan_windows h buf [0..<length buf + 1 - RESULT_LEN]"

record phase_env =
  stale :: "poll list"
  quiet_from :: u64
  quiet_polls :: "(poll \<times> u64 \<times> u64) list"
  waits :: "u64 list list"
  sync_polls :: "poll list"
  sync_skips :: "poll list"
  sync_reads :: "poll list"
  pad_wait :: "u64 list"

record loopback =
  lb_uart :: uio_uart
  lb_sync :: sync_stats
  lb_items_sent :: u64
  lb_offset :: u64

definition probe_header :: knots_header where
  "probe_header = knots_header_init\<lparr>nBits := 0x1903c2d4, m_height := 969859\<rparr>"

fun loopback_phases :: "knots_header \<Rightarrow> bytes \<Rightarrow> phase_env list \<Rightarrow> loopback \<Rightarrow> bool \<times> loopback" where
  "loopback_phases h item [] st = (False, st)"
| "loopback_phases h item (e # es) st =
     (let u = uart_purge_rx (stale e) (lb_uart st);
          (_, u) = uart_wait_quiet (quiet_from e) QUIET_IDLE_US QUIET_WAIT_US (quiet_polls e) u;
          (ok, u) = uart_write (waits e) TX_TIMEOUT_US item u
      in if \<not> ok then (False, st\<lparr>lb_uart := u\<rparr>)
         else let st = st\<lparr>lb_items_sent := lb_items_sent st + 1\<rparr>;
                  (synced, rx, s, u) = frame_sync (sync_polls e) (sync_skips e) (sync_reads e) False (lb_sync st) u;
                  st = st\<lparr>lb_sync := s\<rparr>
         in case (if synced \<and> length rx \<ge> RESULT_LEN then loopback_verify h rx else None) of
              Some off \<Rightarrow> (True, st\<lparr>lb_uart := u, lb_offset := of_nat off\<rparr>)
            | None \<Rightarrow> let (_, u) = uart_put (pad_wait e) TX_TIMEOUT_US 0x00 u
                      in loopback_phases h item es (st\<lparr>lb_uart := u\<rparr>))"

definition selftest_loopback :: "phase_env list \<Rightarrow> loopback \<Rightarrow> bool \<times> loopback" where
  "selftest_loopback es st =
     (case build_work_item probe_header 0x00FFFFFFFFFFFFFF of
        Inl _ \<Rightarrow> (False, st)
      | Inr item \<Rightarrow> loopback_phases probe_header item (take WORK_ITEM_LEN es) st)"

section \<open>Soundness of the scan\<close>

text \<open>A window that reproduces: a result frame clear of the seed whose word is the software's at that offset.\<close>

definition reproduces :: "knots_header \<Rightarrow> bytes \<Rightarrow> nat \<Rightarrow> nat \<Rightarrow> bool" where
  "reproduces h buf w off \<longleftrightarrow> w + RESULT_LEN \<le> length buf \<and> off < 512 \<and> buf ! w = 0x01 \<and>
     0 - get_le64 (drop (w + 1) buf) \<ge> NONCE_GUARD \<and>
     expected_hash_top64 (with_nonce h (get_le64 (drop (w + 1) buf) + of_nat off)) = get_le64 (drop (w + 9) buf)"

lemma parse_window:
  "w < length buf \<Longrightarrow> snd (parse_result (drop w buf)) =
     \<lparr>r_success = (buf ! w = 1), r_nonce = get_le64 (drop (w + 1) buf), r_hash_top64 = get_le64 (drop (w + 9) buf)\<rparr>"
  by (simp add: parse_result_def Let_def add.commute)

lemma find_offset_Some:
  "find_offset h n x = Some off \<Longrightarrow> off < 512 \<and> expected_hash_top64 (with_nonce h (n + of_nat off)) = x"
  by (auto simp: find_offset_def find_Some_iff)

lemma find_offset_None:
  "find_offset h n x = None \<Longrightarrow> off < 512 \<Longrightarrow> expected_hash_top64 (with_nonce h (n + of_nat off)) \<noteq> x"
  by (auto simp: find_offset_def find_None_iff)

lemma scan_windows_sound:
  "scan_windows h buf ws = Some off \<Longrightarrow> \<forall>w \<in> set ws. w + RESULT_LEN \<le> length buf \<Longrightarrow> \<exists>w \<in> set ws. reproduces h buf w off"
proof (induction ws)
  case (Cons w ws)
  have w: "w < length buf" "w + RESULT_LEN \<le> length buf" using Cons.prems(2) by (simp_all add: RESULT_LEN_def)
  show ?case
  proof (cases "scan_windows h buf ws = Some off")
    case False
    then have "reproduces h buf w off"
      using Cons.prems(1) w find_offset_Some
      by (auto simp: parse_window reproduces_def not_less Let_def split: if_splits option.splits)
    then show ?thesis by simp
  qed (use Cons in auto)
qed simp

lemma scan_windows_complete:
  "scan_windows h buf ws = None \<Longrightarrow> w \<in> set ws \<Longrightarrow> \<not> reproduces h buf w off"
proof (induction ws)
  case (Cons v ws)
  show ?case
  proof (cases "w = v")
    case True
    then show ?thesis
      using Cons.prems(1) find_offset_None
      by (auto simp: parse_window reproduces_def RESULT_LEN_def Let_def not_less split: if_splits option.splits)
  next
    case False
    then show ?thesis using Cons by (auto simp: Let_def split: if_splits option.splits)
  qed
qed simp


section \<open>The phase search\<close>

definition no_stall :: "phase_env \<Rightarrow> bool" where
  "no_stall e \<longleftrightarrow> (\<forall>w \<in> set (waits e). \<forall>t \<in> set w. t \<le> TX_TIMEOUT_US) \<and> (\<forall>t \<in> set (pad_wait e). t \<le> TX_TIMEOUT_US)"

lemma put_wait_ok: "\<forall>t \<in> set ts. t \<le> timeout \<Longrightarrow> fst (put_wait timeout spun ts)"
  by (induction ts arbitrary: spun) (auto simp: not_less)

lemma uart_put_ok: "\<forall>t \<in> set ts. t \<le> timeout \<Longrightarrow> fst (uart_put ts timeout b u) \<and> wire (snd (uart_put ts timeout b u)) = wire u @ [b]"
  using put_wait_ok [of ts timeout 0] by (auto simp: uart_put_def Let_def split: prod.splits bool.splits)

lemma uart_write_ok:
  "\<forall>w \<in> set ws. \<forall>t \<in> set w. t \<le> timeout \<Longrightarrow>
   fst (uart_write ws timeout bs u) \<and> wire (snd (uart_write ws timeout bs u)) = wire u @ bs"
proof (induction bs arbitrary: ws u)
  case (Cons b bs)
  let ?w = "case ws of [] \<Rightarrow> [] | w # _ \<Rightarrow> w"
  have "\<forall>t \<in> set ?w. t \<le> timeout" using Cons.prems by (cases ws) auto
  then obtain u1 where "uart_put ?w timeout b u = (True, u1)" "wire u1 = wire u @ [b]"
    using uart_put_ok [of ?w timeout b u] by (metis prod.collapse)
  moreover have "\<forall>w \<in> set (tl ws). \<forall>t \<in> set w. t \<le> timeout" using Cons.prems by (cases ws) auto
  ultimately show ?case using Cons.IH [of "tl ws" u1] by simp
qed simp

text \<open>
  The bytes a phase gives the scan: what the synchroniser hands back of what the FPGA sent in it, whatever came before.
\<close>

definition handed_back :: "phase_env \<Rightarrow> bytes" where
  "handed_back e = fst (snd (frame_sync (sync_polls e) (sync_skips e) (sync_reads e) False \<lparr>sync_quiet = 0, sync_gap = 0, sync_locked = 0, sync_failed = 0\<rparr> idle_uart))"

lemma sync_collect_device: "fst (sync_collect q ps n buf u) = fst (sync_collect q ps n buf v) \<and> fst (snd (sync_collect q ps n buf u)) = fst (snd (sync_collect q ps n buf v))"
proof (induction ps arbitrary: n buf u v)
  case (Cons p ps)
  have "fst (uart_get_nb p u) = fst (uart_get_nb p v)" by (simp add: uart_get_nb_def Let_def split: prod.split)
  then obtain b u1 v1 where "uart_get_nb p u = (b, u1)" "uart_get_nb p v = (b, v1)" by (metis prod.collapse)
  then show ?case using Cons.IH by (auto simp: Let_def split: option.splits)
qed simp

lemma frame_sync_bytes:
  assumes "frame_sync polls skips reads q s u = (ok, out, s', u')"
  shows "(ok \<or> out = []) \<and> ((\<exists>k. out = arrived (take k polls)) \<or> out = take (RESULT_LEN * 8) (arrived reads)) \<and>
     fst (snd (frame_sync polls skips reads q s2 v)) = out"
proof -
  obtain e b u1 where c: "sync_collect q polls 0 [] u = (e, b, u1)" by (metis prod_cases3)
  obtain v1 where d: "sync_collect q polls 0 [] v = (e, b, v1)" using sync_collect_device [of q polls 0 "[]" u v] c by (metis prod.collapse fst_conv snd_conv)
  have sk: "fst (skip_bytes k skips v1) = fst (skip_bytes k skips u1)" for k by (simp add: skip_bytes_iff)
  have rd: "fst (read_bytes k reads [] x) = take k (arrived reads)" for k x by (simp add: read_bytes_eq)
  have g: "e = At_gap \<Longrightarrow> \<exists>k. b = arrived (take k polls)" using sync_collect_start [OF c] by (auto simp: collected_def)
  have n: "\<exists>k. [] = arrived (take k polls)" by (rule exI [of _ 0]) (simp add: arrived_def)
  note n' = eqTrueI [OF n]
  obtain r1 y1 where k1: "skip_bytes (lock_skip b) skips u1 = (r1, y1)" by fastforce
  obtain y2 where k2: "skip_bytes (lock_skip b) skips v1 = (r1, y2)" 
    by (rule that [of "snd (skip_bytes (lock_skip b) skips v1)"]) (simp add: prod_eq_iff sk k1)
  obtain z1 z2 where r: "read_bytes (RESULT_LEN * 8) reads [] y1 = (take (RESULT_LEN * 8) (arrived reads), z1)"
    "read_bytes (RESULT_LEN * 8) reads [] y2 = (take (RESULT_LEN * 8) (arrived reads), z2)"
    by (intro that [of "snd (read_bytes (RESULT_LEN * 8) reads [] y1)" "snd (read_bytes (RESULT_LEN * 8) reads [] y2)"]) (simp_all add: prod_eq_iff rd)
  show ?thesis
  proof (cases e)
    case At_gap
    then show ?thesis using assms g by (simp add: frame_sync_def c d)
  next
    case At_quiet
    then show ?thesis using assms n by (simp add: frame_sync_def c d)
  next
    case No_gap
    then show ?thesis using assms by (auto simp: n' frame_sync_def c d k1 k2 r Let_def split: if_splits bool.splits)
  qed
qed

lemma handed_back_eq: "frame_sync (sync_polls e) (sync_skips e) (sync_reads e) False s u = (ok, rx, s', u') \<Longrightarrow> rx = handed_back e \<and> (ok \<or> rx = [])"
  using frame_sync_bytes unfolding handed_back_def by metis

lemma handed_back_line: "(\<exists>k. handed_back e = arrived (take k (sync_polls e))) \<or> handed_back e = take (RESULT_LEN * 8) (arrived (sync_reads e))"
  using frame_sync_bytes unfolding handed_back_def by (metis prod.collapse)

text \<open>One phase that does not stall: the item goes out, and then either the search ends or one pad byte follows.\<close>

lemma loopback_phase:
  assumes "no_stall e"
  obtains u s where "wire u = wire (lb_uart st) @ item"
    and "(\<exists>off. loopback_verify h (handed_back e) = Some off \<and> loopback_phases h item (e # es) st =
            (True, st\<lparr>lb_items_sent := lb_items_sent st + 1, lb_sync := s, lb_uart := u, lb_offset := of_nat off\<rparr>)) \<or>
         (\<exists>u'. wire u' = wire u @ [0] \<and> loopback_verify h (handed_back e) = None \<and> loopback_phases h item (e # es) st =
            loopback_phases h item es (st\<lparr>lb_items_sent := lb_items_sent st + 1, lb_sync := s, lb_uart := u'\<rparr>))"
proof -
  define u0 where "u0 = snd (uart_wait_quiet (quiet_from e) QUIET_IDLE_US QUIET_WAIT_US (quiet_polls e) (uart_purge_rx (stale e) (lb_uart st)))"
  have w0: "wire u0 = wire (lb_uart st)" by (simp add: u0_def wait_quiet_wire purge_wire)
  obtain u1 where u1: "uart_write (waits e) TX_TIMEOUT_US item u0 = (True, u1)" "wire u1 = wire u0 @ item"
    using uart_write_ok [of "waits e" TX_TIMEOUT_US item u0] assms unfolding no_stall_def by (metis prod.collapse)
  obtain sy rx s u2 where fs: "frame_sync (sync_polls e) (sync_skips e) (sync_reads e) False (lb_sync st) u1 = (sy, rx, s, u2)"
    by (metis prod_cases4)
  have rx: "rx = handed_back e" "sy \<or> rx = []" using handed_back_eq [OF fs] by auto
  have w2: "wire u2 = wire (lb_uart st) @ item" using frame_sync_wire [OF fs] u1(2) w0 by simp
  obtain u3 where u3: "uart_put (pad_wait e) TX_TIMEOUT_US 0 u2 = (True, u3)" "wire u3 = wire u2 @ [0]"
    using uart_put_ok [of "pad_wait e" TX_TIMEOUT_US 0 u2] assms unfolding no_stall_def by (metis prod.collapse)
  have short: "loopback_verify h rx = None" if "length rx < RESULT_LEN" using that by (simp add: loopback_verify_def)
  then have v: "(if sy \<and> length rx \<ge> RESULT_LEN then loopback_verify h rx else None) = loopback_verify h (handed_back e)"
    using rx by (auto simp: not_le RESULT_LEN_def)
  have "loopback_phases h item (e # es) st =
     (case (if sy \<and> length rx \<ge> RESULT_LEN then loopback_verify h rx else None) of
        Some off \<Rightarrow> (True, st\<lparr>lb_items_sent := lb_items_sent st + 1, lb_sync := s, lb_uart := u2, lb_offset := of_nat off\<rparr>)
      | None \<Rightarrow> loopback_phases h item es (st\<lparr>lb_items_sent := lb_items_sent st + 1, lb_sync := s, lb_uart := u3\<rparr>))"
    using u1(1) fs u3(1) by (simp add: Let_def split_beta flip: u0_def split: option.splits)
  note step = this [unfolded v]
  show thesis
  proof (cases "loopback_verify h (handed_back e)")
    case None
    then show thesis by (intro that [of u2 s] disjI2 exI [of _ u3]) (use w2 step u3(2) in simp_all)
  next
    case (Some off)
    then show thesis by (intro that [of u2 s] disjI1 exI [of _ off]) (use w2 step in simp_all)
  qed
qed

declare loopback_phases.simps(2) [simp del]

lemma loopback_run:
  assumes "\<forall>e \<in> set es. no_stall e" "loopback_phases h item es st = (ok, st')"
  shows "\<exists>p \<le> length es. wire (lb_uart st') = wire (lb_uart st) @ concat (replicate p (item @ [0])) @ (if ok then item else []) \<and>
     lb_items_sent st' = lb_items_sent st + of_nat p + of_bool ok \<and> (p < length es \<longleftrightarrow> ok) \<and>
     (\<forall>q < p. loopback_verify h (handed_back (es ! q)) = None) \<and>
     (ok \<longrightarrow> (\<exists>off. loopback_verify h (handed_back (es ! p)) = Some off \<and> lb_offset st' = of_nat off))"
  using assms
proof (induction es arbitrary: st)
  case (Cons e es)
  obtain u s where u: "wire u = wire (lb_uart st) @ item"
    and c: "(\<exists>off. loopback_verify h (handed_back e) = Some off \<and> loopback_phases h item (e # es) st =
            (True, st\<lparr>lb_items_sent := lb_items_sent st + 1, lb_sync := s, lb_uart := u, lb_offset := of_nat off\<rparr>)) \<or>
         (\<exists>u'. wire u' = wire u @ [0] \<and> loopback_verify h (handed_back e) = None \<and> loopback_phases h item (e # es) st =
            loopback_phases h item es (st\<lparr>lb_items_sent := lb_items_sent st + 1, lb_sync := s, lb_uart := u'\<rparr>))"
    by (rule loopback_phase [of e st item h es]) (use Cons.prems(1) in auto)
  from c show ?case
  proof (elim disjE exE conjE)
    fix off assume v: "loopback_verify h (handed_back e) = Some off" and l: "loopback_phases h item (e # es) st =
            (True, st\<lparr>lb_items_sent := lb_items_sent st + 1, lb_sync := s, lb_uart := u, lb_offset := of_nat off\<rparr>)"
    then show ?thesis using u Cons.prems(2) by (intro exI [of _ 0]) auto
  next
    fix u' assume w: "wire u' = wire u @ [0]" and v: "loopback_verify h (handed_back e) = None" and l: "loopback_phases h item (e # es) st =
            loopback_phases h item es (st\<lparr>lb_items_sent := lb_items_sent st + 1, lb_sync := s, lb_uart := u'\<rparr>)"
    obtain p where p: "p \<le> length es" "wire (lb_uart st') = wire u' @ concat (replicate p (item @ [0])) @ (if ok then item else [])"
      "lb_items_sent st' = lb_items_sent st + 1 + of_nat p + of_bool ok" "p < length es \<longleftrightarrow> ok"
      "\<forall>q < p. loopback_verify h (handed_back (es ! q)) = None"
      "ok \<longrightarrow> (\<exists>off. loopback_verify h (handed_back (es ! p)) = Some off \<and> lb_offset st' = of_nat off)"
      using Cons.IH [of "st\<lparr>lb_items_sent := lb_items_sent st + 1, lb_sync := s, lb_uart := u'\<rparr>"] Cons.prems l by auto
    moreover have "\<forall>q < Suc p. loopback_verify h (handed_back ((e # es) ! q)) = None" using v p(5) by (auto simp: nth_Cons less_Suc_eq_0_disj split: nat.splits)
    ultimately show ?thesis using w u by (intro exI [of _ "Suc p"]) (simp add: add_ac)
  qed
qed simp

lemma verify_reproduces: "loopback_verify h buf = Some off \<Longrightarrow> \<exists>w. reproduces h buf w off"
  using scan_windows_sound [of h buf "[0..<length buf + 1 - RESULT_LEN]" off] by (fastforce simp: loopback_verify_def RESULT_LEN_def)

lemma verify_nothing: "loopback_verify h buf = None \<Longrightarrow> \<not> reproduces h buf w off"
proof
  assume n: "loopback_verify h buf = None" and r: "reproduces h buf w off"
  then have "w \<in> set [0..<length buf + 1 - RESULT_LEN]" by (auto simp: reproduces_def RESULT_LEN_def)
  then show False using scan_windows_complete [OF n [unfolded loopback_verify_def]] r by blast
qed

lemma length_pads: "length item = n \<Longrightarrow> length (concat (replicate p (item @ [0]))) = p * Suc n"
  by (induction p) simp_all

text \<open>Each phase moves the receiver's counter by one byte, so one phase out of the item's length is aligned.\<close>

lemma one_phase_aligned:
  assumes "0 < n"
  shows "\<exists>!p. p < n \<and> n dvd c + p * Suc n"
proof
  have r: "c mod n < n" using assms by simp
  let ?p = "(n - c mod n) mod n"
  have e: "c + ?p * Suc n = c + ?p + n * ?p" by (simp add: algebra_simps)
  moreover have "n dvd c + ?p" by (simp add: dvd_eq_mod_eq_0 mod_add_right_eq) (metis add.commute le_add_diff_inverse2 less_imp_le_nat mod_add_left_eq mod_self r)
  ultimately show "?p < n \<and> n dvd c + ?p * Suc n" using assms by (metis dvd_add dvd_triv_left mod_less_divisor)
  fix q assume q: "q < n \<and> n dvd c + q * Suc n"
  then have "n dvd c + q" by (metis add.assoc dvd_add_left_iff dvd_triv_right mult_Suc_right)
  then have "int n dvd (int c + int q) - (int c + int ?p)" using \<open>n dvd c + ?p\<close> by (intro dvd_diff) (simp_all flip: of_nat_add)
  then have "int n dvd int q - int ?p" by simp
  moreover have "\<bar>int q - int ?p\<bar> < int n" using q mod_less_divisor [OF assms, of "n - c mod n"] by linarith
  ultimately have "int q - int ?p = 0" by (metis abs_ge_zero abs_of_nat dvd_imp_le_int linorder_not_less)
  then show "q = ?p" by simp
qed

lemma probe_item: "\<exists>item. build_work_item probe_header tgt = Inr item \<and> length item = WORK_ITEM_LEN"
proof -
  have "wf_header probe_header" "m_flags probe_header AND 3 = 0"
    by (simp_all add: probe_header_def wf_header_def knots_header_init_def)
  then show ?thesis using build_work_item_total [of probe_header tgt] by simp
qed

section \<open>Properties\<close>

text \<open>
  The scan misses nothing and claims nothing.  It returns an offset exactly when some window of the
  bytes is a result frame clear of the nonce seed whose reported word the software reproduces at an offset below 512, and the
  offset returned is one that reproduces a window.
\<close>

theorem loopback_verify_correct:
  "(case loopback_verify h buf of Some off \<Rightarrow> \<exists>w. reproduces h buf w off | None \<Rightarrow> \<not> (\<exists>w off. reproduces h buf w off))"
  by (auto simp: verify_reproduces verify_nothing split: option.split)

text \<open>
  C15: the phase search.  Wherever the receiver's byte counter stands, exactly one of the 168 phases starts an item on a
  boundary.  While the transmitter does not stall, the search goes through the phases in order, sending the item and a pad byte in each, and stops right after
  the item of the first phase in which the bytes the FPGA sent, as the synchroniser hands them back, contain a window that the software reproduces:
  a result frame clear of the nonce seed whose word is the hash the software computes at an offset below 512.  The calibrated offset is that of a window of
  those very bytes.  It fails exactly when no phase has such a window, after all 168 were tried.
  If it stops at the aligned phase, the receiver has assembled exactly the probe item and stands on a boundary again, ready for mining.
\<close>

theorem phase_search_correct:
  assumes "length es = WORK_ITEM_LEN" "\<forall>e \<in> set es. no_stall e" "build_work_item probe_header 0x00FFFFFFFFFFFFFF = Inr item"
    and "selftest_loopback es st = (ok, st')"
  shows "(\<exists>!p. p < WORK_ITEM_LEN \<and> WORK_ITEM_LEN dvd length (wire (lb_uart st) @ concat (replicate p (item @ [0])))) \<and>
    (\<exists>p \<le> WORK_ITEM_LEN. wire (lb_uart st') = wire (lb_uart st) @ concat (replicate p (item @ [0])) @ (if ok then item else []) \<and>
       (p < WORK_ITEM_LEN \<longleftrightarrow> ok) \<and>
       (\<forall>q < p. \<forall>w off. \<not> reproduces probe_header (handed_back (es ! q)) w off) \<and>
       (ok \<longrightarrow> (\<exists>rx w off. rx = handed_back (es ! p) \<and>
          ((\<exists>k. rx = arrived (take k (sync_polls (es ! p)))) \<or> rx = take (RESULT_LEN * 8) (arrived (sync_reads (es ! p)))) \<and>
          reproduces probe_header rx w off \<and> lb_offset st' = of_nat off)) \<and>
       (ok \<and> WORK_ITEM_LEN dvd length (wire (lb_uart st) @ concat (replicate p (item @ [0]))) \<longrightarrow>
          WORK_ITEM_LEN dvd length (wire (lb_uart st')) \<and>
          received WORK_ITEM_LEN (wire (lb_uart st')) =
            received WORK_ITEM_LEN (wire (lb_uart st) @ concat (replicate p (item @ [0]))) @ [item]))"
proof (intro conjI)
  have l: "length item = WORK_ITEM_LEN" using probe_item [of "0x00FFFFFFFFFFFFFF"] assms(3) by simp
  have pos: "0 < WORK_ITEM_LEN" by (simp add: WORK_ITEM_LEN_def)
  show "\<exists>!p. p < WORK_ITEM_LEN \<and> WORK_ITEM_LEN dvd length (wire (lb_uart st) @ concat (replicate p (item @ [0])))"
    using one_phase_aligned [OF pos, of "length (wire (lb_uart st))"] length_pads [OF l] by simp
  have whole: "WORK_ITEM_LEN dvd length (x @ item) \<and> received WORK_ITEM_LEN (x @ item) = received WORK_ITEM_LEN x @ [item]"
    if "WORK_ITEM_LEN dvd length x" for x
    using received_aligned [OF pos that l, of "[]"] received_short [of "[]" WORK_ITEM_LEN] pos that l by simp
  have "loopback_phases probe_header item es st = (ok, st')"
    using assms(1,3,4) by (simp add: selftest_loopback_def)
  then obtain p where p: "p \<le> WORK_ITEM_LEN" "p < WORK_ITEM_LEN \<longleftrightarrow> ok"
      "wire (lb_uart st') = wire (lb_uart st) @ concat (replicate p (item @ [0])) @ (if ok then item else [])"
      "\<forall>q < p. loopback_verify probe_header (handed_back (es ! q)) = None"
      "ok \<longrightarrow> (\<exists>off. loopback_verify probe_header (handed_back (es ! p)) = Some off \<and> lb_offset st' = of_nat off)"
    using loopback_run [OF assms(2)] assms(1) by metis
  show "\<exists>p \<le> WORK_ITEM_LEN. wire (lb_uart st') = wire (lb_uart st) @ concat (replicate p (item @ [0])) @ (if ok then item else []) \<and>
       (p < WORK_ITEM_LEN \<longleftrightarrow> ok) \<and>
       (\<forall>q < p. \<forall>w off. \<not> reproduces probe_header (handed_back (es ! q)) w off) \<and>
       (ok \<longrightarrow> (\<exists>rx w off. rx = handed_back (es ! p) \<and>
          ((\<exists>k. rx = arrived (take k (sync_polls (es ! p)))) \<or> rx = take (RESULT_LEN * 8) (arrived (sync_reads (es ! p)))) \<and>
          reproduces probe_header rx w off \<and> lb_offset st' = of_nat off)) \<and>
       (ok \<and> WORK_ITEM_LEN dvd length (wire (lb_uart st) @ concat (replicate p (item @ [0]))) \<longrightarrow>
          WORK_ITEM_LEN dvd length (wire (lb_uart st')) \<and>
          received WORK_ITEM_LEN (wire (lb_uart st')) =
            received WORK_ITEM_LEN (wire (lb_uart st) @ concat (replicate p (item @ [0]))) @ [item])"
    using p(1-3) p(5) verify_nothing p(4) verify_reproduces handed_back_line whole [of "wire (lb_uart st) @ concat (replicate p (item @ [0]))"]
    by (intro exI [of _ p] conjI impI allI) (simp_all only: append.assoc if_True if_False, metis+)
qed

definition silent_phase :: phase_env where
  "silent_phase = \<lparr>stale = [], quiet_from = 0, quiet_polls = [((0, 0), 2000, 2000)], waits = [], sync_polls = replicate 20 (0, 0),
     sync_skips = [], sync_reads = [], pad_wait = [3]\<rparr>"

definition loopback_start :: loopback where
  "loopback_start = \<lparr>lb_uart = idle_uart\<lparr>wire := [1, 2, 3]\<rparr>, lb_sync = \<lparr>sync_quiet = 0, sync_gap = 0, sync_locked = 0, sync_failed = 0\<rparr>,
     lb_items_sent = 0, lb_offset = 97\<rparr>"

theorem phase_search_correct_witness:
  "\<exists>item. \<exists>p \<le> WORK_ITEM_LEN. build_work_item probe_header 0x00FFFFFFFFFFFFFF = Inr item \<and>
     wire (lb_uart (snd (selftest_loopback (replicate WORK_ITEM_LEN silent_phase) loopback_start))) =
       [1, 2, 3] @ concat (replicate p (item @ [0])) @
       (if fst (selftest_loopback (replicate WORK_ITEM_LEN silent_phase) loopback_start) then item else [])"
proof -
  let ?es = "replicate WORK_ITEM_LEN silent_phase"
  obtain item where i: "build_work_item probe_header 0x00FFFFFFFFFFFFFF = Inr item" using probe_item by blast
  have n: "\<forall>e \<in> set ?es. no_stall e" by (simp add: no_stall_def silent_phase_def TX_TIMEOUT_US_def)
  have w: "wire (lb_uart loopback_start) = [1, 2, 3]" by (simp add: loopback_start_def)
  show ?thesis using phase_search_correct [OF length_replicate n i prod.collapse [symmetric], of loopback_start] i w by auto
qed

end
