(* ===== verification/Coinbase.thy ===== *)
theory Coinbase
  imports Bech32 Bytecodec Sha256 Hex
begin

text \<open>
  The coinbase transaction (\<^verbatim>\<open>src/miner/coinbase.c\<close>).  The two 1024-byte buffers are written front
  to back without a bound check, so the model returns the bytes written and a theorem bounds
  them.  \<open>parse_tx\<close> and \<open>parse_wtx\<close> read Bitcoin transactions without and with the segwit
  extension; they are the specification of the two serialisations.
\<close>

unbundle bit_operations_syntax

section \<open>Hexadecimal\<close>

definition hex2bin :: "string \<Rightarrow> nat \<Rightarrow> bytes option" where
  "hex2bin hex outsz =
     (let n = length hex in
      if n mod 2 \<noteq> 0 then None
      else if n div 2 > outsz then None
      else hex_pairs hex)"

section \<open>The script\<close>

function height_bytes :: "u32 \<Rightarrow> bytes" where
  "height_bytes h = (if h \<noteq> 0 then ucast (h AND 0xff) # height_bytes (drop_bit 8 h) else [])"
  by pat_completeness auto
termination
proof (relation "measure unat")
  fix h :: u32
  assume "h \<noteq> 0"
  then have "0 < unat h" by (simp add: unat_gt_0)
  then show "(drop_bit 8 h, h) \<in> measure unat" by (simp add: unat_drop_bit_div)
qed simp

declare height_bytes.simps [simp del]

definition push_height :: "u32 \<Rightarrow> bytes" where
  "push_height height =
     (let tmp = height_bytes height;
          tmp = (if length tmp = 0 then tmp @ [0]
                 else if tmp ! (length tmp - 1) AND 0x80 \<noteq> 0 then tmp @ [0]
                 else tmp)
      in of_nat (length tmp) # tmp)"

definition coinbase_script :: "u32 \<Rightarrow> u64 \<Rightarrow> bytes" where
  "coinbase_script height extranonce = push_height height @ [8] @ put_u64le extranonce"

section \<open>The transaction\<close>

record coinbase =
  raw :: bytes
  stripped :: bytes
  txid :: bytes

definition COINBASE_MAX :: nat where "COINBASE_MAX = 1024"

definition coinbase_stripped :: "bytes \<Rightarrow> u64 \<Rightarrow> bytes \<Rightarrow> bytes \<Rightarrow> bytes" where
  "coinbase_stripped script val spk wc =
     put_u32le 2 @ put_compact_cb 1 @ replicate 32 0 @ put_u32le 0xffffffff @
     put_compact_cb (of_nat (length script)) @ script @ put_u32le 0xffffffff @
     put_compact_cb (if length wc \<noteq> 0 then 2 else 1) @
     put_u64le val @ put_compact_cb (of_nat (length spk)) @ spk @
     (if length wc \<noteq> 0 then put_u64le 0 @ put_compact_cb (of_nat (length wc)) @ wc else []) @
     put_u32le 0"

definition coinbase_raw :: "bytes \<Rightarrow> bytes" where
  "coinbase_raw strip =
     (let mid = length strip - 4 - 4 in
      put_u32le 2 @ [0x00] @ [0x01] @ take mid (drop 4 strip) @
      put_compact_cb 1 @ put_compact_cb 32 @ replicate 32 0 @ put_u32le 0)"

definition coinbase_build :: "string \<Rightarrow> u64 \<Rightarrow> u32 \<Rightarrow> u64 \<Rightarrow> string option \<Rightarrow> int + coinbase" where
  "coinbase_build address val height extranonce witness_commitment_hex =
     (case bech32_decode_addr address of
        Inl _ \<Rightarrow> Inl (-2)
      | Inr a \<Rightarrow>
          (case bech32_scriptpubkey a 64 of
             Inl _ \<Rightarrow> Inl (-3)
           | Inr spk \<Rightarrow>
               (case (case witness_commitment_hex of
                        None \<Rightarrow> Some []
                      | Some w \<Rightarrow> if w = [] then Some [] else hex2bin w 64) of
                  None \<Rightarrow> Inl (-4)
                | Some wc \<Rightarrow>
                    let strip = coinbase_stripped (coinbase_script height extranonce) val spk wc
                    in Inr \<lparr>raw = coinbase_raw strip, stripped = strip, txid = sha256d strip\<rparr>)))"

section \<open>The reader\<close>

type_synonym txin = "bytes \<times> u32 \<times> bytes \<times> u32"
type_synonym txout = "u64 \<times> bytes"

record tx =
  tx_version :: u32
  tx_ins :: "txin list"
  tx_outs :: "txout list"
  tx_locktime :: u32

fun enc_in :: "txin \<Rightarrow> bytes" where
  "enc_in (h, i, s, q) = h @ put_u32le i @ enc_script s @ put_u32le q"

definition dec_in :: "bytes \<Rightarrow> (txin \<times> bytes) option" where
  "dec_in bs = do {
     (h, bs) \<leftarrow> take_exact 32 bs;
     (i, bs) \<leftarrow> read_le 4 bs;
     (s, bs) \<leftarrow> dec_script bs;
     (q, bs) \<leftarrow> read_le 4 bs;
     Some ((h, i, s, q), bs)
   }"

fun in_ok :: "txin \<Rightarrow> bool" where
  "in_ok (h, i, s, q) \<longleftrightarrow> length h = 32 \<and> script_ok s"

fun enc_out :: "txout \<Rightarrow> bytes" where
  "enc_out (v, s) = put_u64le v @ enc_script s"

definition dec_out :: "bytes \<Rightarrow> (txout \<times> bytes) option" where
  "dec_out bs = do {
     (v, bs) \<leftarrow> read_le 8 bs;
     (s, bs) \<leftarrow> dec_script bs;
     Some ((v, s), bs)
   }"

fun out_ok :: "txout \<Rightarrow> bool" where
  "out_ok (v, s) \<longleftrightarrow> script_ok s"

definition parse_tx :: "bytes \<Rightarrow> (tx \<times> bytes) option" where
  "parse_tx bs = do {
     (v, bs) \<leftarrow> read_le 4 bs;
     (ins, bs) \<leftarrow> dec_vec dec_in bs;
     (outs, bs) \<leftarrow> dec_vec dec_out bs;
     (lt, bs) \<leftarrow> read_le 4 bs;
     Some (\<lparr>tx_version = v, tx_ins = ins, tx_outs = outs, tx_locktime = lt\<rparr>, bs)
   }"

definition parse_wtx :: "bytes \<Rightarrow> (tx \<times> bytes list list \<times> bytes) option" where
  "parse_wtx bs = do {
     (v, bs) \<leftarrow> read_le 4 bs;
     (marker, bs) \<leftarrow> read_le 1 bs;
     (flag, bs) \<leftarrow> read_le 1 bs;
     if (marker, flag) \<noteq> (0 :: u8, 1 :: u8) then None else do {
       (ins, bs) \<leftarrow> dec_vec dec_in bs;
       (outs, bs) \<leftarrow> dec_vec dec_out bs;
       (wit, bs) \<leftarrow> dec_many (dec_vec dec_script) (length ins) bs;
       (lt, bs) \<leftarrow> read_le 4 bs;
       Some (\<lparr>tx_version = v, tx_ins = ins, tx_outs = outs, tx_locktime = lt\<rparr>, wit, bs)
     }
   }"

lemmas cb_reads = u32le.dec_enc [simplified] u64le.dec_enc [simplified] script.dec_enc

interpretation txin: prefix_codec enc_in dec_in in_ok
  by unfold_locales (auto simp: dec_in_def cb_reads take_exact_def)

interpretation txout: prefix_codec enc_out dec_out out_ok
  by unfold_locales (auto simp: dec_out_def cb_reads)

section \<open>The serialisations are what the reader expects\<close>

definition coinbase_tx :: "bytes \<Rightarrow> u64 \<Rightarrow> bytes \<Rightarrow> bytes \<Rightarrow> tx" where
  "coinbase_tx script val spk wc =
     \<lparr>tx_version = 2, tx_ins = [(replicate 32 0, 0xffffffff, script, 0xffffffff)],
      tx_outs = (val, spk) # (if wc = [] then [] else [(0, wc)]), tx_locktime = 0\<rparr>"

definition tx_body :: "bytes \<Rightarrow> u64 \<Rightarrow> bytes \<Rightarrow> bytes \<Rightarrow> bytes" where
  "tx_body script val spk wc = (let t = coinbase_tx script val spk wc in
     enc_vec enc_in (tx_ins t) @ enc_vec enc_out (tx_outs t))"

lemma stripped_body: "coinbase_stripped script val spk wc = put_u32le 2 @ tx_body script val spk wc @ put_u32le 0"
  by (simp add: coinbase_stripped_def tx_body_def coinbase_tx_def enc_vec_def enc_script_def put_compact_cb_eq Let_def)

lemma raw_body:
  "coinbase_raw (coinbase_stripped script val spk wc) =
     put_u32le 2 @ [0, 1] @ tx_body script val spk wc @ enc_vec enc_script [replicate 32 0] @ put_u32le 0"
  by (simp add: coinbase_raw_def stripped_body enc_vec_def enc_script_def put_compact_cb_eq Let_def)

lemma coinbase_tx_ok:
  assumes "script_ok script" "script_ok spk" "script_ok wc"
  shows "list_all in_ok (tx_ins (coinbase_tx script val spk wc))"
    "list_all out_ok (tx_outs (coinbase_tx script val spk wc))"
    "length (tx_ins (coinbase_tx script val spk wc)) = 1"
    "length (tx_outs (coinbase_tx script val spk wc)) < 2 ^ 64"
  using assms by (simp_all add: coinbase_tx_def)

lemma parse_coinbase_stripped:
  assumes "script_ok script" "script_ok spk" "script_ok wc"
  shows "parse_tx (coinbase_stripped script val spk wc @ rest) = Some (coinbase_tx script val spk wc, rest)"
  using coinbase_tx_ok [OF assms, of val]
  by (simp add: parse_tx_def stripped_body tx_body_def Let_def cb_reads txin.vec_dec_enc txout.vec_dec_enc)
     (simp add: coinbase_tx_def)

lemma read_byte: "read_le (Suc 0) (b # rest) = Some (b :: u8, rest)"
  by (simp add: read_le_def)

lemma parse_coinbase_raw:
  assumes "script_ok script" "script_ok spk" "script_ok wc"
  shows "parse_wtx (coinbase_raw (coinbase_stripped script val spk wc) @ rest) =
           Some (coinbase_tx script val spk wc, [[replicate 32 0]], rest)"
  using coinbase_tx_ok [OF assms, of val] script.vec_dec_enc [of "[replicate 32 0]"]
  by (simp add: parse_wtx_def raw_body tx_body_def Let_def cb_reads txin.vec_dec_enc txout.vec_dec_enc
      read_byte script_ok_def)
     (simp add: coinbase_tx_def)

section \<open>The height push\<close>

text \<open>A script number: little-endian magnitude, the top bit of the last byte the sign.\<close>

definition script_num :: "bytes \<Rightarrow> int" where
  "script_num bs =
     (if bs = [] then 0
      else if last bs AND 0x80 \<noteq> 0 then - int (le_val bs - 128 * 256 ^ (length bs - 1))
      else int (le_val bs))"

lemma high_bit: "b AND 0x80 \<noteq> 0 \<longleftrightarrow> 128 \<le> unat b" for b :: u8
proof -
  have "unat b div 2 ^ 7 \<le> 1" using unat_u8_less [of b] by (simp add: less_mult_imp_div_less del: unat_u8_less)
  then have "odd (unat b div 2 ^ 7) \<longleftrightarrow> unat b div 2 ^ 7 = 1" by (cases "unat b div 2 ^ 7") auto
  also have "\<dots> \<longleftrightarrow> 128 \<le> unat b" using unat_u8_less [of b] by (auto simp del: unat_u8_less)
  finally show ?thesis
    using and_exp_eq_0_iff_not_bit [of b 7] bit_unat [of b 7] by (simp add: bit_iff_odd)
qed

lemma height_bytes_spec: "le_val (height_bytes h) = unat h \<and> (h \<noteq> 0 \<longrightarrow> last (height_bytes h) \<noteq> 0)"
proof (induction h rule: height_bytes.induct)
  case (1 h)
  show ?case
  proof (cases "h = 0")
    case True
    then show ?thesis by (simp add: height_bytes.simps)
  next
    case False
    have u: "unat (ucast (h AND 0xff) :: u8) = unat h mod 256"
      by (simp add: unsigned_ucast_eq take_bit_nat_eq_self unat_and_ff)
    have d: "unat (drop_bit 8 h) = unat h div 256" using unat_drop_bit_div [of 8 h] by simp
    have "le_val (height_bytes h) = unat h"
      using False 1 by (simp add: height_bytes.simps [of h] u d)
    moreover have "last (height_bytes h) \<noteq> 0"
    proof (cases "drop_bit 8 h = 0")
      case True
      then have "unat h div 256 = 0" using d by simp
      then have "unat (ucast (h AND 0xff) :: u8) \<noteq> 0" using False u by (simp add: unat_eq_zero)
      then show ?thesis using False True by (auto simp: height_bytes.simps [of h] height_bytes.simps [of 0])
    next
      case nz: False
      then have "height_bytes (drop_bit 8 h) \<noteq> []" by (simp add: height_bytes.simps [of "drop_bit 8 h"])
      then show ?thesis using False nz 1 by (simp add: height_bytes.simps [of h])
    qed
    ultimately show ?thesis by simp
  qed
qed

lemma le_val_snoc: "le_val (bs @ [b]) = le_val bs + 256 ^ length bs * unat b"
  by (simp add: le_val_append)

lemma length_height_bytes: "length (height_bytes h) \<le> 4"
proof (cases "height_bytes h" rule: rev_cases)
  case (snoc bs b)
  then have "h \<noteq> 0" by (auto simp: height_bytes.simps [of 0])
  then have b: "b \<noteq> 0" "le_val bs + 256 ^ length bs * unat b = unat h"
    using height_bytes_spec [of h] snoc by (simp_all add: le_val_snoc)
  then have "256 ^ length bs \<le> unat h" by (metis Suc_leI le_add2 mult_le_mono2 nat_mult_1_right
        order.trans unat_gt_0 One_nat_def)
  also have "\<dots> < 256 ^ 4" using unsigned_less [of h, where ?'a = nat] by simp
  finally have "length bs < 4" by (rule power_less_imp_less_exp [rotated]) simp
  then show ?thesis using snoc by simp
qed simp

lemma script_num_pos:
  assumes "script_num bs = int V" and "0 < V"
  shows "bs \<noteq> [] \<and> V < 128 * 256 ^ (length bs - 1)"
proof -
  have ne: "bs \<noteq> []" using assms by (auto simp: script_num_def)
  then obtain xs x where bs: "bs = xs @ [x]" by (metis rev_exhaust)
  have x: "unat x < 128" and V: "V = le_val bs"
    using assms high_bit [of x] by (auto simp: script_num_def bs split: if_splits)
  have "V < 256 ^ length xs + 256 ^ length xs * unat x"
    using le_val_less [of xs] by (simp add: V bs le_val_snoc)
  also have "\<dots> = 256 ^ length xs * (unat x + 1)" by (simp add: algebra_simps)
  also have "\<dots> \<le> 256 ^ length xs * 128" using x by (intro mult_le_mono2) simp
  finally show ?thesis using ne by (simp add: bs mult.commute)
qed

lemma height_bytes_ge:
  assumes "h \<noteq> 0"
  shows "height_bytes h \<noteq> []" and "unat (last (height_bytes h)) * 256 ^ (length (height_bytes h) - 1) \<le> unat h"
proof -
  show ne: "height_bytes h \<noteq> []" using assms by (simp add: height_bytes.simps [of h])
  then obtain xs x where b: "height_bytes h = xs @ [x]" by (metis rev_exhaust)
  then show "unat (last (height_bytes h)) * 256 ^ (length (height_bytes h) - 1) \<le> unat h"
    using height_bytes_spec [of h] by (simp add: le_val_snoc mult.commute)
qed

definition height_num :: "u32 \<Rightarrow> bytes" where
  "height_num h = tl (push_height h)"

lemma height_num_cases:
  obtains "h = 0" "height_num h = [0]"
  | "h \<noteq> 0" "128 \<le> unat (last (height_bytes h))" "height_num h = height_bytes h @ [0]"
  | "h \<noteq> 0" "unat (last (height_bytes h)) < 128" "height_num h = height_bytes h"
proof -
  have "h \<noteq> 0 \<Longrightarrow> height_bytes h ! (length (height_bytes h) - 1) = last (height_bytes h)"
    using height_bytes_ge(1) by (simp add: last_conv_nth)
  then show thesis using that height_bytes_ge(1) high_bit [of "last (height_bytes h)"]
    by (cases "h = 0"; cases "128 \<le> unat (last (height_bytes h))")
       (auto simp: height_num_def push_height_def Let_def height_bytes.simps [of 0])
qed

lemma height_num_value: "script_num (height_num h) = int (unat h)"
proof (cases rule: height_num_cases [of h])
  case 1
  then show ?thesis by (simp add: script_num_def)
next
  case 2
  then show ?thesis using height_bytes_spec [of h] by (simp add: script_num_def le_val_snoc)
next
  case 3
  then have "last (height_bytes h) AND 0x80 = 0" using high_bit [of "last (height_bytes h)"] by auto
  then show ?thesis using 3 height_bytes_spec [of h] height_bytes_ge(1) [of h]
    by (simp add: script_num_def)
qed

lemma pow256_less: "(256::nat) ^ a < 256 ^ b \<longleftrightarrow> a < b"
  by (rule power_strict_increasing_iff) simp

lemma height_num_minimal:
  assumes "h \<noteq> 0" and "script_num bs = int (unat h)"
  shows "length (height_num h) \<le> length bs"
proof -
  have V: "bs \<noteq> []" "unat h < 128 * 256 ^ (length bs - 1)"
    using script_num_pos [OF assms(2)] assms(1) by (simp_all add: unat_gt_0)
  let ?B = "height_bytes h"
  have ge: "?B \<noteq> []" "unat (last ?B) * 256 ^ (length ?B - 1) \<le> unat h" using height_bytes_ge [OF assms(1)] by simp_all
  show ?thesis
  proof (cases rule: height_num_cases [of h])
    case 2
    have "128 * 256 ^ (length ?B - 1) \<le> unat h" using ge(2) 2(2) by (meson le_trans mult_le_mono1)
    also note V(2)
    finally have "length ?B - 1 < length bs - 1" using pow256_less by simp
    then show ?thesis using 2 by simp
  next
    case 3
    have "1 \<le> unat (last ?B)" using height_bytes_spec [of h] assms(1) by (simp add: Suc_leI unat_gt_0)
    then have "256 ^ (length ?B - 1) \<le> unat h" using ge(2) by (metis le_trans mult_1 mult_le_mono1)
    also have "unat h < 256 ^ length bs" using V by (cases bs) auto
    finally have "length ?B - 1 < length bs" using pow256_less by simp
    then show ?thesis using 3 by simp
  qed (use assms in simp)
qed

lemma length_height_num: "length (height_num h) \<le> 5"
  using length_height_bytes [of h] by (cases rule: height_num_cases [of h]) simp_all

lemma push_height_eq: "push_height h = of_nat (length (height_num h)) # height_num h"
  by (simp add: height_num_def push_height_def Let_def)

section \<open>Bounds\<close>

lemma length_coinbase_script: "length (coinbase_script height en) \<le> 15"
  using length_height_num [of height] by (simp add: coinbase_script_def push_height_eq)

lemma length_put_compact_small: "n < 253 \<Longrightarrow> length (put_compact (of_nat n)) = 1"
  by (simp add: length_put_compact word_less_nat_alt unat_of_nat_u64)

lemma length_stripped:
  assumes "length script \<le> 15" "length spk \<le> 64" "length wc \<le> 64"
  shows "length (coinbase_stripped script val spk wc) \<le> 212"
  using assms length_put_compact_small [of "length script"] length_put_compact_small [of "length spk"]
    length_put_compact_small [of "length wc"] length_put_compact_small [of 1] length_put_compact_small [of 2]
  by (simp add: coinbase_stripped_def put_compact_cb_eq)

lemma length_raw: "length (coinbase_raw strip) \<le> length strip + 44"
  using length_put_compact_small [of 1] length_put_compact_small [of 32]
  by (simp add: coinbase_raw_def put_compact_cb_eq Let_def)

definition witness_script :: "string option \<Rightarrow> bytes option" where
  "witness_script w = (case w of None \<Rightarrow> Some [] | Some s \<Rightarrow> if s = [] then Some [] else hex2bin s 64)"

definition payout_script :: "bech32_addr \<Rightarrow> bytes" where
  "payout_script a = (if witver a = 0 then 0 else of_nat (0x50 + witver a)) # of_nat (length (program a)) # program a"

lemma scriptpubkey_of_decoded:
  "bech32_decode_addr addr = Inr a \<Longrightarrow> bech32_scriptpubkey a 64 = Inr (payout_script a)"
  by (simp add: bech32_decode_iff wf_addr_def bech32_scriptpubkey_def payout_script_def)

lemma coinbase_build_cases:
  "coinbase_build address val height en w =
     (case bech32_decode_addr address of
        Inl _ \<Rightarrow> Inl (-2)
      | Inr a \<Rightarrow> (case witness_script w of
           None \<Rightarrow> Inl (-4)
         | Some wc \<Rightarrow> let strip = coinbase_stripped (coinbase_script height en) val (payout_script a) wc
             in Inr \<lparr>raw = coinbase_raw strip, stripped = strip, txid = sha256d strip\<rparr>))"
  by (cases "bech32_decode_addr address")
     (simp_all add: coinbase_build_def witness_script_def scriptpubkey_of_decoded)

lemma length_witness_script: "witness_script w = Some wc \<Longrightarrow> length wc \<le> 64"
  by (auto simp: witness_script_def hex2bin_def Let_def dest: length_hex_pairs split: option.splits if_splits)

lemma length_payout_script: "bech32_decode_addr addr = Inr a \<Longrightarrow> length (payout_script a) \<le> 42"
  by (simp add: bech32_decode_iff wf_addr_def payout_script_def)

section \<open>Properties\<close>

text \<open>
  C28: the coinbase pays the configured address.  When the builder succeeds, the address decoded, a
  Bitcoin reader parses the stripped form as a version-2 transaction with the null prevout, the
  height script, one output of the full value to the address's witness script, and the
  template's commitment as second output when there is one; the witness form parses as the same
  transaction with the single 32-byte reserved value; the id is the double hash of the
  stripped form.
\<close>

theorem coinbase_build_correct:
  assumes "coinbase_build address val height en w = Inr cb"
  shows "\<exists>a wc. bech32_decode_addr address = Inr a \<and> witness_script w = Some wc \<and>
     parse_tx (stripped cb) = Some (coinbase_tx (coinbase_script height en) val (payout_script a) wc, []) \<and>
     parse_wtx (raw cb) = Some (coinbase_tx (coinbase_script height en) val (payout_script a) wc, [[replicate 32 0]], []) \<and>
     txid cb = sha256d (stripped cb)"
proof -
  from assms obtain a wc where a: "bech32_decode_addr address = Inr a" and wc: "witness_script w = Some wc"
    and cb: "cb = (let strip = coinbase_stripped (coinbase_script height en) val (payout_script a) wc
       in \<lparr>raw = coinbase_raw strip, stripped = strip, txid = sha256d strip\<rparr>)"
    by (auto simp: coinbase_build_cases Let_def split: sum.splits option.splits)
  have ok: "script_ok (coinbase_script height en)" "script_ok (payout_script a)" "script_ok wc"
    using length_coinbase_script [of height en] length_payout_script [OF a] length_witness_script [OF wc]
    by (simp_all add: script_ok_def)
  show ?thesis
    using a wc parse_coinbase_stripped [OF ok, of val "[]"] parse_coinbase_raw [OF ok, of val "[]"]
    by (simp add: cb Let_def)
qed

theorem coinbase_build_correct_witness:
  "\<exists>cb a wc. coinbase_build DEVFEE_ADDRESS 312500000 969859 1 None = Inr cb \<and>
     bech32_decode_addr DEVFEE_ADDRESS = Inr a \<and> witness_script None = Some wc \<and>
     parse_tx (stripped cb) = Some (coinbase_tx (coinbase_script 969859 1) 312500000 (payout_script a) wc, [])"
proof -
  obtain cb where cb: "coinbase_build DEVFEE_ADDRESS 312500000 969859 1 None = Inr cb"
    by (simp add: coinbase_build_cases devfee_program witness_script_def Let_def)
  from coinbase_build_correct [OF cb] cb show ?thesis by blast
qed

text \<open>
  no overrun.  Whatever the address, value, height, extranonce and commitment, the builder's
  unchecked writes stay inside the two 1024-byte buffers and the 64-byte script buffer.
\<close>

theorem coinbase_build_bounds:
  assumes "coinbase_build address val height en w = Inr cb"
  shows "length (stripped cb) \<le> 212 \<and> length (raw cb) \<le> 256 \<and> length (raw cb) \<le> COINBASE_MAX \<and>
         length (coinbase_script height en) \<le> 15 \<and> length (txid cb) = 32"
proof -
  from assms obtain a wc where a: "bech32_decode_addr address = Inr a" and wc: "witness_script w = Some wc"
    and cb: "cb = (let strip = coinbase_stripped (coinbase_script height en) val (payout_script a) wc
       in \<lparr>raw = coinbase_raw strip, stripped = strip, txid = sha256d strip\<rparr>)"
    by (auto simp: coinbase_build_cases Let_def split: sum.splits option.splits)
  have s: "length (stripped cb) \<le> 212"
    using length_stripped [of "coinbase_script height en" "payout_script a" wc val] length_coinbase_script [of height en]
      length_payout_script [OF a] length_witness_script [OF wc] by (simp add: cb Let_def)
  moreover have "length (raw cb) \<le> length (stripped cb) + 44" using length_raw by (simp add: cb Let_def)
  ultimately show ?thesis using length_coinbase_script [of height en]
    by (simp add: COINBASE_MAX_def cb Let_def)
qed

theorem coinbase_build_bounds_witness:
  "\<exists>cb. coinbase_build DEVFEE_ADDRESS 312500000 969859 1 None = Inr cb \<and> length (raw cb) \<le> COINBASE_MAX"
proof -
  obtain cb where cb: "coinbase_build DEVFEE_ADDRESS 312500000 969859 1 None = Inr cb"
    by (simp add: coinbase_build_cases devfee_program witness_script_def Let_def)
  from coinbase_build_bounds [OF cb] cb show ?thesis by blast
qed

text \<open>
  the BIP 34 height.  The push announces the length of what follows, which is at most five
  bytes and is the script number of the height; for a non-zero height no shorter script number
  has that value.
\<close>

theorem push_height_correct:
  "\<exists>num. push_height h = of_nat (length num) # num \<and> length num \<le> 5 \<and> script_num num = int (unat h) \<and>
     (h \<noteq> 0 \<longrightarrow> (\<forall>bs. script_num bs = int (unat h) \<longrightarrow> length num \<le> length bs))"
  using push_height_eq length_height_num height_num_value height_num_minimal by blast

theorem push_height_correct_witness:
  "\<exists>num. push_height 969859 = of_nat (length num) # num \<and> length num \<le> length [0x83, 0xCC, 0x0E :: u8]"
proof -
  have "script_num [0x83, 0xCC, 0x0E] = int (unat (969859 :: u32))" by (simp add: script_num_def)
  with push_height_correct [of 969859] show ?thesis by auto
qed

text \<open>
  the builder's errors.  It fails with -2 exactly when the address does not decode, with -4
  exactly when the address is good and the commitment is not an even-length hex string of at most
  64 bytes, and in no other way.
\<close>

theorem coinbase_build_errors:
  "coinbase_build address val height en w = Inl rc \<longleftrightarrow>
     (rc = -2 \<and> bech32_decode_addr address = Inl (-1)) \<or>
     (rc = -4 \<and> bech32_decode_addr address \<noteq> Inl (-1) \<and> witness_script w = None)"
  using decode_errors [of address]
  by (auto simp: coinbase_build_cases Let_def split: option.splits)

end
