(* ===== verification/Block.thy ===== *)
theory Block
  imports Work_Item "HOL-Library.Monad_Syntax"
begin

text \<open>
  Block serialisation for \<^verbatim>\<open>submitblock\<close> (\<^verbatim>\<open>src/miner/block.c\<close>).  The output buffer is written
  front to back, so the model returns the bytes written; their number is what the C function
  returns.  Pointer arguments are values here, so only the size checks remain of the guards.
  \<open>parse_header\<close> and \<open>parse_block\<close> are the reader of the format, the specification the writer is
  proved against.
\<close>

definition BLOCK_HEADER_V2_LEN :: nat where "BLOCK_HEADER_V2_LEN = 164"

definition block_serialize_header :: "knots_header \<Rightarrow> nat \<Rightarrow> int + bytes" where
  "block_serialize_header h outsz =
     (if outsz < BLOCK_HEADER_V2_LEN then Inl (-1)
      else Inr (put_u32le (knots_complete_version h) @ hashPrevBlock h @ hashMerkleRoot h @
        put_u32le (knots_time_on_wire h) @ put_u32le (nBits h) @ put_u32le (nNonce h) @
        put_u32le (m_nonce2 h) @ put_u32le (m_nonce3 h) @ m_extranonce h @
        put_u32le (m_time_offset h) @ put_u16le (m_txcount h) @ [m_flags h] @
        [m_xor_key_mask_clear_bits h] @ m_xor_key h @ put_u32le (m_height h) @ m_mm_rhs h))"

definition block_serialize :: "knots_header \<Rightarrow> bytes \<Rightarrow> bytes \<Rightarrow> nat \<Rightarrow> nat \<Rightarrow> int + bytes" where
  "block_serialize h coinbase_raw tx_data tx_count outsz =
     (if outsz < BLOCK_HEADER_V2_LEN + 9 + length coinbase_raw + length tx_data then Inl (-1)
      else case block_serialize_header h outsz of
        Inl _ \<Rightarrow> Inl (-1)
      | Inr header \<Rightarrow> Inr (header @ put_compact (of_nat (tx_count + 1)) @ coinbase_raw @
          (if length tx_data \<noteq> 0 then tx_data else [])))"

section \<open>The reader\<close>

definition parse_header :: "bytes \<Rightarrow> (knots_header \<times> bytes) option" where
  "parse_header bs = do {
     (version, bs) \<leftarrow> read_le 4 bs;
     (prev, bs) \<leftarrow> take_exact 32 bs;
     (merkle, bs) \<leftarrow> take_exact 32 bs;
     (time, bs) \<leftarrow> read_le 4 bs;
     (nbits, bs) \<leftarrow> read_le 4 bs;
     (n1, bs) \<leftarrow> read_le 4 bs;
     (n2, bs) \<leftarrow> read_le 4 bs;
     (n3, bs) \<leftarrow> read_le 4 bs;
     (en, bs) \<leftarrow> take_exact 16 bs;
     (off, bs) \<leftarrow> read_le 4 bs;
     (txc, bs) \<leftarrow> read_le 2 bs;
     (fl, bs) \<leftarrow> read_le 1 bs;
     (clr, bs) \<leftarrow> read_le 1 bs;
     (key, bs) \<leftarrow> take_exact 16 bs;
     (ht, bs) \<leftarrow> read_le 4 bs;
     (rhs, bs) \<leftarrow> take_exact 32 bs;
     Some (\<lparr>nVersion = version, hashPrevBlock = prev, hashMerkleRoot = merkle, nTime = time,
            nBits = nbits, nNonce = n1, m_nonce2 = n2, m_nonce3 = n3, m_extranonce = en,
            m_time_offset = off, m_txcount = txc, m_flags = fl,
            m_xor_key_mask_clear_bits = clr, m_xor_key = key, m_height = ht, m_mm_rhs = rhs\<rparr>, bs)
   }"

definition parse_block :: "bytes \<Rightarrow> (knots_header \<times> u64 \<times> bytes) option" where
  "parse_block bs = do {
     (h, bs) \<leftarrow> parse_header bs;
     (n, bs) \<leftarrow> read_compact bs;
     Some (h, n, bs)
   }"

definition on_wire :: "knots_header \<Rightarrow> knots_header" where
  "on_wire h = h\<lparr>nVersion := knots_complete_version h, nTime := knots_time_on_wire h\<rparr>"

section \<open>Round trip\<close>

lemma take_exact_append: "length xs = n \<Longrightarrow> take_exact n (xs @ rest) = Some (xs, rest)"
  by (simp add: take_exact_def)

lemma read_u8: "read_le (Suc 0) (b # rest) = Some (b :: u8, rest)"
  by (simp add: read_le_def)

lemmas field_reads = u32le.dec_enc u16le.dec_enc take_exact_append read_u8

lemma header_roundtrip:
  assumes "wf_header h" and "block_serialize_header h outsz = Inr bs"
  shows "length bs = BLOCK_HEADER_V2_LEN \<and> parse_header (bs @ rest) = Some (on_wire h, rest)"
proof
  show "length bs = BLOCK_HEADER_V2_LEN"
    using assms by (auto simp: block_serialize_header_def wf_header_def BLOCK_HEADER_V2_LEN_def split: if_splits)
  have bs: "bs = put_u32le (knots_complete_version h) @ hashPrevBlock h @ hashMerkleRoot h @
        put_u32le (knots_time_on_wire h) @ put_u32le (nBits h) @ put_u32le (nNonce h) @
        put_u32le (m_nonce2 h) @ put_u32le (m_nonce3 h) @ m_extranonce h @
        put_u32le (m_time_offset h) @ put_u16le (m_txcount h) @ [m_flags h] @
        [m_xor_key_mask_clear_bits h] @ m_xor_key h @ put_u32le (m_height h) @ m_mm_rhs h"
    using assms(2) by (simp add: block_serialize_header_def split: if_splits)
  have len: "length (hashPrevBlock h) = 32" "length (hashMerkleRoot h) = 32"
     "length (m_extranonce h) = 16" "length (m_xor_key h) = 16" "length (m_mm_rhs h) = 32"
    using assms(1) by (simp_all add: wf_header_def)
  show "parse_header (bs @ rest) = Some (on_wire h, rest)"
    unfolding parse_header_def bs append_assoc
    by (simp add: field_reads len on_wire_def)
qed

section \<open>The bytes submitted determine the hash\<close>

lemma on_wire_pow:
  assumes eq: "on_wire h = on_wire h'"
  shows "get_pow_hash h = get_pow_hash h'"
proof -
  have f: "knots_complete_version h = knots_complete_version h'" "knots_time_on_wire h = knots_time_on_wire h'"
    "hashPrevBlock h = hashPrevBlock h'" "hashMerkleRoot h = hashMerkleRoot h'" "nBits h = nBits h'"
    "nNonce h = nNonce h'" "m_nonce2 h = m_nonce2 h'" "m_nonce3 h = m_nonce3 h'"
    "m_extranonce h = m_extranonce h'" "m_time_offset h = m_time_offset h'" "m_txcount h = m_txcount h'"
    "m_flags h = m_flags h'" "m_xor_key_mask_clear_bits h = m_xor_key_mask_clear_bits h'"
    "m_xor_key h = m_xor_key h'" "m_height h = m_height h'" "m_mm_rhs h = m_mm_rhs h'"
    using arg_cong [OF eq, of nVersion] arg_cong [OF eq, of nTime] arg_cong [OF eq, of hashPrevBlock]
      arg_cong [OF eq, of hashMerkleRoot] arg_cong [OF eq, of nBits] arg_cong [OF eq, of nNonce]
      arg_cong [OF eq, of m_nonce2] arg_cong [OF eq, of m_nonce3] arg_cong [OF eq, of m_extranonce]
      arg_cong [OF eq, of m_time_offset] arg_cong [OF eq, of m_txcount] arg_cong [OF eq, of m_flags]
      arg_cong [OF eq, of m_xor_key_mask_clear_bits] arg_cong [OF eq, of m_xor_key]
      arg_cong [OF eq, of m_height] arg_cong [OF eq, of m_mm_rhs]
    by (simp_all add: on_wire_def)
  then have "stage_inputs h = stage_inputs h'"
    by (simp add: stage_inputs_def h1_payload_def h2_hash_def prev_hidden_def)
  moreover have "pow_mask h = pow_mask h'" using f by (simp add: pow_mask_def)
  ultimately show ?thesis by (simp add: get_pow_hash_def Let_def split: sum.split)
qed

lemma block_parses:
  assumes "wf_header h" and "block_serialize h cb txs n outsz = Inr blk"
  shows "length blk \<le> outsz \<and> parse_block blk = Some (on_wire h, of_nat (n + 1), cb @ txs)"
proof -
  from assms(2) obtain hd where hd: "block_serialize_header h outsz = Inr hd"
    and sz: "BLOCK_HEADER_V2_LEN + 9 + length cb + length txs \<le> outsz"
    and blk: "blk = hd @ put_compact (of_nat (n + 1)) @ cb @ txs"
    by (auto simp: block_serialize_def split: if_splits sum.splits)
  note rt = header_roundtrip [OF assms(1) hd]
  have "length (put_compact (of_nat (n + 1))) \<le> 9" by (rule length_put_compact_le)
  then have "length blk \<le> outsz" using sz rt by (simp add: blk)
  moreover have "parse_block blk = Some (on_wire h, of_nat (n + 1), cb @ txs)"
    using rt by (simp add: blk parse_block_def compact.dec_enc del: of_nat_add of_nat_Suc)
  ultimately show ?thesis by blast
qed

section \<open>Properties\<close>

text \<open>
  C26: the block round trip.  Whenever serialisation succeeds, it fits the buffer, and a reader of
  the v2 format recovers the header as it goes on the wire, the transaction count including
  the coinbase, and then exactly the coinbase followed by the template's transactions.
\<close>

theorem block_roundtrip:
  assumes "wf_header h" and "block_serialize h cb txs n outsz = Inr blk"
  shows "length blk \<le> outsz \<and> parse_block blk = Some (on_wire h, of_nat (n + 1), cb @ txs)"
  using assms by (rule block_parses)

theorem block_roundtrip_witness:
  "\<exists>blk. block_serialize knots_header_init [1, 2, 3] [4, 5] 1 1000 = Inr blk \<and>
     length blk \<le> 1000 \<and> parse_block blk = Some (on_wire knots_header_init, of_nat (1 + 1), [1, 2, 3] @ [4, 5])"
proof -
  obtain blk where "block_serialize knots_header_init [1, 2, 3] [4, 5] 1 1000 = Inr blk"
    by (simp add: block_serialize_def block_serialize_header_def BLOCK_HEADER_V2_LEN_def)
  with block_roundtrip [OF wf_header_init this] show ?thesis by blast
qed

text \<open>
  the bytes submitted and the bytes hashed cannot disagree: two well-formed headers with the
  same 164-byte serialisation have the same proof-of-work hash.
\<close>

theorem block_bytes_determine_pow:
  assumes "wf_header h" and "wf_header h'"
    and "block_serialize_header h sz = Inr bs" and "block_serialize_header h' sz' = Inr bs"
  shows "get_pow_hash h = get_pow_hash h'"
  using header_roundtrip [OF assms(1,3), of "[]"] header_roundtrip [OF assms(2,4), of "[]"]
  by (intro on_wire_pow) simp

theorem block_bytes_determine_pow_witness:
  "get_pow_hash knots_header_init = get_pow_hash (knots_header_init\<lparr>nVersion := 0xA0000000\<rparr>)"
proof -
  have ser: "block_serialize_header knots_header_init 164 =
      block_serialize_header (knots_header_init\<lparr>nVersion := 0xA0000000\<rparr>) 164"
    by (simp add: block_serialize_header_def knots_header_init_def knots_complete_version_def
        HEADER_V2_FLAG_def knots_time_on_wire_def)
  obtain bs where bs: "block_serialize_header knots_header_init 164 = Inr bs"
    by (simp add: block_serialize_header_def BLOCK_HEADER_V2_LEN_def)
  have wf: "wf_header (knots_header_init\<lparr>nVersion := 0xA0000000\<rparr>)"
    by (simp add: wf_header_def knots_header_init_def)
  show ?thesis using block_bytes_determine_pow [OF wf_header_init wf bs] bs ser by simp
qed

end
