(* ===== verification/Merkle.thy ===== *)
theory Merkle
  imports Sha256
begin

text \<open>
  The Bitcoin merkle root (\<^verbatim>\<open>src/miner/merkle.c\<close>).  The flat array of 32-byte ids is a list of
  cells, updated in place exactly as the loop does: row by row, cell \<open>i\<close> overwritten by the
  hash of cells \<open>2 * i\<close> and \<open>2 * i + 1\<close>, the last one doubled when the row is odd.  The locale
  \<open>merkle_fold\<close> is the tree over an arbitrary node function; it is interpreted on the
  double-SHA node of the code.
\<close>

section \<open>The code\<close>

definition merkle_node :: "bytes \<Rightarrow> bytes \<Rightarrow> bytes" where
  "merkle_node l r = sha256d (l @ r)"

definition merkle_step :: "nat \<Rightarrow> bytes list \<Rightarrow> nat \<Rightarrow> bytes list" where
  "merkle_step count ids i =
     ids[i := merkle_node (ids ! (2 * i)) (if 2 * i + 1 < count then ids ! (2 * i + 1) else ids ! (2 * i))]"

definition merkle_row :: "nat \<Rightarrow> bytes list \<Rightarrow> bytes list" where
  "merkle_row count ids = foldl (merkle_step count) ids [0..<(count + 1) div 2]"

function merkle_loop :: "bytes list \<Rightarrow> nat \<Rightarrow> bytes list" where
  "merkle_loop ids count =
     (if count > 1 then merkle_loop (merkle_row count ids) ((count + 1) div 2) else ids)"
  by pat_completeness auto
termination by (relation "measure snd") auto

declare merkle_loop.simps [simp del]

definition merkle_root :: "bytes list \<Rightarrow> nat \<Rightarrow> int + bytes" where
  "merkle_root ids count = (if count = 0 then Inl (-1) else Inr (merkle_loop ids count ! 0))"

section \<open>The tree\<close>

fun pair_up :: "('a \<Rightarrow> 'a \<Rightarrow> 'a) \<Rightarrow> 'a list \<Rightarrow> 'a list" where
  "pair_up f [] = []"
| "pair_up f [x] = [f x x]"
| "pair_up f (x # y # r) = f x y # pair_up f r"

lemma length_pair_up: "length (pair_up f xs) = (length xs + 1) div 2"
  by (induction f xs rule: pair_up.induct) simp_all

function tree_root :: "('a \<Rightarrow> 'a \<Rightarrow> 'a) \<Rightarrow> 'a list \<Rightarrow> 'a" where
  "tree_root f xs = (if length xs > 1 then tree_root f (pair_up f xs) else hd xs)"
  by pat_completeness auto
termination by (relation "measure (\<lambda>(f, xs). length xs)") (auto simp: length_pair_up)

declare tree_root.simps [simp del]

lemma nth_pair_up:
  "i < (length xs + 1) div 2 \<Longrightarrow>
     pair_up f xs ! i = f (xs ! (2 * i)) (if 2 * i + 1 < length xs then xs ! (2 * i + 1) else xs ! (2 * i))"
proof (induction f xs arbitrary: i rule: pair_up.induct)
  case (3 f x y r)
  then show ?case by (cases i) auto
qed simp_all

lemma pair_up_even_append:
  "even (length xs) \<Longrightarrow> pair_up f (xs @ ys) = pair_up f xs @ pair_up f ys"
  by (induction f xs rule: pair_up.induct) simp_all

section \<open>The in-place rows compute the tree\<close>

text \<open>After \<open>i\<close> cells of a row: the first \<open>i\<close> hold the new row, the others are untouched.\<close>

lemma merkle_row_prefix:
  assumes "count \<le> length ids" and "i \<le> (count + 1) div 2"
  shows "length (foldl (merkle_step count) ids [0..<i]) = length ids \<and>
     (\<forall>j < length ids. foldl (merkle_step count) ids [0..<i] ! j =
        (if j < i then pair_up merkle_node (take count ids) ! j else ids ! j))"
  using assms(2)
proof (induction i)
  case 0
  then show ?case by simp
next
  case (Suc i)
  let ?r = "foldl (merkle_step count) ids [0..<i]"
  have len: "length ?r = length ids"
    and cells: "\<And>j. j < length ids \<Longrightarrow>
          ?r ! j = (if j < i then pair_up merkle_node (take count ids) ! j else ids ! j)"
    using Suc by simp_all
  have i: "i < (count + 1) div 2" and i2: "2 * i < count" using Suc.prems by simp_all
  have "pair_up merkle_node (take count ids) ! i =
      merkle_node (ids ! (2 * i)) (if 2 * i + 1 < count then ids ! (2 * i + 1) else ids ! (2 * i))"
    using nth_pair_up [of i "take count ids" merkle_node] i i2 assms(1) by (simp add: min_def)
  moreover have "?r ! (2 * i) = ids ! (2 * i)" using cells [of "2 * i"] i2 assms(1) by simp
  moreover have "2 * i + 1 < count \<Longrightarrow> ?r ! (2 * i + 1) = ids ! (2 * i + 1)"
    using cells [of "2 * i + 1"] assms(1) by simp
  ultimately have "merkle_step count ?r i = ?r[i := pair_up merkle_node (take count ids) ! i]"
    by (simp add: merkle_step_def)
  moreover have "i < length ids" using i2 assms(1) by simp
  ultimately show ?case using len cells by (auto simp: nth_list_update less_Suc_eq)
qed

lemma merkle_row_eq:
  assumes "count \<le> length ids"
  shows "length (merkle_row count ids) = length ids"
    and "take ((count + 1) div 2) (merkle_row count ids) = pair_up merkle_node (take count ids)"
proof -
  note P = merkle_row_prefix [OF assms order_refl]
  show len: "length (merkle_row count ids) = length ids" using P by (simp add: merkle_row_def)
  have "(count + 1) div 2 \<le> length ids" using assms by linarith
  then show "take ((count + 1) div 2) (merkle_row count ids) = pair_up merkle_node (take count ids)"
    using P assms by (subst list_eq_iff_nth_eq) (auto simp: merkle_row_def length_pair_up min_def)
qed

lemma merkle_loop_eq:
  "0 < count \<Longrightarrow> count \<le> length ids \<Longrightarrow> merkle_loop ids count ! 0 = tree_root merkle_node (take count ids)"
proof (induction ids count rule: merkle_loop.induct)
  case (1 ids count)
  show ?case
  proof (cases "count > 1")
    case True
    have "merkle_loop (merkle_row count ids) ((count + 1) div 2) ! 0 =
        tree_root merkle_node (take ((count + 1) div 2) (merkle_row count ids))"
      using "1.IH" [OF True] "1.prems" merkle_row_eq(1) [OF "1.prems"(2)] True by simp
    then show ?thesis
      using True "1.prems" merkle_row_eq(2) [OF "1.prems"(2)]
      by (simp add: merkle_loop.simps [of ids count] tree_root.simps [of _ "take count ids"] min_def)
  next
    case False
    then have "count = 1" using "1.prems" by simp
    then show ?thesis using "1.prems"
      by (cases ids) (simp_all add: merkle_loop.simps tree_root.simps)
  qed
qed

section \<open>Binding\<close>

text \<open>
  A second list of the same length with the same root exhibits two different inputs on which the
  node function agrees.
\<close>

locale merkle_fold =
  fixes node :: "'a \<Rightarrow> 'a \<Rightarrow> 'a" and good :: "'a \<Rightarrow> bool"
  assumes node_good: "good (node a b)"
begin

definition collides :: bool where
  "collides \<longleftrightarrow> (\<exists>a b c d. good a \<and> good b \<and> good c \<and> good d \<and> (a, b) \<noteq> (c, d) \<and> node a b = node c d)"

lemma pair_up_good: "list_all good (pair_up node xs)"
  by (induction xs rule: induct_list012) (simp_all add: node_good)

lemma pair_up_inject:
  assumes "length xs = length ys" "list_all good xs" "list_all good ys"
    and "pair_up node xs = pair_up node ys"
  shows "xs = ys \<or> collides"
  using assms
proof (induction xs arbitrary: ys rule: induct_list012)
  case 1
  then show ?case by simp
next
  case (2 x)
  then obtain y where "ys = [y]" by (cases ys) auto
  with 2 show ?case by (auto simp: collides_def)
next
  case (3 x y r)
  then obtain x' y' r' where ys: "ys = x' # y' # r'" by (auto simp: length_Suc_conv Suc_length_conv)
  show ?case
  proof (cases "(x, y) = (x', y')")
    case True
    then show ?thesis using 3 ys by simp
  next
    case False
    have "node x y = node x' y'" using 3 ys by simp
    moreover have "good x \<and> good y \<and> good x' \<and> good y'" using 3 ys by simp
    ultimately show ?thesis using False unfolding collides_def by blast
  qed
qed

lemma tree_root_binding:
  assumes "length xs = length ys" "xs \<noteq> []" "list_all good xs" "list_all good ys"
    and "tree_root node xs = tree_root node ys"
  shows "xs = ys \<or> collides"
  using assms
proof (induction "length xs" arbitrary: xs ys rule: less_induct)
  case less
  show ?case
  proof (cases "length xs > 1")
    case True
    have "tree_root node (pair_up node xs) = tree_root node (pair_up node ys)"
      using less.prems True by (simp add: tree_root.simps [of node xs] tree_root.simps [of node ys])
    moreover have "length (pair_up node xs) < length xs" "length (pair_up node xs) = length (pair_up node ys)"
      using True less.prems(1) by (simp_all add: length_pair_up)
    moreover have "pair_up node xs \<noteq> []" using True length_pair_up [of node xs] by auto
    ultimately have "pair_up node xs = pair_up node ys \<or> collides"
      using less.hyps pair_up_good by blast
    then show ?thesis using pair_up_inject less.prems by blast
  next
    case False
    then obtain x where "xs = [x]" using less.prems(2) by (cases xs) auto
    moreover from this obtain y where "ys = [y]" using less.prems(1) by (cases ys) auto
    ultimately show ?thesis using less.prems(5) by (simp add: tree_root.simps)
  qed
qed

text \<open>The quirk: doubling the last element of an odd row does not change the root.\<close>

lemma pair_up_dup: "odd (length xs) \<Longrightarrow> pair_up node (xs @ [last xs]) = pair_up node xs"
proof -
  assume odd: "odd (length xs)"
  then have "xs \<noteq> []" by auto
  then obtain ys y where xs: "xs = ys @ [y]" by (metis append_butlast_last_id)
  then have "even (length ys)" using odd by simp
  then show ?thesis by (simp add: xs pair_up_even_append)
qed

lemma tree_root_dup: "odd (length xs) \<Longrightarrow> 1 < length xs \<Longrightarrow> tree_root node (xs @ [last xs]) = tree_root node xs"
  by (auto simp: tree_root.simps [of node "xs @ [last xs]"] tree_root.simps [of node xs] pair_up_dup)

end

interpretation sha: merkle_fold merkle_node "\<lambda>b. length b = 32"
  by unfold_locales (simp add: merkle_node_def)

section \<open>Properties\<close>

text \<open>
  C30: the in-place loop, for every row length, odd rows included, terminates with the root of the
  pairing tree over the first \<open>count\<close> ids, and refuses only an empty list.
\<close>

theorem merkle_root_correct:
  assumes "count \<le> length ids"
  shows "merkle_root ids count =
           (if count = 0 then Inl (-1) else Inr (tree_root merkle_node (take count ids)))"
  using assms by (simp add: merkle_root_def merkle_loop_eq)

theorem merkle_root_correct_witness:
  "merkle_root [replicate 32 1, replicate 32 2, replicate 32 3] 3 =
     Inr (merkle_node (merkle_node (replicate 32 1) (replicate 32 2))
                      (merkle_node (replicate 32 3) (replicate 32 3)))"
proof -
  have "tree_root merkle_node [replicate 32 1, replicate 32 2, replicate 32 3] =
      merkle_node (merkle_node (replicate 32 1) (replicate 32 2)) (merkle_node (replicate 32 3) (replicate 32 3))"
    by (simp add: tree_root.simps)
  then show ?thesis
    using merkle_root_correct [of 3 "[replicate 32 1, replicate 32 2, replicate 32 3]"]
    by (simp)
qed

text \<open>
  binding.  Two different lists of the same number of 32-byte ids with the same root give two
  different 64-byte messages with the same double SHA-256: a template's transactions cannot
  be changed under a fixed root without breaking the hash.
\<close>

theorem merkle_root_binding:
  assumes "length ids = length ids'" and "list_all (\<lambda>b. length b = 32) ids"
    and "list_all (\<lambda>b. length b = 32) ids'"
    and "merkle_root ids (length ids) = Inr r" and "merkle_root ids' (length ids') = Inr r"
  shows "ids = ids' \<or> (\<exists>x y. x \<noteq> y \<and> length x = 64 \<and> length y = 64 \<and> sha256d x = sha256d y)"
proof -
  have ne: "ids \<noteq> []" using assms(4) by (auto simp: merkle_root_def)
  have "tree_root merkle_node ids = tree_root merkle_node ids'"
    using assms(1,4,5) ne merkle_loop_eq [of "length ids" ids] merkle_loop_eq [of "length ids'" ids']
    by (simp add: merkle_root_def split: if_splits)
  from sha.tree_root_binding [OF assms(1) ne assms(2,3) this] show ?thesis
  proof
    assume "sha.collides"
    then obtain a b c d where "length a = 32" "length b = 32" "length c = 32" "length d = 32"
      and "(a, b) \<noteq> (c, d)" and "sha256d (a @ b) = sha256d (c @ d)"
      by (auto simp: sha.collides_def merkle_node_def)
    then show ?thesis by (intro disjI2 exI [of _ "a @ b"] exI [of _ "c @ d"]) auto
  qed simp
qed

theorem merkle_root_binding_witness:
  "merkle_root [replicate 32 7] 1 = Inr (replicate 32 7) \<and>
   ([replicate 32 7] = [replicate 32 (7 :: u8)] \<or>
     (\<exists>x y. x \<noteq> y \<and> length x = 64 \<and> length y = 64 \<and> sha256d x = sha256d y))"
proof -
  have r: "merkle_root [replicate 32 7] (length [replicate 32 (7 :: u8)]) = Inr (replicate 32 7)"
    by (simp add: merkle_root_def merkle_loop.simps)
  from merkle_root_binding [OF refl _ _ r r] r show ?thesis by (simp)
qed

text \<open>
  the consensus quirk of odd rows (CVE-2012-2459) is reproduced: appending a copy of the last id
  to an odd list of at least three leaves the root unchanged.
\<close>

theorem merkle_root_duplicate:
  assumes "odd (length ids)" and "1 < length ids"
  shows "merkle_root (ids @ [last ids]) (length ids + 1) = merkle_root ids (length ids)"
  using assms merkle_loop_eq [of "length ids + 1" "ids @ [last ids]"] merkle_loop_eq [of "length ids" ids]
  by (auto simp: merkle_root_def sha.tree_root_dup)

theorem merkle_root_duplicate_witness:
  "merkle_root ([[1], [2], [3]] @ [last [[1], [2], [3]]]) (length [[1], [2], [3 :: u8]] + 1) =
   merkle_root [[1], [2], [3]] (length [[1], [2], [3 :: u8]])"
  using merkle_root_duplicate [of "[[1], [2], [3]]"] by simp

end
