(* ===== verification/Solo.thy ===== *)
theory Solo
  imports Rpc Loopback Coinbase Block Merkle Devfee
begin

text \<open>
  Solo mining in \<^verbatim>\<open>src/miner/miner.c\<close>: \<^verbatim>\<open>get_template\<close>, \<^verbatim>\<open>synthetic_template\<close>, \<^verbatim>\<open>submit_block\<close> and the two work sources over them.
  The state is the held template (\<^verbatim>\<open>g_tpl\<close>), the header of the pushed item (\<^verbatim>\<open>g_gbt_hdr\<close>), the fee counters and the fields of the
  status record these functions write.  The array of transaction ids is rewritten before every use, so it is local here.
\<close>

unbundle bit_operations_syntax

record solo = rpc_state +
  tpl_cb :: coinbase
  tpl_tx_count :: nat
  tpl_tx_data :: bytes
  tpl_hdr :: knots_header
  tpl_valid :: bool
  gbt_hdr :: knots_header
  fees :: devfee_state
  template_height :: u64
  payout_shown :: string
  merkle_shown :: string
  blocks_submitted :: u64
  blocks_accepted :: u64
  last_submit :: string

record solo_config = rpc_config +
  payout_address :: "string option"
  target_shift :: nat
  dry_run :: bool

definition TPL_MAX_TX :: nat where "TPL_MAX_TX = 8192"
definition TX_DATA_SIZE :: nat where "TX_DATA_SIZE = 4 * 1024 * 1024"

definition solo_error :: "string \<Rightarrow> solo \<Rightarrow> solo" where
  "solo_error msg s = s\<lparr>rpc_error := snprintf_s 192 msg\<rparr>"

section \<open>Templates\<close>

definition txid_key :: string where
  "txid_key = quoted ''txid'' @ CHR '':'' # [CHR 0x22]"

definition data_key :: string where
  "data_key = quoted ''data'' @ CHR '':'' # [CHR 0x22]"

text \<open>
  The walk over the transactions: \<open>Inl\<close> when the data would overflow the buffer, with what was stored until then.
\<close>

fun tx_loop :: "libc \<Rightarrow> nat \<Rightarrow> string \<Rightarrow> bytes list \<Rightarrow> bytes \<Rightarrow> (nat \<times> bytes) + (bytes list \<times> bytes)" where
  "tx_loop lc 0 p ids dat = Inr (ids, dat)"
| "tx_loop lc (Suc slots) p ids dat =
     (case strstr txid_key p of
        None \<Rightarrow> Inr (ids, dat)
      | Some tx \<Rightarrow> let tx = drop 8 tx in
      (case hex2bin_n lc tx 32 of
        None \<Rightarrow> Inr (ids, dat)
      | Some disp \<Rightarrow>
      (case strstr data_key p of
        None \<Rightarrow> Inr (ids, dat)
      | Some dt \<Rightarrow> let dt = drop 8 dt in
      (case strchr CHR 0x22 dt of
        None \<Rightarrow> Inr (ids, dat)
      | Some e \<Rightarrow> let nbytes = (length dt - length e) div 2 in
        if length dat + nbytes > TX_DATA_SIZE then Inl (length ids, dat)
        else (case hex2bin_n lc dt nbytes of
          None \<Rightarrow> Inr (ids, dat)
        | Some bs \<Rightarrow> tx_loop lc slots (if length tx < length dt then tx else dt) (ids @ [rev disp]) (dat @ bs))))))"

definition gbt_body :: string where
  "gbt_body = ''{'' @ quoted ''jsonrpc'' @ '':'' @ quoted ''1.0'' @ '','' @ quoted ''id'' @ '':'' @ quoted ''osprey'' @ '','' @
     quoted ''method'' @ '':'' @ quoted ''getblocktemplate'' @ '','' @ quoted ''params'' @ '':[{'' @ quoted ''rules'' @ '':['' @
     quoted ''segwit'' @ '','' @ quoted ''blake2b'' @ '']}]}''"

text \<open>The scalars of the reply, in the order the code asks for them.\<close>

definition template_scalars :: "string \<Rightarrow> (int \<times> int \<times> int \<times> string \<times> string) option" where
  "template_scalars r =
     (case json_num r ''height'' of None \<Rightarrow> None | Some height \<Rightarrow>
      (case json_num r ''curtime'' of None \<Rightarrow> None | Some curtime \<Rightarrow>
       (case json_num r ''version'' of None \<Rightarrow> None | Some version \<Rightarrow>
        (case json_str r ''bits'' 32 of None \<Rightarrow> None | Some bits \<Rightarrow>
         (case json_str r ''previousblockhash'' 80 of None \<Rightarrow> None | Some prev \<Rightarrow> Some (height, curtime, version, bits, prev))))))"

text \<open>From the transactions on: the coinbase, the merkle root, and the template kept for submission.  The coinbase builder
  clears its result first, so a failure leaves an empty one in the held template.\<close>

definition no_coinbase :: coinbase where
  "no_coinbase = \<lparr>raw = [], stripped = [], txid = replicate 32 0\<rparr>"

definition finish_template :: "solo_config \<Rightarrow> string \<Rightarrow> int \<Rightarrow> int \<Rightarrow> bytes list \<Rightarrow> knots_header \<Rightarrow> solo \<Rightarrow> knots_header option \<times> solo" where
  "finish_template cfg wc cbvalue height ids h s =
     (let (payout, f) = devfee_next_payout (payout_address cfg) (fees s);
          s = s\<lparr>fees := f, payout_shown := snprintf_s 80 payout\<rparr>
      in case coinbase_build payout (of_int cbvalue) (of_int height) (g_total f) (if wc = [] then None else Some wc) of
           Inl _ \<Rightarrow> (None, solo_error ''coinbase build failed (payout address rejected?)'' (s\<lparr>tpl_cb := no_coinbase\<rparr>))
         | Inr cb \<Rightarrow> let s = s\<lparr>tpl_cb := cb\<rparr> in
             (case merkle_root (txid cb # ids) (length ids + 1) of
                Inl _ \<Rightarrow> (None, solo_error ''merkle root failed'' s)
              | Inr mroot \<Rightarrow>
                  let h = h\<lparr>hashMerkleRoot := mroot, m_txcount := of_nat (length ids + 1)\<rparr>
                  in (Some h, s\<lparr>tpl_hdr := h, tpl_valid := True, merkle_shown := bin2hex (rev mroot)\<rparr>)))"

definition load_template :: "libc \<Rightarrow> solo_config \<Rightarrow> string \<Rightarrow> solo \<Rightarrow> knots_header option \<times> solo" where
  "load_template lc cfg r s =
     (case template_scalars r of
        None \<Rightarrow> (None, solo_error ''template parse failed'' s)
      | Some (height, curtime, version, bits, prev) \<Rightarrow>
          let h = knots_header_init\<lparr>nVersion := of_int version, nTime := of_int curtime,
                    nBits := of_nat (strtoul16 lc bits), m_height := of_int height\<rparr> in
          (case hex2bin_rpc lc prev 32 of
             None \<Rightarrow> (None, solo_error ''prevhash parse failed'' s)
           | Some pb \<Rightarrow>
               let h = h\<lparr>hashPrevBlock := rev pb\<rparr>; s = s\<lparr>template_height := of_int height\<rparr> in
               (case json_num r ''coinbasevalue'' of
                  None \<Rightarrow> (None, solo_error ''template has no coinbasevalue'' s)
                | Some cbvalue \<Rightarrow>
                    if cbvalue \<le> 0 then (None, solo_error ''template has no coinbasevalue'' s)
                    else
                      let wc = (case json_str r ''default_witness_commitment'' 256 of Some w \<Rightarrow> w | None \<Rightarrow> []) in
                      (case tx_loop lc TPL_MAX_TX r [] [] of
                         Inl (n, dat) \<Rightarrow>
                           (None, solo_error (''template transactions exceed the '' @ dec TX_DATA_SIZE @ ''-byte block buffer'')
                                    (s\<lparr>tpl_tx_count := n, tpl_tx_data := dat\<rparr>))
                       | Inr (ids, dat) \<Rightarrow>
                           finish_template cfg wc cbvalue height ids h
                             (s\<lparr>tpl_tx_count := length ids, tpl_tx_data := dat\<rparr>)))))"

definition get_template :: "libc \<Rightarrow> solo_config \<Rightarrow> rpc_net \<Rightarrow> solo \<Rightarrow> knots_header option \<times> solo" where
  "get_template lc cfg net s =
     (case rpc_call (rpc_config.truncate cfg) net gbt_body (rpc_state.truncate s) of
        (None, st) \<Rightarrow> (None, solo_error ''rpc connect failed'' (s\<lparr>resp := resp st, posted := posted st\<rparr>))
      | (Some r, st) \<Rightarrow> load_template lc cfg r (s\<lparr>resp := resp st, posted := posted st, rpc_error := rpc_error st\<rparr>))"

definition synthetic_template :: "u64 \<Rightarrow> u64 \<Rightarrow> solo \<Rightarrow> knots_header \<times> solo" where
  "synthetic_template now counter s =
     (let h = knots_header_init\<lparr>nVersion := 0x20000000, nBits := 0x1903c2d4, nTime := ucast now, m_height := 969912\<rparr>;
          h = h\<lparr>m_extranonce := blit (m_extranonce h) 0 (map (\<lambda>i. ucast (drop_bit (8 * i) counter)) [0..<8]),
                hashPrevBlock := map (\<lambda>i. 0xA5 XOR of_nat (i * 7) XOR ucast counter) [0..<32]\<rparr>
      in (h, s\<lparr>template_height := 969912\<rparr>))"

section \<open>Submission\<close>

definition BLK_SIZE :: nat where "BLK_SIZE = 4 * 1024 * 1024 + 4096"

definition submit_body :: "bytes \<Rightarrow> string" where
  "submit_body blk = ''{'' @ quoted ''jsonrpc'' @ '':'' @ quoted ''1.0'' @ '','' @ quoted ''id'' @ '':'' @ quoted ''osprey'' @ '','' @
     quoted ''method'' @ '':'' @ quoted ''submitblock'' @ '','' @ quoted ''params'' @ '':['' @ CHR 0x22 # bin2hex blk @ CHR 0x22 # '']}''"

definition submit_block :: "solo_config \<Rightarrow> rpc_net \<Rightarrow> knots_header \<Rightarrow> solo \<Rightarrow> bool \<times> solo" where
  "submit_block cfg net winner s =
     (if \<not> tpl_valid s then (False, s\<lparr>last_submit := ''no template held''\<rparr>)
      else case block_serialize winner (raw (tpl_cb s)) (tpl_tx_data s) (tpl_tx_count s) BLK_SIZE of
        Inl _ \<Rightarrow> (False, s\<lparr>last_submit := ''serialise failed''\<rparr>)
      | Inr blk \<Rightarrow>
          let s = s\<lparr>blocks_submitted := blocks_submitted s + 1\<rparr> in
          (case rpc_call (rpc_config.truncate cfg) net (submit_body blk) (rpc_state.truncate s) of
             (None, st) \<Rightarrow> (False, s\<lparr>resp := resp st, posted := posted st, rpc_error := rpc_error st, last_submit := ''rpc call failed''\<rparr>)
           | (Some r, st) \<Rightarrow>
               let s = s\<lparr>resp := resp st, posted := posted st, rpc_error := rpc_error st\<rparr>;
                   res = strstr (quoted ''result'' @ '':'') r
               in if (case res of Some p \<Rightarrow> take 4 (drop 9 p) = ''null'' | None \<Rightarrow> False)
                  then (True, s\<lparr>blocks_accepted := blocks_accepted s + 1, last_submit := ''ACCEPTED''\<rparr>)
                  else (False, s\<lparr>last_submit := take 100 (cstr (case res of Some p \<Rightarrow> p | None \<Rightarrow> r))\<rparr>)))"

section \<open>The work sources\<close>

definition gbt_build :: "libc \<Rightarrow> solo_config \<Rightarrow> rpc_net \<Rightarrow> bool \<Rightarrow> u64 \<Rightarrow> work_ctx \<Rightarrow> solo \<Rightarrow> bool \<times> work_ctx \<times> solo" where
  "gbt_build lc cfg net synthetic t ctx s =
     (case (if synthetic then let (h, s) = synthetic_template t t s in (Some h, s) else get_template lc cfg net s) of
        (None, s) \<Rightarrow> (False, ctx, s)
      | (Some h, s) \<Rightarrow>
          let h = h\<lparr>m_extranonce := (m_extranonce h)[0 := ucast (t AND 0xff), 1 := ucast (drop_bit 8 t AND 0xff)]\<rparr> in
          (case stage_inputs h of
             Inl _ \<Rightarrow> (False, ctx, s)
           | Inr (s3, s4, hash_a) \<Rightarrow>
               (True, ctx\<lparr>ss3 := s3, ss4 := s4, target_top64 := target_top64_from_bits (nBits h) (target_shift cfg), ctx_valid := True\<rparr>,
                s\<lparr>gbt_hdr := h\<rparr>)))"

definition gbt_on_candidate :: "solo_config \<Rightarrow> rpc_net \<Rightarrow> u64 \<Rightarrow> u64 \<Rightarrow> solo \<Rightarrow> cand \<times> solo" where
  "gbt_on_candidate cfg net nonce hash_top64 s =
     (let c = (gbt_hdr s)\<lparr>nNonce := ucast (nonce AND 0xffffffff), m_nonce2 := ucast (drop_bit 32 nonce)\<rparr> in
      if expected_hash_top64 c \<noteq> hash_top64 then (CAND_BAD, s)
      else (case get_pow_hash c of
          Inl _ \<Rightarrow> (CAND_OK, s)
        | Inr pow \<Rightarrow>
            if \<not> hash_meets_target pow (compact_to_target_shifted (nBits c) BLAKE2B_TARGET_SHIFT_MAINNET) then (CAND_OK, s)
            else (CAND_SOLUTION,
                  if \<not> dry_run cfg \<and> target_shift cfg = BLAKE2B_TARGET_SHIFT_MAINNET then snd (submit_block cfg net c s) else s)))"

section \<open>The transactions of a reply\<close>

text \<open>
  One entry of the transactions array: the data, then the id in display order, with whatever the node puts between and
  after them, from the closing quotes on, as long as neither key comes again.
\<close>

record tx_entry =
  e_data :: bytes
  e_mid :: string
  e_txid :: bytes
  e_tail :: string

definition txi :: string where "txi = [CHR 0x22, CHR ''t'', CHR ''x'', CHR ''i'']"
definition dat :: string where "dat = [CHR 0x22, CHR ''d'', CHR ''a'', CHR ''t'']"

definition entry_text :: "tx_entry \<Rightarrow> string" where
  "entry_text e = data_key @ bin2hex (e_data e) @ e_mid e @ txid_key @ bin2hex (rev (e_txid e)) @ e_tail e"

definition no_keys :: "string \<Rightarrow> bool" where
  "no_keys x \<longleftrightarrow> lacks txi x \<and> lacks dat x \<and> CHR 0x00 \<notin> set x"

definition entry_ok :: "tx_entry \<Rightarrow> bool" where
  "entry_ok e \<longleftrightarrow> length (e_txid e) = 32 \<and> e_mid e \<noteq> [] \<and> hd (e_mid e) = CHR 0x22 \<and> no_keys (e_mid e) \<and>
     e_tail e \<noteq> [] \<and> hd (e_tail e) = CHR 0x22 \<and> no_keys (e_tail e)"

lemma lead_keys: "lead txi txid_key" "lead dat data_key"
  by (simp_all add: lead_def txi_def dat_def txid_key_def data_key_def quoted_def)

lemma lacks_plain: "CHR 0x22 \<notin> set y \<Longrightarrow> lacks (CHR 0x22 # r) (y @ z) = lacks (CHR 0x22 # r) z"
  by (induction y) auto

lemma lacks_value:
  assumes "CHR ''t'' \<in> set r" "CHR 0x22 \<notin> set r" "z \<noteq> []" "hd z = CHR 0x22" "lacks (CHR 0x22 # r) z"
  shows "lacks (CHR 0x22 # r) (CHR 0x22 # bin2hex bs @ z)"
proof -
  have "take (length r) (bin2hex bs @ z) \<noteq> r"
  proof
    assume t: "take (length r) (bin2hex bs @ z) = r"
    show False
    proof (cases "length r \<le> length (bin2hex bs)")
      case True
      then have "r = take (length r) (bin2hex bs)" using t by simp
      then have "CHR ''t'' \<in> set (bin2hex bs)" using assms(1) by (metis in_set_takeD)
      then show False using bin2hex_chars by blast
    next
      case False
      then have "length r - length (bin2hex bs) = Suc (length r - length (bin2hex bs) - 1)" by simp
      then have "CHR 0x22 \<in> set (take (length r - length (bin2hex bs)) z)" using assms(3,4) by (metis list.set_intros(1) list.collapse take_Suc_Cons)
      then show False using t assms(2) False by (metis Un_iff set_append take_append)
    qed
  qed
  then show ?thesis using assms lacks_plain [of "bin2hex bs" r z] bin2hex_chars by auto
qed

lemma txi_entry_head:
  assumes "entry_ok e"
  shows "lacks txi (data_key @ bin2hex (e_data e) @ e_mid e)"
proof -
  have "lacks txi (CHR 0x22 # bin2hex (e_data e) @ e_mid e)"
    using assms unfolding txi_def by (intro lacks_value) (simp_all add: entry_ok_def no_keys_def txi_def)
  then show ?thesis by (simp add: data_key_def quoted_def txi_def)
qed

lemma no_keys_hex: "no_keys z \<Longrightarrow> no_keys (bin2hex bs @ z)"
  using lacks_plain [of "bin2hex bs"] bin2hex_chars by (fastforce simp: no_keys_def txi_def dat_def)

lemma tx_loop_entry:
  assumes "entry_ok e" "no_keys x" "length d + length (e_data e) \<le> TX_DATA_SIZE"
  shows "tx_loop lc (Suc n) (x @ entry_text e @ z) ids d =
     tx_loop lc n (bin2hex (rev (e_txid e)) @ e_tail e @ z) (ids @ [e_txid e]) (d @ e_data e)"
proof -
  let ?dt = "bin2hex (e_data e) @ e_mid e @ txid_key @ bin2hex (rev (e_txid e)) @ e_tail e @ z"
  let ?tx = "bin2hex (rev (e_txid e)) @ e_tail e @ z"
  have m: "e_mid e = CHR 0x22 # tl (e_mid e)" using assms(1) by (metis entry_ok_def list.collapse)
  have nul: "CHR 0x00 \<notin> set (bin2hex bs)" "CHR 0x22 \<notin> set (bin2hex bs)" for bs using bin2hex_chars by blast+
  have "lacks txi (x @ data_key @ bin2hex (e_data e) @ e_mid e)"
    using lacks_append [of txi "data_key @ bin2hex (e_data e) @ e_mid e" x] txi_entry_head [OF assms(1)] assms(2)
    by (simp add: no_keys_def txi_def data_key_def quoted_def)
  then have t: "strstr txid_key ((x @ data_key @ bin2hex (e_data e) @ e_mid e) @ txid_key @ ?tx) = Some (txid_key @ ?tx)"
    using assms(1,2) nul by (intro strstr_found [OF lead_keys(1)]) (auto simp: no_keys_def entry_ok_def data_key_def quoted_def)
  have d: "strstr data_key (x @ data_key @ ?dt) = Some (data_key @ ?dt)"
    using assms(2) by (intro strstr_found [OF lead_keys(2)]) (simp_all add: no_keys_def)
  have q: "strchr CHR 0x22 ?dt = Some (e_mid e @ txid_key @ ?tx)"
    using strchr_found [of "CHR 0x22" "bin2hex (e_data e)" "tl (e_mid e) @ txid_key @ ?tx"] nul m by (metis append_Cons)
  have i: "hex2bin_n lc ?tx 32 = Some (rev (e_txid e))"
    using hex2bin_n_hex [of lc "rev (e_txid e)" "e_tail e @ z"] assms(1) by (simp add: entry_ok_def)
  have l: "length txid_key = 8" "length data_key = 8" by (simp_all add: txid_key_def data_key_def quoted_def)
  show ?thesis
    using t d q i hex2bin_n_hex [of lc "e_data e" "e_mid e @ txid_key @ ?tx"] assms(3) l
    by (simp add: entry_text_def Let_def)
qed

lemma tx_loop_entries:
  assumes "\<forall>e \<in> set es. entry_ok e" "no_keys x" "length d + length (concat (map e_data es)) \<le> TX_DATA_SIZE" "length es \<le> n"
  shows "tx_loop lc n (x @ concat (map entry_text es) @ CHR 0x00 # old) ids d = Inr (ids @ map e_txid es, d @ concat (map e_data es))"
  using assms
proof (induction es arbitrary: n x ids d)
  case Nil
  then have "strstr txid_key (x @ CHR 0x00 # old) = None" by (intro strstr_absent [OF lead_keys(1)]) (simp_all add: no_keys_def)
  then show ?case by (cases n) simp_all
next
  case (Cons e es)
  then obtain k where n: "n = Suc k" by (cases n) auto
  have "no_keys (bin2hex (rev (e_txid e)) @ e_tail e)" using Cons.prems(1) no_keys_hex by (simp add: entry_ok_def)
  then have "tx_loop lc k ((bin2hex (rev (e_txid e)) @ e_tail e) @ concat (map entry_text es) @ CHR 0x00 # old) (ids @ [e_txid e]) (d @ e_data e) =
      Inr ((ids @ [e_txid e]) @ map e_txid es, (d @ e_data e) @ concat (map e_data es))"
    using Cons.prems n by (intro Cons.IH) simp_all
  then show ?case using tx_loop_entry [of e x d lc k "concat (map entry_text es) @ CHR 0x00 # old" ids] Cons.prems n by simp
qed

section \<open>A well-formed reply\<close>

text \<open>What the node offers, and a reply that says so.\<close>

record template =
  t_height :: nat
  t_curtime :: nat
  t_version :: nat
  t_bits :: bytes
  t_prev :: bytes
  t_value :: nat
  t_commitment :: "bytes option"
  t_txs :: "tx_entry list"

definition template_ok :: "template \<Rightarrow> bool" where
  "template_ok t \<longleftrightarrow> t_height t < 2 ^ 31 \<and> t_curtime t < 2 ^ 32 \<and> t_version t < 2 ^ 32 \<and> length (t_bits t) = 4 \<and> length (t_prev t) = 32 \<and>
     0 < t_value t \<and> t_value t < 2 ^ 63 \<and> (case t_commitment t of Some w \<Rightarrow> length w \<le> 64 | None \<Rightarrow> True) \<and>
     (\<forall>e \<in> set (t_txs t). entry_ok e) \<and> length (t_txs t) \<le> TPL_MAX_TX \<and> length (concat (map e_data (t_txs t))) \<le> TX_DATA_SIZE"

definition replies_with :: "template \<Rightarrow> string \<Rightarrow> bool" where
  "replies_with t r \<longleftrightarrow>
     num_field r ''height'' (t_height t) \<and> num_field r ''curtime'' (t_curtime t) \<and> num_field r ''version'' (t_version t) \<and>
     str_field r ''bits'' (bin2hex (t_bits t)) \<and> str_field r ''previousblockhash'' (bin2hex (rev (t_prev t))) \<and>
     num_field r ''coinbasevalue'' (t_value t) \<and>
     (case t_commitment t of
        Some w \<Rightarrow> str_field r ''default_witness_commitment'' (bin2hex w)
      | None \<Rightarrow> lacks (CHR 0x22 # ''default_witness_commitment'') r \<and> CHR 0x00 \<notin> set r) \<and>
     (\<exists>x. r = x @ concat (map entry_text (t_txs t)) \<and> no_keys x)"

text \<open>The header the miner should build: display order turned round, and the tree over the coinbase and the transactions.\<close>

definition template_header :: "template \<Rightarrow> coinbase \<Rightarrow> knots_header" where
  "template_header t cb = knots_header_init\<lparr>nVersion := of_nat (t_version t), nTime := of_nat (t_curtime t), nBits := of_nat (be_val (t_bits t)),
     m_height := of_nat (t_height t), hashPrevBlock := t_prev t,
     hashMerkleRoot := tree_root merkle_node (txid cb # map e_txid (t_txs t)), m_txcount := of_nat (length (t_txs t) + 1)\<rparr>"

lemma key_oks [simp]:
  "key_ok ''height''" "key_ok ''curtime''" "key_ok ''version''" "key_ok ''bits''" "key_ok ''previousblockhash''"
  "key_ok ''coinbasevalue''" "key_ok ''default_witness_commitment''"
  by (simp_all add: key_ok_def)

lemma template_scalars_read:
  assumes "template_ok t" "replies_with t r"
  shows "template_scalars (r @ CHR 0x00 # old) =
     Some (int (t_height t), int (t_curtime t), int (t_version t), bin2hex (t_bits t), bin2hex (rev (t_prev t)))"
proof -
  have "json_num (r @ CHR 0x00 # old) ''height'' = Some (int (t_height t))" "json_num (r @ CHR 0x00 # old) ''curtime'' = Some (int (t_curtime t))"
    "json_num (r @ CHR 0x00 # old) ''version'' = Some (int (t_version t))"
    using assms by (auto intro!: json_num_field [OF num_field_nul] simp: template_ok_def replies_with_def)
  moreover have "json_str (r @ CHR 0x00 # old) ''bits'' 32 = Some (bin2hex (t_bits t))"
    "json_str (r @ CHR 0x00 # old) ''previousblockhash'' 80 = Some (bin2hex (rev (t_prev t)))"
    using assms by (auto intro!: json_str_field [OF str_field_nul] simp: template_ok_def replies_with_def)
  ultimately show ?thesis by (simp add: template_scalars_def)
qed

lemma commitment_read:
  assumes "template_ok t" "replies_with t r"
  shows "(case json_str (r @ CHR 0x00 # old) ''default_witness_commitment'' 256 of Some w \<Rightarrow> w | None \<Rightarrow> []) =
     (case t_commitment t of Some w \<Rightarrow> bin2hex w | None \<Rightarrow> [])"
  using assms json_str_field [OF str_field_nul, of r _ "bin2hex (the (t_commitment t))" 256 old]
    json_str_absent [of "''default_witness_commitment''" r old 256]
  by (cases "t_commitment t") (simp_all add: template_ok_def replies_with_def)

lemma transactions_read:
  assumes "template_ok t" "replies_with t r"
  shows "tx_loop lc TPL_MAX_TX (r @ CHR 0x00 # old) [] [] = Inr (map e_txid (t_txs t), concat (map e_data (t_txs t)))"
proof -
  obtain x where x: "r = x @ concat (map entry_text (t_txs t))" "no_keys x" using assms(2) by (auto simp: replies_with_def)
  then show ?thesis using tx_loop_entries [of "t_txs t" x "[]" TPL_MAX_TX lc old "[]"] assms(1) by (simp add: template_ok_def)
qed

lemma bin2hex_Nil: "bin2hex [] = []"
  by (simp add: bin2hex_def)

lemma bin2hex_Nil_iff: "bin2hex bs = [] \<longleftrightarrow> bs = []"
  using length_bin2hex [of bs] by (metis bin2hex_Nil length_0_conv mult_is_0 zero_neq_numeral)

lemma coinbase_no_commitment: "coinbase_build p v h en (Some []) = coinbase_build p v h en None"
  by (cases "bech32_decode_addr p") (simp_all add: coinbase_build_cases witness_script_def)

lemma merkle_root_tree: "merkle_root (x # xs) (length xs + 1) = Inr (tree_root merkle_node (x # xs))"
  by (simp add: merkle_root_def merkle_loop_eq)

text \<open>A well-formed reply always gets as far as the coinbase.\<close>

definition template_base :: "template \<Rightarrow> knots_header" where
  "template_base t = knots_header_init\<lparr>nVersion := of_nat (t_version t), nTime := of_nat (t_curtime t), nBits := of_nat (be_val (t_bits t)),
     m_height := of_nat (t_height t), hashPrevBlock := t_prev t\<rparr>"

definition offers :: "libc \<Rightarrow> solo_config \<Rightarrow> rpc_net \<Rightarrow> template \<Rightarrow> bool" where
  "offers lc cfg net t \<longleftrightarrow> net_ok (rpc_config.truncate cfg) net \<and> (\<forall>c \<in> set (net_chunks net). c \<noteq> []) \<and>
     length (concat (net_chunks net)) < RESP_SIZE - 1 \<and> template_ok t \<and> replies_with t (concat (net_chunks net)) \<and> 32 \<le> long_bits lc"

lemma reaches_coinbase:
  assumes "offers lc cfg net t"
  obtains s1 where "get_template lc cfg net s = finish_template cfg (case t_commitment t of Some w \<Rightarrow> bin2hex w | None \<Rightarrow> []) (int (t_value t))
       (int (t_height t)) (map e_txid (t_txs t)) (template_base t) s1"
    and "fees s1 = fees s" "tpl_tx_count s1 = length (t_txs t)" "tpl_tx_data s1 = concat (map e_data (t_txs t))"
    and "tpl_valid s1 = tpl_valid s" "gbt_hdr s1 = gbt_hdr s" "tpl_hdr s1 = tpl_hdr s"
proof -
  let ?r = "concat (net_chunks net)"
  have t: "template_ok t" "replies_with t ?r" using assms by (simp_all add: offers_def)
  obtain old st where call: "rpc_call (rpc_config.truncate cfg) net gbt_body (rpc_state.truncate s) = (Some (?r @ CHR 0x00 # old), st)"
    using rpc_call_ok [of "rpc_config.truncate cfg" net gbt_body "rpc_state.truncate s"] assms by (auto simp: offers_def)
  have bits: "strtoul16 lc (bin2hex (t_bits t)) = be_val (t_bits t)"
  proof (rule strtoul16_hex)
    show "t_bits t \<noteq> []" using t(1) by (auto simp: template_ok_def)
    have "be_val (t_bits t) < 256 ^ 4" using be_val_less [of "t_bits t"] t(1) by (simp add: template_ok_def)
    also have "\<dots> = (2 :: nat) ^ 32" by simp
    also have "\<dots> \<le> 2 ^ long_bits lc" using assms unfolding offers_def by (intro power_increasing) simp_all
    finally show "be_val (t_bits t) < 2 ^ long_bits lc" .
  qed
  have prev: "hex2bin_rpc lc (bin2hex (rev (t_prev t))) 32 = Some (rev (t_prev t))"
    using hex2bin_n_hex [of lc "rev (t_prev t)" "[]"] t(1) by (simp add: hex2bin_rpc_def template_ok_def)
  have val: "json_num (?r @ CHR 0x00 # old) ''coinbasevalue'' = Some (int (t_value t))" "0 < t_value t"
    using json_num_field [OF num_field_nul, of ?r _ _ old] t by (simp_all add: template_ok_def replies_with_def)
  show thesis
    by (rule that [of "s\<lparr>resp := resp st, posted := posted st, rpc_error := rpc_error st, template_height := of_nat (t_height t),
          tpl_tx_count := length (t_txs t), tpl_tx_data := concat (map e_data (t_txs t))\<rparr>"]) (use val(2) in \<open>simp_all add: get_template_def load_template_def call Let_def template_scalars_read [OF t] bits prev val(1)
      commitment_read [OF t] transactions_read [OF t] template_base_def\<close>)
qed

lemma finish_template_ok:
  assumes "devfee_next_payout (payout_address cfg) (fees s) = (payee, f)"
    and "coinbase_build payee (of_int v) (of_int height) (g_total f) (if wc = [] then None else Some wc) = Inr cb"
    and "h' = h\<lparr>hashMerkleRoot := tree_root merkle_node (txid cb # ids), m_txcount := of_nat (length ids + 1)\<rparr>"
  shows "finish_template cfg wc v height ids h s = (Some h', s\<lparr>fees := f, payout_shown := snprintf_s 80 payee, tpl_cb := cb, tpl_hdr := h',
     tpl_valid := True, merkle_shown := bin2hex (rev (hashMerkleRoot h'))\<rparr>)"
  using merkle_root_tree [of "txid cb" ids] by (simp add: finish_template_def assms Let_def)

lemma commitment_option:
  "coinbase_build p v h en (if (case c of Some w \<Rightarrow> bin2hex w | None \<Rightarrow> []) = [] then None else Some (case c of Some w \<Rightarrow> bin2hex w | None \<Rightarrow> [])) =
   coinbase_build p v h en (map_option bin2hex c)"
  by (cases c) (simp_all add: coinbase_no_commitment bin2hex_Nil bin2hex_Nil_iff)

section \<open>What is held for submission\<close>

lemma length_hex2bin_n: "hex2bin_n lc p n = Some bs \<Longrightarrow> length bs = n"
  by (induction n arbitrary: p bs) (auto split: option.splits)

definition stored :: "bytes list \<Rightarrow> bytes \<Rightarrow> bool" where
  "stored ids d \<longleftrightarrow> length d \<le> TX_DATA_SIZE \<and> list_all (\<lambda>x. length x = 32) ids"

lemma tx_loop_stored:
  assumes "stored ids d" "length ids + n = m"
  shows "case tx_loop lc n p ids d of Inl (k, d') \<Rightarrow> k \<le> m \<and> length d' \<le> TX_DATA_SIZE | Inr (ids', d') \<Rightarrow> length ids' \<le> m \<and> stored ids' d'"
  using assms
proof (induction n arbitrary: p ids d)
  case (Suc n)
  then show ?case
    by (auto simp: Let_def stored_def length_hex2bin_n split: option.splits sum.splits prod.splits)
qed simp

lemma tree_root_32: "xs \<noteq> [] \<Longrightarrow> list_all (\<lambda>b. length b = 32) xs \<Longrightarrow> length (tree_root merkle_node xs) = 32"
proof (induction merkle_node xs rule: tree_root.induct)
  case (1 xs)
  show ?case
  proof (cases "1 < length xs")
    case True
    then have "pair_up merkle_node xs \<noteq> []" using length_pair_up [of merkle_node xs] by (auto simp del: length_pair_up)
    then have "length (tree_root merkle_node (pair_up merkle_node xs)) = 32"
      using "1.hyps" True sha.pair_up_good by blast
    then show ?thesis using True by (simp add: tree_root.simps [of _ xs])
  next
    case False
    then show ?thesis using "1.prems" by (cases xs) (simp_all add: tree_root.simps)
  qed
qed

definition held :: "solo \<Rightarrow> bool" where
  "held s \<longleftrightarrow> length (raw (tpl_cb s)) \<le> COINBASE_MAX \<and> length (tpl_tx_data s) \<le> TX_DATA_SIZE \<and> tpl_tx_count s \<le> TPL_MAX_TX \<and>
     wf_header (gbt_hdr s)"

lemma finish_template_held:
  assumes "finish_template cfg wc v height ids h s = (r, s')" "held s" "wf_header h" "list_all (\<lambda>x. length x = 32) ids"
  shows "held s' \<and> (\<forall>h'. r = Some h' \<longrightarrow> wf_header h')"
proof -
  obtain payout f where p: "devfee_next_payout (payout_address cfg) (fees s) = (payout, f)" by fastforce
  show ?thesis
  proof (cases "coinbase_build payout (of_int v) (of_int height) (g_total f) (if wc = [] then None else Some wc)")
    case (Inl rc)
    then show ?thesis using assms(1,2) p by (auto simp: finish_template_def solo_error_def no_coinbase_def held_def)
  next
    case (Inr cb)
    have m: "merkle_root (txid cb # ids) (Suc (length ids)) = Inr (tree_root merkle_node (txid cb # ids))"
      using merkle_root_tree [of "txid cb" ids] by simp
    have "length (tree_root merkle_node (txid cb # ids)) = 32"
      using coinbase_build_bounds [OF Inr] assms(4) by (intro tree_root_32) simp_all
    then show ?thesis
      using assms coinbase_build_bounds [OF Inr] by (auto simp: finish_template_def p Inr m held_def wf_header_def Let_def)
  qed
qed

lemma load_template_held:
  assumes "load_template lc cfg r s = (h, s')" "held s"
  shows "held s' \<and> (\<forall>h'. h = Some h' \<longrightarrow> wf_header h')"
proof (cases "template_scalars r")
  case None
  then show ?thesis using assms by (auto simp: load_template_def solo_error_def held_def)
next
  case (Some tup)
  obtain height curtime version bits prev where t: "tup = (height, curtime, version, bits, prev)" by (metis prod_cases5)
  let ?s = "s\<lparr>template_height := of_int height\<rparr>"
  have hs: "held ?s" using assms(2) by (simp add: held_def)
  show ?thesis
  proof (cases "hex2bin_rpc lc prev 32 = None \<or> (case json_num r ''coinbasevalue'' of None \<Rightarrow> True | Some v \<Rightarrow> v \<le> 0)")
    case True
    then show ?thesis
      using assms hs by (auto simp: load_template_def Some t Let_def solo_error_def held_def split: option.splits if_splits)
  next
    case False
    then obtain pb v where f: "hex2bin_rpc lc prev 32 = Some pb" "json_num r ''coinbasevalue'' = Some v" "\<not> v \<le> 0"
      by (auto split: option.splits)
    let ?h = "knots_header_init\<lparr>nVersion := of_int version, nTime := of_int curtime,
                    nBits := of_nat (strtoul16 lc bits), m_height := of_int height, hashPrevBlock := rev pb\<rparr>"
    have wf: "wf_header ?h"
      using f(1) wf_header_init length_hex2bin_n by (auto simp: hex2bin_rpc_def wf_header_def split: if_splits)
    have tx: "stored [] []" by (simp add: stored_def)
    show ?thesis
    proof (cases "tx_loop lc TPL_MAX_TX r [] []")
      case (Inl nd)
      then show ?thesis
        using assms hs f tx_loop_stored [OF tx, of TPL_MAX_TX TPL_MAX_TX lc r]
        by (auto simp: load_template_def Some t Let_def solo_error_def held_def split: prod.splits)
    next
      case (Inr idd)
      obtain ids d where i: "idd = (ids, d)" by fastforce
      have st: "length ids \<le> TPL_MAX_TX" "stored ids d" using tx_loop_stored [OF tx, of TPL_MAX_TX TPL_MAX_TX lc r] Inr i by auto
      then have "held (?s\<lparr>tpl_tx_count := length ids, tpl_tx_data := d\<rparr>)" using hs by (simp add: held_def stored_def)
      then show ?thesis
        using assms(1) f Inr i st(2) wf by (intro finish_template_held) (auto simp: load_template_def Some t Let_def stored_def)
    qed
  qed
qed

lemma get_template_held:
  assumes "get_template lc cfg net s = (h, s')" "held s"
  shows "held s' \<and> (\<forall>h'. h = Some h' \<longrightarrow> wf_header h')"
proof -
  obtain r st where c: "rpc_call (rpc_config.truncate cfg) net gbt_body (rpc_state.truncate s) = (r, st)" by fastforce
  have "held (s\<lparr>resp := resp st, posted := posted st, rpc_error := rpc_error st\<rparr>)" using assms(2) by (simp add: held_def)
  then show ?thesis
    using assms c load_template_held [of lc cfg] by (cases r) (auto simp: get_template_def solo_error_def held_def)
qed

lemma gbt_build_held:
  assumes "gbt_build lc cfg net synthetic now ctx s = (ok, ctx', s')" "held s"
  shows "held s'"
proof -
  obtain r s1 where b: "(if synthetic then let (h, s) = synthetic_template now now s in (Some h, s) else get_template lc cfg net s) = (r, s1)"
    by fastforce
  have "held s1 \<and> (\<forall>h. r = Some h \<longrightarrow> wf_header h)"
  proof (cases synthetic)
    case True
    then show ?thesis
      using b assms(2) wf_header_init
      by (auto simp: synthetic_template_def Let_def held_def wf_header_def knots_header_init_def blit_def)
  next
    case False
    then show ?thesis using b get_template_held assms(2) by auto
  qed
  then show ?thesis
    using assms(1) b by (auto simp: gbt_build_def held_def wf_header_def Let_def split: option.splits sum.splits prod.splits)
qed

lemma held_serializes:
  assumes "held s"
  shows "\<exists>blk. block_serialize h (raw (tpl_cb s)) (tpl_tx_data s) (tpl_tx_count s) BLK_SIZE = Inr blk"
  using assms
  by (simp add: held_def block_serialize_def block_serialize_header_def BLK_SIZE_def BLOCK_HEADER_V2_LEN_def COINBASE_MAX_def TX_DATA_SIZE_def)

lemma submit_block_held: "submit_block cfg net h s = (ok, s') \<Longrightarrow> held s \<Longrightarrow> held s'"
  by (auto simp: submit_block_def held_def Let_def split: if_splits sum.splits prod.splits option.splits)

lemma gbt_on_candidate_held: "gbt_on_candidate cfg net nonce w s = (v, s') \<Longrightarrow> held s \<Longrightarrow> held s'"
  using submit_block_held [OF prod.collapse [symmetric]] by (auto simp: gbt_on_candidate_def Let_def split: if_splits sum.splits)

lemma candidate_header:
  "h\<lparr>nNonce := ucast (nonce AND 0xffffffff), m_nonce2 := ucast (drop_bit 32 nonce)\<rparr> = with_nonce h nonce" for nonce :: u64
proof -
  have m: "(0xffffffff :: u64) = mask 32" by (simp add: mask_eq_exp_minus_1)
  have "ucast (nonce AND 0xffffffff) = (ucast nonce :: u32)" unfolding m by (rule bit_word_eqI) (auto simp: bit_simps)
  then show ?thesis by (simp add: with_nonce_def)
qed

section \<open>Solo mining from the start\<close>

definition zero_header :: knots_header where
  "zero_header = knots_header_init\<lparr>nVersion := 0, nBits := 0\<rparr>"

definition solo_start :: "string \<Rightarrow> solo" where
  "solo_start buf = \<lparr>resp = buf, posted = [], rpc_error = [], tpl_cb = no_coinbase, tpl_tx_count = 0, tpl_tx_data = [], tpl_hdr = zero_header,
     tpl_valid = False, gbt_hdr = zero_header, fees = devfee_reset, template_height = 0, payout_shown = [], merkle_shown = [],
     blocks_submitted = 0, blocks_accepted = 0, last_submit = []\<rparr>"

inductive solo_run :: "libc \<Rightarrow> solo_config \<Rightarrow> solo \<Rightarrow> bool" for lc cfg where
  start: "solo_run lc cfg (solo_start buf)"
| build: "solo_run lc cfg s \<Longrightarrow> gbt_build lc cfg net synthetic now ctx s = (ok, ctx', s') \<Longrightarrow> solo_run lc cfg s'"
| candidate: "solo_run lc cfg s \<Longrightarrow> gbt_on_candidate cfg net nonce w s = (v, s') \<Longrightarrow> solo_run lc cfg s'"

lemma solo_run_held: "solo_run lc cfg s \<Longrightarrow> held s"
proof (induction rule: solo_run.induct)
  case (start buf)
  then show ?case using wf_header_init by (simp add: solo_start_def held_def no_coinbase_def zero_header_def wf_header_def knots_header_init_def)
qed (auto intro: gbt_build_held gbt_on_candidate_held)

lemma submit_posts:
  assumes "held s" "tpl_valid s" "wf_header h" "submit_block cfg net h s = (ok, s')"
  shows "\<exists>blk. parse_block blk = Some (on_wire h, of_nat (tpl_tx_count s + 1), raw (tpl_cb s) @ tpl_tx_data s) \<and>
     blocks_submitted s' = blocks_submitted s + 1 \<and>
     (net_ok (rpc_config.truncate cfg) net \<longrightarrow>
        posted s' = posted s @ [rpc_head (rpc_config.truncate cfg) (submit_body blk) @ submit_body blk])"
proof -
  obtain blk where b: "block_serialize h (raw (tpl_cb s)) (tpl_tx_data s) (tpl_tx_count s) BLK_SIZE = Inr blk"
    using held_serializes [OF assms(1)] by blast
  let ?s = "s\<lparr>blocks_submitted := blocks_submitted s + 1\<rparr>"
  obtain r st where c: "rpc_call (rpc_config.truncate cfg) net (submit_body blk) (rpc_state.truncate ?s) = (r, st)" by fastforce
  have "posted st = posted s @ [rpc_head (rpc_config.truncate cfg) (submit_body blk) @ submit_body blk]" if "net_ok (rpc_config.truncate cfg) net"
    using rpc_call_posted [OF that, of "submit_body blk" "rpc_state.truncate ?s"] c by (simp add: rpc_state.defs)
  moreover have "posted s' = posted st" "blocks_submitted s' = blocks_submitted s + 1"
    using assms(2,4) b c by (auto simp: submit_block_def Let_def split: option.splits if_splits)
  ultimately show ?thesis using block_parses [OF assms(3) b] by auto
qed

section \<open>Properties\<close>

text \<open>
  C9: a template is read right.  However the node's reply is cut into reads, if the request goes out whole, the reply fits the buffer and says what it offers (no more transactions and bytes than
  the miner's tables hold), and the coinbase for the payee can be built, then the
  header built has the offered version, time, bits and height, the previous block in wire order, the count of all transactions, and
  the merkle root over the coinbase and exactly the offered transactions in order; the transactions' bytes and
  the coinbase paying this template's payee are kept for submission.
\<close>

theorem template_is_read:
  assumes "offers lc cfg net t" "devfee_next_payout (payout_address cfg) (fees s) = (payee, f)"
    and "coinbase_build payee (of_nat (t_value t)) (of_nat (t_height t)) (g_total f) (map_option bin2hex (t_commitment t)) = Inr cb"
  shows "\<exists>s'. get_template lc cfg net s = (Some (template_header t cb), s') \<and> fees s' = f \<and> tpl_valid s' \<and> tpl_hdr s' = template_header t cb \<and>
     tpl_cb s' = cb \<and> tpl_tx_count s' = length (t_txs t) \<and> tpl_tx_data s' = concat (map e_data (t_txs t))"
proof -
  obtain s1 where s1: "get_template lc cfg net s = finish_template cfg (case t_commitment t of Some w \<Rightarrow> bin2hex w | None \<Rightarrow> []) (int (t_value t))
       (int (t_height t)) (map e_txid (t_txs t)) (template_base t) s1" "fees s1 = fees s" "tpl_tx_count s1 = length (t_txs t)"
    "tpl_tx_data s1 = concat (map e_data (t_txs t))" "tpl_valid s1 = tpl_valid s" "gbt_hdr s1 = gbt_hdr s" "tpl_hdr s1 = tpl_hdr s"
    by (rule reaches_coinbase [OF assms(1), of s])
  show ?thesis
    using finish_template_ok [of cfg s1 payee f "int (t_value t)" "int (t_height t)" "case t_commitment t of Some w \<Rightarrow> bin2hex w | None \<Rightarrow> []" cb "template_header t cb" "map e_txid (t_txs t)" "template_base t"]
    by (simp add: s1 assms(2,3) commitment_option template_header_def template_base_def)
qed

text \<open>
  C40: a refresh that fails at the coinbase.  When the payee's address or the commitment is refused, no work is built;
  but the held template stays marked valid, with an empty coinbase and the new template's transactions, while the header of the item
  the hardware is working on stays the old one.
\<close>

theorem failed_refresh_spoils_template:
  assumes "offers lc cfg net t" "devfee_next_payout (payout_address cfg) (fees s) = (payee, f)"
    and "coinbase_build payee (of_nat (t_value t)) (of_nat (t_height t)) (g_total f) (map_option bin2hex (t_commitment t)) = Inl rc"
  shows "\<exists>s'. get_template lc cfg net s = (None, s') \<and> tpl_valid s' = tpl_valid s \<and> gbt_hdr s' = gbt_hdr s \<and> tpl_hdr s' = tpl_hdr s \<and>
     raw (tpl_cb s') = [] \<and> tpl_tx_count s' = length (t_txs t) \<and> tpl_tx_data s' = concat (map e_data (t_txs t))"
proof -
  obtain s1 where s1: "get_template lc cfg net s = finish_template cfg (case t_commitment t of Some w \<Rightarrow> bin2hex w | None \<Rightarrow> []) (int (t_value t))
       (int (t_height t)) (map e_txid (t_txs t)) (template_base t) s1" "fees s1 = fees s" "tpl_tx_count s1 = length (t_txs t)"
    "tpl_tx_data s1 = concat (map e_data (t_txs t))" "tpl_valid s1 = tpl_valid s" "gbt_hdr s1 = gbt_hdr s" "tpl_hdr s1 = tpl_hdr s"
    by (rule reaches_coinbase [OF assms(1), of s])
  show ?thesis
    unfolding s1(1) by (auto simp: finish_template_def assms(2) commitment_option assms(3) solo_error_def no_coinbase_def s1)
qed


text \<open>
  C10: solo mining's verdict and what is submitted.  At every moment of solo mining, a candidate is refused exactly when the reported
  word is not the one the header of the pushed item hashes to at that nonce, and is a solution exactly when that header's proof-of-work
  hash is at most the mainnet target of its compact bits.  A solution found with submission enabled at the real target, while a template of the node is held, is counted as
  submitted and made into a block that always fits the buffer and reads back as that header, the count, the held coinbase and transactions; and when the node can be reached and
  takes the request whole, exactly that block is posted.  Without a template, as in synthetic work, such a solution is only noted as having none: nothing is counted or posted.  In every other case nothing changes.
\<close>

theorem solution_is_submitted:
  assumes "solo_run lc cfg s" "gbt_on_candidate cfg net nonce w s = (v, s')" "c = with_nonce (gbt_hdr s) nonce"
  shows "(v = CAND_BAD \<longleftrightarrow> expected_hash_top64 c \<noteq> w) \<and>
    (v = CAND_SOLUTION \<longleftrightarrow> expected_hash_top64 c = w \<and>
       (\<exists>pow. get_pow_hash c = Inr pow \<and> be_val pow \<le> be_val (compact_to_target_shifted (nBits c) BLAKE2B_TARGET_SHIFT_MAINNET))) \<and>
    (if v = CAND_SOLUTION \<and> \<not> dry_run cfg \<and> target_shift cfg = BLAKE2B_TARGET_SHIFT_MAINNET
     then if tpl_valid s
       then \<exists>blk. parse_block blk = Some (on_wire c, of_nat (tpl_tx_count s + 1), raw (tpl_cb s) @ tpl_tx_data s) \<and>
         blocks_submitted s' = blocks_submitted s + 1 \<and>
         (net_ok (rpc_config.truncate cfg) net \<longrightarrow>
            posted s' = posted s @ [rpc_head (rpc_config.truncate cfg) (submit_body blk) @ submit_body blk])
       else s' = s\<lparr>last_submit := ''no template held''\<rparr>
     else s' = s)"
proof -
  note h = solo_run_held [OF assms(1)]
  have wf: "wf_header c" using h assms(3) by (simp add: held_def wf_header_def with_nonce_def)
  have meets: "hash_meets_target pow (compact_to_target_shifted (nBits c) BLAKE2B_TARGET_SHIFT_MAINNET) \<longleftrightarrow>
      be_val pow \<le> be_val (compact_to_target_shifted (nBits c) BLAKE2B_TARGET_SHIFT_MAINNET)" if "get_pow_hash c = Inr pow" for pow
    using that by (intro hash_meets_target_iff) (auto simp: get_pow_hash_def Let_def length_compact_to_target split: sum.splits)
  note cand = assms(2) [unfolded gbt_on_candidate_def candidate_header assms(3) [symmetric] Let_def]
  show ?thesis
  proof (cases "expected_hash_top64 c = w \<and> (\<exists>pow. get_pow_hash c = Inr pow \<and> be_val pow \<le> be_val (compact_to_target_shifted (nBits c) BLAKE2B_TARGET_SHIFT_MAINNET))")
    case True
    then have "v = CAND_SOLUTION" "s' = (if \<not> dry_run cfg \<and> target_shift cfg = BLAKE2B_TARGET_SHIFT_MAINNET then snd (submit_block cfg net c s) else s)"
      using cand meets by auto
    moreover have "snd (submit_block cfg net c s) = s\<lparr>last_submit := ''no template held''\<rparr>" if "\<not> tpl_valid s" using that by (simp add: submit_block_def)
    ultimately show ?thesis using True submit_posts [OF h _ wf prod.collapse [symmetric], of cfg net] by (cases "tpl_valid s") (auto split: if_splits)
  next
    case False
    then have "v \<noteq> CAND_SOLUTION" "v = CAND_BAD \<longleftrightarrow> expected_hash_top64 c \<noteq> w" "s' = s"
      using cand meets by (auto split: if_splits sum.splits)
    then show ?thesis using False by auto
  qed
qed

section \<open>Witnesses\<close>

lemma num_fieldI:
  assumes "take (length (quoted key @ '':'' @ dec n)) (drop k r) = quoted key @ '':'' @ dec n"
    and "lacks (CHR 0x22 # key) (take k r)" "CHR 0x00 \<notin> set (take k r)"
    and "case drop (k + length (quoted key @ '':'' @ dec n)) r of [] \<Rightarrow> True | c # _ \<Rightarrow> \<not> is_digit c"
  shows "num_field r key n"
  unfolding num_field_def
proof (intro exI conjI)
  let ?p = "quoted key @ '':'' @ dec n"
  have "r = take k r @ take (length ?p) (drop k r) @ drop (length ?p) (drop k r)" by (simp only: append_take_drop_id)
  then show "r = take k r @ quoted key @ CHR '':'' # [] @ dec n @ drop (k + length ?p) r" unfolding assms(1) by (simp add: add.commute)
  show "drop (k + length ?p) r = [] \<or> \<not> is_digit (hd (drop (k + length ?p) r))"
    using assms(4) by (cases "drop (k + length ?p) r") auto
qed (use assms in simp_all)

lemma str_fieldI:
  assumes "take (length (quoted key @ '':'' @ quoted v)) (drop k r) = quoted key @ '':'' @ quoted v"
    and "lacks (CHR 0x22 # key) (take k r)" "CHR 0x00 \<notin> set (take k r @ v)" "CHR 0x22 \<notin> set v"
  shows "str_field r key v"
  unfolding str_field_def
proof (intro exI conjI)
  let ?p = "quoted key @ '':'' @ quoted v"
  have "r = take k r @ take (length ?p) (drop k r) @ drop (length ?p) (drop k r)" by (simp only: append_take_drop_id)
  then show "r = take k r @ quoted key @ CHR '':'' # [] @ CHR 0x22 # v @ CHR 0x22 # drop (k + length ?p) r" unfolding assms(1)
    by (simp add: add.commute quoted_def)
qed (use assms in simp_all)

definition sample_entry :: tx_entry where
  "sample_entry = \<lparr>e_data = [2, 0, 255], e_mid = [CHR 0x22, CHR '',''], e_txid = replicate 31 0 @ [0xab], e_tail = CHR 0x22 # ''}]}''\<rparr>"

definition sample_template :: template where
  "sample_template = \<lparr>t_height = 10, t_curtime = 20, t_version = 3, t_bits = [0x1d, 0, 0xff, 0xff], t_prev = replicate 32 7, t_value = 50,
     t_commitment = None, t_txs = [sample_entry]\<rparr>"

definition sample_head :: string where
  "sample_head = ''{'' @ quoted ''height'' @ '':10,'' @ quoted ''curtime'' @ '':20,'' @ quoted ''version'' @ '':3,'' @
     quoted ''bits'' @ '':'' @ quoted ''1d00ffff'' @ '','' @
     quoted ''previousblockhash'' @ '':'' @ quoted (concat (replicate 32 ''07'')) @ '','' @
     quoted ''coinbasevalue'' @ '':50,'' @ quoted ''transactions'' @ '':[{''"

definition sample_reply :: string where
  "sample_reply = sample_head @ entry_text sample_entry"

definition sample_libc :: libc where "sample_libc = \<lparr>zero_x = Some 0, long_bits = 32\<rparr>"

definition sample_config :: "string option \<Rightarrow> solo_config" where
  "sample_config a = \<lparr>rpc_host = ''127.0.0.1'', rpc_user = None, rpc_pass = None, payout_address = a, target_shift = 22, dry_run = False\<rparr>"

definition sample_net :: rpc_net where
  "sample_net = \<lparr>net_socket = True, net_connect = True, net_write_head = Some, net_write_body = Some, net_chunks = [sample_reply]\<rparr>"

lemma sample_template_ok: "template_ok sample_template"
proof -
  have "entry_ok sample_entry" by code_simp
  then show ?thesis by (simp add: template_ok_def sample_template_def sample_entry_def TPL_MAX_TX_def TX_DATA_SIZE_def)
qed

lemma sample_fields:
  "num_field sample_reply ''height'' 10" "num_field sample_reply ''curtime'' 20" "num_field sample_reply ''version'' 3"
  "num_field sample_reply ''coinbasevalue'' 50"
proof -
  show "num_field sample_reply ''height'' 10" by (rule num_fieldI [of _ _ 1]; code_simp)
  show "num_field sample_reply ''curtime'' 20" by (rule num_fieldI [of _ _ 13]; code_simp)
  show "num_field sample_reply ''version'' 3" by (rule num_fieldI [of _ _ 26]; code_simp)
  show "num_field sample_reply ''coinbasevalue'' 50" by (rule num_fieldI [of _ _ 143]; code_simp)
qed

lemma sample_offers: "offers sample_libc (sample_config a) sample_net sample_template"
proof -
  have "str_field sample_reply ''bits'' ''1d00ffff''" by (rule str_fieldI [of _ _ 38]; code_simp)
  moreover have "bin2hex [0x1d, 0, 0xff, 0xff] = ''1d00ffff''" by code_simp
  moreover have "str_field sample_reply ''previousblockhash'' (bin2hex (rev (replicate 32 7)))" by (rule str_fieldI [of _ _ 56]; code_simp)
  moreover have "lacks (CHR 0x22 # ''default_witness_commitment'') sample_reply" "CHR 0x00 \<notin> set sample_reply" by code_simp+
  moreover have "no_keys sample_head" by code_simp
  ultimately have "replies_with sample_template sample_reply"
    using sample_fields by (auto simp: replies_with_def sample_template_def sample_reply_def)
  moreover have "length sample_reply < 1000" "sample_reply \<noteq> []" by code_simp+
  moreover have "inet_pton ''127.0.0.1'' \<noteq> None" by code_simp
  ultimately show ?thesis
    using sample_template_ok
    by (simp add: offers_def net_ok_def sample_net_def sample_config_def sample_libc_def rpc_config.defs RESP_SIZE_def)
qed

lemma sample_coinbase:
  obtains cb where "coinbase_build DEVFEE_ADDRESS 50 10 n None = Inr cb"
  by (simp add: coinbase_build_cases devfee_program witness_script_def Let_def)

lemma sample_payout:
  "devfee_next_payout None (fees (solo_start [])) = (DEVFEE_ADDRESS, snd (devfee_next_payout None (fees (solo_start []))))"
  by (simp add: devfee_next_payout_def solo_start_def devfee_reset_def Let_def)

theorem template_is_read_witness:
  "\<exists>cb s'. get_template sample_libc (sample_config None) sample_net (solo_start []) = (Some (template_header sample_template cb), s') \<and>
     tpl_valid s' \<and> tpl_tx_data s' = [2, 0, 255]"
proof -
  let ?f = "snd (devfee_next_payout None (fees (solo_start [])))"
  obtain cb where cb: "coinbase_build DEVFEE_ADDRESS 50 10 (g_total ?f) None = Inr cb" by (rule sample_coinbase)
  have "\<exists>s'. get_template sample_libc (sample_config None) sample_net (solo_start []) = (Some (template_header sample_template cb), s') \<and> fees s' = ?f \<and>
      tpl_valid s' \<and> tpl_hdr s' = template_header sample_template cb \<and> tpl_cb s' = cb \<and> tpl_tx_count s' = length (t_txs sample_template) \<and>
      tpl_tx_data s' = concat (map e_data (t_txs sample_template))"
    by (rule template_is_read [OF sample_offers]) (use cb sample_payout in \<open>simp_all add: sample_config_def sample_template_def\<close>)
  then show ?thesis by (auto simp: sample_template_def sample_entry_def)
qed

theorem failed_refresh_spoils_template_witness:
  "\<exists>s'. get_template sample_libc (sample_config (Some ''nobody'')) sample_net ((solo_start [])\<lparr>tpl_valid := True\<rparr>) = (None, s') \<and>
     tpl_valid s' \<and> raw (tpl_cb s') = [] \<and> tpl_tx_data s' = [2, 0, 255]"
proof -
  let ?s = "(solo_start [])\<lparr>tpl_valid := True\<rparr>" let ?f = "snd (devfee_next_payout (Some ''nobody'') (fees ?s))"
  obtain rc where d: "bech32_decode_addr ''nobody'' = Inl rc"
  proof -
    have "case bech32_decode_addr ''nobody'' of Inl _ \<Rightarrow> True | Inr _ \<Rightarrow> False" by code_simp
    then show thesis using that by (auto split: sum.splits)
  qed
  have p: "devfee_next_payout (Some ''nobody'') (fees ?s) = (''nobody'', ?f)"
    by (simp add: devfee_next_payout_def solo_start_def devfee_reset_def Let_def DEVFEE_INTERVAL_def)
  have "\<exists>s'. get_template sample_libc (sample_config (Some ''nobody'')) sample_net ?s = (None, s') \<and> tpl_valid s' = tpl_valid ?s \<and> gbt_hdr s' = gbt_hdr ?s \<and>
      tpl_hdr s' = tpl_hdr ?s \<and> raw (tpl_cb s') = [] \<and> tpl_tx_count s' = length (t_txs sample_template) \<and>
      tpl_tx_data s' = concat (map e_data (t_txs sample_template))"
    by (rule failed_refresh_spoils_template [OF sample_offers, where payee = "''nobody''" and f = ?f and rc = "- 2"])
      (use p in \<open>simp_all add: sample_config_def coinbase_build_cases d\<close>)
  then show ?thesis by (auto simp: sample_template_def sample_entry_def)
qed

lemma sample_build:
  obtains s ctx where "gbt_build sample_libc (sample_config None) sample_net False 1000 ctx0 (solo_start []) = (True, ctx, s)" "tpl_valid s"
proof -
  let ?t = sample_template and ?f = "snd (devfee_next_payout None (fees (solo_start [])))"
  obtain cb where cb: "coinbase_build DEVFEE_ADDRESS 50 10 (g_total ?f) None = Inr cb" by (rule sample_coinbase)
  obtain s1 where s1: "get_template sample_libc (sample_config None) sample_net (solo_start []) =
      finish_template (sample_config None) (case t_commitment ?t of Some w \<Rightarrow> bin2hex w | None \<Rightarrow> []) (int (t_value ?t))
       (int (t_height ?t)) (map e_txid (t_txs ?t)) (template_base ?t) s1" "fees s1 = fees (solo_start [])"
    by (rule reaches_coinbase [OF sample_offers])
  define h where "h = (template_base ?t)\<lparr>hashMerkleRoot := tree_root merkle_node (txid cb # map e_txid (t_txs ?t)), m_txcount := of_nat (length (map e_txid (t_txs ?t)) + 1)\<rparr>"
  obtain s2 where g: "get_template sample_libc (sample_config None) sample_net (solo_start []) = (Some h, s2)" "tpl_valid s2"
    using finish_template_ok [of "sample_config None" s1 DEVFEE_ADDRESS ?f "int (t_value ?t)" "int (t_height ?t)" "[]" cb h "map e_txid (t_txs ?t)" "template_base ?t"]
      s1 cb sample_payout h_def by (simp add: sample_config_def sample_template_def)
  let ?h = "h\<lparr>m_extranonce := (m_extranonce h)[0 := ucast ((1000 :: u64) AND 0xff), 1 := ucast (drop_bit 8 (1000 :: u64) AND 0xff)]\<rparr>"
  have "held (solo_start [])" using solo_run_held [OF solo_run.start] .
  then have "wf_header h" using get_template_held [OF g(1)] by simp
  then have "wf_header ?h" by (simp add: wf_header_def)
  moreover have "m_flags ?h AND 3 = 0" by (simp add: h_def template_base_def knots_header_init_def)
  ultimately obtain a b c where "stage_inputs ?h = Inr (a, b, c)" by (simp add: stage_inputs_eq Let_def)
  then show thesis using that g by (simp add: gbt_build_def)
qed

theorem solution_is_submitted_witness:
  "\<exists>s. solo_run sample_libc (sample_config None) s \<and> tpl_valid s \<and>
     (fst (gbt_on_candidate (sample_config None) sample_net 7 9 s) = CAND_BAD \<longleftrightarrow> expected_hash_top64 (with_nonce (gbt_hdr s) 7) \<noteq> 9)"
proof -
  obtain s ctx where b: "gbt_build sample_libc (sample_config None) sample_net False 1000 ctx0 (solo_start []) = (True, ctx, s)" and v: "tpl_valid s"
    by (rule sample_build)
  have r: "solo_run sample_libc (sample_config None) s" using b by (rule solo_run.build [OF solo_run.start])
  show ?thesis
    using solution_is_submitted [OF r prod.collapse [symmetric] refl, of sample_net 7 9] r v by blast
qed

end
