(* ===== verification/Miner.thy ===== *)
theory Miner
  imports Worksrc_Stratum Solo
begin

text \<open>
  The mining loop of \<^verbatim>\<open>main\<close> (\<^verbatim>\<open>src/miner/miner.c\<close>): one pass lets the work source do its input and output, rolls the work, finds the
  frame boundary and drains the FPGA's replies.  The function pointers of the source are the record \<open>source_ops\<close>; the locale
  \<open>work_source\<close> states what the loop needs of them, and is interpreted on the pool's operations and on the solo miner's.
  What a pass meets outside (clocks, registers, network) is the record \<open>pass_env\<close>.  The strings of the status page and the log are left out.
  A synchronising burst longer than the loop's buffer overruns the stack in the program; the model stops there (\<open>smashed\<close>), and the properties exclude it.
\<close>

section \<open>State\<close>

text \<open>The environment of the source in one pass is \<open>'e\<close>; a candidate is told its number within the pass.\<close>

record ('e, 's) source_ops =
  op_poll :: "'e \<Rightarrow> u64 \<Rightarrow> 's \<Rightarrow> 's"
  op_get_work :: "'e \<Rightarrow> work_ctx \<Rightarrow> 's \<Rightarrow> bool \<times> work_ctx \<times> 's"
  op_on_candidate :: "'e \<Rightarrow> nat \<Rightarrow> work_ctx \<Rightarrow> 's verdict"

record 'e pass_env =
  p_now :: u64
  p_source :: 'e
  p_quiet_from :: u64
  p_quiet :: "(poll \<times> u64 \<times> u64) list"
  p_waits :: "u64 list list"
  p_polls :: "poll list"
  p_skips :: "poll list"
  p_reads :: "poll list"
  p_fifo :: "poll list"

text \<open>
  The locals of the loop and the counters it keeps.  \<open>smashed\<close> is not in the code: it records that a synchronisation copied
  more bytes than the loop's buffer on the stack has.  From there the behaviour of the program is undefined: the model stops, and
  the properties of the loop are about a loop to which this has not happened.
\<close>

record 's miner =
  source :: 's
  live_ctx :: work_ctx
  asm :: assembler
  have_work :: bool
  last_template :: u64
  items_sent :: u64
  line :: uio_uart
  syncs :: sync_stats
  smashed :: bool

definition zero_ctx :: work_ctx where
  "zero_ctx = \<lparr>ss3 = replicate STAGE3_LEN 0, ss4 = replicate STAGE4_LEN 0, target_top64 = 0, ctx_valid = False\<rparr>"

section \<open>One pass\<close>

text \<open>The result says whether the pass ends here (\<^verbatim>\<open>continue\<close>).\<close>

definition roll_work :: "('e, 's) source_ops \<Rightarrow> worksrc \<Rightarrow> 'e pass_env \<Rightarrow> 's miner \<Rightarrow> bool \<times> 's miner" where
  "roll_work ops src e m =
     (if have_work m \<and> p_now e - last_template m < of_nat (refresh_s src) then (False, m)
      else case op_get_work ops (p_source e) zero_ctx (source m) of
        (False, nxt, s) \<Rightarrow> (False, m\<lparr>source := s, last_template := p_now e\<rparr>)
      | (True, nxt, s) \<Rightarrow>
          let (ilen, item) = worksrc_pack_item nxt (item_len src) in
          if ilen = 0 then (True, m\<lparr>source := s, last_template := p_now e\<rparr>)
          else
          let u = snd (uart_wait_quiet (p_quiet_from e) QUIET_IDLE_US QUIET_WAIT_US (p_quiet e) (line m)) in
          (case uart_write (p_waits e) TX_TIMEOUT_US (take ilen item) u of
             (True, u) \<Rightarrow>
               (False, m\<lparr>source := s, line := u, live_ctx := nxt, items_sent := items_sent m + 1, have_work := True,
                         asm := (asm m)\<lparr>frame := [], synced := False\<rparr>, last_template := p_now e\<rparr>)
           | (False, u) \<Rightarrow> (False, m\<lparr>source := s, line := u, last_template := p_now e\<rparr>)))"

text \<open>The bytes to replay, and the loop's state.\<close>

definition resync :: "'e pass_env \<Rightarrow> 's miner \<Rightarrow> bytes \<times> 's miner" where
  "resync e m =
     (if synced (asm m) \<or> \<not> have_work m then ([], m)
      else case frame_sync (p_polls e) (p_skips e) (p_reads e) True (syncs m) (line m) of
        (True, buf, s, u) \<Rightarrow>
          if length buf > SYNCBUF then ([], m\<lparr>smashed := True\<rparr>)
          else (drop (replay_start buf) buf, m\<lparr>asm := (asm m)\<lparr>frame := [], synced := True\<rparr>, syncs := s, line := u\<rparr>)
      | (False, buf, s, u) \<Rightarrow> ([], m\<lparr>asm := (asm m)\<lparr>frame := []\<rparr>, syncs := s, line := u\<rparr>))"

definition numbered :: "(nat \<Rightarrow> 's verdict) \<Rightarrow> ('s \<times> nat) verdict" where
  "numbered f nonce w st = (let (s, k) = st; (v, s) = f k nonce w s in (v, (s, Suc k)))"

definition drain_frames :: "('e, 's) source_ops \<Rightarrow> 'e pass_env \<Rightarrow> bytes \<Rightarrow> 's miner \<Rightarrow> 's miner" where
  "drain_frames ops e replay m =
     (let f = numbered (\<lambda>k. op_on_candidate ops (p_source e) k (live_ctx m));
          st = drain_sync f replay (asm m, source m, 0);
          ((a, s, k), u) = drain_uart f (p_fifo e) st (line m)
      in m\<lparr>asm := a, source := s, line := u\<rparr>)"

definition mine_pass :: "('e, 's) source_ops \<Rightarrow> worksrc \<Rightarrow> 'e pass_env \<Rightarrow> 's miner \<Rightarrow> 's miner" where
  "mine_pass ops src e m =
     (let m = (if has_poll src then m\<lparr>source := op_poll ops (p_source e) (p_now e) (source m)\<rparr> else m);
          (skip, m) = roll_work ops src e m
      in if skip then m
         else let (replay, m) = resync e m in if smashed m then m else drain_frames ops e replay m)"

fun mine_loop :: "('e, 's) source_ops \<Rightarrow> worksrc \<Rightarrow> 'e pass_env list \<Rightarrow> 's miner \<Rightarrow> 's miner" where
  "mine_loop ops src [] m = m"
| "mine_loop ops src (e # es) m = (if smashed m then m else mine_loop ops src es (mine_pass ops src e m))"

definition mine_start :: "u64 \<Rightarrow> 's \<Rightarrow> uio_uart \<Rightarrow> sync_stats \<Rightarrow> u64 \<Rightarrow> 's miner" where
  "mine_start off s u y n =
     \<lparr>source = s, live_ctx = zero_ctx,
      asm = \<lparr>frame = [], synced = False, bad_run = 0, frames_ok = 0, frames_bad = 0, candidates_verified = 0, nonce_offset = off\<rparr>,
      have_work = False, last_template = 0, items_sent = n, line = u, syncs = y, smashed = False\<rparr>"

section \<open>The sources\<close>

definition g_worksrc_gbt :: worksrc where
  "g_worksrc_gbt = \<lparr>src_name = Some ''gbt'', src_backend = Gbt, has_poll = False, refresh_s = 30, item_len = WORK_ITEM_LEN\<rparr>"

definition g_worksrc_synthetic :: worksrc where
  "g_worksrc_synthetic = \<lparr>src_name = Some ''synthetic'', src_backend = Synthetic, has_poll = False, refresh_s = 30, item_len = WORK_ITEM_LEN\<rparr>"

text \<open>What the pool source meets in a pass: its sockets, the clock it reads for itself, and the socket at each candidate.\<close>

record pool_env =
  net :: poll_env
  clock :: u64
  accepts :: "nat \<Rightarrow> send_res list"

definition pool_ops :: "platform \<Rightarrow> (pool_env, pool) source_ops" where
  "pool_ops pf = \<lparr>op_poll = (\<lambda>e t. st_poll pf (net e) t),
     op_get_work = (\<lambda>e ctx. st_get_work pf (clock e) ctx),
     op_on_candidate = (\<lambda>e k ctx nonce w. st_on_candidate ctx nonce w (accepts e k))\<rparr>"

record solo_env =
  template_net :: rpc_net
  build_clock :: u64
  submit_net :: "nat \<Rightarrow> rpc_net"

definition solo_ops :: "libc \<Rightarrow> solo_config \<Rightarrow> bool \<Rightarrow> (solo_env, solo) source_ops" where
  "solo_ops lc cfg synthetic = \<lparr>op_poll = (\<lambda>e t s. s),
     op_get_work = (\<lambda>e ctx. gbt_build lc cfg (template_net e) synthetic (build_clock e) ctx),
     op_on_candidate = (\<lambda>e k ctx nonce w. gbt_on_candidate cfg (submit_net e k) nonce w)\<rparr>"

text \<open>Registration and choice: a pool wins, then synthetic work, then the node.\<close>

definition select_source :: "bool \<Rightarrow> worksrc option \<Rightarrow> worksrc list \<Rightarrow> worksrc option" where
  "select_source synthetic pool_backend g_sources =
     (let g = worksrc_register (Some g_worksrc_synthetic) (worksrc_register (Some g_worksrc_gbt) g_sources);
          want = (if synthetic then Some ''synthetic'' else Some ''gbt'')
      in case pool_backend of
           None \<Rightarrow> worksrc_find want g
         | Some b \<Rightarrow> worksrc_find (src_name b) (worksrc_register (Some b) g))"

section \<open>What draining keeps\<close>

lemma feed_keeps:
  assumes "\<And>n w s v s'. P s \<Longrightarrow> f n w s = (v, s') \<Longrightarrow> P s'" "P (snd st)"
  shows "P (snd (feed f b st)) \<and> (synced (fst (feed f b st)) \<longrightarrow> synced (fst st))"
  using assms by (auto simp: feed_def Let_def split: prod.splits)

lemma drain_sync_keeps:
  assumes "\<And>n w s v s'. P s \<Longrightarrow> f n w s = (v, s') \<Longrightarrow> P s'" "P (snd st)"
  shows "P (snd (drain_sync f bs st)) \<and> (synced (fst (drain_sync f bs st)) \<longrightarrow> synced (fst st))"
  using assms(2)
proof (induction bs arbitrary: st)
  case (Cons b bs)
  have "P (snd (feed f b st)) \<and> (synced (fst (feed f b st)) \<longrightarrow> synced (fst st))"
    using feed_keeps [of P f st b] assms(1) Cons.prems by blast
  then show ?case using Cons.IH [of "feed f b st"] Cons.prems by simp
qed simp

lemma drain_unsynced: "\<not> synced (fst st) \<Longrightarrow> drain_sync f bs st = st"
  by (cases bs) simp_all

lemma drain_uart_wire: "wire (snd (drain_uart f ps st u)) = wire u"
proof (induction f ps st u rule: drain_uart.induct)
  case (2 f p ps st u)
  then show ?case using get_nb_wire [of p u] by (auto split: prod.splits option.splits)
qed simp

definition judge :: "('e, 's) source_ops \<Rightarrow> 'e pass_env \<Rightarrow> 's miner \<Rightarrow> ('s \<times> nat) verdict" where
  "judge ops e m = numbered (\<lambda>k. op_on_candidate ops (p_source e) k (live_ctx m))"

lemma drain_frames_eq:
  "drain_frames ops e bs m =
     (let r = drain_uart (judge ops e m) (p_fifo e) (drain_sync (judge ops e m) bs (asm m, source m, 0)) (line m)
      in m\<lparr>asm := fst (fst r), source := fst (snd (fst r)), line := snd r\<rparr>)"
  by (simp add: drain_frames_def judge_def Let_def split_beta)

lemma drain_frames_fields [simp]:
  "live_ctx (drain_frames ops e bs m) = live_ctx m" "have_work (drain_frames ops e bs m) = have_work m"
  "wire (line (drain_frames ops e bs m)) = wire (line m)" "smashed (drain_frames ops e bs m) = smashed m"
  "items_sent (drain_frames ops e bs m) = items_sent m" "last_template (drain_frames ops e bs m) = last_template m"
  by (simp_all add: drain_frames_eq drain_uart_wire Let_def)

lemma drain_frames_keeps:
  assumes "\<And>k n w s v s'. P s \<Longrightarrow> op_on_candidate ops (p_source e) k (live_ctx m) n w s = (v, s') \<Longrightarrow> P s'"
    and "synced (asm m) \<Longrightarrow> P (source m)"
  shows "(synced (asm m) \<longrightarrow> P (source (drain_frames ops e bs m))) \<and>
     (\<not> synced (asm m) \<longrightarrow> source (drain_frames ops e bs m) = source m) \<and>
     (synced (asm (drain_frames ops e bs m)) \<longrightarrow> synced (asm m))"
proof -
  let ?f = "judge ops e m" and ?all = "arrived (takeWhile (\<lambda>(s, r). s AND STAT_RX_VALID \<noteq> 0) (p_fifo e))"
  define st where "st = drain_sync ?f bs (asm m, source m, 0)"
  obtain a s k where r: "drain_sync ?f ?all st = (a, s, k)" by (metis prod_cases3)
  have src: "source (drain_frames ops e bs m) = s" "asm (drain_frames ops e bs m) = a"
    using r by (simp_all add: drain_frames_eq drain_uart_bytes Let_def flip: st_def)
  have f: "P (fst x) \<Longrightarrow> ?f n w x = (v, x') \<Longrightarrow> P (fst x')" for n w v and x x' :: "'a \<times> nat"
    using assms(1) by (auto simp: judge_def numbered_def split: prod.splits)
  show ?thesis
  proof (cases "synced (asm m)")
    case True
    have 1: "P (fst (snd st))" unfolding st_def
      by (rule conjunct1 [OF drain_sync_keeps [of "\<lambda>x. P (fst x)", OF f]]) (use assms(2) True in auto)
    have "P (fst (snd (drain_sync ?f ?all st)))"
      by (rule conjunct1 [OF drain_sync_keeps [of "\<lambda>x. P (fst x)", OF f 1]])
    then show ?thesis using True r src by simp
  next
    case False
    then have "st = (asm m, source m, 0)" unfolding st_def by (intro drain_unsynced) simp
    then have "(a, s, k) = (asm m, source m, 0)" using r drain_unsynced [of st ?f ?all] False by simp
    then show ?thesis using False src by simp
  qed
qed

section \<open>What the loop needs of a source\<close>

definition steady :: "'e pass_env \<Rightarrow> bool" where
  "steady e \<longleftrightarrow> (\<forall>w \<in> set (p_waits e). \<forall>t \<in> set w. t \<le> TX_TIMEOUT_US)"

text \<open>
  The item the receiver assembled last, on a wire that carries whole items only, is the packed context.
\<close>

definition in_flight :: "nat \<Rightarrow> work_ctx \<Rightarrow> bytes \<Rightarrow> bool" where
  "in_flight n c w \<longleftrightarrow> (\<exists>past. received n w = past @ [take n (snd (worksrc_pack_item c n))])"

lemma pack_len: "wf_ctx c \<Longrightarrow> n = 168 \<or> n = 88 \<Longrightarrow> fst (worksrc_pack_item c n) = n \<and> length (take n (snd (worksrc_pack_item c n))) = n"
  by (auto simp: pack_168 pack_88) (simp_all add: wf_ctx_def wire_sizes put_u64le_def)

lemma in_flight_written:
  assumes "0 < n" "n dvd length w" "length (take n (snd (worksrc_pack_item c n))) = n"
  shows "in_flight n c (w @ take n (snd (worksrc_pack_item c n)))"
  using received_aligned [OF assms, of "[]"] received_short [of "[]" n] assms(1) by (simp add: in_flight_def)

locale work_source =
  fixes ops :: "('e, 's) source_ops"
    and src :: worksrc
    and inv :: "'s \<Rightarrow> bool"
    and describes :: "'s \<Rightarrow> work_ctx \<Rightarrow> bool"
  assumes layout: "item_len src = 168 \<or> item_len src = 88"
    and poll_inv: "inv s \<Longrightarrow> inv (op_poll ops e t s)"
    and poll_describes: "inv s \<Longrightarrow> describes s c \<Longrightarrow> describes (op_poll ops e t s) c"
    and work_offered: "inv s \<Longrightarrow> op_get_work ops e c0 s = (True, c, s') \<Longrightarrow> inv s' \<and> wf_ctx c \<and> describes s' c"
    and work_declined: "inv s \<Longrightarrow> op_get_work ops e c0 s = (False, c', s') \<Longrightarrow> inv s' \<and> (\<forall>c. describes s c \<longrightarrow> describes s' c)"
    and candidate_judged: "inv s \<Longrightarrow> describes s c \<Longrightarrow> op_on_candidate ops e k c n w s = (v, s') \<Longrightarrow> inv s' \<and> describes s' c"
begin

definition loop_inv :: "'s miner \<Rightarrow> bool" where
  "loop_inv m \<longleftrightarrow> inv (source m) \<and> item_len src dvd length (wire (line m)) \<and> (synced (asm m) \<longrightarrow> have_work m) \<and>
     (have_work m \<longrightarrow> wf_ctx (live_ctx m) \<and> describes (source m) (live_ctx m) \<and> in_flight (item_len src) (live_ctx m) (wire (line m)))"

lemma roll_work_push:
  assumes "inv (source m)" "steady e" "\<not> (have_work m \<and> p_now e - last_template m < of_nat (refresh_s src))"
    and "op_get_work ops (p_source e) zero_ctx (source m) = (True, c, s)"
  obtains u where "wire u = wire (line m) @ take (item_len src) (snd (worksrc_pack_item c (item_len src)))"
    and "roll_work ops src e m = (False, m\<lparr>source := s, line := u, live_ctx := c, items_sent := items_sent m + 1, have_work := True,
           asm := (asm m)\<lparr>frame := [], synced := False\<rparr>, last_template := p_now e\<rparr>)"
proof -
  let ?n = "item_len src" and ?item = "take (item_len src) (snd (worksrc_pack_item c (item_len src)))"
  define u0 where "u0 = snd (uart_wait_quiet (p_quiet_from e) QUIET_IDLE_US QUIET_WAIT_US (p_quiet e) (line m))"
  have len: "fst (worksrc_pack_item c ?n) = ?n" "0 < ?n" using pack_len [of c ?n] work_offered [OF assms(1,4)] layout by auto
  obtain u where u: "uart_write (p_waits e) TX_TIMEOUT_US ?item u0 = (True, u)" "wire u = wire u0 @ ?item"
    using uart_write_ok [of "p_waits e" TX_TIMEOUT_US ?item u0] assms(2) unfolding steady_def by (metis prod.collapse)
  obtain it where pk: "worksrc_pack_item c ?n = (?n, it)" using len(1) by (metis prod.collapse)
  have "wire u0 = wire (line m)" unfolding u0_def by (rule wait_quiet_wire)
  then have "wire u = wire (line m) @ ?item" using u(2) by simp
  moreover have "roll_work ops src e m = (False, m\<lparr>source := s, line := u, live_ctx := c, items_sent := items_sent m + 1, have_work := True,
      asm := (asm m)\<lparr>frame := [], synced := False\<rparr>, last_template := p_now e\<rparr>)"
    using assms(3,4) len(2) u(1) pk by (auto simp: roll_work_def Let_def simp flip: u0_def)
  ultimately show thesis by (rule that)
qed

lemma roll_work_inv:
  assumes "loop_inv m" "steady e" "roll_work ops src e m = (skip, m')"
  shows "loop_inv m' \<and> \<not> skip"
proof (cases "have_work m \<and> p_now e - last_template m < of_nat (refresh_s src)")
  case True
  then show ?thesis using assms by (simp add: roll_work_def)
next
  case due: False
  have iv: "inv (source m)" using assms(1) by (simp add: loop_inv_def)
  obtain ok c s where g: "op_get_work ops (p_source e) zero_ctx (source m) = (ok, c, s)" by (metis prod_cases3)
  show ?thesis
  proof (cases ok)
    case False
    then have "\<not> skip" "m' = m\<lparr>source := s, last_template := p_now e\<rparr>"
      using assms(3) g due by (auto simp: roll_work_def split: if_splits)
    then show ?thesis using assms(1) work_declined [OF iv] g False by (auto simp: loop_inv_def)
  next
    case True
    note g = g [unfolded True [THEN eqTrueI]]
    note w = work_offered [OF iv g]
    have len: "length (take (item_len src) (snd (worksrc_pack_item c (item_len src)))) = item_len src" "0 < item_len src"
      using pack_len [of c "item_len src"] w layout by auto
    obtain u where u: "wire u = wire (line m) @ take (item_len src) (snd (worksrc_pack_item c (item_len src)))"
      and m': "\<not> skip" "m' = m\<lparr>source := s, line := u, live_ctx := c, items_sent := items_sent m + 1, have_work := True,
        asm := (asm m)\<lparr>frame := [], synced := False\<rparr>, last_template := p_now e\<rparr>"
      using roll_work_push [OF iv assms(2) due g] assms(3) by (metis Pair_inject)
    have "in_flight (item_len src) c (wire u)" using in_flight_written [OF len(2) _ len(1)] assms(1) u by (simp add: loop_inv_def)
    then show ?thesis using m' w assms(1) u len(1) by (simp add: loop_inv_def dvd_add)
  qed
qed

lemma resync_inv:
  assumes "loop_inv m" "resync e m = (bs, m')"
  shows "loop_inv m'"
proof -
  obtain ok buf s u where f: "frame_sync (p_polls e) (p_skips e) (p_reads e) True (syncs m) (line m) = (ok, buf, s, u)"
    by (metis prod_cases4)
  show ?thesis using assms f frame_sync_wire [OF f]
    by (cases ok) (auto simp: resync_def loop_inv_def split: if_splits)
qed

lemma drain_inv:
  assumes "loop_inv m"
  shows "loop_inv (drain_frames ops e bs m)"
proof -
  let ?P = "\<lambda>s. inv s \<and> describes s (live_ctx m)"
  have "?P s'" if "?P s" "op_on_candidate ops (p_source e) k (live_ctx m) n w s = (v, s')" for k n w s v s'
    using candidate_judged that by blast
  moreover have "?P (source m)" if "synced (asm m)" using assms that by (auto simp: loop_inv_def)
  ultimately have "(synced (asm m) \<longrightarrow> ?P (source (drain_frames ops e bs m))) \<and>
     (\<not> synced (asm m) \<longrightarrow> source (drain_frames ops e bs m) = source m) \<and>
     (synced (asm (drain_frames ops e bs m)) \<longrightarrow> synced (asm m))"
    by (rule drain_frames_keeps [of ?P])
  then show ?thesis using assms by (cases "synced (asm m)") (auto simp: loop_inv_def)
qed

lemma pass_inv:
  assumes "loop_inv m" "steady e"
  shows "loop_inv (mine_pass ops src e m)"
proof -
  define m1 where "m1 = (if has_poll src then m\<lparr>source := op_poll ops (p_source e) (p_now e) (source m)\<rparr> else m)"
  obtain skip m2 where r: "roll_work ops src e m1 = (skip, m2)" by fastforce
  obtain bs m3 where y: "resync e m2 = (bs, m3)" by fastforce
  have "loop_inv m1" using assms(1) poll_inv poll_describes by (auto simp: m1_def loop_inv_def)
  then have "loop_inv m2" "\<not> skip" using roll_work_inv [OF _ assms(2) r] by auto
  then have "loop_inv m3" "loop_inv (drain_frames ops e bs m3)" using resync_inv [OF _ y] drain_inv by blast+
  then show ?thesis using r y \<open>\<not> skip\<close> by (simp add: mine_pass_def Let_def flip: m1_def)
qed

lemma loop_keeps: "loop_inv m \<Longrightarrow> \<forall>e \<in> set es. steady e \<Longrightarrow> loop_inv (mine_loop ops src es m)"
  using pass_inv by (induction es arbitrary: m) auto

lemma start_inv: "inv s \<Longrightarrow> item_len src dvd length (wire u) \<Longrightarrow> loop_inv (mine_start off s u y n)"
  by (simp add: mine_start_def loop_inv_def)

text \<open>The first work offered, on a silent line, leaves the loop aligned and listening.\<close>

lemma first_push:
  assumes "inv (source m)" "\<not> have_work m \<and> \<not> smashed m" "steady e" "arrived (p_polls e) = []" "15 \<le> length (p_polls e)" "p_fifo e = []"
    and "s = (if has_poll src then op_poll ops (p_source e) (p_now e) (source m) else source m)"
    and "op_get_work ops (p_source e) zero_ctx s = (True, c, s')" "m' = mine_pass ops src e m"
  shows "have_work m' \<and> asm m' = (asm m)\<lparr>frame := [], synced := True\<rparr> \<and> last_template m' = p_now e \<and> source m' = s' \<and> live_ctx m' = c \<and> \<not> smashed m'"
proof -
  define m1 where "m1 = (if has_poll src then m\<lparr>source := op_poll ops (p_source e) (p_now e) (source m)\<rparr> else m)"
  have m1: "source m1 = s" "\<not> have_work m1" "\<not> smashed m1" "asm m1 = asm m" "inv s" using assms(1,2,7) poll_inv by (simp_all add: m1_def)
  obtain u where r: "roll_work ops src e m1 = (False, m1\<lparr>source := s', line := u, live_ctx := c, items_sent := items_sent m1 + 1, have_work := True,
           asm := (asm m1)\<lparr>frame := [], synced := False\<rparr>, last_template := p_now e\<rparr>)"
    using roll_work_push [of m1 e c s'] m1 assms(3,8) by auto
  obtain b u1 where c: "sync_collect True (p_polls e) 0 [] u = (At_quiet, b, u1)"
    using silent_line [OF assms(4), of 0 u] assms(5) by (cases "sync_collect True (p_polls e) 0 [] u") auto
  have "\<exists>sy. frame_sync (p_polls e) (p_skips e) (p_reads e) True (syncs m1) u = (True, [], sy, u1)"
    by (simp add: frame_sync_def c)
  then show ?thesis using assms(6,9) r m1
    by (auto simp: mine_pass_def resync_def drain_frames_def replay_start_def Let_def simp flip: m1_def)
qed

lemma mined_item:
  assumes "inv s" "item_len src dvd length (wire u)" "\<forall>e \<in> set es. steady e" "m = mine_loop ops src es (mine_start off s u y n)" "have_work m"
  shows "inv (source m) \<and> describes (source m) (live_ctx m) \<and> wf_ctx (live_ctx m) \<and> in_flight (item_len src) (live_ctx m) (wire (line m))"
  using loop_keeps [OF start_inv [OF assms(1,2)] assms(3), of off y n] assms(4,5) by (simp add: loop_inv_def)

end

section \<open>The pool's operations keep the contract\<close>

lemma sia_header_length:
  assumes "sia_build_header j en1 en2 = Some (h, r)" "wf_job j"
  shows "length h = STAGE4_LEN"
proof -
  have "length r = 32 \<and> h = sia_header j r"
    using assms(1) length_sia_merkle_root [OF length_sia_arbtx_leaf] by (auto simp: sia_build_header_def Let_def split: option.splits)
  then show ?thesis using assms(2) by (simp add: sia_header_eq wf_job_def wire_sizes)
qed

lemma built_for_wf_ctx: "built_for pf st which s c \<Longrightarrow> wf_ctx c"
proof -
  assume b: "built_for pf st which s c"
  then have w: "wf_job (job s)" and it: "chain_item (g_chain st) (job s) (take (en1_len s) (extranonce1 s)) (cur_en2 (g_cur st)) = Some (ss3 c, ss4 c)"
    by (simp_all add: built_for_def wf_stratum_def Let_def)
  show ?thesis
  proof (cases "g_chain st")
    case CHAIN_KNOTS
    then obtain r where "sia_build_stages (job s) (take (en1_len s) (extranonce1 s)) (cur_en2 (g_cur st)) = Some (ss3 c, ss4 c, r)"
      using it by (auto split: if_splits)
    from build_stages_some(2,6) [OF this w] show ?thesis by (simp add: wf_ctx_def wire_sizes)
  next
    case CHAIN_SIA
    then obtain r where "sia_build_header (job s) (take (en1_len s) (extranonce1 s)) (cur_en2 (g_cur st)) = Some (ss4 c, r)" "ss3 c = replicate STAGE3_LEN 0"
      using it by auto
    then show ?thesis using sia_header_length [OF _ w] by (simp add: wf_ctx_def)
  qed
qed

text \<open>The loop starts with the source in state \<open>pl\<close>; from then on it is in a state of a run from there.\<close>

interpretation pool_source: work_source "pool_ops pf" "worksrc_stratum_backend pl" "\<lambda>s. \<exists>ps t. pool_run pf pl ps t s" "\<lambda>s c. \<exists>which s0. mining pf pl which s0 s c"
  for pf pl
proof
  show "item_len (worksrc_stratum_backend pl) = 168 \<or> item_len (worksrc_stratum_backend pl) = 88"
    by (simp add: worksrc_stratum_backend_def g_backend_sia_def g_backend_knots_def wire_sizes)
next
  fix s e t assume "\<exists>ps u. pool_run pf pl ps u s"
  then show "\<exists>ps u. pool_run pf pl ps u (op_poll (pool_ops pf) e t s)" using pool_run.polled by (fastforce simp: pool_ops_def)
next
  fix s c e t assume "\<exists>which s0. mining pf pl which s0 s c"
  then show "\<exists>which s0. mining pf pl which s0 (op_poll (pool_ops pf) e t s) c" using mining.polled by (fastforce simp: pool_ops_def)
next
  fix s e c0 c s' assume "\<exists>ps t. pool_run pf pl ps t s" and "op_get_work (pool_ops pf) e c0 s = (True, c, s')"
  then obtain ps t where r: "pool_run pf pl ps t s" and g: "st_get_work pf (clock e) c0 s = (True, c, s')" by (auto simp: pool_ops_def)
  obtain which where w: "cur_sess (g_cur s') = Some which" "built_for pf s' which (session_of which s) c"
    using get_work_built [OF g] run_inv [OF r] by blast
  show "(\<exists>ps t. pool_run pf pl ps t s') \<and> wf_ctx c \<and> (\<exists>which s0. mining pf pl which s0 s' c)"
    using pool_run.work [OF r g] built_for_wf_ctx [OF w(2)] mining.built [OF r g w(1)] by blast
next
  fix s e c0 c' s' assume "\<exists>ps t. pool_run pf pl ps t s" and "op_get_work (pool_ops pf) e c0 s = (False, c', s')"
  then obtain ps t where r: "pool_run pf pl ps t s" and g: "st_get_work pf (clock e) c0 s = (False, c', s')" by (auto simp: pool_ops_def)
  show "(\<exists>ps t. pool_run pf pl ps t s') \<and> (\<forall>c. (\<exists>which s0. mining pf pl which s0 s c) \<longrightarrow> (\<exists>which s0. mining pf pl which s0 s' c))"
    using pool_run.work [OF r g] mining.declined [OF _ g] by blast
next
  fix s c e k n w v s' assume s: "\<exists>ps t. pool_run pf pl ps t s" "\<exists>which s0. mining pf pl which s0 s c" "op_on_candidate (pool_ops pf) e k c n w s = (v, s')"
  then have "s' = snd (st_on_candidate c n w (accepts e k) s)" by (simp add: pool_ops_def)
  then show "(\<exists>ps t. pool_run pf pl ps t s') \<and> (\<exists>which s0. mining pf pl which s0 s' c)"
    using s pool_run.candidate mining.candidate by blast
qed

section \<open>So do the solo miner's\<close>

definition header_item :: "solo_config \<Rightarrow> solo \<Rightarrow> work_ctx \<Rightarrow> bool" where
  "header_item cfg s c \<longleftrightarrow> (\<exists>a. stage_inputs (gbt_hdr s) = Inr (ss3 c, ss4 c, a)) \<and>
     target_top64 c = target_top64_from_bits (nBits (gbt_hdr s)) (target_shift cfg)"

definition solo_backend :: "bool \<Rightarrow> worksrc" where
  "solo_backend synthetic = (if synthetic then g_worksrc_synthetic else g_worksrc_gbt)"

lemma submit_block_hdr: "gbt_hdr (snd (submit_block cfg nw h s)) = gbt_hdr s"
  by (simp add: submit_block_def Let_def split: sum.splits prod.splits option.splits)

lemma template_hdr: "get_template lc cfg nw s = (r, s') \<Longrightarrow> gbt_hdr s' = gbt_hdr s"
  by (auto simp: get_template_def load_template_def finish_template_def solo_error_def Let_def
      split: option.splits prod.splits sum.splits if_splits)

lemma build_hdr:
  assumes "gbt_build lc cfg nw synthetic t c0 s = (ok, c, s')"
  shows "if ok then header_item cfg s' c else gbt_hdr s' = gbt_hdr s"
  using assms template_hdr [of lc cfg nw s]
  by (cases synthetic) (auto simp: gbt_build_def header_item_def synthetic_template_def Let_def split: option.splits prod.splits sum.splits if_splits)

interpretation solo_source: work_source "solo_ops lc cfg synthetic" "solo_backend synthetic" "solo_run lc cfg" "header_item cfg"
  for lc cfg synthetic
proof
  show "item_len (solo_backend synthetic) = 168 \<or> item_len (solo_backend synthetic) = 88"
    by (simp add: solo_backend_def g_worksrc_gbt_def g_worksrc_synthetic_def wire_sizes)
next
  fix s e c0 c s' assume s: "solo_run lc cfg s" and "op_get_work (solo_ops lc cfg synthetic) e c0 s = (True, c, s')"
  then have g: "gbt_build lc cfg (template_net e) synthetic (build_clock e) c0 s = (True, c, s')" by (simp add: solo_ops_def)
  have h: "header_item cfg s' c" using build_hdr [OF g] by simp
  have r: "solo_run lc cfg s'" using s g by (rule solo_run.build)
  have "wf_header (gbt_hdr s')" using solo_run_held [OF r] by (simp add: held_def)
  then have "wf_ctx c" using h stage_inputs_lengths by (auto simp: header_item_def wf_ctx_def)
  then show "solo_run lc cfg s' \<and> wf_ctx c \<and> header_item cfg s' c" using h r by blast
next
  fix s e c0 c' s' assume s: "solo_run lc cfg s" and "op_get_work (solo_ops lc cfg synthetic) e c0 s = (False, c', s')"
  then have g: "gbt_build lc cfg (template_net e) synthetic (build_clock e) c0 s = (False, c', s')" by (simp add: solo_ops_def)
  show "solo_run lc cfg s' \<and> (\<forall>c. header_item cfg s c \<longrightarrow> header_item cfg s' c)"
    using solo_run.build [OF s g] build_hdr [OF g] by (simp add: header_item_def)
next
  fix s c e k n w v s' assume s: "solo_run lc cfg s" "header_item cfg s c" "op_on_candidate (solo_ops lc cfg synthetic) e k c n w s = (v, s')"
  then have g: "gbt_on_candidate cfg (submit_net e k) n w s = (v, s')" by (simp add: solo_ops_def)
  then have "gbt_hdr s' = gbt_hdr s" using submit_block_hdr by (auto simp: gbt_on_candidate_def Let_def split: if_splits sum.splits)
  then show "solo_run lc cfg s' \<and> header_item cfg s' c" using s(1,2) g solo_run.candidate by (auto simp: header_item_def)
qed (simp_all add: solo_ops_def)

section \<open>A pass that only listens\<close>

lemma fifo_reports:
  "arrived (takeWhile (\<lambda>(s, r). s AND STAT_RX_VALID \<noteq> 0) (on_line_bytes bs @ (0, 0) # rest)) = bs"
proof -
  have "takeWhile (\<lambda>(s, r). s AND STAT_RX_VALID \<noteq> 0) (on_line_bytes bs @ (0, 0) # rest) = on_line_bytes bs"
    by (subst takeWhile_append2) (auto simp: on_line_bytes_def STAT_RX_VALID_def)
  then show ?thesis by simp
qed

lemma listening_pass:
  assumes "have_work m \<and> \<not> smashed m" "p_now e - last_template m < of_nat (refresh_s src)" "synced (asm m)" "frame (asm m) = []"
    and "s = (if has_poll src then op_poll ops (p_source e) (p_now e) (source m) else source m)"
    and "p_fifo e = on_line_bytes (concat (map report rs)) @ (0, 0) # rest"
    and "offered (numbered (\<lambda>k. op_on_candidate ops (p_source e) k (live_ctx m))) (nonce_offset (asm m)) rs (s, 0) = (vs, s', k)"
  shows "asm (mine_pass ops src e m) = after_reports vs (asm m) \<and> source (mine_pass ops src e m) = s'"
proof -
  define m1 where "m1 = (if has_poll src then m\<lparr>source := op_poll ops (p_source e) (p_now e) (source m)\<rparr> else m)"
  have f: "source m1 = s" "asm m1 = asm m" "live_ctx m1 = live_ctx m" "have_work m1" "\<not> smashed m1" "last_template m1 = last_template m"
    using assms(1,5) by (simp_all add: m1_def)
  have "mine_pass ops src e m = drain_frames ops e [] m1"
    using assms(2,3) f by (simp add: mine_pass_def roll_work_def resync_def Let_def flip: m1_def)
  moreover have "drain_sync (judge ops e m1) (concat (map report rs)) (asm m, s, 0) = (after_reports vs (asm m), s', k)"
    using drain_sync_frames [of "asm m" "map report rs" "judge ops e m1" "(s, 0)"] assms(3,4,7)
      frames_run_reports [OF assms(3), of "judge ops e m1" rs "(s, 0)" vs "(s', k)"] by (simp add: judge_def f)
  ultimately show ?thesis by (simp add: drain_frames_eq drain_uart_bytes assms(6) fifo_reports f)
qed

section \<open>Properties\<close>

text \<open>What the pool's bitstream computes from an item: the Sia core hashes the header in it, the Knots core as in the theory of work items.\<close>

fun core_digest :: "chain \<Rightarrow> bool \<Rightarrow> bytes \<Rightarrow> u64 \<Rightarrow> bytes" where
  "core_digest CHAIN_SIA on_chip item n = blake2b_nokey (put_nonce (take 80 item) n) 32"
| "core_digest CHAIN_KNOTS on_chip item n = rev (bitstream_digest on_chip item n)"

lemma core_digest_pow:
  assumes "built_for pf st which s c"
  shows "core_digest (g_chain st) on_chip
     (take (item_len (worksrc_stratum_backend st)) (snd (worksrc_pack_item c (item_len (worksrc_stratum_backend st))))) n =
     chain_pow (g_chain st) (ss4 c) n"
proof -
  have w: "wf_ctx c" "wf_job (job s)" using built_for_wf_ctx [OF assms] assms by (auto simp: built_for_def wf_stratum_def Let_def)
  show ?thesis
  proof (cases "g_chain st")
    case CHAIN_SIA
    then show ?thesis using w(1)
      by (simp add: worksrc_stratum_backend_def g_backend_sia_def wire_sizes pack_88 chain_pow_def sia_chain_pow_compare_def wf_ctx_def)
  next
    case CHAIN_KNOTS
    then obtain r where b: "branches (job s) = []"
        "sia_build_stages (job s) (take (en1_len s) (extranonce1 s)) (cur_en2 (g_cur st)) = Some (ss3 c, ss4 c, r)"
      using assms by (auto simp: built_for_def Let_def split: if_splits)
    have c: "\<lparr>ss3 = ss3 c, ss4 = ss4 c, target_top64 = target_top64 c, ctx_valid = True\<rparr> = c" using assms by (simp add: built_for_def Let_def)
    have l: "length (snd (worksrc_pack_item c 168)) = 168" using pack_168 [OF w(1)] w(1) by (simp add: wf_ctx_def wire_sizes put_u64le_def)
    show ?thesis
      using pool_item_digest [OF w(2) b, of n on_chip "target_top64 c"] CHAIN_KNOTS l
      by (simp add: c worksrc_stratum_backend_def g_backend_knots_def wire_sizes chain_pow_def)
  qed
qed

text \<open>A burst that fits the buffer does no harm.\<close>

lemma resync_safe: "length (arrived (p_polls e)) \<le> SYNCBUF \<Longrightarrow> smashed (snd (resync e m)) = smashed m"
proof -
  assume a: "length (arrived (p_polls e)) \<le> SYNCBUF"
  obtain ok buf s u where f: "frame_sync (p_polls e) (p_skips e) (p_reads e) True (syncs m) (line m) = (ok, buf, s, u)"
    by (metis prod_cases4)
  have "length (arrived (take k (p_polls e))) \<le> length (arrived (p_polls e))" for k
    by (metis append_take_drop_id arrived_simps(2) le_add1 length_append)
  moreover have "(\<exists>k. buf = arrived (take k (p_polls e))) \<or> buf = take (RESULT_LEN * 8) (arrived (p_reads e))" using frame_sync_bytes [OF f] by blast
  ultimately have "length buf \<le> SYNCBUF" using a by (auto simp: SYNCBUF_def intro: order_trans)
  then show ?thesis by (simp add: resync_def f split: bool.split)
qed

lemma roll_smashed: "smashed (snd (roll_work ops src e m)) = smashed m"
  by (simp add: roll_work_def Let_def split: prod.split bool.split)

lemma loop_safe:
  "\<forall>e \<in> set es. length (arrived (p_polls e)) \<le> SYNCBUF \<Longrightarrow> \<not> smashed m \<Longrightarrow> \<not> smashed (mine_loop ops src es m)"
proof (induction es arbitrary: m)
  case (Cons e es)
  define m1 where "m1 = (if has_poll src then m\<lparr>source := op_poll ops (p_source e) (p_now e) (source m)\<rparr> else m)"
  obtain skip m2 where r: "roll_work ops src e m1 = (skip, m2)" by fastforce
  obtain bs m3 where y: "resync e m2 = (bs, m3)" by fastforce
  have "\<not> smashed m2" using roll_smashed [of ops src e m1] r Cons.prems(2) by (simp add: m1_def)
  moreover have "smashed m3 = smashed m2" using resync_safe [of e m2] Cons.prems(1) y by simp
  ultimately have "\<not> smashed (mine_pass ops src e m)" using r y by (simp add: mine_pass_def Let_def flip: m1_def)
  then show ?case using Cons by simp
qed simp

text \<open>
  C2: in pool mining the hardware works on what the miner will judge and submit.  After any number of passes of the loop without
  a transmit stall and without a synchronising burst of more than the 136 bytes its buffer holds (where the program's behaviour is undefined), over any network and any other replies, once there is work:
  the pool's record for submission describes the live item, built from a session of the pool as it was then; the item the FPGA assembled last is the
  packed live context; and for every nonce the digest the core computes from the item is the hash the
  software compares with the share target.
\<close>

theorem pool_loop_agrees_with_hardware:
  assumes "wf_pool st" "item_len (worksrc_stratum_backend st) dvd length (wire u)" "\<forall>e \<in> set es. steady e"
    and "m = mine_loop (pool_ops pf) (worksrc_stratum_backend st) es (mine_start off st u y n)" "have_work m" "\<not> smashed m"
  shows "(\<exists>which s. mining pf st which s (source m) (live_ctx m)) \<and> wf_pool (source m) \<and>
     (\<exists>past item. received (item_len (worksrc_stratum_backend st)) (wire (line m)) = past @ [item] \<and>
        (\<forall>on_chip nonce. core_digest (g_chain st) on_chip item nonce = chain_pow (g_chain st) (ss4 (live_ctx m)) nonce))"
proof -
  have i: "\<exists>ps t. pool_run pf st ps t st" using pool_run.start [OF assms(1)] by blast
  obtain which s where mi: "mining pf st which s (source m) (live_ctx m)" using pool_source.mined_item [OF i assms(2-5)] by blast
  have fl: "in_flight (item_len (worksrc_stratum_backend st)) (live_ctx m) (wire (line m))" using pool_source.mined_item [OF i assms(2-5)] by blast
  note v = mining_inv [OF mi]
  have e: "worksrc_stratum_backend (source m) = worksrc_stratum_backend st" using v by (simp add: worksrc_stratum_backend_def)
  have d: "core_digest (g_chain st) on_chip (take (item_len (worksrc_stratum_backend st)) (snd (worksrc_pack_item (live_ctx m) (item_len (worksrc_stratum_backend st))))) nonce =
      chain_pow (g_chain st) (ss4 (live_ctx m)) nonce" for on_chip nonce
    using core_digest_pow [of pf "source m" which s "live_ctx m" on_chip nonce] v unfolding e by simp
  show ?thesis using fl mi v d unfolding in_flight_def by blast
qed

text \<open>
  C4: the same for solo mining.  After any number of passes without a stall and without a synchronising burst of more than the 136 bytes the loop's buffer holds, once there is work, the item the FPGA assembled
  last is, byte for byte, the work item of the header candidates will be checked against and blocks built from.
\<close>

theorem solo_loop_agrees_with_hardware:
  assumes "solo_run lc cfg s" "WORK_ITEM_LEN dvd length (wire u)" "\<forall>e \<in> set es. steady e"
    and "m = mine_loop (solo_ops lc cfg synthetic) (solo_backend synthetic) es (mine_start off s u y n)" "have_work m" "\<not> smashed m"
  shows "solo_run lc cfg (source m) \<and>
     (\<exists>past item. received WORK_ITEM_LEN (wire (line m)) = past @ [item] \<and>
        build_work_item (gbt_hdr (source m)) (target_top64_from_bits (nBits (gbt_hdr (source m))) (target_shift cfg)) = Inr item)"
proof -
  have n: "item_len (solo_backend synthetic) = WORK_ITEM_LEN" by (simp add: solo_backend_def g_worksrc_gbt_def g_worksrc_synthetic_def)
  have r: "solo_run lc cfg (source m)" and h: "header_item cfg (source m) (live_ctx m)" and w: "wf_ctx (live_ctx m)"
    and fl: "in_flight WORK_ITEM_LEN (live_ctx m) (wire (line m))"
    using solo_source.mined_item [OF assms(1) _ assms(3-5)] assms(2) by (simp_all add: n)
  have wh: "wf_header (gbt_hdr (source m))" using solo_run_held [OF r] by (simp add: held_def)
  obtain a where a: "stage_inputs (gbt_hdr (source m)) = Inr (ss3 (live_ctx m), ss4 (live_ctx m), a)"
    and t: "target_top64 (live_ctx m) = target_top64_from_bits (nBits (gbt_hdr (source m))) (target_shift cfg)" using h by (auto simp: header_item_def)
  have "snd (worksrc_pack_item (live_ctx m) 168) = ss3 (live_ctx m) @ replicate 28 0 @ ss4 (live_ctx m) @ put_u64le (target_top64 (live_ctx m))"
    "length (snd (worksrc_pack_item (live_ctx m) 168)) = 168"
    using pack_168 [OF w] w by (simp_all add: wf_ctx_def wire_sizes put_u64le_def)
  then have "build_work_item (gbt_hdr (source m)) (target_top64 (live_ctx m)) = Inr (take WORK_ITEM_LEN (snd (worksrc_pack_item (live_ctx m) WORK_ITEM_LEN)))"
    using build_work_item_layout [OF wh a] by (simp add: wire_sizes)
  then show ?thesis using fl r unfolding in_flight_def t by metis
qed


text \<open>
  which source mines.  With a pool configured it is the pool's backend for the configured chain, whatever else is asked; without
  one it is synthetic work when asked for, and the node otherwise.
\<close>

theorem select_source_correct:
  "select_source synthetic (Some (worksrc_stratum_backend st)) [] = Some (worksrc_stratum_backend st) \<and>
   select_source synthetic None [] = Some (solo_backend synthetic)"
  by (simp add: select_source_def worksrc_register_def worksrc_find_def solo_backend_def g_worksrc_gbt_def g_worksrc_synthetic_def
      worksrc_stratum_backend_def g_backend_sia_def g_backend_knots_def MAX_SOURCES_def Let_def)

section \<open>Witnesses\<close>

definition silent_net :: poll_env where
  "silent_net = \<lparr>main_dial = dead_env, main_sends = [], main_recvs = [], dev_dial = dead_env, dev_sends = [], dev_recvs = []\<rparr>"

definition first_pass :: "pool_env pass_env" where
  "first_pass = \<lparr>p_now = 7, p_source = \<lparr>net = silent_net, clock = 7, accepts = (\<lambda>_. [Sent 1024])\<rparr>, p_quiet_from = 0, p_quiet = [], p_waits = [],
     p_polls = replicate 15 (0, 0), p_skips = [], p_reads = [], p_fifo = []\<rparr>"

definition pool_at_work :: "pool miner" where
  "pool_at_work = mine_loop (pool_ops plain_platform) (worksrc_stratum_backend ready_pool) [first_pass] (mine_start 97 ready_pool idle_uart no_syncs 0)"

lemma silent_session: "0 \<le> fd s \<Longrightarrow> rx s = [] \<Longrightarrow> stratum_poll pf e now ss [] s = s"
  by (cases s) (simp add: stratum_poll_def recv_loop.simps dispatch.simps RX_SIZE_def Let_def)

lemma silent_poll: "0 \<le> fd (g_main st) \<Longrightarrow> rx (g_main st) = [] \<Longrightarrow> \<not> g_dev_configured st \<Longrightarrow> st_poll pf silent_net t st = st"
  by (simp add: st_poll_def silent_net_def silent_session)

lemma ready_silent: "st_poll pf silent_net t ready_pool = ready_pool"
  by (intro silent_poll) (simp_all add: ready_pool_def pool_start_def ready_session_def stratum_init_def)

lemma pool_at_work_state:
  "have_work pool_at_work" "synced (asm pool_at_work)" "frame (asm pool_at_work) = []" "nonce_offset (asm pool_at_work) = 97"
  "candidates_verified (asm pool_at_work) = 0" "last_template pool_at_work = 7" "steady first_pass" "\<not> smashed pool_at_work"
proof -
  obtain c st where g: "st_get_work plain_platform 7 empty_ctx ready_pool = (True, c, st)" using ready_pool_works(2) by blast
  have start: "\<exists>ps t. pool_run plain_platform ready_pool ps t ready_pool" using pool_run.start [OF ready_pool_works(1)] by blast
  have z: "zero_ctx = empty_ctx" by (simp add: zero_ctx_def empty_ctx_def)
  show st: "steady first_pass" by (simp add: steady_def first_pass_def)
  have "have_work pool_at_work \<and> asm pool_at_work = (asm (mine_start 97 ready_pool idle_uart no_syncs 0))\<lparr>frame := [], synced := True\<rparr> \<and>
      last_template pool_at_work = p_now first_pass \<and> source pool_at_work = st \<and> live_ctx pool_at_work = c \<and> \<not> smashed pool_at_work"
    using g start
    by (intro pool_source.first_push [where s = ready_pool and pf = plain_platform and pl = ready_pool and e = first_pass and
          m = "mine_start 97 ready_pool idle_uart no_syncs 0", OF _ _ st])
      (simp_all add: first_pass_def mine_start_def pool_at_work_def pool_ops_def z ready_silent arrived_def STAT_RX_VALID_def)
  then show "have_work pool_at_work" "synced (asm pool_at_work)" "frame (asm pool_at_work) = []" "nonce_offset (asm pool_at_work) = 97"
    "candidates_verified (asm pool_at_work) = 0" "last_template pool_at_work = 7" "\<not> smashed pool_at_work"
    by (simp_all add: mine_start_def first_pass_def)
qed

lemma idle_aligned: "n dvd length (wire idle_uart)"
  by (simp add: idle_uart_def)

theorem pool_loop_agrees_with_hardware_witness:
  "\<exists>past item. received 88 (wire (line pool_at_work)) = past @ [item] \<and>
     core_digest CHAIN_SIA True item 5 = chain_pow CHAIN_SIA (ss4 (live_ctx pool_at_work)) 5"
proof -
  have c: "g_chain ready_pool = CHAIN_SIA" "item_len (worksrc_stratum_backend ready_pool) = 88"
    by (simp_all add: ready_pool_def worksrc_stratum_backend_def g_backend_sia_def wire_sizes)
  show ?thesis
    using pool_loop_agrees_with_hardware [OF ready_pool_works(1) idle_aligned _ pool_at_work_def pool_at_work_state(1,8)] pool_at_work_state(7)
    by (auto simp: c)
qed

definition listening :: "pool_env pass_env" where
  "listening = first_pass\<lparr>p_now := 8, p_fifo := on_line_bytes (report (1000 - 97,
     chain_expected (g_chain ready_pool) (ss4 (live_ctx pool_at_work)) 1000)) @ [(0, 0)]\<rparr>"


definition solo_pass :: "solo_env pass_env" where
  "solo_pass = \<lparr>p_now = 7, p_source = \<lparr>template_net = sample_net, build_clock = 1000, submit_net = (\<lambda>_. sample_net)\<rparr>, p_quiet_from = 0, p_quiet = [],
     p_waits = [], p_polls = replicate 15 (0, 0), p_skips = [], p_reads = [], p_fifo = []\<rparr>"

definition solo_at_work :: "solo miner" where
  "solo_at_work = mine_loop (solo_ops sample_libc (sample_config None) False) (solo_backend False) [solo_pass] (mine_start 97 (solo_start []) idle_uart no_syncs 0)"

theorem solo_loop_agrees_with_hardware_witness:
  "\<exists>past item. received WORK_ITEM_LEN (wire (line solo_at_work)) = past @ [item] \<and>
     build_work_item (gbt_hdr (source solo_at_work)) (target_top64_from_bits (nBits (gbt_hdr (source solo_at_work))) 22) = Inr item"
proof -
  obtain s c where b: "gbt_build sample_libc (sample_config None) sample_net False 1000 zero_ctx (solo_start []) = (True, c, s)"
    by (rule sample_build)
  have st: "steady solo_pass" by (simp add: steady_def solo_pass_def)
  have r: "solo_run sample_libc (sample_config None) (solo_start [])" by (rule solo_run.start)
  have "have_work solo_at_work \<and> asm solo_at_work = (asm (mine_start 97 (solo_start []) idle_uart no_syncs 0))\<lparr>frame := [], synced := True\<rparr> \<and>
      last_template solo_at_work = p_now solo_pass \<and> source solo_at_work = s \<and> live_ctx solo_at_work = c \<and> \<not> smashed solo_at_work"
    using b r
    by (intro solo_source.first_push [where s = "solo_start []" and lc = sample_libc and cfg = "sample_config None" and e = solo_pass and synthetic = False and
          m = "mine_start 97 (solo_start []) idle_uart no_syncs 0", OF _ _ st])
      (simp_all add: solo_pass_def mine_start_def solo_at_work_def solo_ops_def solo_backend_def g_worksrc_gbt_def arrived_def STAT_RX_VALID_def)
  then have w: "have_work solo_at_work" "\<not> smashed solo_at_work" by simp_all
  then show ?thesis
    using solo_loop_agrees_with_hardware [OF r idle_aligned _ solo_at_work_def w] st by (auto simp: sample_config_def)
qed

end
