(* ===== verification/Status.thy ===== *)
theory Status
  imports Miner
begin

text \<open>
  The status page (\<^verbatim>\<open>write_status\<close> and \<^verbatim>\<open>pool_json\<close> in \<^verbatim>\<open>src/miner/miner.c\<close>): the text written to the status file.  The
  global \<^verbatim>\<open>st\<close> is the record \<open>status\<close>; \<open>show_miner\<close> fills it from the state of a mining loop.  The file itself (a temporary
  file renamed over the old one) is left out.
\<close>

section \<open>Printing\<close>

text \<open>\<^verbatim>\<open>%g\<close>: six significant digits, the shorter of the two styles, trailing zeros removed.\<close>

definition log10_floor :: "rat \<Rightarrow> int" where
  "log10_floor x =
     (let (n, d) = quotient_of x; e = int (length (dec (nat n))) - int (length (dec (nat d))) in
      if pow_rat 10 e \<le> x then e else e - 1)"

definition strip_zeros :: "string \<Rightarrow> string" where
  "strip_zeros t = rev (dropWhile (\<lambda>c. c = CHR ''0'') (rev t))"

definition pointed :: "string \<Rightarrow> string \<Rightarrow> string" where
  "pointed ip fp = (let fp = strip_zeros fp in if fp = [] then ip else ip @ CHR ''.'' # fp)"

definition c_exponent :: "int \<Rightarrow> string" where
  "c_exponent e = CHR ''e'' # (if e < 0 then CHR ''-'' else CHR ''+'') #
     (let t = dec (nat \<bar>e\<bar>) in if length t < 2 then CHR ''0'' # t else t)"

definition c_g_pos :: "rat \<Rightarrow> string" where
  "c_g_pos x =
     (let e = log10_floor x;
          m = round_even (x / pow_rat 10 (e - 5));
          (m, e) = (if m \<ge> 10 ^ 6 then (10 ^ 5, e + 1) else (m, e));
          ds = dec (nat m)
      in if - 4 \<le> e \<and> e < 0 then pointed ''0'' (replicate (nat (- e - 1)) (CHR ''0'') @ ds)
         else if 0 \<le> e \<and> e < 6 then pointed (take (nat e + 1) ds) (drop (nat e + 1) ds)
         else pointed (take 1 ds) (drop 1 ds) @ c_exponent e)"

fun c_g :: "cdouble \<Rightarrow> string" where
  "c_g (Fin x) = (if x = 0 then ''0'' else if x < 0 then CHR ''-'' # c_g_pos (- x) else c_g_pos x)"
| "c_g (Inf s) = (if s then ''-inf'' else ''inf'')"
| "c_g NaN = ''nan''"

definition c_bool :: "bool \<Rightarrow> string" where
  "c_bool b = (if b then ''true'' else ''false'')"

definition llu :: "u64 \<Rightarrow> string" where
  "llu x = dec (unat x)"

section \<open>The page\<close>

record status =
  st_items_sent :: u64
  st_frames_ok :: u64
  st_frames_bad :: u64
  st_candidates_verified :: u64
  st_started_at :: u64
  st_template_height :: u64
  st_phase :: string
  st_error :: string
  st_last_nonce :: string
  st_last_hash :: string
  st_vectors :: int
  st_uart :: int
  st_loopback :: int
  st_nonce_offset :: u64
  st_merkle_root :: string
  st_payout_address :: string
  st_blocks_submitted :: u64
  st_blocks_accepted :: u64
  st_last_submit :: string
  st_sync :: sync_stats
  st_last_frame_at :: u64

definition line_of :: "string \<times> string \<Rightarrow> string" where
  "line_of kv = ''  '' @ quoted (fst kv) @ '': '' @ snd kv @ CHR '','' # [CHR 0x0A]"

definition inner :: "(string \<times> string) list \<Rightarrow> string" where
  "inner kvs = sep_by '', '' (map (\<lambda>(k, v). quoted k @ '': '' @ v) kvs)"

definition pool_fields :: "pool_status \<Rightarrow> devfee_state \<Rightarrow> (string \<times> string) list" where
  "pool_fields p f =
     [(''pool'', CHR ''{'' # CHR 0x0A # ''    '' @
         inner [(''url'', quoted (s_pool p)), (''connected'', c_bool (s_connected p)), (''authorized'', c_bool (s_authorized p)),
                (''has_job'', c_bool (s_has_job p))] @ CHR '','' # CHR 0x0A # ''    '' @
         inner [(''difficulty'', c_g (s_difficulty p)), (''job_id'', quoted (s_job_id p)), (''jobs_received'', llu (s_jobs_received p))] @
           CHR '','' # CHR 0x0A # ''    '' @
         inner [(''shares_submitted'', llu (s_shares_submitted p)), (''shares_accepted'', llu (s_shares_accepted p)),
                (''shares_rejected'', llu (s_shares_rejected p))] @ CHR '','' # CHR 0x0A # ''    '' @
         inner [(''reconnects'', llu (s_reconnects p)), (''last_reject'', quoted (s_last_reject p))] @ CHR 0x0A # ''  }''),
      (''devfee_pool_jobs'', llu (g_pool_jobs f)), (''devfee_pool_dev_jobs'', llu (g_pool_dev_jobs f)),
      (''devfee_pool_skipped'', llu (g_pool_skipped f)), (''devfee_pool_shares'', llu (g_pool_shares f))]"

definition pool_json :: "worksrc option \<Rightarrow> pool_status \<Rightarrow> devfee_state \<Rightarrow> string" where
  "pool_json src p f =
     (case src of
        None \<Rightarrow> []
      | Some b \<Rightarrow>
          if src_name b \<noteq> Some ''stratum'' \<and> src_name b \<noteq> Some ''sia'' then []
          else snprintf_s 1024 (concat (map line_of (pool_fields p f))))"

definition DEVFEE_PERCENT :: int where "DEVFEE_PERCENT = 5"

definition status_fields ::
  "u64 \<Rightarrow> string \<Rightarrow> nat \<Rightarrow> uio_uart option \<Rightarrow> devfee_state \<Rightarrow> worksrc option \<Rightarrow> status \<Rightarrow> (string \<times> string) list" where
  "status_fields now dev shift u f src st =
     [(''phase'', quoted (st_phase st)),
      (''uptime_s'', llu (now - st_started_at st)),
      (''uart_dev'', quoted dev),
      (''selftest'', ''{ '' @ inner [(''vectors'', dec_int (st_vectors st)), (''uart'', dec_int (st_uart st)), (''loopback'', dec_int (st_loopback st))] @ '' }''),
      (''nonce_offset'', dec_int (sint (st_nonce_offset st))),
      (''target_shift'', dec shift),
      (''template_height'', llu (st_template_height st)),
      (''items_sent'', llu (st_items_sent st)),
      (''frames_ok'', llu (st_frames_ok st)),
      (''frames_bad'', llu (st_frames_bad st)),
      (''candidates_verified'', llu (st_candidates_verified st)),
      (''framing'', ''{ '' @ inner [(''quiet'', llu (sync_quiet (st_sync st))), (''gap'', llu (sync_gap (st_sync st))), (''locked'', llu (sync_locked (st_sync st))),
         (''failed'', llu (sync_failed (st_sync st))),
         (''secs_since_frame'', if st_last_frame_at st \<noteq> 0 then dec_int (sint (now - st_last_frame_at st)) else ''-1'')] @ '' }''),
      (''uart'', ''{ '' @ inner (case u of
          Some u \<Rightarrow> [(''rx_bytes'', llu (rx_bytes u)), (''tx_bytes'', llu (tx_bytes u)), (''overruns'', llu (overruns u)), (''tx_stall_us'', llu (tx_stall_us u))]
        | None \<Rightarrow> [(''rx_bytes'', ''0''), (''tx_bytes'', ''0''), (''overruns'', ''0''), (''tx_stall_us'', ''0'')]) @ '' }''),
      (''last_nonce'', quoted (st_last_nonce st)),
      (''last_hash_top64'', quoted (st_last_hash st)),
      (''merkle_root'', quoted (st_merkle_root st)),
      (''payout_address'', quoted (st_payout_address st)),
      (''devfee_percent'', dec_int DEVFEE_PERCENT),
      (''devfee_active'', c_bool (g_current_is_dev f)),
      (''devfee_templates_total'', llu (g_total f)),
      (''devfee_templates_dev'', llu (g_dev f)),
      (''blocks_submitted'', llu (st_blocks_submitted st)),
      (''blocks_accepted'', llu (st_blocks_accepted st)),
      (''last_submit_result'', quoted (st_last_submit st)),
      (''worksrc'', quoted (case src of Some b \<Rightarrow> (case src_name b of Some n \<Rightarrow> n | None \<Rightarrow> []) | None \<Rightarrow> ''none''))]"

definition write_status ::
  "u64 \<Rightarrow> string \<Rightarrow> nat \<Rightarrow> uio_uart option \<Rightarrow> devfee_state \<Rightarrow> worksrc option \<Rightarrow> pool_status \<Rightarrow> status \<Rightarrow> string" where
  "write_status now dev shift u f src p st =
     CHR ''{'' # CHR 0x0A # concat (map line_of (status_fields now dev shift u f src st)) @ pool_json src p f @
     line_of (''developer'', quoted ''Fry Networks'') @
     ''  '' @ quoted ''last_error'' @ '': '' @ quoted (st_error st) @ CHR 0x0A # CHR ''}'' # [CHR 0x0A]"

section \<open>Lines that read back\<close>

definition value_ok :: "string \<Rightarrow> bool" where
  "value_ok v \<longleftrightarrow> solid v \<and> (\<forall>r. ends r \<longrightarrow> js_skip (v @ r) = Some r)"

lemma value_quoted: "esc_ok t \<Longrightarrow> value_ok (quoted t)"
  using js_skip_print [of "[]" "JStr t"] by (simp add: value_ok_def quoted_def solid_def js_space_def wsp_def print.simps)

lemma value_raw: "raw_ok t \<Longrightarrow> value_ok t"
  using js_skip_print [of "[]" "JRaw t"] print_solid [of "JRaw t" "[]" "[]"] by (simp add: value_ok_def wsp_def print.simps)

lemma value_object:
  assumes "transparent (CHR ''{'') (CHR ''}'') x"
  shows "value_ok (CHR ''{'' # x @ ''}'')"
proof -
  have "bracket_pair (CHR ''{'') (CHR ''}'')" by (simp add: bracket_pair_def)
  from bracketed_skip [OF this assms] show ?thesis by (simp add: value_ok_def solid_def js_space_def)
qed

lemma get_loop_ws: "wsp w \<Longrightarrow> get_loop key (w @ p) = get_loop key p"
  by (subst (1 2) get_loop.simps) (simp add: js_ws_append)

lemma wsp_lits [simp]: "wsp [CHR 0x0A]" "wsp ''  ''" "wsp (CHR 0x0A # ''  '')" "wsp '' ''"
  by (simp_all add: wsp_def js_space_def)

lemma get_loop_field:
  assumes "esc_ok k" "value_ok v" "ends r"
  shows "get_loop key (quoted k @ '': '' @ v @ r) =
     (if key = k then Some (v @ r)
      else let q = js_ws r in if starts (CHR '','') q then get_loop key (tl q) else None)"
proof -
  have v: "js_ws (CHR '' '' # v @ r) = v @ r" "js_skip (v @ r) = Some r"
    using assms(2,3) js_ws_append [of "'' ''" "v @ r"] by (auto simp: value_ok_def js_ws_solid solid_def)
  have k: "str_end (k @ CHR 0x22 # x) = CHR 0x22 # x" for x by (rule str_end_esc [OF assms(1)])
  have ws: "js_ws (CHR 0x22 # x) = CHR 0x22 # x" "js_ws (CHR '':'' # x) = CHR '':'' # x" for x
    by (simp_all add: js_ws_def js_space_def)
  show ?thesis
    unfolding quoted_def by (subst get_loop.simps) (auto simp: Let_def k ws v)
qed


text \<open>A run of lines: the first of that name is found, the others are stepped over.\<close>

definition line_ok :: "string \<times> string \<Rightarrow> bool" where
  "line_ok kv \<longleftrightarrow> esc_ok (fst kv) \<and> value_ok (snd kv)"

lemma get_loop_lines:
  "list_all line_ok kvs \<Longrightarrow>
   (case map_of kvs key of
      Some v \<Rightarrow> \<exists>t. ends t \<and> get_loop key (concat (map line_of kvs) @ r) = Some (v @ t)
    | None \<Rightarrow> get_loop key (concat (map line_of kvs) @ r) = get_loop key r)"
proof (induction kvs)
  case (Cons kv kvs)
  obtain k v where kv: "kv = (k, v)" by fastforce
  have ok: "esc_ok k" "value_ok v" using Cons.prems kv by (simp_all add: line_ok_def)
  let ?r = "CHR '','' # CHR 0x0A # concat (map line_of kvs) @ r"
  have e: "ends ?r" by (simp add: ends_def)
  have "get_loop key (concat (map line_of (kv # kvs)) @ r) = get_loop key (quoted k @ '': '' @ v @ ?r)"
    using get_loop_ws [of "''  ''" key "quoted k @ '': '' @ v @ ?r"] kv by (simp add: line_of_def)
  also have "\<dots> = (if key = k then Some (v @ ?r) else get_loop key (concat (map line_of kvs) @ r))"
    using get_loop_field [OF ok e, of key] get_loop_ws [of "[CHR 0x0A]" key "concat (map line_of kvs) @ r"] by (simp add: js_ws_def)
  finally have g: "get_loop key (concat (map line_of (kv # kvs)) @ r) =
     (if key = k then Some (v @ ?r) else get_loop key (concat (map line_of kvs) @ r))" .
  show ?case using Cons.IH Cons.prems e unfolding g by (auto simp: kv)
qed simp

section \<open>The values\<close>

lemma plain_raw: "t \<noteq> [] \<Longrightarrow> list_all (\<lambda>c. is_digit c \<or> c \<in> set ''-+.einfatrulsn'') t \<Longrightarrow> raw_ok t"
  by (auto simp: raw_ok_def list_all_iff js_delim_def js_space_def is_digit_def)

lemma raw_bool [simp]: "raw_ok (c_bool b)"
  by (simp add: c_bool_def raw_ok_def js_delim_def js_space_def)

lemma raw_lits [simp]: "raw_ok ''0''" "raw_ok ''-1''"
  by (simp_all add: raw_ok_def js_delim_def js_space_def)

lemma raw_llu [simp]: "raw_ok (llu x)"
  by (simp add: llu_def raw_dec)

lemma raw_dec_int [simp]: "raw_ok (dec_int i)"
  using dec_digits by (intro plain_raw) (auto simp: dec_int_def list_all_iff)

lemma strip_zeros_set: "set (strip_zeros t) \<subseteq> set t"
  using set_dropWhileD [of _ "\<lambda>c. c = CHR ''0''" "rev t"] by (auto simp: strip_zeros_def)

lemma pointed_set: "set (pointed a b) \<subseteq> insert (CHR ''.'') (set a \<union> set b)"
  using strip_zeros_set [of b] by (auto simp: pointed_def Let_def)

lemma pointed_nonempty: "a \<noteq> [] \<Longrightarrow> pointed a b \<noteq> []"
  by (simp add: pointed_def Let_def)

lemma dec_set: "c \<in> set (dec n) \<Longrightarrow> is_digit c"
  using dec_digits by (auto simp: list_all_iff)

lemma c_exponent_set: "c \<in> set (c_exponent e) \<Longrightarrow> is_digit c \<or> c \<in> {CHR ''e'', CHR ''-'', CHR ''+''}"
  by (auto simp: c_exponent_def Let_def is_digit_def split: if_splits dest!: dec_set)

lemma c_g_pos_set: "c_g_pos x \<noteq> [] \<and> (\<forall>c \<in> set (c_g_pos x). is_digit c \<or> c \<in> {CHR ''e'', CHR ''-'', CHR ''+'', CHR ''.''})"
proof -
  obtain m e where me: "(if round_even (x / pow_rat 10 (log10_floor x - 5)) \<ge> 10 ^ 6 then (10 ^ 5, log10_floor x + 1)
      else (round_even (x / pow_rat 10 (log10_floor x - 5)), log10_floor x)) = (m, e)" by fastforce
  let ?ds = "dec (nat m)"
  have z: "is_digit (CHR ''0'')" by (simp add: is_digit_def)
  have p: "pointed a b \<noteq> [] \<and> (\<forall>c \<in> set (pointed a b). is_digit c \<or> c = CHR ''.'')"
    if "a \<noteq> []" "\<forall>c \<in> set (a @ b). is_digit c" for a b
    using that pointed_set [of a b] pointed_nonempty [of a b] by (auto dest: subsetD)
  have d: "\<forall>c \<in> set (replicate k (CHR ''0'') @ take i ?ds @ drop j ?ds). is_digit c" for k i j
    using dec_set [of _ "nat m"] z by (auto dest: in_set_takeD in_set_dropD)
  have "pointed ''0'' (replicate k (CHR ''0'') @ ?ds) \<noteq> [] \<and> (\<forall>c \<in> set (pointed ''0'' (replicate k (CHR ''0'') @ ?ds)). is_digit c \<or> c = CHR ''.'')" for k
    using d [of k 0 0] z by (intro p) auto
  moreover have "pointed (take (Suc i) ?ds) (drop (Suc i) ?ds) \<noteq> [] \<and>
      (\<forall>c \<in> set (pointed (take (Suc i) ?ds) (drop (Suc i) ?ds)). is_digit c \<or> c = CHR ''.'')" for i
    using d [of 0 "Suc i" "Suc i"] by (intro p) auto
  moreover have "\<forall>c \<in> set (c_exponent e). is_digit c \<or> c \<in> {CHR ''e'', CHR ''-'', CHR ''+''}"
    using c_exponent_set by blast
  ultimately show ?thesis using me by (auto simp: c_g_pos_def Let_def)
qed

lemma raw_c_g [simp]: "raw_ok (c_g d)"
proof (cases d)
  case (Fin x)
  then show ?thesis using c_g_pos_set [of x] c_g_pos_set [of "- x"]
    by (intro plain_raw) (auto simp: list_all_iff is_digit_def)
qed (simp_all add: raw_ok_def js_delim_def js_space_def)


definition inner_ok :: "(string \<times> string) list \<Rightarrow> bool" where
  "inner_ok kvs \<longleftrightarrow> list_all (\<lambda>(k, v). esc_ok k \<and> (raw_ok v \<or> (\<exists>t. v = quoted t \<and> esc_ok t))) kvs"

lemma transparent_inner:
  assumes "inner_ok kvs"
  shows "transparent (CHR ''{'') (CHR ''}'') (inner kvs)"
proof -
  have b: "bracket_pair (CHR ''{'') (CHR ''}'')" by (simp add: bracket_pair_def)
  have "transparent (CHR ''{'') (CHR ''}'') (quoted k @ '': '' @ v)" if "esc_ok k" "raw_ok v \<or> (\<exists>t. v = quoted t \<and> esc_ok t)" for k v
  proof (intro transparent_append)
    show "transparent (CHR ''{'') (CHR ''}'') (quoted k)" using that(1) by (simp add: quoted_def transparent_str)
    show "transparent (CHR ''{'') (CHR ''}'') '': ''" by (rule transparent_plain) simp
    show "transparent (CHR ''{'') (CHR ''}'') v"
      using that(2) transparent_plain [OF raw_chars [OF _ b]] by (auto simp: quoted_def transparent_str)
  qed
  moreover have "transparent (CHR ''{'') (CHR ''}'') '', ''" by (rule transparent_plain) simp
  ultimately show ?thesis
    using assms unfolding inner_def inner_ok_def by (intro transparent_sep_by) (fastforce simp: list_all_iff)+
qed

lemma value_inner: "inner_ok kvs \<Longrightarrow> value_ok (''{ '' @ inner kvs @ '' }'')"
proof -
  assume "inner_ok kvs"
  have s: "transparent (CHR ''{'') (CHR ''}'') '' ''" by (rule transparent_plain) simp
  from value_object [OF transparent_append [OF s transparent_append [OF transparent_inner [OF \<open>inner_ok kvs\<close>] s]]]
  show ?thesis by simp
qed

section \<open>Pages that read back\<close>

definition src_text :: "worksrc option \<Rightarrow> string" where
  "src_text src = (case src of Some b \<Rightarrow> (case src_name b of Some n \<Rightarrow> n | None \<Rightarrow> []) | None \<Rightarrow> ''none'')"

definition page_ok :: "string \<Rightarrow> worksrc option \<Rightarrow> pool_status \<Rightarrow> status \<Rightarrow> bool" where
  "page_ok dev src p st \<longleftrightarrow> esc_ok dev \<and> esc_ok (src_text src) \<and> esc_ok (s_pool p) \<and> esc_ok (s_job_id p) \<and> esc_ok (s_last_reject p) \<and>
     esc_ok (st_phase st) \<and> esc_ok (st_last_nonce st) \<and> esc_ok (st_last_hash st) \<and> esc_ok (st_merkle_root st) \<and> esc_ok (st_payout_address st) \<and>
     esc_ok (st_error st)"

lemma status_lines_ok:
  assumes "page_ok dev src p st" "esc_ok (st_last_submit st)"
  shows "list_all line_ok (status_fields now dev shift u f src st)"
  using assms
  by (auto simp: status_fields_def line_ok_def page_ok_def src_text_def value_quoted raw_dec inner_ok_def
      intro!: value_raw value_inner [unfolded append.simps] value_quoted split: option.splits)


lemma pool_lines_ok:
  assumes "page_ok dev src p st"
  shows "list_all line_ok (pool_fields p f)"
proof -
  have nl: "transparent (CHR ''{'') (CHR ''}'') (CHR '','' # CHR 0x0A # ''    '')" "transparent (CHR ''{'') (CHR ''}'') (CHR 0x0A # ''    '')"
    "transparent (CHR ''{'') (CHR ''}'') (CHR 0x0A # ''  '')"
    by (rule transparent_plain, simp)+
  have i: "inner_ok [(''url'', quoted (s_pool p)), (''connected'', c_bool (s_connected p)), (''authorized'', c_bool (s_authorized p)), (''has_job'', c_bool (s_has_job p))]"
    "inner_ok [(''difficulty'', c_g (s_difficulty p)), (''job_id'', quoted (s_job_id p)), (''jobs_received'', llu (s_jobs_received p))]"
    "inner_ok [(''shares_submitted'', llu (s_shares_submitted p)), (''shares_accepted'', llu (s_shares_accepted p)), (''shares_rejected'', llu (s_shares_rejected p))]"
    "inner_ok [(''reconnects'', llu (s_reconnects p)), (''last_reject'', quoted (s_last_reject p))]"
    using assms by (auto simp: inner_ok_def page_ok_def)
  note t = transparent_append [OF nl(2) transparent_append [OF transparent_inner [OF i(1)] transparent_append [OF nl(1)
    transparent_append [OF transparent_inner [OF i(2)] transparent_append [OF nl(1) transparent_append [OF transparent_inner [OF i(3)]
    transparent_append [OF nl(1) transparent_append [OF transparent_inner [OF i(4)] nl(3)]]]]]]]]
  show ?thesis using value_object [OF t] by (simp add: pool_fields_def line_ok_def value_raw)
qed

lemma length_quoted [simp]: "length (quoted t) = length t + 2"
  by (simp add: quoted_def)

lemma length_llu: "length (llu x) \<le> 20"
  unfolding llu_def by (rule length_dec_u64)

lemma length_bool: "length (c_bool b) \<le> 5"
  by (simp add: c_bool_def)

text \<open>The pool section always fits its buffer.\<close>

lemma pool_text_fits:
  assumes "p = worksrc_stratum_status pl" "length (c_g (s_difficulty p)) \<le> 20"
  shows "length (concat (map line_of (pool_fields p f))) < 1024"
proof -
  have "length (s_pool p) \<le> 191" "length (s_job_id p) \<le> 63" "length (s_last_reject p) \<le> 127"
    by (simp_all add: assms(1) worksrc_stratum_status_def snprintf_s_def Let_def)
  then show ?thesis
    using assms(2) length_llu [of "s_jobs_received p"] length_llu [of "s_shares_submitted p"] length_llu [of "s_shares_accepted p"]
      length_llu [of "s_shares_rejected p"] length_llu [of "s_reconnects p"] length_llu [of "g_pool_jobs f"] length_llu [of "g_pool_dev_jobs f"]
      length_llu [of "g_pool_skipped f"] length_llu [of "g_pool_shares f"] length_bool [of "s_connected p"] length_bool [of "s_authorized p"] length_bool [of "s_has_job p"]
    by (simp add: pool_fields_def line_of_def inner_def)
qed

definition pool_part :: "worksrc option \<Rightarrow> pool_status \<Rightarrow> devfee_state \<Rightarrow> (string \<times> string) list" where
  "pool_part src p f = (if src_text src \<in> {''stratum'', ''sia''} then pool_fields p f else [])"

lemma pool_json_lines:
  assumes "p = worksrc_stratum_status pl" "length (c_g (s_difficulty p)) \<le> 20"
  shows "pool_json src p f = concat (map line_of (pool_part src p f))"
  using pool_text_fits [OF assms, of f]
  by (auto simp: pool_json_def pool_part_def src_text_def snprintf_s_def split: option.splits)

definition last_line :: "status \<Rightarrow> string" where
  "last_line st = ''  '' @ quoted ''last_error'' @ '': '' @ quoted (st_error st) @ CHR 0x0A # CHR ''}'' # [CHR 0x0A]"

lemma js_get_lines:
  assumes "kvs \<noteq> []"
  shows "js_get (CHR ''{'' # CHR 0x0A # concat (map line_of kvs) @ r) key = get_loop key (concat (map line_of kvs) @ r)"
proof -
  obtain k v us where kvs: "kvs = (k, v) # us" using assms by (metis list.exhaust surj_pair)
  let ?x = "concat (map line_of kvs) @ r"
  have w: "js_ws (CHR 0x0A # ?x) = CHR 0x22 # k @ CHR 0x22 # '': '' @ v @ CHR '','' # CHR 0x0A # concat (map line_of us) @ r"
    by (simp add: kvs line_of_def quoted_def js_ws_def js_space_def)
  have "get_loop key ?x = get_loop key (''  '' @ js_ws (CHR 0x0A # ?x))"
    unfolding w by (simp add: kvs line_of_def quoted_def)
  also have "\<dots> = get_loop key (js_ws (CHR 0x0A # ?x))" by (rule get_loop_ws) simp
  finally show ?thesis using w by (simp add: js_get_def js_ws_solid [of "CHR ''{'' # _"] solid_def Let_def)
qed

lemma write_status_lines:
  assumes "p = worksrc_stratum_status pl" "length (c_g (s_difficulty p)) \<le> 20"
  shows "js_get (write_status now dev shift u f src p st) key =
     get_loop key (concat (map line_of (status_fields now dev shift u f src st @ pool_part src p f @ [(''developer'', quoted ''Fry Networks'')])) @ last_line st)"
proof -
  have "write_status now dev shift u f src p st =
      CHR ''{'' # CHR 0x0A # concat (map line_of (status_fields now dev shift u f src st @ pool_part src p f @ [(''developer'', quoted ''Fry Networks'')])) @ last_line st"
    by (simp add: write_status_def pool_json_lines [OF assms] last_line_def)
  then show ?thesis using js_get_lines [of "status_fields now dev shift u f src st @ pool_part src p f @ [(''developer'', quoted ''Fry Networks'')]"] by simp
qed

lemma last_line_found:
  assumes "esc_ok (st_error st)"
  shows "get_loop key (last_line st) = (if key = ''last_error'' then Some (quoted (st_error st) @ CHR 0x0A # CHR ''}'' # [CHR 0x0A]) else None)"
proof -
  have e: "ends (CHR 0x0A # CHR ''}'' # [CHR 0x0A])" by (simp add: ends_def js_delim_def js_space_def)
  have "get_loop key (last_line st) = get_loop key (quoted ''last_error'' @ '': '' @ quoted (st_error st) @ CHR 0x0A # CHR ''}'' # [CHR 0x0A])"
    unfolding last_line_def by (rule get_loop_ws) simp
  then show ?thesis using get_loop_field [OF _ value_quoted [OF assms] e, of "''last_error''" key] by (simp add: js_ws_def js_space_def)
qed

text \<open>A value that ends where it should not ends the search.\<close>

lemma get_loop_broken:
  assumes "esc_ok k" "key \<noteq> k" "\<not> js_space c" "c \<noteq> CHR '',''"
  shows "get_loop key (quoted k @ '': '' @ quoted (CHR 0x22 # c # t) @ r) = None"
proof -
  let ?v = "CHR 0x22 # CHR 0x22 # c # t @ CHR 0x22 # r"
  have v: "js_ws (CHR '' '' # ?v) = ?v" by (simp add: js_ws_def js_space_def)
  have sk: "js_skip ?v = Some (c # t @ CHR 0x22 # r)" by (simp add: js_skip_def js_ws_def js_space_def)
  have k: "str_end (k @ CHR 0x22 # x) = CHR 0x22 # x" for x by (rule str_end_esc [OF assms(1)])
  have ws: "js_ws (CHR 0x22 # x) = CHR 0x22 # x" "js_ws (CHR '':'' # x) = CHR '':'' # x" "js_ws (c # x) = c # x" for x
    using assms(3) by (simp_all add: js_ws_def js_space_def)
  show ?thesis
    unfolding quoted_def using assms(2,4) by (subst get_loop.simps) (auto simp: Let_def k ws v sk)
qed

text \<open>The node answers a submission with a reason: the value of its result is not null.\<close>

definition rejects :: "rpc_config \<Rightarrow> rpc_net \<Rightarrow> string \<Rightarrow> bool" where
  "rejects cfg nw why \<longleftrightarrow> net_ok cfg nw \<and> (\<forall>c \<in> set (net_chunks nw). c \<noteq> []) \<and> length (concat (net_chunks nw)) < RESP_SIZE - 1 \<and>
     (\<exists>x. concat (net_chunks nw) = x @ quoted ''result'' @ CHR '':'' # why \<and> lacks (CHR 0x22 # ''result'') x \<and> CHR 0x00 \<notin> set x) \<and>
     4 \<le> length why \<and> take 4 why \<noteq> ''null''"

lemma rejected_shows_reply:
  assumes "held s" "tpl_valid s" "submit_block cfg nw h s = (ok, s')" "rejects (rpc_config.truncate cfg) nw why"
  obtains t where "\<not> ok" "last_submit s' = CHR 0x22 # CHR ''r'' # t"
proof -
  obtain blk where b: "block_serialize h (raw (tpl_cb s)) (tpl_tx_data s) (tpl_tx_count s) BLK_SIZE = Inr blk"
    using held_serializes [OF assms(1)] by blast
  let ?st = "rpc_state.truncate (s\<lparr>blocks_submitted := blocks_submitted s + 1\<rparr>)"
  obtain old rs where c: "rpc_call (rpc_config.truncate cfg) nw (submit_body blk) ?st = (Some (concat (net_chunks nw) @ CHR 0x00 # old), rs)"
    using rpc_call_ok [of "rpc_config.truncate cfg" nw "submit_body blk" ?st] assms(4) by (auto simp: rejects_def)
  obtain x where x: "concat (net_chunks nw) = x @ quoted ''result'' @ CHR '':'' # why" "lacks (CHR 0x22 # ''result'') x" "CHR 0x00 \<notin> set x"
    and w: "4 \<le> length why" "take 4 why \<noteq> ''null''"
    using assms(4) by (auto simp: rejects_def)
  have "strstr (quoted ''result'' @ '':'') (x @ (quoted ''result'' @ '':'') @ why @ CHR 0x00 # old) = Some ((quoted ''result'' @ '':'') @ why @ CHR 0x00 # old)"
    using x(2,3) by (intro strstr_found [of "CHR 0x22 # ''result''"]) (auto simp: lead_def quoted_def)
  then have f: "strstr (quoted ''result'' @ '':'') (concat (net_chunks nw) @ CHR 0x00 # old) = Some (quoted ''result'' @ CHR '':'' # why @ CHR 0x00 # old)"
    by (simp add: x(1))
  have n: "take 4 (drop 9 (quoted ''result'' @ CHR '':'' # why @ CHR 0x00 # old)) \<noteq> ''null''"
    using w by (simp add: quoted_def)
  show thesis
  proof (rule that)
    show "\<not> ok" using assms(2,3) b c f n by (auto simp: submit_block_def Let_def)
    show "last_submit s' = CHR 0x22 # CHR ''r'' # tl (tl (last_submit s'))"
      using assms(2,3) b c f n by (auto simp: submit_block_def Let_def quoted_def cstr_def)
  qed
qed

lemma map_of_snoc: "map_of (xs @ [(k, v)]) key = (case map_of xs key of Some w \<Rightarrow> Some w | None \<Rightarrow> if key = k then Some v else None)"
  by (induction xs) auto

lemma page_lookup:
  assumes "list_all line_ok kvs" "esc_ok (st_error st)"
  shows "case map_of (kvs @ [(''last_error'', quoted (st_error st))]) key of
       Some v \<Rightarrow> \<exists>t. ends t \<and> get_loop key (concat (map line_of kvs) @ last_line st) = Some (v @ t)
     | None \<Rightarrow> get_loop key (concat (map line_of kvs) @ last_line st) = None"
proof -
  have t: "ends (CHR 0x0A # CHR ''}'' # [CHR 0x0A])" by (simp add: ends_def js_delim_def js_space_def)
  show ?thesis
    using get_loop_lines [OF assms(1), of key "last_line st"] t unfolding map_of_snoc last_line_found [OF assms(2)]
    by (cases "map_of kvs key") auto
qed

section \<open>Properties\<close>

text \<open>
  C24: the status page reads back.  When no text shown has a raw quote or a dangling backslash in it, and the difficulty prints in at most twenty characters, every field of the page, those of the pool section included (which
  always fits its buffer), is found by name by the miner's own scanner with exactly the value printed, and no other name is found.
\<close>

theorem status_is_readable:
  assumes "page_ok dev src p st" "esc_ok (st_last_submit st)" "p = worksrc_stratum_status pl" "length (c_g (s_difficulty p)) \<le> 20"
  shows "case map_of (status_fields now dev shift u f src st @ pool_part src p f @
            [(''developer'', quoted ''Fry Networks''), (''last_error'', quoted (st_error st))]) key of
       Some v \<Rightarrow> \<exists>t. ends t \<and> js_get (write_status now dev shift u f src p st) key = Some (v @ t)
     | None \<Rightarrow> js_get (write_status now dev shift u f src p st) key = None"
proof -
  let ?kvs = "status_fields now dev shift u f src st @ pool_part src p f @ [(''developer'', quoted ''Fry Networks'')]"
  have e: "esc_ok (st_error st)" using assms(1) by (simp add: page_ok_def)
  have d: "line_ok (''developer'', quoted ''Fry Networks'')" by (simp add: line_ok_def value_quoted)
  have ok: "list_all line_ok ?kvs"
    using status_lines_ok [OF assms(1,2)] pool_lines_ok [OF assms(1)] d by (simp add: pool_part_def)
  have l: "status_fields now dev shift u f src st @ pool_part src p f @ [(''developer'', quoted ''Fry Networks''), (''last_error'', quoted (st_error st))] =
     ?kvs @ [(''last_error'', quoted (st_error st))]" by simp
  show ?thesis unfolding l write_status_lines [OF assms(3,4)] by (rule page_lookup [OF ok e])
qed

text \<open>
  C25: a rejected block makes the page unreadable.  When the node refuses a block, the reply from its \<^verbatim>\<open>"result":\<close> on is shown unescaped as the submission result; from then on
  everything after it on the page, the work source and the last error included, cannot be found.
\<close>

theorem rejected_block_breaks_status:
  assumes "held s" "tpl_valid s" "submit_block cfg nw h s = (ok, s')"
    and "rejects (rpc_config.truncate cfg) nw why" 
    and "page_ok dev src p st" "p = worksrc_stratum_status pl" "length (c_g (s_difficulty p)) \<le> 20" "st_last_submit st = last_submit s'"
    and "key \<in> {''worksrc'', ''developer'', ''last_error''}"
  shows "\<not> ok \<and> js_get (write_status now dev shift u f src p st) key = None"
proof -
  obtain t where ok: "\<not> ok" and t: "last_submit s' = CHR 0x22 # CHR ''r'' # t" using rejected_shows_reply [OF assms(1-4)] .
  let ?front = "butlast (butlast (status_fields now dev shift u f src st))"
  have f: "status_fields now dev shift u f src st = ?front @ [(''last_submit_result'', quoted (last_submit s')), (''worksrc'', quoted (src_text src))]"
    by (simp add: status_fields_def assms(8) src_text_def)
  have "?front = butlast (butlast (status_fields now dev shift u f src (st\<lparr>st_last_submit := []\<rparr>)))" by (simp add: status_fields_def)
  moreover have "list_all line_ok (status_fields now dev shift u f src (st\<lparr>st_last_submit := []\<rparr>))"
    using assms(5) by (intro status_lines_ok [of _ _ p]) (simp_all add: page_ok_def)
  ultimately have ok_front: "list_all line_ok ?front" by (auto simp: list_all_iff dest: in_set_butlastD)
  have "map fst ?front = [''phase'', ''uptime_s'', ''uart_dev'', ''selftest'', ''nonce_offset'', ''target_shift'', ''template_height'', ''items_sent'',
      ''frames_ok'', ''frames_bad'', ''candidates_verified'', ''framing'', ''uart'', ''last_nonce'', ''last_hash_top64'', ''merkle_root'', ''payout_address'',
      ''devfee_percent'', ''devfee_active'', ''devfee_templates_total'', ''devfee_templates_dev'', ''blocks_submitted'', ''blocks_accepted'']"
    by (simp add: status_fields_def)
  moreover have k: "key = ''worksrc'' \<or> key = ''developer'' \<or> key = ''last_error''" using assms(9) by simp
  ultimately have "key \<notin> set (map fst ?front)" by (elim disjE) simp_all
  then have nf: "map_of ?front key = None" "key \<noteq> ''last_submit_result''" using k by (auto simp: map_of_eq_None_iff)
  let ?r = "concat (map line_of ([(''worksrc'', quoted (src_text src))] @ pool_part src p f @ [(''developer'', quoted ''Fry Networks'')])) @ last_line st"
  have "js_get (write_status now dev shift u f src p st) key =
      get_loop key (concat (map line_of ?front) @ line_of (''last_submit_result'', quoted (last_submit s')) @ ?r)"
    unfolding write_status_lines [OF assms(6,7)] by (subst f) simp
  also have "\<dots> = get_loop key (line_of (''last_submit_result'', quoted (last_submit s')) @ ?r)"
    using get_loop_lines [OF ok_front, of key] nf(1) by simp
  also have "\<dots> = None"
    using get_loop_ws [of "''  ''"] get_loop_broken [OF _ nf(2), of "CHR ''r''" t "CHR '','' # CHR 0x0A # ?r"] t by (simp add: line_of_def js_space_def)
  finally show ?thesis using ok by simp
qed

section \<open>Witnesses\<close>

text \<open>What the page shows of a loop and of the solo source.\<close>

definition show_miner :: "'s miner \<Rightarrow> solo \<Rightarrow> status \<Rightarrow> status" where
  "show_miner m s st = st\<lparr>st_items_sent := items_sent m, st_frames_ok := frames_ok (asm m), st_frames_bad := frames_bad (asm m),
     st_candidates_verified := candidates_verified (asm m), st_nonce_offset := nonce_offset (asm m), st_sync := syncs m, st_template_height := template_height s,
     st_merkle_root := merkle_shown s, st_payout_address := payout_shown s, st_blocks_submitted := blocks_submitted s, st_blocks_accepted := blocks_accepted s,
     st_last_submit := last_submit s\<rparr>"

definition first_page :: status where
  "first_page = \<lparr>st_items_sent = 0, st_frames_ok = 0, st_frames_bad = 0, st_candidates_verified = 0, st_started_at = 0, st_template_height = 0,
     st_phase = ''mining'', st_error = [], st_last_nonce = [], st_last_hash = [], st_vectors = 0, st_uart = 0, st_loopback = 0, st_nonce_offset = 97,
     st_merkle_root = [], st_payout_address = [], st_blocks_submitted = 0, st_blocks_accepted = 0, st_last_submit = [], st_sync = no_syncs, st_last_frame_at = 0\<rparr>"

definition no_pool :: pool_status where
  "no_pool = worksrc_stratum_status pool_start"

lemma first_page_ok:
  "page_ok ''/dev/uio8'' (Some g_worksrc_gbt) no_pool (first_page\<lparr>st_last_submit := t\<rparr>)" "length (c_g (s_difficulty no_pool)) \<le> 20"
proof -
  have "c_g (Fin 1) = ''1''"
    by (simp add: c_g_pos_def log10_floor_def dec.simps HEXDIGITS_def pow_rat_def round_even_def pointed_def strip_zeros_def)
  moreover have "dec 0 = ''0''" by (subst dec.simps) (simp add: HEXDIGITS_def)
  then have f: "s_difficulty no_pool = Fin 1" "s_pool no_pool = '':0''" "s_job_id no_pool = []" "s_last_reject no_pool = []"
    by (simp_all add: no_pool_def worksrc_stratum_status_def pool_start_def stratum_init_def Let_def snprintf_s_def dec_int_def cstr_def zero_job_def)
  ultimately show "length (c_g (s_difficulty no_pool)) \<le> 20" by simp
  show "page_ok ''/dev/uio8'' (Some g_worksrc_gbt) no_pool (first_page\<lparr>st_last_submit := t\<rparr>)"
    by (simp add: page_ok_def f src_text_def g_worksrc_gbt_def first_page_def)
qed

lemma status_phase: "map_of (status_fields now dev shift u f src st @ xs) ''phase'' = Some (quoted (st_phase st))"
  unfolding status_fields_def append_Cons map_of.simps fst_conv fun_upd_same snd_conv ..

theorem status_is_readable_witness:
  "\<exists>t. ends t \<and> js_get (write_status 9 ''/dev/uio8'' 22 None devfee_reset (Some g_worksrc_gbt) no_pool (first_page\<lparr>st_last_submit := []\<rparr>)) ''phase'' = Some (quoted ''mining'' @ t)"
  using status_is_readable [OF first_page_ok(1) _ no_pool_def first_page_ok(2), of "[]" 9 22 None devfee_reset "''phase''"]
  unfolding status_phase by (simp add: first_page_def)

definition refusing_net :: rpc_net where
  "refusing_net = sample_net\<lparr>net_chunks := [CHR ''{'' # quoted ''result'' @ '':'' @ quoted ''high-hash'' @ ''}'']\<rparr>"

theorem rejected_block_breaks_status_witness:
  "\<exists>s'. submit_block (sample_config None) refusing_net zero_header ((solo_start [])\<lparr>tpl_valid := True\<rparr>) = (False, s') \<and>
     js_get (write_status 9 ''/dev/uio8'' 22 None devfee_reset (Some g_worksrc_gbt) no_pool (first_page\<lparr>st_last_submit := last_submit s'\<rparr>)) ''last_error'' = None"
proof -
  let ?s = "(solo_start [])\<lparr>tpl_valid := True\<rparr>"
  obtain ok s' where b: "submit_block (sample_config None) refusing_net zero_header ?s = (ok, s')" by fastforce
  have h: "held ?s" using solo_run_held [OF solo_run.start] by (simp add: held_def)
  have "inet_pton ''127.0.0.1'' \<noteq> None" by code_simp
  then have "net_ok (rpc_config.truncate (sample_config None)) refusing_net"
    by (simp add: net_ok_def refusing_net_def sample_net_def sample_config_def rpc_config.defs)
  then have r: "rejects (rpc_config.truncate (sample_config None)) refusing_net (quoted ''high-hash'' @ ''}'')"
    unfolding rejects_def by (intro conjI exI [of _ "''{''"]) (simp_all add: refusing_net_def RESP_SIZE_def quoted_def)
  show ?thesis
    using rejected_block_breaks_status [OF h _ b r first_page_ok(1) no_pool_def first_page_ok(2), of "last_submit s'" "''last_error''" 9 22 None devfee_reset] b by simp
qed

end
