(* ===== verification/Cli.thy ===== *)
theory Cli
  imports Status
begin

text \<open>
  The command line (\<^verbatim>\<open>cfg\<close> and the option loop of \<^verbatim>\<open>main\<close> in \<^verbatim>\<open>src/miner/miner.c\<close>).  The environment variables are a function;
  whether the build defaults to the Sia chain is an argument.  The local \<^verbatim>\<open>selftest\<close> is kept with the configuration.
\<close>

section \<open>Configuration\<close>

record config = solo_config +
  uart_dev :: string
  status_path :: string
  log_path :: string
  rpc_port :: int
  use_synthetic :: bool
  submit_test :: bool
  stratum_probe :: bool
  stratum_host :: "string option"
  stratum_port :: int
  pool_worker :: "string option"
  pool_pass :: "string option"
  devfee_pool :: "string option"
  devfee_worker :: "string option"
  devfee_pass :: "string option"
  cfg_chain :: chain
  selftest :: "string option"

definition DEFAULT_UART :: string where "DEFAULT_UART = ''/dev/uio8''"
definition DEFAULT_STATUS :: string where "DEFAULT_STATUS = ''/var/www/html/blake2b/status.json''"
definition DEFAULT_LOG :: string where "DEFAULT_LOG = ''/var/www/html/blake2b/miner.log''"

definition default_config :: "bool \<Rightarrow> config" where
  "default_config sia_build =
     \<lparr>rpc_host = ''127.0.0.1'', rpc_user = None, rpc_pass = None, payout_address = None, target_shift = BLAKE2B_TARGET_SHIFT_MAINNET, dry_run = True,
      uart_dev = DEFAULT_UART, status_path = DEFAULT_STATUS, log_path = DEFAULT_LOG, rpc_port = 4001, use_synthetic = False, submit_test = False,
      stratum_probe = False, stratum_host = None, stratum_port = 0, pool_worker = None, pool_pass = None, devfee_pool = None, devfee_worker = None,
      devfee_pass = None, cfg_chain = (if sia_build then CHAIN_SIA else CHAIN_KNOTS), selftest = None\<rparr>"

section \<open>Options\<close>

text \<open>The program's end while it reads its options: the exit code and what it prints.\<close>

type_synonym stop = "nat \<times> string"

definition env_or :: "(string \<Rightarrow> string option) \<Rightarrow> string \<Rightarrow> string option \<Rightarrow> string option" where
  "env_or getenv v old = (case getenv v of Some t \<Rightarrow> if t \<noteq> [] then Some t else old | None \<Rightarrow> old)"

definition stratum_option :: "platform \<Rightarrow> string \<Rightarrow> config \<Rightarrow> stop + config" where
  "stratum_option pf v c =
     (let hostbuf = snprintf_s 192 v in
      case strrchr hostbuf (CHR '':'') of
        None \<Rightarrow> Inl (2, [])
      | Some i \<Rightarrow>
          if drop (i + 1) hostbuf = [] then Inl (2, [])
          else Inr (c\<lparr>stratum_host := Some (take i hostbuf), stratum_port := atoi pf (drop (i + 1) hostbuf)\<rparr>))"

definition algo_option :: "string \<Rightarrow> config \<Rightarrow> stop + config" where
  "algo_option v c =
     (if v = ''sia'' then Inr (c\<lparr>cfg_chain := CHAIN_SIA\<rparr>)
      else if v = ''knots'' \<or> v = ''blake2b'' then Inr (c\<lparr>cfg_chain := CHAIN_KNOTS\<rparr>)
      else Inl (2, []))"

text \<open>Options with a value; \<open>None\<close> when there is no such option.\<close>

definition value_option :: "platform \<Rightarrow> (string \<Rightarrow> string option) \<Rightarrow> string \<Rightarrow> string \<Rightarrow> config \<Rightarrow> (stop + config) option" where
  "value_option pf getenv a v c =
     (if a = ''--uart'' then Some (Inr (c\<lparr>uart_dev := v\<rparr>))
      else if a = ''--rpc-host'' then Some (Inr (c\<lparr>rpc_host := v\<rparr>))
      else if a = ''--rpc-port'' then Some (Inr (c\<lparr>rpc_port := atoi pf v\<rparr>))
      else if a = ''--rpc-user'' then Some (Inr (c\<lparr>rpc_user := Some v\<rparr>))
      else if a = ''--rpc-pass'' then Some (Inr (c\<lparr>rpc_pass := Some v\<rparr>))
      else if a = ''--rpc-pass-env'' then Some (Inr (c\<lparr>rpc_pass := env_or getenv v (rpc_pass c)\<rparr>))
      else if a = ''--target-shift'' then Some (Inr (c\<lparr>target_shift := unat (of_int (atoi pf v) :: u32)\<rparr>))
      else if a = ''--status'' then Some (Inr (c\<lparr>status_path := v\<rparr>))
      else if a = ''--log'' then Some (Inr (c\<lparr>log_path := v\<rparr>))
      else if a = ''--payout-address'' then Some (Inr (c\<lparr>payout_address := Some v\<rparr>))
      else if a = ''--selftest'' then Some (Inr (c\<lparr>selftest := Some v\<rparr>))
      else if a = ''--stratum'' then Some (stratum_option pf v c)
      else if a = ''--worker'' then Some (Inr (c\<lparr>pool_worker := Some v\<rparr>))
      else if a = ''--pool-pass'' then Some (Inr (c\<lparr>pool_pass := Some v\<rparr>))
      else if a = ''--pool-pass-env'' then Some (Inr (c\<lparr>pool_pass := env_or getenv v (pool_pass c)\<rparr>))
      else if a = ''--devfee-pool'' then Some (Inr (c\<lparr>devfee_pool := Some v\<rparr>))
      else if a = ''--devfee-worker'' then Some (Inr (c\<lparr>devfee_worker := Some v\<rparr>))
      else if a = ''--devfee-pass'' then Some (Inr (c\<lparr>devfee_pass := Some v\<rparr>))
      else if a = ''--algo'' then Some (algo_option v c)
      else None)"

definition dump_item :: stop where
  "dump_item =
     (case build_work_item probe_header (target_top64_from_bits (nBits probe_header) 22) of
        Inl _ \<Rightarrow> (1, [])
      | Inr di \<Rightarrow> (0, bin2hex di @ [CHR 0x0A]))"

text \<open>Options without one; anything else prints the usage.\<close>

definition flag_option :: "string \<Rightarrow> config \<Rightarrow> stop + config" where
  "flag_option a c =
     (if a = ''--submit'' then Inr (c\<lparr>dry_run := False\<rparr>)
      else if a = ''--synthetic-work'' then Inr (c\<lparr>use_synthetic := True\<rparr>)
      else if a = ''--submit-test'' then Inr (c\<lparr>submit_test := True\<rparr>)
      else if a = ''--stratum-probe'' then Inr (c\<lparr>stratum_probe := True\<rparr>)
      else if a = ''--dump-item'' then Inl dump_item
      else Inl (2, []))"

fun parse_args :: "platform \<Rightarrow> (string \<Rightarrow> string option) \<Rightarrow> string list \<Rightarrow> config \<Rightarrow> stop + config" where
  "parse_args pf getenv [] c = Inr c"
| "parse_args pf getenv [a] c = flag_option a c"
| "parse_args pf getenv (a # v # argv) c =
     (case value_option pf getenv a v c of
        Some (Inl stop) \<Rightarrow> Inl stop
      | Some (Inr c) \<Rightarrow> parse_args pf getenv argv c
      | None \<Rightarrow> (case flag_option a c of Inl stop \<Rightarrow> Inl stop | Inr c \<Rightarrow> parse_args pf getenv (v # argv) c))"

section \<open>A command line for every configuration\<close>

definition opt :: "string \<Rightarrow> string option \<Rightarrow> string list" where
  "opt a v = (case v of Some t \<Rightarrow> [a, t] | None \<Rightarrow> [])"

definition flag :: "string \<Rightarrow> bool \<Rightarrow> string list" where
  "flag a b = (if b then [a] else [])"

definition args_of :: "config \<Rightarrow> string list" where
  "args_of c =
     [''--uart'', uart_dev c, ''--status'', status_path c, ''--log'', log_path c, ''--rpc-host'', rpc_host c, ''--rpc-port'', dec (nat (rpc_port c)),
      ''--target-shift'', dec (target_shift c), ''--algo'', (if cfg_chain c = CHAIN_SIA then ''sia'' else ''knots'')] @
     opt ''--rpc-user'' (rpc_user c) @ opt ''--rpc-pass'' (rpc_pass c) @ opt ''--payout-address'' (payout_address c) @
     opt ''--selftest'' (selftest c) @
     opt ''--stratum'' (map_option (\<lambda>h. h @ CHR '':'' # dec (nat (stratum_port c))) (stratum_host c)) @
     opt ''--worker'' (pool_worker c) @ opt ''--pool-pass'' (pool_pass c) @ opt ''--devfee-pool'' (devfee_pool c) @
     opt ''--devfee-worker'' (devfee_worker c) @ opt ''--devfee-pass'' (devfee_pass c) @
     flag ''--submit'' (\<not> dry_run c) @ flag ''--synthetic-work'' (use_synthetic c) @ flag ''--submit-test'' (submit_test c) @
     flag ''--stratum-probe'' (stratum_probe c)"

definition sayable :: "config \<Rightarrow> bool" where
  "sayable c \<longleftrightarrow> 0 \<le> rpc_port c \<and> rpc_port c < 2 ^ 31 \<and> target_shift c < 2 ^ 31 \<and> 0 \<le> stratum_port c \<and> stratum_port c < 2 ^ 31 \<and>
     (case stratum_host c of Some h \<Rightarrow> length h \<le> 180 | None \<Rightarrow> stratum_port c = 0)"

lemma atoi_dec: "n < 2 ^ 31 \<Longrightarrow> atoi pf (dec n) = int n"
proof -
  assume n: "n < 2 ^ 31"
  obtain d cs where d: "dec n = d # cs" using dec_nonempty [of n] by (cases "dec n") auto
  then have "is_digit d" using dec_digits [of n] by simp
  then have s: "sign_of (dropWhile c_isspace (dec n)) = (False, dec n)" using digit_chars [of d] by (simp add: d sign_of_def)
  have t: "takeWhile is_digit (dec n) = dec n" using dec_digits by (simp add: takeWhile_eq_all_conv list_all_iff)
  show ?thesis using n by (simp add: atoi_def s t)
qed

lemma stratum_option_printed:
  assumes "length h \<le> 180" "n < 2 ^ 31"
  shows "stratum_option pf (h @ CHR '':'' # dec n) c = Inr (c\<lparr>stratum_host := Some h, stratum_port := int n\<rparr>)"
proof -
  have "length (dec n) \<le> 10" using assms(2) by (intro length_dec) simp_all
  then have s: "snprintf_s 192 (h @ CHR '':'' # dec n) = h @ CHR '':'' # dec n" using assms(1) by (simp add: snprintf_s_def)
  have "CHR '':'' \<notin> set (dec n)" using dec_digits [of n] by (auto simp: list_all_iff is_digit_def)
  then have "strrchr (h @ CHR '':'' # dec n) (CHR '':'') = Some (length h)" by (rule strrchr_append)
  then show ?thesis using assms(2) by (simp add: stratum_option_def s atoi_dec)
qed

lemma value_option_simps:
  "value_option pf g ''--uart'' v c = Some (Inr (c\<lparr>uart_dev := v\<rparr>))"
  "value_option pf g ''--status'' v c = Some (Inr (c\<lparr>status_path := v\<rparr>))"
  "value_option pf g ''--log'' v c = Some (Inr (c\<lparr>log_path := v\<rparr>))"
  "value_option pf g ''--rpc-host'' v c = Some (Inr (c\<lparr>rpc_host := v\<rparr>))"
  "value_option pf g ''--rpc-port'' v c = Some (Inr (c\<lparr>rpc_port := atoi pf v\<rparr>))"
  "value_option pf g ''--target-shift'' v c = Some (Inr (c\<lparr>target_shift := unat (of_int (atoi pf v) :: u32)\<rparr>))"
  "value_option pf g ''--algo'' v c = Some (algo_option v c)"
  "value_option pf g ''--rpc-user'' v c = Some (Inr (c\<lparr>rpc_user := Some v\<rparr>))"
  "value_option pf g ''--rpc-pass'' v c = Some (Inr (c\<lparr>rpc_pass := Some v\<rparr>))"
  "value_option pf g ''--payout-address'' v c = Some (Inr (c\<lparr>payout_address := Some v\<rparr>))"
  "value_option pf g ''--selftest'' v c = Some (Inr (c\<lparr>selftest := Some v\<rparr>))"
  "value_option pf g ''--stratum'' v c = Some (stratum_option pf v c)"
  "value_option pf g ''--worker'' v c = Some (Inr (c\<lparr>pool_worker := Some v\<rparr>))"
  "value_option pf g ''--pool-pass'' v c = Some (Inr (c\<lparr>pool_pass := Some v\<rparr>))"
  "value_option pf g ''--devfee-pool'' v c = Some (Inr (c\<lparr>devfee_pool := Some v\<rparr>))"
  "value_option pf g ''--devfee-worker'' v c = Some (Inr (c\<lparr>devfee_worker := Some v\<rparr>))"
  "value_option pf g ''--devfee-pass'' v c = Some (Inr (c\<lparr>devfee_pass := Some v\<rparr>))"
  by (simp_all add: value_option_def)

lemma flag_simps:
  "value_option pf g ''--submit'' v c = None" "value_option pf g ''--synthetic-work'' v c = None"
  "value_option pf g ''--submit-test'' v c = None" "value_option pf g ''--stratum-probe'' v c = None" "value_option pf g ''--dump-item'' v c = None"
  "flag_option ''--submit'' c = Inr (c\<lparr>dry_run := False\<rparr>)" "flag_option ''--synthetic-work'' c = Inr (c\<lparr>use_synthetic := True\<rparr>)"
  "flag_option ''--submit-test'' c = Inr (c\<lparr>submit_test := True\<rparr>)" "flag_option ''--stratum-probe'' c = Inr (c\<lparr>stratum_probe := True\<rparr>)"
  "flag_option ''--dump-item'' c = Inl dump_item"
  by (simp_all add: value_option_def flag_option_def)

text \<open>One option on the line sets its field, if it was unset before.\<close>

lemma parse_opts:
  "rpc_user c = None \<Longrightarrow> parse_args pf g (opt ''--rpc-user'' x @ argv) c = parse_args pf g argv (c\<lparr>rpc_user := x\<rparr>)"
  "rpc_pass c = None \<Longrightarrow> parse_args pf g (opt ''--rpc-pass'' x @ argv) c = parse_args pf g argv (c\<lparr>rpc_pass := x\<rparr>)"
  "payout_address c = None \<Longrightarrow> parse_args pf g (opt ''--payout-address'' x @ argv) c = parse_args pf g argv (c\<lparr>payout_address := x\<rparr>)"
  "selftest c = None \<Longrightarrow> parse_args pf g (opt ''--selftest'' x @ argv) c = parse_args pf g argv (c\<lparr>selftest := x\<rparr>)"
  "pool_worker c = None \<Longrightarrow> parse_args pf g (opt ''--worker'' x @ argv) c = parse_args pf g argv (c\<lparr>pool_worker := x\<rparr>)"
  "pool_pass c = None \<Longrightarrow> parse_args pf g (opt ''--pool-pass'' x @ argv) c = parse_args pf g argv (c\<lparr>pool_pass := x\<rparr>)"
  "devfee_pool c = None \<Longrightarrow> parse_args pf g (opt ''--devfee-pool'' x @ argv) c = parse_args pf g argv (c\<lparr>devfee_pool := x\<rparr>)"
  "devfee_worker c = None \<Longrightarrow> parse_args pf g (opt ''--devfee-worker'' x @ argv) c = parse_args pf g argv (c\<lparr>devfee_worker := x\<rparr>)"
  "devfee_pass c = None \<Longrightarrow> parse_args pf g (opt ''--devfee-pass'' x @ argv) c = parse_args pf g argv (c\<lparr>devfee_pass := x\<rparr>)"
  by (cases c; cases x; simp add: opt_def value_option_simps)+

lemma parse_stratum:
  assumes "stratum_host c = None" "stratum_port c = 0" "case h of Some h \<Rightarrow> length h \<le> 180 | None \<Rightarrow> n = 0" "0 \<le> n" "n < 2 ^ 31"
  shows "parse_args pf g (opt ''--stratum'' (map_option (\<lambda>h. h @ CHR '':'' # dec (nat n)) h) @ argv) c =
     parse_args pf g argv (c\<lparr>stratum_host := h, stratum_port := n\<rparr>)"
  using assms stratum_option_printed [of _ "nat n"] by (cases c; cases h) (simp_all add: opt_def value_option_simps)

lemma parse_flags:
  "dry_run c \<Longrightarrow> parse_args pf g (flag ''--submit'' (\<not> b) @ argv) c = parse_args pf g argv (c\<lparr>dry_run := b\<rparr>)"
  "\<not> use_synthetic c \<Longrightarrow> parse_args pf g (flag ''--synthetic-work'' b @ argv) c = parse_args pf g argv (c\<lparr>use_synthetic := b\<rparr>)"
  "\<not> submit_test c \<Longrightarrow> parse_args pf g (flag ''--submit-test'' b @ argv) c = parse_args pf g argv (c\<lparr>submit_test := b\<rparr>)"
  "\<not> stratum_probe c \<Longrightarrow> parse_args pf g (flag ''--stratum-probe'' b) c = Inr (c\<lparr>stratum_probe := b\<rparr>)"
  by (cases c; cases argv; simp add: flag_def flag_simps)+

lemma flags_take_no_value: "flag_option a c = Inr c' \<Longrightarrow> value_option pf g a v x = None"
  by (auto simp: flag_option_def flag_simps split: if_splits)

lemma parse_append: "parse_args pf g xs c = Inr c' \<Longrightarrow> parse_args pf g (xs @ ys) c = parse_args pf g ys c'"
proof (induction pf g xs c rule: parse_args.induct)
  case (2 pf g a c)
  then show ?case using flags_take_no_value [of a c c'] by (cases ys) simp_all
qed (auto split: option.splits sum.splits)

definition value_names :: "string list" where
  "value_names = [''--uart'', ''--rpc-host'', ''--rpc-port'', ''--rpc-user'', ''--rpc-pass'', ''--rpc-pass-env'', ''--target-shift'', ''--status'', ''--log'',
     ''--payout-address'', ''--selftest'', ''--stratum'', ''--worker'', ''--pool-pass'', ''--pool-pass-env'', ''--devfee-pool'', ''--devfee-worker'',
     ''--devfee-pass'', ''--algo'']"

definition flag_names :: "string list" where
  "flag_names = [''--submit'', ''--synthetic-work'', ''--submit-test'', ''--stratum-probe'', ''--dump-item'']"

lemma value_option_None: "value_option pf g a v c = None \<longleftrightarrow> a \<notin> set value_names"
  by (simp add: value_option_def value_names_def)

lemma flag_option_usage: "a \<notin> set flag_names \<Longrightarrow> flag_option a c = Inl (2, [])"
  by (simp add: flag_option_def flag_names_def)

lemma names_disjoint: "a \<in> set value_names \<Longrightarrow> a \<notin> set flag_names"
  by (auto simp: value_names_def flag_names_def)

lemma no_colon: "CHR '':'' \<notin> set v \<Longrightarrow> stratum_option pf v c = Inl (2, [])"
proof -
  assume v: "CHR '':'' \<notin> set v"
  have "strrchr (snprintf_s 192 v) (CHR '':'') = None"
  proof (cases "strrchr (snprintf_s 192 v) (CHR '':'')")
    case (Some i)
    have "CHR '':'' \<in> set (snprintf_s 192 v)" by (subst conjunct2 [OF strrchr_Some [OF Some]]) simp
    then show ?thesis using v in_set_takeD [of "CHR '':''" 191 v] by (simp add: snprintf_s_def)
  qed
  then show ?thesis by (simp add: stratum_option_def)
qed

section \<open>Properties\<close>

text \<open>
  C22: every configuration can be asked for.  For each configuration whose numbers fit an \<^verbatim>\<open>int\<close> and whose pool host fits its buffer, there is a command
  line, with one option per field that differs from unset, that the option loop turns into exactly that configuration from either build's defaults.
\<close>

theorem command_line_roundtrip:
  assumes "sayable c"
  shows "parse_args pf getenv (args_of c) (default_config sia_build) = Inr c"
proof -
  have s: "case stratum_host c of Some h \<Rightarrow> length h \<le> 180 | None \<Rightarrow> stratum_port c = 0" "0 \<le> stratum_port c" "stratum_port c < 2 ^ 31"
    using assms by (simp_all add: sayable_def)
  have n: "atoi pf (dec (nat (rpc_port c))) = rpc_port c" "unat (of_int (atoi pf (dec (target_shift c))) :: u32) = target_shift c"
    using assms atoi_dec [of "nat (rpc_port c)" pf] atoi_dec [of "target_shift c" pf] by (auto simp: sayable_def unat_of_nat)
  have a: "algo_option (if cfg_chain c = CHAIN_SIA then ''sia'' else ''knots'') x = Inr (x\<lparr>cfg_chain := cfg_chain c\<rparr>)" for x
    by (cases "cfg_chain c") (simp_all add: algo_option_def)
  show ?thesis
    unfolding args_of_def append_Cons append_Nil default_config_def
    by (simp add: value_option_simps n a parse_opts parse_stratum [OF _ _ s] parse_flags)
qed

theorem command_line_roundtrip_witness:
  "parse_args plain_platform (\<lambda>_. None) (args_of ((default_config True)\<lparr>stratum_host := Some ''pool'', stratum_port := 3333, dry_run := False\<rparr>)) (default_config False) =
     Inr ((default_config True)\<lparr>stratum_host := Some ''pool'', stratum_port := 3333, dry_run := False\<rparr>)"
  by (rule command_line_roundtrip) (simp add: sayable_def default_config_def BLAKE2B_TARGET_SHIFT_MAINNET_def)

text \<open>
  C23: a bad command line stops the program with code 2.  An unknown word, an option that lacks its value at the end of the line, a chain that is neither known name, or a pool address without a
  port ends the program before anything else happens, wherever it stands after a well-formed beginning.
\<close>

theorem bad_option_stops:
  assumes "parse_args pf getenv argv c = Inr c'"
  shows "(a \<in> set value_names \<longrightarrow> parse_args pf getenv (argv @ [a]) c = Inl (2, [])) \<and>
     (a \<notin> set value_names \<union> set flag_names \<longrightarrow> parse_args pf getenv (argv @ a # argv') c = Inl (2, [])) \<and>
     (v \<notin> {''sia'', ''knots'', ''blake2b''} \<longrightarrow> parse_args pf getenv (argv @ ''--algo'' # v # argv') c = Inl (2, [])) \<and>
     (CHR '':'' \<notin> set v \<longrightarrow> parse_args pf getenv (argv @ ''--stratum'' # v # argv') c = Inl (2, []))"
proof (intro conjI impI)
  assume "a \<in> set value_names"
  then show "parse_args pf getenv (argv @ [a]) c = Inl (2, [])"
    using parse_append [OF assms, of "[a]"] names_disjoint [of a] flag_option_usage by simp
next
  assume "a \<notin> set value_names \<union> set flag_names"
  then have "value_option pf getenv a w c' = None" "flag_option a c' = Inl (2, [])" for w
    using value_option_None flag_option_usage by simp_all
  then show "parse_args pf getenv (argv @ a # argv') c = Inl (2, [])"
    using parse_append [OF assms, of "a # argv'"] by (cases argv') simp_all
next
  assume "v \<notin> {''sia'', ''knots'', ''blake2b''}"
  then show "parse_args pf getenv (argv @ ''--algo'' # v # argv') c = Inl (2, [])"
    using parse_append [OF assms] by (simp add: value_option_simps algo_option_def)
next
  assume "CHR '':'' \<notin> set v"
  then show "parse_args pf getenv (argv @ ''--stratum'' # v # argv') c = Inl (2, [])"
    using parse_append [OF assms] no_colon by (simp add: value_option_simps)
qed

theorem bad_option_stops_witness:
  "parse_args plain_platform (\<lambda>_. None) [''--submit'', ''--algo'', ''btc''] (default_config False) = Inl (2, [])"
proof -
  have "parse_args plain_platform (\<lambda>_. None) [''--submit''] (default_config False) = Inr ((default_config False)\<lparr>dry_run := False\<rparr>)"
    by (simp add: flag_simps)
  from bad_option_stops [OF this, of "''--uart''" "[]" "''btc''"] show ?thesis by simp
qed

end
