(* ===== verification/Bitwise.thy ===== *)
theory Bitwise
  imports Sha256 Blake2b
begin

text \<open>
  The two hash functions on lists of bits.  A word is the list of its bits, the least significant first; every operation of the
  compression functions is given on such lists and proved to agree with the one on words.  The rules so obtained rewrite a digest of
  a concrete message to its value in a few seconds, which the operations on numerals do not: with them the known answers of the
  miner's selftests are theorems.
\<close>

unbundle bit_operations_syntax

section \<open>Words as bits\<close>

definition wd :: "bool list \<Rightarrow> 'a::len word" where
  "wd xs = horner_sum of_bool 2 xs"

fun exor :: "bool \<Rightarrow> bool \<Rightarrow> bool" where
  "exor True True = False"
| "exor False False = False"
| "exor True False = True"
| "exor False True = True"

fun major :: "bool \<Rightarrow> bool \<Rightarrow> bool \<Rightarrow> bool" where
  "major True True c = True"
| "major False False c = False"
| "major True False c = c"
| "major False True c = c"

fun pick :: "bool \<Rightarrow> bool \<Rightarrow> bool \<Rightarrow> bool" where
  "pick True y z = y"
| "pick False y z = z"

fun addl :: "bool \<Rightarrow> bool list \<Rightarrow> bool list \<Rightarrow> bool list" where
  "addl c (x # xs) (y # ys) = exor x (exor y c) # addl (major x y c) xs ys"
| "addl c xs ys = []"

fun xorl :: "bool list \<Rightarrow> bool list \<Rightarrow> bool list" where
  "xorl (x # xs) (y # ys) = exor x y # xorl xs ys"
| "xorl xs ys = []"

fun map3 :: "(bool \<Rightarrow> bool \<Rightarrow> bool \<Rightarrow> bool) \<Rightarrow> bool list \<Rightarrow> bool list \<Rightarrow> bool list \<Rightarrow> bool list" where
  "map3 f (x # xs) (y # ys) (z # zs) = f x y z # map3 f xs ys zs"
| "map3 f xs ys zs = []"

fun bin :: "nat \<Rightarrow> nat \<Rightarrow> bool list" where
  "bin 0 n = []"
| "bin (Suc k) n = odd n # bin k (n div 2)"

lemma exor_iff: "exor x y \<longleftrightarrow> x \<noteq> y"
  by (cases x; cases y) simp_all

lemma lengths_bits [simp]:
  "length xs = length ys \<Longrightarrow> length (addl c xs ys) = length ys" "length xs = length ys \<Longrightarrow> length (xorl xs ys) = length ys"
  "length xs = length ys \<Longrightarrow> length zs = length ys \<Longrightarrow> length (map3 f xs ys zs) = length ys" "length (bin k n) = k"
proof -
  show "length xs = length ys \<Longrightarrow> length (addl c xs ys) = length ys"
    by (induction c xs ys rule: addl.induct) auto
  show "length xs = length ys \<Longrightarrow> length (xorl xs ys) = length ys"
    by (induction xs ys rule: xorl.induct) auto
  show "length xs = length ys \<Longrightarrow> length zs = length ys \<Longrightarrow> length (map3 f xs ys zs) = length ys"
    by (induction f xs ys zs rule: map3.induct) auto
  show "length (bin k n) = k" by (induction k arbitrary: n) simp_all
qed

lemma nth_xorl: "length xs = length ys \<Longrightarrow> i < length ys \<Longrightarrow> xorl xs ys ! i \<longleftrightarrow> xs ! i \<noteq> ys ! i"
  by (induction xs ys arbitrary: i rule: xorl.induct) (auto simp: nth_Cons exor_iff split: nat.splits)

lemma nth_map3: "length xs = length ys \<Longrightarrow> length zs = length ys \<Longrightarrow> i < length ys \<Longrightarrow> map3 f xs ys zs ! i = f (xs ! i) (ys ! i) (zs ! i)"
  by (induction f xs ys zs arbitrary: i rule: map3.induct) (auto simp: nth_Cons split: nat.splits)

lemma nth_bin: "i < k \<Longrightarrow> bin k n ! i \<longleftrightarrow> bit n i"
  by (induction k arbitrary: n i) (auto simp: nth_Cons bit_0 bit_Suc split: nat.splits)

lemma bit_wd: "bit (wd xs :: 'a::len word) n \<longleftrightarrow> n < LENGTH('a) \<and> n < length xs \<and> xs ! n"
  by (auto simp: wd_def bit_horner_sum_bit_word_iff)

lemma wd_xor: "length xs = length ys \<Longrightarrow> wd xs XOR wd ys = wd (xorl xs ys)"
  by (rule bit_word_eqI) (auto simp: bit_wd bit_xor_iff nth_xorl)

lemma wd_not: "length xs = LENGTH('a) \<Longrightarrow> NOT (wd xs :: 'a::len word) = wd (map Not xs)"
  by (rule bit_word_eqI) (auto simp: bit_wd bit_not_iff)

lemma horner_add:
  "length xs = length ys \<Longrightarrow> \<exists>k. horner_sum of_bool 2 xs + horner_sum of_bool 2 ys + of_bool c =
     horner_sum of_bool 2 (addl c xs ys) + 2 ^ length ys * (k :: 'a::comm_semiring_1)"
proof (induction c xs ys rule: addl.induct)
  case (1 c x xs y ys)
  then obtain k where k: "horner_sum of_bool 2 xs + horner_sum of_bool 2 ys + of_bool (major x y c) =
     horner_sum of_bool 2 (addl (major x y c) xs ys) + 2 ^ length ys * (k :: 'a)" by auto
  have b: "of_bool x + of_bool y + of_bool c = of_bool (exor x (exor y c)) + 2 * (of_bool (major x y c) :: 'a)"
    by (cases x; cases y; cases c) simp_all
  have "horner_sum of_bool 2 (x # xs) + horner_sum of_bool 2 (y # ys) + of_bool c =
      (of_bool x + of_bool y + of_bool c) + 2 * (horner_sum of_bool 2 xs + horner_sum of_bool 2 ys :: 'a)" by (simp add: algebra_simps)
  also have "\<dots> = of_bool (exor x (exor y c)) + 2 * (horner_sum of_bool 2 xs + horner_sum of_bool 2 ys + of_bool (major x y c))"
    unfolding b by (simp add: algebra_simps)
  finally show ?case unfolding k by (intro exI [of _ k]) (simp add: algebra_simps)
qed auto

lemma wd_add: "length xs = LENGTH('a) \<Longrightarrow> length ys = LENGTH('a) \<Longrightarrow> wd xs + wd ys = (wd (addl False xs ys) :: 'a::len word)"
proof -
  assume l: "length xs = LENGTH('a)" "length ys = LENGTH('a)"
  then obtain k where "horner_sum of_bool 2 xs + horner_sum of_bool 2 ys = horner_sum of_bool 2 (addl False xs ys) + 2 ^ LENGTH('a) * (k :: 'a word)"
    using horner_add [of xs ys False, where ?'a = "'a word"] by auto
  then show ?thesis by (simp add: wd_def)
qed

definition turn :: "nat \<Rightarrow> bool list \<Rightarrow> bool list" where
  "turn n xs = drop n xs @ take n xs"

definition slide :: "nat \<Rightarrow> bool list \<Rightarrow> bool list" where
  "slide n xs = drop n xs @ replicate n False"

lemma length_turn [simp]: "length (turn n xs) = length xs"
  by (simp add: turn_def)

lemma length_slide [simp]: "n \<le> length xs \<Longrightarrow> length (slide n xs) = length xs"
  by (simp add: slide_def)

lemma wd_turn:
  assumes "length xs = LENGTH('a)" "n \<le> LENGTH('a)"
  shows "drop_bit n (wd xs) OR push_bit (LENGTH('a) - n) (wd xs :: 'a::len word) = wd (turn n xs)"
  using assms by (intro bit_word_eqI) (auto simp: bit_wd bit_simps turn_def nth_append not_less add.commute)

lemma wd_slide: "length xs = LENGTH('a) \<Longrightarrow> n \<le> LENGTH('a) \<Longrightarrow> drop_bit n (wd xs :: 'a::len word) = wd (slide n xs)"
  by (intro bit_word_eqI) (auto simp: bit_wd bit_simps slide_def nth_append not_less add.commute)

text \<open>Bytes.\<close>

definition byte_bits :: "u8 \<Rightarrow> bool list" where
  "byte_bits b = bin 8 (unat b)"

lemma length_byte_bits [simp]: "length (byte_bits b) = 8"
  by (simp add: byte_bits_def)

lemma horner_bin: "horner_sum of_bool 2 (bin k n) = (of_nat (n mod 2 ^ k) :: 'a::comm_semiring_1)"
proof (induction k arbitrary: n)
  case (Suc k)
  have "n mod 2 ^ Suc k = of_bool (odd n) + 2 * (n div 2 mod 2 ^ k)" using mod_mult2_eq [of n 2 "2 ^ k"] by (simp add: mod_2_eq_odd)
  then show ?case using Suc by simp
qed simp

lemma wd_bin: "wd (bin LENGTH('a) n) = (of_nat n :: 'a::len word)"
  using of_nat_take_bit [of "LENGTH('a)" n, where ?'a = "'a word"] by (simp add: wd_def horner_bin take_bit_eq_mod)

lemma wd_bytes: "wd (concat (map byte_bits bs)) = (of_nat (le_val bs) :: 'a::len word)"
proof (induction bs)
  case (Cons b bs)
  have "horner_sum of_bool 2 (byte_bits b) = (of_nat (unat b) :: 'a word)" by (simp add: byte_bits_def horner_bin)
  moreover have "wd (concat (map byte_bits (b # bs))) = horner_sum of_bool 2 (byte_bits b) + 2 ^ 8 * (wd (concat (map byte_bits bs)) :: 'a word)"
    by (simp add: wd_def horner_sum_append)
  ultimately show ?case using Cons by simp
qed (simp add: wd_def)

section \<open>BLAKE2b\<close>

type_synonym mixed = "bool list \<times> bool list \<times> bool list \<times> bool list"

text \<open>The eight steps of the mixing function, each applied to evaluated arguments.\<close>

definition mix8 :: "bool list \<Rightarrow> bool list \<Rightarrow> bool list \<Rightarrow> bool list \<Rightarrow> mixed" where
  "mix8 a b c d = (a, turn 63 (xorl b c), c, d)"
definition mix7 :: "bool list \<Rightarrow> bool list \<Rightarrow> bool list \<Rightarrow> bool list \<Rightarrow> mixed" where
  "mix7 a b c d = mix8 a b (addl False c d) d"
definition mix6 :: "bool list \<Rightarrow> bool list \<Rightarrow> bool list \<Rightarrow> bool list \<Rightarrow> mixed" where
  "mix6 a b c d = mix7 a b c (turn 16 (xorl d a))"
definition mix5 :: "bool list \<Rightarrow> bool list \<Rightarrow> bool list \<Rightarrow> bool list \<Rightarrow> bool list \<Rightarrow> mixed" where
  "mix5 a b c d y = mix6 (addl False (addl False a b) y) b c d"
definition mix4 :: "bool list \<Rightarrow> bool list \<Rightarrow> bool list \<Rightarrow> bool list \<Rightarrow> bool list \<Rightarrow> mixed" where
  "mix4 a b c d y = mix5 a (turn 24 (xorl b c)) c d y"
definition mix3 :: "bool list \<Rightarrow> bool list \<Rightarrow> bool list \<Rightarrow> bool list \<Rightarrow> bool list \<Rightarrow> mixed" where
  "mix3 a b c d y = mix4 a b (addl False c d) d y"
definition mix2 :: "bool list \<Rightarrow> bool list \<Rightarrow> bool list \<Rightarrow> bool list \<Rightarrow> bool list \<Rightarrow> mixed" where
  "mix2 a b c d y = mix3 a b c (turn 32 (xorl d a)) y"
definition mixb :: "bool list \<Rightarrow> bool list \<Rightarrow> bool list \<Rightarrow> bool list \<Rightarrow> bool list \<Rightarrow> bool list \<Rightarrow> mixed" where
  "mixb a b c d x y = mix2 (addl False (addl False a b) x) b c d y"

lemmas mix_steps = mixb_def mix2_def mix3_def mix4_def mix5_def mix6_def mix7_def mix8_def

fun rows :: "mixed \<Rightarrow> mixed \<Rightarrow> mixed \<Rightarrow> mixed \<Rightarrow> bool list list" where
  "rows (a0, b1, c2, d3) (a1, b2, c3, d0) (a2, b3, c0, d1) (a3, b0, c1, d2) =
     [a0, a1, a2, a3, b0, b1, b2, b3, c0, c1, c2, c3, d0, d1, d2, d3]"

fun diagonals :: "mixed \<Rightarrow> mixed \<Rightarrow> mixed \<Rightarrow> mixed \<Rightarrow> bool list list \<Rightarrow> bool list list" where
  "diagonals (a0, b0, c0, d0) (a1, b1, c1, d1) (a2, b2, c2, d2) (a3, b3, c3, d3) [x0, y0, x1, y1, x2, y2, x3, y3] =
     rows (mixb a0 b1 c2 d3 x0 y0) (mixb a1 b2 c3 d0 x1 y1) (mixb a2 b3 c0 d1 x2 y2) (mixb a3 b0 c1 d2 x3 y3)"
| "diagonals p q r s m = []"

fun roundb :: "bool list list \<Rightarrow> bool list list \<Rightarrow> bool list list" where
  "roundb (x0 # y0 # x1 # y1 # x2 # y2 # x3 # y3 # m)
     [a0, a1, a2, a3, b0, b1, b2, b3, c0, c1, c2, c3, d0, d1, d2, d3] =
     diagonals (mixb a0 b0 c0 d0 x0 y0) (mixb a1 b1 c1 d1 x1 y1) (mixb a2 b2 c2 d2 x2 y2) (mixb a3 b3 c3 d3 x3 y3) m"
| "roundb m v = []"

definition sized :: "nat \<Rightarrow> nat \<Rightarrow> bool list list \<Rightarrow> bool" where
  "sized k n xs \<longleftrightarrow> length xs = k \<and> (\<forall>x \<in> set xs. length x = n)"


lemma wd_rotr: "length xs = 64 \<Longrightarrow> 0 < n \<Longrightarrow> n < 64 \<Longrightarrow> word_rotr n (wd xs :: u64) = wd (turn n xs)"
  using wd_turn [of xs n, where ?'a = 64] rotr64_eq [of n "wd xs"] by (simp add: rotr64_def)

lemma mixb_mix:
  assumes "length a = 64" "length b = 64" "length c = 64" "length d = 64" "length x = 64" "length y = 64" "mixb a b c d x y = (p, q, r, s)"
  shows "mix (wd a) (wd b) (wd c) (wd d) (wd x) (wd y) = (wd p, wd q, wd r, wd s)"
    and "length p = 64" "length q = 64" "length r = 64" "length s = 64"
  using assms by (auto simp: mix_def mix_steps wd_add wd_xor wd_rotr Let_def)

lemma mixb_parts:
  assumes "length a = 64" "length b = 64" "length c = 64" "length d = 64" "length x = 64" "length y = 64"
  obtains p q r s where "mixb a b c d x y = (p, q, r, s)" "mix (wd a) (wd b) (wd c) (wd d) (wd x) (wd y) = (wd p, wd q, wd r, wd s)"
    "length p = 64" "length q = 64" "length r = 64" "length s = 64"
proof -
  obtain p q r s where m: "mixb a b c d x y = (p, q, r, s)" by (metis prod_cases4)
  show thesis by (rule that [OF m mixb_mix [OF assms m]])
qed

lemma list16:
  assumes "length v = 16"
  obtains v0 v1 v2 v3 v4 v5 v6 v7 v8 v9 v10 v11 v12 v13 v14 v15 where "v = [v0, v1, v2, v3, v4, v5, v6, v7, v8, v9, v10, v11, v12, v13, v14, v15]"
proof -
  have "v = map (\<lambda>i. v ! i) [0..<16]" using map_nth [of v] assms by simp
  then show thesis using that by (simp add: upt_rec)
qed

definition mix_all :: "u64 list \<Rightarrow> u64 list \<Rightarrow> u64 list" where
  "mix_all m v = foldl (\<lambda>v i. mix_at (mix_lanes ! i) (m ! (2 * i)) (m ! (2 * i + 1)) v) v [0..<8]"

lemma mix_all_roundb:
  assumes "sized 16 64 v" "sized 16 64 m"
  shows "mix_all (map wd m) (map wd v) = map wd (roundb m v) \<and> sized 16 64 (roundb m v)"
proof -
  obtain a0 a1 a2 a3 b0 b1 b2 b3 c0 c1 c2 c3 d0 d1 d2 d3 where v: "v = [a0, a1, a2, a3, b0, b1, b2, b3, c0, c1, c2, c3, d0, d1, d2, d3]"
    using assms(1) list16 unfolding sized_def by blast
  obtain x0 y0 x1 y1 x2 y2 x3 y3 x4 y4 x5 y5 x6 y6 x7 y7 where m: "m = [x0, y0, x1, y1, x2, y2, x3, y3, x4, y4, x5, y5, x6, y6, x7, y7]"
    using assms(2) list16 unfolding sized_def by blast
  have l: "length a0 = 64" "length a1 = 64" "length a2 = 64" "length a3 = 64" "length b0 = 64" "length b1 = 64" "length b2 = 64" "length b3 = 64"
    "length c0 = 64" "length c1 = 64" "length c2 = 64" "length c3 = 64" "length d0 = 64" "length d1 = 64" "length d2 = 64" "length d3 = 64"
    using assms(1) by (simp_all add: v sized_def)
  have k: "length x0 = 64" "length y0 = 64" "length x1 = 64" "length y1 = 64" "length x2 = 64" "length y2 = 64" "length x3 = 64" "length y3 = 64"
    "length x4 = 64" "length y4 = 64" "length x5 = 64" "length y5 = 64" "length x6 = 64" "length y6 = 64" "length x7 = 64" "length y7 = 64"
    using assms(2) by (simp_all add: m sized_def)
  obtain A0 B0 C0 D0 where 0: "mixb a0 b0 c0 d0 x0 y0 = (A0, B0, C0, D0)" "mix (wd a0) (wd b0) (wd c0) (wd d0) (wd x0) (wd y0) = (wd A0, wd B0, wd C0, wd D0)"
    "length A0 = 64" "length B0 = 64" "length C0 = 64" "length D0 = 64" by (rule mixb_parts [of a0 b0 c0 d0 x0 y0]) (use l k in simp_all)
  obtain A1 B1 C1 D1 where 1: "mixb a1 b1 c1 d1 x1 y1 = (A1, B1, C1, D1)" "mix (wd a1) (wd b1) (wd c1) (wd d1) (wd x1) (wd y1) = (wd A1, wd B1, wd C1, wd D1)"
    "length A1 = 64" "length B1 = 64" "length C1 = 64" "length D1 = 64" by (rule mixb_parts [of a1 b1 c1 d1 x1 y1]) (use l k in simp_all)
  obtain A2 B2 C2 D2 where 2: "mixb a2 b2 c2 d2 x2 y2 = (A2, B2, C2, D2)" "mix (wd a2) (wd b2) (wd c2) (wd d2) (wd x2) (wd y2) = (wd A2, wd B2, wd C2, wd D2)"
    "length A2 = 64" "length B2 = 64" "length C2 = 64" "length D2 = 64" by (rule mixb_parts [of a2 b2 c2 d2 x2 y2]) (use l k in simp_all)
  obtain A3 B3 C3 D3 where 3: "mixb a3 b3 c3 d3 x3 y3 = (A3, B3, C3, D3)" "mix (wd a3) (wd b3) (wd c3) (wd d3) (wd x3) (wd y3) = (wd A3, wd B3, wd C3, wd D3)"
    "length A3 = 64" "length B3 = 64" "length C3 = 64" "length D3 = 64" by (rule mixb_parts [of a3 b3 c3 d3 x3 y3]) (use l k in simp_all)
  obtain E0 F1 G2 H3 where 4: "mixb A0 B1 C2 D3 x4 y4 = (E0, F1, G2, H3)" "mix (wd A0) (wd B1) (wd C2) (wd D3) (wd x4) (wd y4) = (wd E0, wd F1, wd G2, wd H3)"
    "length E0 = 64" "length F1 = 64" "length G2 = 64" "length H3 = 64" by (rule mixb_parts [of A0 B1 C2 D3 x4 y4]) (use 0 1 2 3 k in simp_all)
  obtain E1 F2 G3 H0 where 5: "mixb A1 B2 C3 D0 x5 y5 = (E1, F2, G3, H0)" "mix (wd A1) (wd B2) (wd C3) (wd D0) (wd x5) (wd y5) = (wd E1, wd F2, wd G3, wd H0)"
    "length E1 = 64" "length F2 = 64" "length G3 = 64" "length H0 = 64" by (rule mixb_parts [of A1 B2 C3 D0 x5 y5]) (use 0 1 2 3 k in simp_all)
  obtain E2 F3 G0 H1 where 6: "mixb A2 B3 C0 D1 x6 y6 = (E2, F3, G0, H1)" "mix (wd A2) (wd B3) (wd C0) (wd D1) (wd x6) (wd y6) = (wd E2, wd F3, wd G0, wd H1)"
    "length E2 = 64" "length F3 = 64" "length G0 = 64" "length H1 = 64" by (rule mixb_parts [of A2 B3 C0 D1 x6 y6]) (use 0 1 2 3 k in simp_all)
  obtain E3 F0 G1 H2 where 7: "mixb A3 B0 C1 D2 x7 y7 = (E3, F0, G1, H2)" "mix (wd A3) (wd B0) (wd C1) (wd D2) (wd x7) (wd y7) = (wd E3, wd F0, wd G1, wd H2)"
    "length E3 = 64" "length F0 = 64" "length G1 = 64" "length H2 = 64" by (rule mixb_parts [of A3 B0 C1 D2 x7 y7]) (use 0 1 2 3 k in simp_all)
  have r: "roundb m v = [E0, E1, E2, E3, F0, F1, F2, F3, G0, G1, G2, G3, H0, H1, H2, H3]"
    by (simp add: v m 0 1 2 3 4 5 6 7)
  have "mix_all (map wd m) (map wd v) = map wd [E0, E1, E2, E3, F0, F1, F2, F3, G0, G1, G2, G3, H0, H1, H2, H3]"
    by (simp add: mix_all_def v m mix_at_def mix_lanes_def upt_rec 0 1 2 3 4 5 6 7)
  then show ?thesis unfolding r by (simp add: sized_def 4 5 6 7)
qed

definition IVb :: "bool list list" where
  "IVb = map (bin 64) [0x6A09E667F3BCC908, 0xBB67AE8584CAA73B, 0x3C6EF372FE94F82B, 0xA54FF53A5F1D36F1,
     0x510E527FADE682D1, 0x9B05688C2B3E6C1F, 0x1F83D9ABFB41BD6B, 0x5BE0CD19137E2179]"

definition rounds :: "bool list list \<Rightarrow> bool list list \<Rightarrow> bool list list" where
  "rounds m v = foldl (\<lambda>v p. roundb (map (\<lambda>i. m ! i) p) v) v BLAKE2B_SIGMA"

fun close :: "bool list list \<Rightarrow> bool list list \<Rightarrow> bool list list" where
  "close [h0, h1, h2, h3, h4, h5, h6, h7] [a0, a1, a2, a3, b0, b1, b2, b3, c0, c1, c2, c3, d0, d1, d2, d3] =
     [xorl h0 (xorl a0 c0), xorl h1 (xorl a1 c1), xorl h2 (xorl a2 c2), xorl h3 (xorl a3 c3),
      xorl h4 (xorl b0 d0), xorl h5 (xorl b1 d1), xorl h6 (xorl b2 d2), xorl h7 (xorl b3 d3)]"
| "close h v = []"

text \<open>The last block of a message of \<open>t\<close> bytes.\<close>

fun lastb :: "bool list list \<Rightarrow> bool list list \<Rightarrow> bool list \<Rightarrow> bool list list \<Rightarrow> bool list list" where
  "lastb h [i0, i1, i2, i3, i4, i5, i6, i7] t m = close h (rounds m (h @ [i0, i1, i2, i3, xorl i4 t, i5, map Not i6, i7]))"
| "lastb h iv t m = []"

lemma IVb_IV: "map wd IVb = IV" "sized 8 64 IVb"
  by (simp_all add: IVb_def IV_def wd_bin [where ?'a = 64, simplified] sized_def del: bin.simps)

lemma sigma_lengths: "p \<in> set BLAKE2B_SIGMA \<Longrightarrow> length p = 16 \<and> (\<forall>i \<in> set p. i < 16)"
  by (auto simp: BLAKE2B_SIGMA_def)

lemma sigma_count: "length BLAKE2B_SIGMA = 12"
  by (simp add: BLAKE2B_SIGMA_def)

lemma rounds_mix:
  assumes "sized 16 64 m" "sized 16 64 v" "\<forall>p \<in> set ps. length p = 16 \<and> (\<forall>i \<in> set p. i < 16)"
  shows "foldl (\<lambda>v p. mix_all (map (\<lambda>i. map wd m ! i) p) v) (map wd v) ps = map wd (foldl (\<lambda>v p. roundb (map (\<lambda>i. m ! i) p) v) v ps) \<and>
    sized 16 64 (foldl (\<lambda>v p. roundb (map (\<lambda>i. m ! i) p) v) v ps)"
  using assms(2,3)
proof (induction ps arbitrary: v)
  case (Cons p ps)
  have e: "map (\<lambda>i. map wd m ! i) p = map wd (map (\<lambda>i. m ! i) p)" and s: "sized 16 64 (map (\<lambda>i. m ! i) p)"
    using assms(1) Cons.prems(2) by (auto simp: sized_def)
  show ?case using Cons.IH [of "roundb (map (\<lambda>i. m ! i) p) v"] mix_all_roundb [OF Cons.prems(1) s] Cons.prems(2) by (simp add: e)
qed simp

lemma F_rounds:
  "foldl (\<lambda>v r. foldl (\<lambda>v i. mix_at (mix_lanes ! i) (m ! (sigma10 r ! (2 * i))) (m ! (sigma10 r ! (2 * i + 1))) v) v [0..<8]) v [0..<12] =
   foldl (\<lambda>v p. mix_all (map (\<lambda>i. m ! i) p) v) v BLAKE2B_SIGMA"
proof -
  have "foldl (\<lambda>v i. mix_at (mix_lanes ! i) (m ! (sigma10 r ! (2 * i))) (m ! (sigma10 r ! (2 * i + 1))) v) v [0..<8] =
      mix_all (map (\<lambda>i. m ! i) (BLAKE2B_SIGMA ! r)) v" if "r < 12" for r v
  proof -
    have "length (BLAKE2B_SIGMA ! r) = 16" using that sigma_lengths [of "BLAKE2B_SIGMA ! r"] by (simp add: sigma_count)
    then show ?thesis unfolding mix_all_def by (intro foldl_cong) (auto simp: sigma10_eq that)
  qed
  then have "foldl (\<lambda>v r. foldl (\<lambda>v i. mix_at (mix_lanes ! i) (m ! (sigma10 r ! (2 * i))) (m ! (sigma10 r ! (2 * i + 1))) v) v [0..<8]) v [0..<12] =
      foldl (\<lambda>v r. mix_all (map (\<lambda>i. m ! i) (BLAKE2B_SIGMA ! r)) v) v [0..<12]" by (intro foldl_cong) auto
  also have "\<dots> = foldl (\<lambda>v p. mix_all (map (\<lambda>i. m ! i) p) v) v (map (\<lambda>r. BLAKE2B_SIGMA ! r) [0..<12])" by (simp only: foldl_map)
  also have "map (\<lambda>r. BLAKE2B_SIGMA ! r) [0..<12] = BLAKE2B_SIGMA" using map_nth [of BLAKE2B_SIGMA] by (simp add: sigma_count)
  finally show ?thesis .
qed

lemma list8:
  assumes "length v = 8"
  obtains v0 v1 v2 v3 v4 v5 v6 v7 where "v = [v0, v1, v2, v3, v4, v5, v6, v7]"
proof -
  have "v = map (\<lambda>i. v ! i) [0..<8]" using map_nth [of v] assms by simp
  then show thesis using that by (simp add: upt_rec)
qed

lemma close_xor:
  assumes "sized 8 64 h" "sized 16 64 v"
  shows "map (\<lambda>i. map wd h ! i XOR map wd v ! i XOR map wd v ! (i + 8)) [0..<8] = (map wd (close h v) :: u64 list) \<and> sized 8 64 (close h v)"
proof -
  obtain h0 h1 h2 h3 h4 h5 h6 h7 where h: "h = [h0, h1, h2, h3, h4, h5, h6, h7]" using assms(1) list8 unfolding sized_def by blast
  obtain a0 a1 a2 a3 b0 b1 b2 b3 c0 c1 c2 c3 d0 d1 d2 d3 where v: "v = [a0, a1, a2, a3, b0, b1, b2, b3, c0, c1, c2, c3, d0, d1, d2, d3]"
    using assms(2) list16 unfolding sized_def by blast
  show ?thesis using assms by (simp add: h v sized_def upt_rec wd_xor xor.assoc)
qed

lemma F_lastb:
  assumes "sized 8 64 h" "sized 16 64 m" "t < 2 ^ 64"
  shows "F (map wd h) (map wd m) t True = map wd (lastb h IVb (bin 64 t) m) \<and> sized 8 64 (lastb h IVb (bin 64 t) m)"
proof -
  obtain i0 i1 i2 i3 i4 i5 i6 i7 where i: "IVb = [i0, i1, i2, i3, i4, i5, i6, i7]" using IVb_IV(2) list8 unfolding sized_def by blast
  have iv: "IV = [wd i0, wd i1, wd i2, wd i3, wd i4, wd i5, wd i6, wd i7]" unfolding IVb_IV(1) [symmetric] i by simp
  define v where "v = h @ [i0, i1, i2, i3, xorl i4 (bin 64 t), i5, map Not i6, i7]"
  have l: "length i4 = 64" "length i6 = 64" "sized 16 64 v" using IVb_IV(2) assms(1) by (auto simp: i sized_def v_def)
  have t: "wd (bin 64 t) = (of_nat t :: u64)" "t mod 18446744073709551616 = t" "t div 18446744073709551616 = 0"
    using wd_bin [of t, where ?'a = 64] assms(3) by simp_all
  obtain h0 h1 h2 h3 h4 h5 h6 h7 where h: "h = [h0, h1, h2, h3, h4, h5, h6, h7]" using assms(1) list8 unfolding sized_def by blast
  have s: "(let v = map wd h @ IV; v = v[12 := v ! 12 XOR of_nat (t mod 2 ^ 64), 13 := v ! 13 XOR of_nat (t div 2 ^ 64)] in v[14 := v ! 14 XOR - 1]) = map wd v"
    using l by (simp add: v_def h iv t Let_def wd_not wd_xor flip: wd_not t(1))
  have "F (map wd h) (map wd m) t True = (let v = foldl (\<lambda>v p. mix_all (map (\<lambda>i. map wd m ! i) p) v) (map wd v) BLAKE2B_SIGMA in
      map (\<lambda>i. map wd h ! i XOR v ! i XOR v ! (i + 8)) [0..<8])"
    using s unfolding F_def Let_def F_rounds by simp
  also have "\<dots> = map (\<lambda>i. map wd h ! i XOR map wd (rounds m v) ! i XOR map wd (rounds m v) ! (i + 8)) [0..<8]"
    using rounds_mix [OF assms(2) l(3)] sigma_lengths by (simp add: rounds_def Let_def)
  finally show ?thesis
    using close_xor [OF assms(1), of "rounds m v"] rounds_mix [OF assms(2) l(3), of BLAKE2B_SIGMA] sigma_lengths
    by (simp add: i v_def rounds_def)
qed

text \<open>The words of a message, padded to a block.\<close>

fun pad :: "nat \<Rightarrow> bytes \<Rightarrow> bytes" where
  "pad 0 bs = []"
| "pad (Suc k) [] = 0 # pad k []"
| "pad (Suc k) (b # bs) = b # pad k bs"

fun words8 :: "bytes \<Rightarrow> bool list list" where
  "words8 (a # b # c # d # e # f # g # h # bs) =
     (byte_bits a @ byte_bits b @ byte_bits c @ byte_bits d @ byte_bits e @ byte_bits f @ byte_bits g @ byte_bits h) # words8 bs"
| "words8 bs = []"

definition blake2b_bits :: "nat \<Rightarrow> nat \<Rightarrow> bytes \<Rightarrow> bool list list" where
  "blake2b_bits n t msg =
     lastb (xorl (hd IVb) (xorl (bin 64 0x01010000) (bin 64 n)) # tl IVb) IVb (bin 64 t) (words8 (pad 128 msg))"

lemma pad_eq: "length msg \<le> k \<Longrightarrow> pad k msg = msg @ replicate (k - length msg) 0"
proof (induction k arbitrary: msg)
  case (Suc k)
  then show ?case by (cases msg) simp_all
qed simp

lemma words8_chunks: "words8 bs = map (\<lambda>c. concat (map byte_bits c)) (chunks 8 bs)"
proof (induction bs rule: words8.induct)
  case (1 a b c d e f g h bs)
  then show ?case by (simp add: chunks.simps [of 8 "a # b # c # d # e # f # g # h # bs"])
qed simp_all

lemma words8_wd: "map wd (words8 bs) = map (\<lambda>b. of_nat (le_val b)) (chunks 8 bs)"
  by (simp add: words8_chunks wd_bytes comp_def)

lemma sized_words8: "\<forall>x \<in> set (words8 bs). length x = 64"
  by (induction bs rule: words8.induct) simp_all

lemma length_words8: "length (words8 bs) = length bs div 8"
  by (induction bs rule: words8.induct) simp_all

lemma words8_bytes: "8 dvd length bs \<Longrightarrow> concat (map (le_bytes 8) (map wd (words8 bs) :: u64 list)) = bs"
proof (induction bs rule: words8.induct)
  case (1 a b c d e f g h bs)
  let ?w = "[a, b, c, d, e, f, g, h]"
  have w: "words8 (?w @ bs) = concat (map byte_bits ?w) # words8 bs" by simp
  have "le_bytes 8 (wd (concat (map byte_bits ?w)) :: u64) = ?w"
    unfolding wd_bytes by (rule le_bytes_le_val) simp_all
  moreover have "8 dvd length bs" using "1.prems" by simp presburger
  ultimately show ?case using 1 unfolding w [simplified] by simp
qed (auto dest: dvd_imp_le)

lemma blake2b_one_block:
  assumes "length msg = t" "t \<le> 128" "n \<le> 64"
  shows "blake2b_nokey msg n = take n (concat (map (le_bytes 8) (map wd (blake2b_bits n t msg) :: u64 list)))"
    and "length (blake2b_bits n t msg) = 8"
proof -
  let ?x = "xorl (hd IVb) (xorl (bin 64 0x01010000) (bin 64 n))"
  obtain v i where i: "IVb = v # i" by (simp add: IVb_def)
  have l: "length v = 64" "length i = 7" "\<forall>x \<in> set i. length x = 64" using IVb_IV(2) by (simp_all add: i sized_def)
  have s: "sized 8 64 (?x # tl IVb)" using l by (simp add: i sized_def)
  have x: "wd (bin 64 k) = (of_nat k :: u64)" for k using wd_bin [of k, where ?'a = 64] by simp
  have iv: "IV = wd v # map wd i" unfolding IVb_IV(1) [symmetric] i by simp
  have h: "map wd (?x # tl IVb) = IV[0 := IV ! 0 XOR 0x01010000 XOR (of_nat n :: u64)]"
    unfolding iv using l by (simp add: i x xor.assoc flip: wd_xor)
  have one: "max 1 ((t + 127) div 128) = 1" "1 - 1 = (0::nat)" using assms(2) div_le_mono [of "t + 127" 255 128] by (simp_all add: max_def)
  have len: "length msg < 2 ^ 64" "t < 2 ^ 64" using assms(1,2) by simp_all
  have b: "data_block msg 0 = map wd (words8 (pad 128 msg))"
    using assms(1,2) by (simp add: data_block_def words8_wd pad_eq)
  have m: "sized 16 64 (words8 (pad 128 msg))" using assms(1,2) by (simp add: sized_def sized_words8 length_words8 pad_eq)
  note f = F_lastb [OF s m len(2)]
  show "blake2b_nokey msg n = take n (concat (map (le_bytes 8) (map wd (blake2b_bits n t msg) :: u64 list)))"
    unfolding blake2b_nokey_eq_spec [OF len(1) assms(3)] blake2b_spec_def Let_def assms(1) one h [symmetric]
    using f by (simp add: b blake2b_bits_def)
  show "length (blake2b_bits n t msg) = 8" using f by (simp add: blake2b_bits_def sized_def)
qed

text \<open>A digest is known when the bits of its words are.\<close>

lemma blake2b_value:
  assumes "length msg = t" "t \<le> 128" "length d = 8 * k" "k \<le> 8" "n = 8 * k" "take k (blake2b_bits n t msg) = words8 d"
  shows "blake2b_nokey msg n = d"
proof -
  have t: "take (8 * k) (concat (map (le_bytes 8) ws)) = concat (map (le_bytes 8) (take k ws))" for ws :: "u64 list"
  proof (induction ws arbitrary: k)
    case (Cons w ws)
    then show ?case by (cases k) simp_all
  qed simp
  have "blake2b_nokey msg n = concat (map (le_bytes 8) (map wd (take k (blake2b_bits n t msg)) :: u64 list))"
    using blake2b_one_block(1) [of msg t n] assms by (simp only: t take_map)
  then show ?thesis using assms(3) unfolding assms(6) by (simp only: words8_bytes dvd_triv_left)
qed

section \<open>SHA-256\<close>

definition ep0 :: "bool list \<Rightarrow> bool list" where "ep0 x = xorl (turn 2 x) (xorl (turn 13 x) (turn 22 x))"
definition ep1 :: "bool list \<Rightarrow> bool list" where "ep1 x = xorl (turn 6 x) (xorl (turn 11 x) (turn 25 x))"
definition sig0 :: "bool list \<Rightarrow> bool list" where "sig0 x = xorl (turn 7 x) (xorl (turn 18 x) (slide 3 x))"
definition sig1 :: "bool list \<Rightarrow> bool list" where "sig1 x = xorl (turn 17 x) (xorl (turn 19 x) (slide 10 x))"

text \<open>The schedule, the newest word first.\<close>

definition new_word :: "bool list list \<Rightarrow> bool list" where
  "new_word ws = addl False (addl False (addl False (sig1 (ws ! 1)) (ws ! 6)) (sig0 (ws ! 14))) (ws ! 15)"

primrec schedule :: "nat \<Rightarrow> bool list list \<Rightarrow> bool list list" where
  "schedule 0 ws = ws"
| "schedule (Suc n) ws = schedule n (new_word ws # ws)"

type_synonym state_bits = "bool list \<times> bool list \<times> bool list \<times> bool list \<times> bool list \<times> bool list \<times> bool list \<times> bool list"

fun sha_step :: "bool list \<Rightarrow> bool list \<Rightarrow> state_bits \<Rightarrow> state_bits" where
  "sha_step t1 t2 (a, b, c, d, e, f, g, h) = (addl False t1 t2, a, b, c, addl False d t1, e, f, g)"

fun sha_round :: "bool list \<Rightarrow> bool list \<Rightarrow> state_bits \<Rightarrow> state_bits" where
  "sha_round k m (a, b, c, d, e, f, g, h) =
     sha_step (addl False (addl False (addl False (addl False h (ep1 e)) (map3 pick e f g)) k) m) (addl False (ep0 a) (map3 major a b c)) (a, b, c, d, e, f, g, h)"

fun sha_rounds :: "bool list list \<Rightarrow> bool list list \<Rightarrow> state_bits \<Rightarrow> state_bits" where
  "sha_rounds (k # ks) (m # ms) s = sha_rounds ks ms (sha_round k m s)"
| "sha_rounds ks ms s = s"

fun sha_add :: "state_bits \<Rightarrow> state_bits \<Rightarrow> bool list list" where
  "sha_add (a, b, c, d, e, f, g, h) (a', b', c', d', e', f', g', h') =
     [addl False a a', addl False b b', addl False c c', addl False d d', addl False e e', addl False f f', addl False g g', addl False h h']"

fun words4 :: "bytes \<Rightarrow> bool list list" where
  "words4 (a # b # c # d # bs) = (byte_bits d @ byte_bits c @ byte_bits b @ byte_bits a) # words4 bs"
| "words4 bs = []"

definition Kb :: "bool list list" where
  "Kb = map (bin 32) [
    0x428A2F98, 0x71374491, 0xB5C0FBCF, 0xE9B5DBA5, 0x3956C25B, 0x59F111F1,
    0x923F82A4, 0xAB1C5ED5, 0xD807AA98, 0x12835B01, 0x243185BE, 0x550C7DC3,
    0x72BE5D74, 0x80DEB1FE, 0x9BDC06A7, 0xC19BF174, 0xE49B69C1, 0xEFBE4786,
    0x0FC19DC6, 0x240CA1CC, 0x2DE92C6F, 0x4A7484AA, 0x5CB0A9DC, 0x76F988DA,
    0x983E5152, 0xA831C66D, 0xB00327C8, 0xBF597FC7, 0xC6E00BF3, 0xD5A79147,
    0x06CA6351, 0x14292967, 0x27B70A85, 0x2E1B2138, 0x4D2C6DFC, 0x53380D13,
    0x650A7354, 0x766A0ABB, 0x81C2C92E, 0x92722C85, 0xA2BFE8A1, 0xA81A664B,
    0xC24B8B70, 0xC76C51A3, 0xD192E819, 0xD6990624, 0xF40E3585, 0x106AA070,
    0x19A4C116, 0x1E376C08, 0x2748774C, 0x34B0BCB5, 0x391C0CB3, 0x4ED8AA4A,
    0x5B9CCA4F, 0x682E6FF3, 0x748F82EE, 0x78A5636F, 0x84C87814, 0x8CC70208,
    0x90BEFFFA, 0xA4506CEB, 0xBEF9A3F7, 0xC67178F2]"

definition H0b :: state_bits where
  "H0b = (bin 32 0x6A09E667, bin 32 0xBB67AE85, bin 32 0x3C6EF372, bin 32 0xA54FF53A,
          bin 32 0x510E527F, bin 32 0x9B05688C, bin 32 0x1F83D9AB, bin 32 0x5BE0CD19)"

text \<open>The digest of a message that, padded, is the one block given.\<close>

definition sha_bits :: "bytes \<Rightarrow> bool list list" where
  "sha_bits block = sha_add H0b (sha_rounds Kb (rev (schedule 48 (rev (words4 block)))) H0b)"

lemma wd_bin32: "wd (bin 32 n) = (of_nat n :: u32)"
  using wd_bin [of n, where ?'a = 32] by simp

lemma Kb_K: "map wd Kb = K" "sized 64 32 Kb"
  by (simp_all add: Kb_def K_def wd_bin32 sized_def del: bin.simps)

definition of_state :: "state_bits \<Rightarrow> working" where
  "of_state = (\<lambda>(a, b, c, d, e, f, g, h). (wd a, wd b, wd c, wd d, wd e, wd f, wd g, wd h))"

definition sized_state :: "state_bits \<Rightarrow> bool" where
  "sized_state = (\<lambda>(a, b, c, d, e, f, g, h). sized 8 32 [a, b, c, d, e, f, g, h])"

lemma wd_ROTR: "length x = 32 \<Longrightarrow> n \<le> 32 \<Longrightarrow> ROTR (wd x) n = wd (turn n x)"
  using wd_turn [of x n, where ?'a = 32] by (simp add: ROTR_def)

lemma wd_sigmas:
  assumes "length x = 32"
  shows "EP0 (wd x) = wd (ep0 x)" "EP1 (wd x) = wd (ep1 x)" "SIG0 (wd x) = wd (sig0 x)" "SIG1 (wd x) = wd (sig1 x)"
    "length (ep0 x) = 32" "length (ep1 x) = 32" "length (sig0 x) = 32" "length (sig1 x) = 32"
  using assms wd_slide [of x, where ?'a = 32]
  by (simp_all add: EP0_def EP1_def SIG0_def SIG1_def ep0_def ep1_def sig0_def sig1_def wd_ROTR wd_xor)

lemma pick_iff: "pick x y z \<longleftrightarrow> x \<and> y \<or> \<not> x \<and> z"
  by (cases x) simp_all

lemma major_iff: "major x y z \<longleftrightarrow> x \<and> y \<or> x \<and> z \<or> y \<and> z"
  by (cases x; cases y) simp_all

lemma wd_CH: "length x = 32 \<Longrightarrow> length y = 32 \<Longrightarrow> length z = 32 \<Longrightarrow> CH (wd x) (wd y) (wd z) = wd (map3 pick x y z)"
  by (rule bit_word_eqI) (auto simp: CH_def bit_wd bit_simps nth_map3 pick_iff)

lemma wd_MAJ: "length x = 32 \<Longrightarrow> length y = 32 \<Longrightarrow> length z = 32 \<Longrightarrow> MAJ (wd x) (wd y) (wd z) = wd (map3 major x y z)"
  by (rule bit_word_eqI) (auto simp: MAJ_def bit_wd bit_simps nth_map3 major_iff)

lemma sha_round_correct:
  assumes "sized_state s" "length k = 32" "length m = 32"
  shows "sha256_round (of_state s) (wd k, wd m) = of_state (sha_round k m s) \<and> sized_state (sha_round k m s)"
proof -
  obtain a b c d e f g h where s: "s = (a, b, c, d, e, f, g, h)" by (metis surj_pair)
  have l: "length a = 32" "length b = 32" "length c = 32" "length d = 32" "length e = 32" "length f = 32" "length g = 32" "length h = 32"
    using assms(1) by (simp_all add: s sized_state_def sized_def)
  show ?thesis using l assms(2,3) wd_sigmas(5) [OF l(1)] wd_sigmas(6) [OF l(5)]
    by (simp add: s of_state_def sized_state_def sized_def wd_sigmas wd_CH wd_MAJ wd_add Let_def)
qed

lemma sha_rounds_correct:
  "sized_state s \<Longrightarrow> \<forall>k \<in> set ks. length k = 32 \<Longrightarrow> \<forall>m \<in> set ms. length m = 32 \<Longrightarrow>
   foldl sha256_round (of_state s) (zip (map wd ks) (map wd ms)) = of_state (sha_rounds ks ms s) \<and> sized_state (sha_rounds ks ms s)"
proof (induction ks ms s rule: sha_rounds.induct)
  case (1 k ks m ms s)
  then show ?case using sha_round_correct [of s k m] by simp
qed auto

lemma schedule_correct:
  "\<forall>w \<in> set ws. length w = 32 \<Longrightarrow> 16 \<le> length ws \<Longrightarrow>
   extend_words n (map wd (rev ws)) = map wd (rev (schedule n ws)) \<and> (\<forall>w \<in> set (schedule n ws). length w = 32)"
proof (induction n arbitrary: ws)
  case (Suc n)
  have at: "map wd (rev ws) ! (length ws - Suc i) = (wd (ws ! i) :: u32)" "length (ws ! i) = 32" if "i < 16" for i
    using that Suc.prems by (simp_all add: rev_nth)
  have l: "length (new_word ws) = 32" using at(2) by (simp add: new_word_def wd_sigmas)
  have "SIG1 (wd (ws ! 1)) + wd (ws ! 6) + SIG0 (wd (ws ! 14)) + wd (ws ! 15) = (wd (new_word ws) :: u32)"
    using at(2) by (simp add: new_word_def wd_sigmas wd_add)
  then have "extend_words (Suc n) (map wd (rev ws)) = extend_words n (map wd (rev (new_word ws # ws)))"
    using at(1) [of 1] at(1) [of 6] at(1) [of 14] at(1) [of 15] by (simp add: Let_def numeral_eq_Suc)
  then show ?case using Suc.IH [of "new_word ws # ws"] Suc.prems l by simp
qed auto

lemma byte_bits_nth: "i < 8 \<Longrightarrow> byte_bits b ! i \<longleftrightarrow> bit b i"
  by (simp add: byte_bits_def nth_bin bit_unat)

lemma word4: "push_bit 24 (ucast a) OR push_bit 16 (ucast b) OR push_bit 8 (ucast c) OR ucast d =
    (wd (byte_bits d @ byte_bits c @ byte_bits b @ byte_bits a) :: u32)"
  by (rule bit_word_eqI) (auto simp: bit_wd bit_simps nth_append byte_bits_nth dest: bit_imp_le_length)

lemma words4_nth: "i < length bs div 4 \<Longrightarrow> words4 bs ! i = byte_bits (bs ! (4 * i + 3)) @ byte_bits (bs ! (4 * i + 2)) @ byte_bits (bs ! (4 * i + 1)) @ byte_bits (bs ! (4 * i))"
proof (induction bs arbitrary: i rule: words4.induct)
  case (1 a b c d bs)
  then show ?case by (cases i) (simp_all add: add.commute)
qed simp_all

lemma length_words4: "length (words4 bs) = length bs div 4"
  by (induction bs rule: words4.induct) simp_all

lemma sized_words4: "\<forall>w \<in> set (words4 bs). length w = 32"
  by (induction bs rule: words4.induct) simp_all

lemma load_words_bits: "length d = 64 \<Longrightarrow> load_words d = map wd (words4 d)"
  by (rule nth_equalityI) (simp_all add: load_words_def length_words4 words4_nth word4)

lemma words4_bytes: "4 dvd length bs \<Longrightarrow> concat (map (\<lambda>w. rev (le_bytes 4 w)) (map wd (words4 bs) :: u32 list)) = bs"
proof (induction bs rule: words4.induct)
  case (1 a b c d bs)
  have "wd (byte_bits d @ byte_bits c @ byte_bits b @ byte_bits a) = (of_nat (le_val [d, c, b, a]) :: u32)"
    using wd_bytes [of "[d, c, b, a]"] by simp
  moreover have "le_bytes 4 (of_nat (le_val [d, c, b, a]) :: u32) = [d, c, b, a]" by (rule le_bytes_le_val) simp_all
  moreover have "4 dvd length bs" using "1.prems" by simp presburger
  ultimately show ?case using 1 by (simp del: le_val.simps)
qed (auto dest: dvd_imp_le)

lemma sha_compress_bits:
  assumes "length block = 64"
  shows "sha256_compress sha256_H0 block = map wd (sha_bits block)"
proof -
  let ?ws = "rev (schedule 48 (rev (words4 block)))"
  have r: "\<forall>w \<in> set (rev (words4 block)). length w = 32" "16 \<le> length (rev (words4 block))" using assms sized_words4 by (simp_all add: length_words4)
  have e: "extend_words 48 (load_words block) = map wd ?ws" "\<forall>w \<in> set ?ws. length w = 32"
    using schedule_correct [OF r, of 48] assms by (simp_all add: load_words_bits rev_map)
  have h: "sized_state H0b" "(sha256_H0 ! 0, sha256_H0 ! 1, sha256_H0 ! 2, sha256_H0 ! 3, sha256_H0 ! 4, sha256_H0 ! 5, sha256_H0 ! 6, sha256_H0 ! 7) = of_state H0b"
    by (simp_all add: sized_state_def H0b_def sized_def sha256_H0_def of_state_def wd_bin32 del: bin.simps)
  obtain a b c d e' f g i where s: "sha_rounds Kb ?ws H0b = (a, b, c, d, e', f, g, i)" by (metis surj_pair)
  have k: "\<forall>k \<in> set Kb. length k = 32" using Kb_K(2) by (simp add: sized_def)
  have "foldl sha256_round (of_state H0b) (zip K (map wd ?ws)) = (wd a, wd b, wd c, wd d, wd e', wd f, wd g, wd i)"
    and l: "length a = 32" "length b = 32" "length c = 32" "length d = 32" "length e' = 32" "length f = 32" "length g = 32" "length i = 32"
    using sha_rounds_correct [OF h(1) k e(2)] by (simp_all add: Kb_K(1) s of_state_def sized_state_def sized_def)
  then show ?thesis unfolding sha256_compress_def e(1) h(2) Let_def sha_bits_def s
    by (simp add: H0b_def sha256_H0_def wd_bin32 flip: wd_add)
qed

text \<open>The digest of a message that pads to one block.\<close>

lemma sha_value:
  assumes "sha256_pad msg = block" "length block = 64" "length d = 32" "sha_bits block = words4 d"
  shows "sha256 msg = d"
  using sha_compress_bits [OF assms(2)] words4_bytes [of d] assms(1,2,3,4) by (simp add: sha256_eq_spec sha256_spec_def)

section \<open>Evaluation\<close>

lemma bin_numeral:
  "bin 0 n = []"
  "bin (numeral k) 0 = False # bin (pred_numeral k) 0" "bin (numeral k) 1 = True # bin (pred_numeral k) 0"
  "bin (numeral k) (numeral num.One) = True # bin (pred_numeral k) 0"
  "bin (numeral k) (numeral (num.Bit0 m)) = False # bin (pred_numeral k) (numeral m)"
  "bin (numeral k) (numeral (num.Bit1 m)) = True # bin (pred_numeral k) (numeral m)"
  by (simp_all add: numeral_eq_Suc [of k])

lemma byte_bits_numeral: "byte_bits (numeral k) = bin 8 (numeral k)" "byte_bits 0 = bin 8 0" "byte_bits 1 = bin 8 1"
proof -
  have "bin k (take_bit k n) = bin k n" for k n by (rule nth_equalityI) (simp_all add: nth_bin bit_take_bit_iff)
  from this [of 8 "numeral k"] show "byte_bits (numeral k) = bin 8 (numeral k)" by (simp add: byte_bits_def)
qed (simp_all add: byte_bits_def)

lemma pad_numeral: "pad (numeral k) [] = 0 # pad (pred_numeral k) []" "pad (numeral k) (b # bs) = b # pad (pred_numeral k) bs"
  by (simp_all add: numeral_eq_Suc [of k])

lemma list_numeral:
  "take (numeral k) (x # xs) = x # take (pred_numeral k) xs" "drop (numeral k) (x # xs) = drop (pred_numeral k) xs"
  "(x # xs) ! numeral k = xs ! pred_numeral k" "(x # xs) ! 0 = x" "(x # xs) ! 1 = xs ! 0" "take 0 xs = []" "drop 0 xs = xs"
  "replicate (numeral k) x = x # replicate (pred_numeral k) x" "replicate 0 x = []"
  by (simp_all add: numeral_eq_Suc [of k])

lemmas bit_rules = exor.simps major.simps pick.simps addl.simps xorl.simps map3.simps bin_numeral byte_bits_numeral
  pad.simps(1) pad_numeral words8.simps list_numeral pred_numeral_simps Num.BitM.simps append.simps list.map turn_def slide_def

lemmas blake_rules = bit_rules blake2b_bits_def IVb_def lastb.simps rounds_def BLAKE2B_SIGMA_def foldl.simps
  roundb.simps mix_steps diagonals.simps rows.simps close.simps list.sel not_True_eq_False not_False_eq_True

lemma schedule_numeral: "schedule (numeral k) ws = schedule (pred_numeral k) (new_word ws # ws)" "schedule 0 ws = ws"
  by (simp_all add: numeral_eq_Suc [of k])

lemmas sha_rules = bit_rules sha_bits_def Kb_def H0b_def schedule_numeral new_word_def ep0_def ep1_def sig0_def sig1_def words4.simps rev.simps
  sha_rounds.simps sha_round.simps sha_step.simps sha_add.simps

section \<open>Known answers\<close>

lemma sha256_abc: "sha256 [0x61, 0x62, 0x63] =
   [0xba,0x78,0x16,0xbf,0x8f,0x01,0xcf,0xea,0x41,0x41,0x40,0xde,0x5d,0xae,0x22,0x23,
    0xb0,0x03,0x61,0xa3,0x96,0x17,0x7a,0x9c,0xb4,0x10,0xff,0x61,0xf2,0x00,0x15,0xad]"
proof (rule sha_value)
  let ?b = "[0x61, 0x62, 0x63, 0x80, 0, 0, 0, 0, 0, 0, 0, 0, 0, 0, 0, 0, 0, 0, 0, 0, 0, 0, 0, 0, 0, 0, 0, 0, 0, 0, 0, 0,
     0, 0, 0, 0, 0, 0, 0, 0, 0, 0, 0, 0, 0, 0, 0, 0, 0, 0, 0, 0, 0, 0, 0, 0, 0, 0, 0, 0, 0, 0, 0, 0x18]"
  show "sha256_pad [0x61, 0x62, 0x63] = ?b" "length ?b = 64" by (simp_all add: sha256_pad_def le_bytes_def upt_rec list_numeral)
  show "sha_bits ?b = words4 [0xba,0x78,0x16,0xbf,0x8f,0x01,0xcf,0xea,0x41,0x41,0x40,0xde,0x5d,0xae,0x22,0x23,
    0xb0,0x03,0x61,0xa3,0x96,0x17,0x7a,0x9c,0xb4,0x10,0xff,0x61,0xf2,0x00,0x15,0xad]" by (simp only: sha_rules)
qed simp

lemma blake2b_abc: "blake2b_nokey [0x61, 0x62, 0x63] 64 =
  [0xba,0x80,0xa5,0x3f,0x98,0x1c,0x4d,0x0d,0x6a,0x27,0x97,0xb6,0x9f,0x12,0xf6,0xe9,
   0x4c,0x21,0x2f,0x14,0x68,0x5a,0xc4,0xb7,0x4b,0x12,0xbb,0x6f,0xdb,0xff,0xa2,0xd1,
   0x7d,0x87,0xc5,0x39,0x2a,0xab,0x79,0x2d,0xc2,0x52,0xd5,0xde,0x45,0x33,0xcc,0x95,
   0x18,0xd3,0x8a,0xa8,0xdb,0xf1,0x92,0x5a,0xb9,0x23,0x86,0xed,0xd4,0x00,0x99,0x23]"
  by (rule blake2b_value [where t = 3 and k = 8]) (simp_all only: blake_rules, simp_all)

end
