(* ===== verification/Selftest_Block.thy ===== *)
theory Selftest_Block
  imports Miner Bitwise
begin

text \<open>
  The block-production selftest (\<^verbatim>\<open>src/miner/selftest_block.c\<close>), which gates the miner's start.  Each test is the list of the checks that fail, in
  the order they are reported; \<^verbatim>\<open>g_fail\<close> is its length.  The developer-fee counters, which the test advances and resets, are the other result.
  \<^verbatim>\<open>hexbin\<close> is applied to constants made of digits only, on which \<^verbatim>\<open>sscanf\<close> with \<^verbatim>\<open>%2x\<close> reads what \<open>hex_pairs\<close> does.
\<close>

unbundle bit_operations_syntax

section \<open>The tests\<close>

definition hexbin :: "string \<Rightarrow> nat \<Rightarrow> bytes" where
  "hexbin h n = (case hex_pairs (take (2 * n) h) of Some bs \<Rightarrow> bs | None \<Rightarrow> [])"

definition known_program :: bytes where
  "known_program = hexbin ''12e023d773abcec4dbe4ebe90424ecac94e5a470'' 20"

definition test_bech32 :: "string list" where
  "test_bech32 =
     (case bech32_decode_addr DEVFEE_ADDRESS of
        Inl _ \<Rightarrow> [''bech32 devfee decode'']
      | Inr a \<Rightarrow>
          if witver a \<noteq> 0 \<or> length (program a) \<noteq> 20 \<or> program a \<noteq> known_program then [''bech32 devfee program'']
          else if hrp a \<noteq> ''bc'' then [''bech32 devfee hrp'']
          else
          (case bech32_scriptpubkey a 64 of
             Inl _ \<Rightarrow> [''bech32 scriptPubKey'']
           | Inr spk \<Rightarrow> if length spk \<noteq> 22 \<or> spk ! 0 \<noteq> 0x00 \<or> spk ! 1 \<noteq> 0x14 \<or> take 20 (drop 2 spk) \<noteq> known_program
                        then [''bech32 scriptPubKey''] else []) @
          (let bad = DEVFEE_ADDRESS;
               bad = bad[length bad - 1 := (if bad ! (length bad - 1) = CHR ''e'' then CHR ''q'' else CHR ''e'')]
           in case bech32_decode_addr bad of Inr _ \<Rightarrow> [''bech32 bad checksum''] | Inl _ \<Rightarrow> []) @
          (case bech32_decode_addr ''BC1QZTSZ84mn408vfklya05sgf8v4j2wtfrscszene'' of Inr _ \<Rightarrow> [''bech32 mixed case''] | Inl _ \<Rightarrow> []))"

definition test_merkle :: "string list" where
  "test_merkle =
     (let one = replicate 32 0xab; a32 = replicate 32 0x11; b32 = replicate 32 0x22; c32 = replicate 32 0x33;
          want = sha256d (a32 @ b32);
          ab = sha256d (a32 @ b32); cc = sha256d (c32 @ c32); want3 = sha256d (ab @ cc)
      in (if merkle_root [one] 1 \<noteq> Inr one then [''merkle single''] else []) @
         (if merkle_root [a32, b32] 2 \<noteq> Inr want then [''merkle pair''] else []) @
         (if merkle_root [a32, b32, c32] 3 \<noteq> Inr want3 then [''merkle odd''] else []))"

text \<open>The sixty calls: how many chose the developer, the first that did, and whether the flag always agreed with the address.\<close>

fun payout_calls :: "nat \<Rightarrow> nat \<Rightarrow> nat \<Rightarrow> int \<Rightarrow> devfee_state \<Rightarrow> (nat \<times> int) option \<times> devfee_state" where
  "payout_calls 0 i devs first_dev s = (Some (devs, first_dev), s)"
| "payout_calls (Suc k) i devs first_dev s =
     (let (a, s) = devfee_next_payout (Some ''bc1quser0000000000000000000000000000000000'') s;
          is_dev = (a = DEVFEE_ADDRESS);
          devs = (if is_dev then devs + 1 else devs);
          first_dev = (if is_dev \<and> first_dev < 0 then int i else first_dev)
      in if is_dev \<noteq> g_current_is_dev s then (None, s) else payout_calls k (i + 1) devs first_dev s)"

definition test_devfee :: "string list \<times> devfee_state" where
  "test_devfee =
     (case payout_calls 60 1 0 (-1) devfee_reset of
        (None, s) \<Rightarrow> ([''devfee flag''], s)
      | (Some (devs, first_dev), s) \<Rightarrow>
          (if devs \<noteq> 3 then [''devfee rate'']
           else if first_dev \<noteq> uint DEVFEE_INTERVAL then [''devfee phase'']
           else if g_total s \<noteq> 60 \<or> g_dev s \<noteq> 3 then [''devfee counters''] else [], devfee_reset))"

definition test_commitment :: string where
  "test_commitment = ''6a24aa21a9ed1627fbbb3c68fa2088b10fffbd79c08c647e77f98ba5f4ef9fec4c50ed0000000000000000''"

definition test_coinbase :: "string list" where
  "test_coinbase =
     (case coinbase_build DEVFEE_ADDRESS 312997000 970278 0x1122334455667788 (Some test_commitment) of
        Inl _ \<Rightarrow> [''coinbase build'']
      | Inr cb \<Rightarrow>
          let s = stripped cb; r = raw cb; wc = hexbin test_commitment 38 in
          (if s ! 41 \<noteq> 0x0d \<or> s ! 42 \<noteq> 0x03 \<or> s ! 43 \<noteq> 0x26 \<or> s ! 44 \<noteq> 0xce \<or> s ! 45 \<noteq> 0x0e then [''coinbase BIP34 height''] else []) @
          (if take 32 (drop 5 s) \<noteq> replicate 32 0 \<or> s ! 37 \<noteq> 0xff \<or> s ! 40 \<noteq> 0xff then [''coinbase prevout''] else []) @
          (if txid cb \<noteq> sha256d s then [''coinbase txid''] else []) @
          (if r ! 4 \<noteq> 0x00 \<or> r ! 5 \<noteq> 0x01 then [''coinbase witness marker'']
           else if length r \<le> length s then [''coinbase witness length''] else []) @
          (if \<not> list_ex (\<lambda>i. take 38 (drop i s) = wc) [0..<length s + 1 - 38] then [''coinbase witness commitment''] else []) @
          (case coinbase_build ''bc1qnotarealaddressatall'' 1 1 0 None of Inr _ \<Rightarrow> [''coinbase bad address''] | Inl _ \<Rightarrow> []))"

definition test_header :: knots_header where
  "test_header = knots_header_init\<lparr>nBits := 0x1903c2d4, nTime := 0x11223344, nNonce := 0xaabbccdd, m_height := 970278, m_txcount := 313,
     hashMerkleRoot := replicate 32 0x5a, hashPrevBlock := replicate 32 0x7b\<rparr>"

definition test_block :: "string list" where
  "test_block =
     (case block_serialize_header test_header 256 of
        Inl _ \<Rightarrow> [''block header length'']
      | Inr buf \<Rightarrow>
          if length buf \<noteq> BLOCK_HEADER_V2_LEN then [''block header length'']
          else
          let v = ucast (buf ! 0) OR push_bit 8 (ucast (buf ! 1)) OR push_bit 16 (ucast (buf ! 2)) OR push_bit 24 (ucast (buf ! 3)) :: u32;
              cbraw = [1, 2, 3, 4, 5, 6, 7, 8]; txs = [9, 9, 9, 9]
          in (if v AND 0x80000000 = 0 then [''block header v2 flag''] else []) @
             (if take 32 (drop 4 buf) \<noteq> hashPrevBlock test_header then [''header prevblock offset'']
              else if take 32 (drop 36 buf) \<noteq> hashMerkleRoot test_header then [''header merkle offset'']
              else if buf ! 108 \<noteq> 0x39 \<or> buf ! 109 \<noteq> 0x01 then [''header m_txcount offset'']
              else if buf ! 128 \<noteq> 0x26 \<or> buf ! 129 \<noteq> 0xce \<or> buf ! 130 \<noteq> 0x0e then [''header m_height offset''] else []) @
             (case block_serialize test_header cbraw txs 1 512 of
                Inl _ \<Rightarrow> [''block length'']
              | Inr blk \<Rightarrow> if length blk \<noteq> BLOCK_HEADER_V2_LEN + 1 + 8 + 4 then [''block length'']
                          else if blk ! BLOCK_HEADER_V2_LEN \<noteq> 2 then [''block tx count''] else []))"

definition selftest_block_production :: "int \<times> devfee_state" where
  "selftest_block_production =
     (let (f, s) = test_devfee;
          g_fail = length test_bech32 + length test_merkle + length f + length test_coinbase + length test_block
      in (if g_fail \<noteq> 0 then -1 else 0, s))"

section \<open>They pass\<close>

lemma known_program_bytes: "known_program = [18, 224, 35, 215, 115, 171, 206, 196, 219, 228, 235, 233, 4, 36, 236, 172, 148, 229, 164, 112]"
  by code_simp

lemma test_bech32_passes: "test_bech32 = []"
proof -
  have "isl (bech32_decode_addr (DEVFEE_ADDRESS[41 := CHR ''q'']))" "isl (bech32_decode_addr ''BC1QZTSZ84mn408vfklya05sgf8v4j2wtfrscszene'')" by code_simp+
  then obtain x y where "bech32_decode_addr (DEVFEE_ADDRESS[41 := CHR ''q'']) = Inl x" "bech32_decode_addr ''BC1QZTSZ84mn408vfklya05sgf8v4j2wtfrscszene'' = Inl y"
    by (meson isl_def)
  moreover have "length DEVFEE_ADDRESS = 42" "DEVFEE_ADDRESS ! 41 = CHR ''e''" by (simp_all add: DEVFEE_ADDRESS_def)
  ultimately show ?thesis
    by (simp add: test_bech32_def devfee_program known_program_bytes bech32_scriptpubkey_def)
qed

lemma test_merkle_passes: "test_merkle = []"
  by (simp add: test_merkle_def merkle_root_def merkle_loop.simps merkle_row_def merkle_step_def merkle_node_def upt_rec)

lemma test_devfee_passes: "test_devfee = ([], devfee_reset)"
  by code_simp

lemma test_block_passes: "test_block = []"
  by code_simp

definition test_strip :: bytes where
  "test_strip = coinbase_stripped (coinbase_script 970278 0x1122334455667788) 312997000 (0 # 20 # known_program) (hexbin test_commitment 43)"

lemma test_strip_bytes: "test_strip =
    [2, 0, 0, 0, 1, 0, 0, 0, 0, 0, 0, 0, 0, 0, 0, 0, 0, 0, 0, 0, 0, 0, 0, 0, 0, 0, 0, 0, 0, 0, 0, 0, 0, 0, 0, 0, 0, 255, 255, 255, 255, 13, 3,
     38, 206, 14, 8, 136, 119, 102, 85, 68, 51, 34, 17, 255, 255, 255, 255, 2, 136, 244, 167, 18, 0, 0, 0, 0, 22, 0, 20, 18, 224, 35, 215, 115,
     171, 206, 196, 219, 228, 235, 233, 4, 36, 236, 172, 148, 229, 164, 112, 0, 0, 0, 0, 0, 0, 0, 0, 43, 106, 36, 170, 33, 169, 237, 22, 39, 251,
     187, 60, 104, 250, 32, 136, 177, 15, 255, 189, 121, 192, 140, 100, 126, 119, 249, 139, 165, 244, 239, 159, 236, 76, 80, 237, 0, 0, 0, 0, 0,
     0, 0, 0, 0, 0, 0, 0]"
  by code_simp

lemma known_commitment: "hexbin test_commitment 38 = [106, 36, 170, 33, 169, 237, 22, 39, 251, 187, 60, 104, 250, 32, 136, 177, 15, 255, 189, 121, 192, 140, 100, 126, 119, 249, 139, 165, 244, 239, 159, 236, 76, 80, 237, 0, 0, 0]"
  by code_simp

lemma test_strip_checks:
  "test_strip ! 41 = 0x0d \<and> test_strip ! 42 = 0x03 \<and> test_strip ! 43 = 0x26 \<and> test_strip ! 44 = 0xce \<and> test_strip ! 45 = 0x0e"
  "take 32 (drop 5 test_strip) = replicate 32 0 \<and> test_strip ! 37 = 0xff \<and> test_strip ! 40 = 0xff"
  "coinbase_raw test_strip ! 4 = 0 \<and> coinbase_raw test_strip ! 5 = 1" "length test_strip < length (coinbase_raw test_strip)"
  "take 38 (drop 100 test_strip) = hexbin test_commitment 38" "length test_strip = 147"
  by (simp_all add: test_strip_bytes known_commitment coinbase_raw_def put_u32le_def list_numeral)

lemma test_coinbase_passes: "test_coinbase = []"
proof -
  have w: "hex2bin test_commitment 64 = Some (hexbin test_commitment 43)" "test_commitment \<noteq> []" by code_simp+
  have "isl (coinbase_build ''bc1qnotarealaddressatall'' 1 1 0 None)" by code_simp
  then obtain x where x: "coinbase_build ''bc1qnotarealaddressatall'' 1 1 0 None = Inl x" by (meson isl_def)
  have "coinbase_build DEVFEE_ADDRESS 312997000 970278 0x1122334455667788 (Some test_commitment) =
      Inr \<lparr>raw = coinbase_raw test_strip, stripped = test_strip, txid = sha256d test_strip\<rparr>"
    by (simp add: coinbase_build_def devfee_program bech32_scriptpubkey_def w test_strip_def known_program_bytes Let_def)
  moreover have "list_ex (\<lambda>i. take 38 (drop i test_strip) = hexbin test_commitment 38) [0..<length test_strip + 1 - 38]"
    using test_strip_checks(5,6) by (auto simp: list_ex_iff)
  ultimately show ?thesis using test_strip_checks x by (simp add: test_coinbase_def Let_def)
qed

text \<open>
  The block-production selftest passes: every check of the five groups holds, whatever the platform, and the fee counters are left as they were
  at the start.  So it never keeps a miner that was compiled as written from starting.
\<close>

theorem block_selftest_passes: "selftest_block_production = (0, devfee_reset)"
  by (simp add: selftest_block_production_def test_bech32_passes test_merkle_passes test_devfee_passes test_coinbase_passes test_block_passes)

end
