(* ===== verification/Selftest_Stratum.thy ===== *)
theory Selftest_Stratum
  imports Selftest_Block
begin

text \<open>
  The protocol selftest (\<^verbatim>\<open>src/miner/selftest_stratum.c\<close>): the seven tests that are pure computation.  Each stops at its first failing check, and is
  the name of that check.  The tests that open a socket, and the selftest itself, are in \<open>Selftest_Sockets\<close>.  \<^verbatim>\<open>unhex\<close> and \<^verbatim>\<open>hexeq\<close> are applied to constants made of digits.
\<close>

unbundle bit_operations_syntax

section \<open>The captured job\<close>

definition JOB_ID :: string where "JOB_ID = ''a647000013c7''"
definition PREVHASH :: string where "PREVHASH = ''00000000000075a242522fd4708844dfbb8d6d5c302dc356935e08513503dbdd''"
definition COINB1 :: string where "COINB1 = ''00000031bd27d82a5b25e42446814eab790095046062020d73a167e069766bdbbf98a800000000''"
definition NBITS :: string where "NBITS = ''d4c20319''"
definition NTIME :: string where "NTIME = ''0000000000000000''"
definition EXTRANONCE1 :: string where "EXTRANONCE1 = ''2fed4795''"

definition EXPECT_SS3 :: string where
  "EXPECT_SS3 = ''00000000'' @ ''31bd27d82a5b25e42446814eab790095046062020d73a167e069766bdbbf98a8'' @ ''000000002fed47950000000000000000''"

definition EXPECT_ROOT :: string where "EXPECT_ROOT = ''c880069ac0edf060c7852ff922f69cb91f9ff28e67941317e6f24bf75ac94b61''"

definition EXPECT_SS4 :: string where
  "EXPECT_SS4 = ''00000000000075a242522fd4708844dfbb8d6d5c302dc356935e08513503dbdd'' @ ''0000000000000000'' @ ''0000000000000000'' @
     ''c880069ac0edf060c7852ff922f69cb91f9ff28e67941317e6f24bf75ac94b61''"

definition notify_of :: "string \<Rightarrow> string \<Rightarrow> string \<Rightarrow> string" where
  \<open>notify_of jid nt cl = ''{"id":null,"method":"mining.notify","params":["'' @ jid @ ''","'' @ PREVHASH @ ''","'' @ COINB1 @ ''","",[],"","'' @ NBITS @
     ''","'' @ nt @ ''",'' @ cl @ '']}''\<close>

definition NOTIFY_LINE :: string where "NOTIFY_LINE = notify_of JOB_ID NTIME ''true''"

definition SUBSCRIBE_LINE :: string where
  \<open>SUBSCRIBE_LINE = ''{"error":null,"id":1,"result":[[["mining.notify","lz"]],"'' @ EXTRANONCE1 @ ''",8]}''\<close>

definition test_session :: stratum where
  "test_session = (stratum_init (Some ''pool.invalid'') 1234 (Some ''worker'') (Some ''x''))\<lparr>sub_id := 1\<rparr>"

section \<open>The tests\<close>

fun first_fail :: "(bool \<times> string) list \<Rightarrow> string list" where
  "first_fail [] = []"
| "first_fail ((bad, what) # cs) = (if bad then [what] else first_fail cs)"

definition hexeq :: "bytes \<Rightarrow> nat \<Rightarrow> string \<Rightarrow> bool" where
  "hexeq b n expect \<longleftrightarrow> bin2hex (take n b) = expect"

definition DIFFICULTY_LINE :: string where
  \<open>DIFFICULTY_LINE = ''{"id":null,"method":"mining.set_difficulty","params":[4096]}''\<close>

definition SHORT_LINE :: string where
  \<open>SHORT_LINE = ''{"id":null,"method":"mining.notify","params":["short","00",""]}''\<close>

definition test_protocol :: "platform \<Rightarrow> string list" where
  "test_protocol pf =
     (let s1 = on_line pf 1000 SUBSCRIBE_LINE test_session;
          s2 = on_line pf 1000 DIFFICULTY_LINE s1;
          s3 = on_line pf 1000 NOTIFY_LINE s2;
          before = seq (job s3);
          s4 = on_line pf 1000 (notify_of ''bad'' ''deadbeef'' ''true'') s3;
          s5 = on_line pf 1000 SHORT_LINE s4
      in first_fail
        [(\<not> subscribed s1, ''subscribe decode''), (en1_len s1 \<noteq> 4, ''subscribe decode''), (en2_size s1 \<noteq> 8, ''subscribe decode''),
         (\<not> hexeq (extranonce1 s1) 4 EXTRANONCE1, ''subscribe decode''),
         (difficulty s2 \<noteq> Fin 4096, ''set_difficulty''),
         (\<not> have_job s3, ''notify decode''), (job_id (job s3) \<noteq> JOB_ID, ''notify decode''), (length (coinb1 (job s3)) \<noteq> 39, ''notify decode''),
         (length (coinb2 (job s3)) \<noteq> 0, ''notify decode''), (length (branches (job s3)) \<noteq> 0, ''notify decode''),
         (nbits (job s3) \<noteq> 0x1903c2d4, ''notify decode''), (\<not> hexeq (prevhash (job s3)) 32 PREVHASH, ''notify decode''),
         (list_ex (\<lambda>i. prevhash (job s3) ! i \<noteq> 0) [0..<6], ''prevhash mask''),
         (seq (job s4) \<noteq> before \<or> job_id (job s4) \<noteq> JOB_ID, ''narrow ntime''),
         (seq (job s5) \<noteq> before \<or> job_id (job s5) \<noteq> JOB_ID, ''short notify'')])"

text \<open>The session the next tests start from.\<close>

definition fed :: "platform \<Rightarrow> stratum" where
  "fed pf = on_line pf 1000 NOTIFY_LINE (on_line pf 1000 SUBSCRIBE_LINE test_session)"

definition test_stages :: "platform \<Rightarrow> string list" where
  "test_stages pf =
     (let s = fed pf; en1 = take (en1_len s) (extranonce1 s); en2 = replicate 8 0 in
      case sia_build_stages (job s) en1 en2 of
        None \<Rightarrow> [''stage build'']
      | Some (m3, m4, rt) \<Rightarrow>
          first_fail
            [(\<not> hexeq m3 STAGE3_LEN EXPECT_SS3, ''ss3''), (\<not> hexeq m4 STAGE4_LEN EXPECT_SS4, ''ss4''), (\<not> hexeq rt 32 EXPECT_ROOT, ''merkle root''),
             (rt \<noteq> take 32 (drop 48 m4), ''root placement''),
             (sia_build_stages ((job s)\<lparr>coinb2 := [0xAA]\<rparr>) en1 en2 \<noteq> None, ''length guard''),
             (case sia_build_stages ((job s)\<lparr>branches := [replicate 32 0x5A]\<rparr>) en1 en2 of None \<Rightarrow> True | Some (_, _, root2) \<Rightarrow> rt = root2, ''branch fold'')])"

definition prefilter_vectors :: "(u64 \<times> u64) list" where
  "prefilter_vectors = [(0x0000000000000000, 0x47bb256848ffcb48), (0x0000000000000001, 0x87b52f516c3503c2), (0x0123456789abcdef, 0x0c44f3fe7c67110f)]"

definition test_prefilter :: "string list" where
  "test_prefilter =
     (let m4 = hexbin EXPECT_SS4 STAGE4_LEN; v0 = snd (prefilter_vectors ! 0);
          compare_top64 = acc_bytes (map (\<lambda>i. sia_pow_compare m4 0 ! i) [0..<8]);
          swapped = acc_bytes (map (\<lambda>i. ucast (drop_bit (8 * i) v0)) [0..<8])
      in first_fail
        (map (\<lambda>(nonce, w). (sia_expected_top64 m4 nonce \<noteq> w, ''prefilter word'')) prefilter_vectors @
         [(compare_top64 \<noteq> swapped, ''compare vs prefilter orientation'')]))"

definition chain_vectors :: "(u64 \<times> u64 \<times> u64) list" where
  "chain_vectors = [(0x0000000000000000, 0x5f2504467366be80, 0x47bb256848ffcb48), (0x0000000000000001, 0xf412d80f6700b5fd, 0x87b52f516c3503c2),
     (0x0123456789abcdef, 0x35aa95c99180aaa8, 0x0c44f3fe7c67110f)]"

definition test_sia_chain :: "platform \<Rightarrow> string list" where
  "test_sia_chain pf =
     (let s = fed pf; en1 = take (en1_len s) (extranonce1 s); en2 = replicate 8 0 in
      case sia_build_header (job s) en1 en2 of
        None \<Rightarrow> [''sia header'']
      | Some (hdr, rt) \<Rightarrow>
          first_fail
            ((\<not> hexeq hdr STAGE4_LEN EXPECT_SS4, ''sia header'') #
             concat (map (\<lambda>(nonce, sia, knots).
               [(sia_chain_expected_top64 hdr nonce \<noteq> sia, ''sia prefilter word''), (sia_chain_expected_top64 hdr nonce = knots, ''sia prefilter word''),
                (sia_expected_top64 hdr nonce \<noteq> knots, ''knots prefilter word'')]) chain_vectors) @
             [(acc_bytes (map (\<lambda>i. sia_chain_pow_compare hdr 0 ! i) [0..<8]) \<noteq> fst (snd (chain_vectors ! 0)), ''sia compare value''),
              (case sia_build_header ((job s)\<lparr>branches := [replicate 32 0x5A]\<rparr>) en1 en2 of None \<Rightarrow> True | Some (_, r2) \<Rightarrow> r2 = rt, ''sia branches''),
              (sia_build_header ((job s)\<lparr>coinb2 := replicate 3 0xAA\<rparr>) en1 en2 = None, ''sia arbtx length'')]))"

definition test_ctx :: work_ctx where
  "test_ctx = \<lparr>ss3 = map (\<lambda>i. of_nat (0x10 + i)) [0..<STAGE3_LEN], ss4 = map (\<lambda>i. of_nat (0x80 + i)) [0..<STAGE4_LEN],
     target_top64 = 0x0123456789abcdef, ctx_valid = False\<rparr>"

definition test_pack :: "string list" where
  "test_pack =
     (let (n, item) = worksrc_pack_item test_ctx WORK_ITEM_LEN; (n', item') = worksrc_pack_item test_ctx (STAGE4_LEN + 8) in
      first_fail
        [(n \<noteq> WORK_ITEM_LEN, ''pack 168''), (take STAGE3_LEN item \<noteq> ss3 test_ctx, ''pack 168''), (list_ex (\<lambda>i. item ! i \<noteq> 0) [STAGE3_LEN..<80], ''pack 168''),
         (take STAGE4_LEN (drop 80 item) \<noteq> ss4 test_ctx, ''pack 168''), (item ! 160 \<noteq> 0xef \<or> item ! 167 \<noteq> 0x01, ''pack 168''),
         (n' \<noteq> STAGE4_LEN + 8, ''pack 88''), (take STAGE4_LEN item' \<noteq> ss4 test_ctx, ''pack 88''), (item' ! 80 \<noteq> 0xef \<or> item' ! 87 \<noteq> 0x01, ''pack 88''),
         (fst (worksrc_pack_item test_ctx 99) \<noteq> 0, ''pack unknown'')])"

fun pool_epochs :: "nat \<Rightarrow> nat \<Rightarrow> int \<Rightarrow> nat \<Rightarrow> devfee_state \<Rightarrow> int \<times> nat \<times> devfee_state" where
  "pool_epochs 0 i first_dev dev_count s = (first_dev, dev_count, s)"
| "pool_epochs (Suc k) i first_dev dev_count s =
     (let (dev, s) = devfee_pool_epoch s
      in if dev then pool_epochs k (i + 1) (if first_dev < 0 then int i else first_dev) (dev_count + 1) (devfee_pool_skip s)
         else pool_epochs k (i + 1) first_dev dev_count s)"

definition test_devfee_pool :: "string list" where
  "test_devfee_pool =
     (let (first_dev, dev_count, s) = pool_epochs 60 1 (-1) 0 devfee_reset in
      first_fail
        [(first_dev \<noteq> uint DEVFEE_INTERVAL, ''devfee pool epoch''), (dev_count \<noteq> 3, ''devfee pool epoch''), (g_pool_jobs s \<noteq> 60, ''devfee pool epoch''),
         (g_pool_skipped s \<noteq> 3, ''devfee pool epoch''), (g_pool_shares s \<noteq> 0, ''devfee pool epoch''), (g_total s \<noteq> 0, ''counter isolation'')])"

definition test_target :: "platform \<Rightarrow> string list" where
  "test_target pf =
     (let s = stratum_init (Some ''pool.invalid'') 1234 (Some ''worker'') (Some ''x'');
          t1 = stratum_target_full pf (s\<lparr>difficulty := Fin 1\<rparr>);
          t2 = stratum_target_full pf (s\<lparr>difficulty := Fin 4096\<rparr>);
          t3 = stratum_target_full pf (s\<lparr>difficulty := to_double (1 / 1000)\<rparr>)
      in first_fail
        [(\<not> hexeq t1 32 ''00000000ffff0000000000000000000000000000000000000000000000000000'', ''difficulty 1''),
         (\<not> hexeq t2 32 ''00000000000ffff0000000000000000000000000000000000000000000000000'', ''difficulty 4096''),
         (stratum_target_top64 pf (s\<lparr>difficulty := Fin 4096\<rparr>) \<noteq> 0x00000000000ffff0, ''target_top64''),
         (t3 ! 0 \<noteq> 0x00 \<or> t3 ! 1 \<noteq> 0x00 \<or> t3 ! 2 \<noteq> 0x03 \<or> t3 ! 3 \<noteq> 0xe7, ''fractional difficulty'')])"

section \<open>They pass\<close>

lemma test_pack_passes: "test_pack = []"
  by code_simp

lemma test_devfee_pool_passes: "test_devfee_pool = []"
  by code_simp

definition captured_job :: stratum_job where
  "captured_job = \<lparr>job_id = JOB_ID, prevhash = hexbin PREVHASH 32, coinb1 = hexbin COINB1 39, coinb2 = [], branches = [],
     ntime = replicate 8 0, nbits = 0x1903c2d4, clean = True, seq = 0\<rparr>"

definition notify_json :: "stratum_job \<Rightarrow> json" where
  "notify_json j = JObj [(''id'', JRaw ''null''), (''method'', JStr ''mining.notify''), (''params'', JArr (notify_params j []))]"

lemma captured_lines:
  "NOTIFY_LINE = print [] (notify_json captured_job)"
  "notify_of ''bad'' ''deadbeef'' ''true'' = print [] (notify_json (captured_job\<lparr>job_id := ''bad'', ntime := [0xde, 0xad, 0xbe, 0xef]\<rparr>))"
  "SUBSCRIBE_LINE = print [] (JObj [(''error'', JRaw ''null''), (''id'', JRaw ''1''),
     (''result'', JArr [JArr [JArr [JStr ''mining.notify'', JStr ''lz'']], JStr (bin2hex [0x2f, 0xed, 0x47, 0x95]), JRaw ''8''])])"
  "DIFFICULTY_LINE = print [] (JObj [(''id'', JRaw ''null''), (''method'', JStr ''mining.set_difficulty''), (''params'', JArr [JRaw ''4096''])])"
  "SHORT_LINE = print [] (JObj [(''id'', JRaw ''null''), (''method'', JStr ''mining.notify''), (''params'', JArr [JStr ''short'', JStr ''00'', JStr []])])"
  by code_simp+

lemma captured_ok: "wf_job captured_job" "plain_str JOB_ID" "wsp []"
  by code_simp+

lemma notify_json_ok: "plain_str (job_id j) \<Longrightarrow> json_ok (notify_json j)"
  using notify_params_ok [of j "[]"] by (simp add: notify_json_def raw_ok_def js_delim_def js_space_def)

lemma feed_notify: "on_line pf now NOTIFY_LINE s =
    s\<lparr>job := captured_job\<lparr>seq := seq (job s) + 1\<rparr>, have_job := True, jobs_received := jobs_received s + 1\<rparr>"
proof -
  have p: "plain_str (job_id captured_job)" using captured_ok(2) by (simp add: captured_job_def)
  show ?thesis using notify_json_ok [OF p] on_line_notify [OF captured_ok(3) _ _ _ captured_ok(1) p, of _ "[]" pf now "[]" s]
    by (simp add: captured_lines(1) notify_json_def)
qed

text \<open>A narrow time and a short parameter list are refused, and change nothing.\<close>

lemma refused_notify:
  assumes "plain_str (job_id j)" "length (ntime j) < 8"
  shows "on_line pf now (print [] (notify_json j)) s = s"
proof -
  let ?ps = "notify_params j []"
  have "plain_str ''mining.notify''" by (simp add: plain_str_def)
  then obtain t where o: "on_line pf now (print [] (notify_json j)) s = on_notify (print [] (JArr ?ps) @ t) s"
    using on_line_method [OF captured_ok(3) notify_json_ok [OF assms(1), unfolded notify_json_def] _ _ _ _, of "''mining.notify''" ?ps pf now "[]" s]
    by (auto simp: notify_json_def)
  have ok: "list_all json_ok ?ps" using assms(1) by (intro notify_params_ok) simp_all
  have "js_elem (print [] (JArr ?ps) @ t) 7 = Some (print [] (JStr (bin2hex (ntime j))) @ tail_of [] (CHR '']'') (map (print []) (drop 8 ?ps)) t)"
    using js_elem_print [OF captured_ok(3) ok, of t 7] by (simp add: notify_params_def)
  moreover have "hex_exact (print [] (JStr (bin2hex (ntime j))) @ r) 8 = None" for r
    using assms(2) by (simp add: hex_exact_def hex_upto_print)
  ultimately have "parse_notify (print [] (JArr ?ps) @ t) q = None" for q
    by (simp add: parse_notify_def Let_def split: option.splits prod.splits bool.splits)
  then show ?thesis using o by (simp add: on_notify_def)
qed

lemma short_notify: "on_line pf now SHORT_LINE s = s"
proof -
  let ?ps = "[JStr ''short'', JStr ''00'', JStr []]"
  have "plain_str ''mining.notify''" by (simp add: plain_str_def)
  then obtain t where o: "on_line pf now SHORT_LINE s = on_notify (print [] (JArr ?ps) @ t) s"
    using on_line_method [OF captured_ok(3), of "[(''id'', JRaw ''null''), (''method'', JStr ''mining.notify''), (''params'', JArr ?ps)]" "''mining.notify''" ?ps pf now "[]" s]
    by (auto simp: captured_lines(5) raw_ok_def js_delim_def js_space_def)
  have "js_count (print [] (JArr ?ps) @ t) = 3" using js_count_print [OF captured_ok(3), of ?ps t] by simp
  then show ?thesis using o by (simp add: on_notify_def parse_notify_def)
qed

lemma closing: "ends (tail_of [] (CHR '']'') xs t)"
  by (rule ends_tail_of) (simp_all add: captured_ok(3) js_delim_def)

lemma feed_difficulty: "on_line pf now DIFFICULTY_LINE s = s\<lparr>difficulty := Fin 4096\<rparr>"
proof -
  let ?ps = "[JRaw ''4096'']"
  have d: "''4096'' = dec 4096" by (simp add: dec.simps HEXDIGITS_def)
  have r: "raw_ok ''4096''" by code_simp
  have "plain_str ''mining.set_difficulty''" by (simp add: plain_str_def)
  then obtain t where "ends t" and o: "on_line pf now DIFFICULTY_LINE s = on_set_difficulty (print [] (JArr ?ps) @ t) s"
    using r on_line_method [OF captured_ok(3), of "[(''id'', JRaw ''null''), (''method'', JStr ''mining.set_difficulty''), (''params'', JArr ?ps)]" "''mining.set_difficulty''" ?ps pf now "[]" s]
    by (auto simp: captured_lines(4) raw_ok_def js_delim_def js_space_def)
  have "js_elem (print [] (JArr ?ps) @ t) 0 = Some (print [] (JRaw (dec 4096)) @ tail_of [] (CHR '']'') [] t)"
    using js_elem_print [OF captured_ok(3), of ?ps t 0] r d by simp
  then show ?thesis using o js_num_raw_dec [OF _ closing, where n = 4096 and w = "[]"] by (simp add: on_set_difficulty_def)
qed

lemma feed_subscribe:
  assumes "sub_id s = 1" "length (extranonce1 s) = 32"
  shows "on_line pf now SUBSCRIBE_LINE s = s\<lparr>extranonce1 := [0x2f, 0xed, 0x47, 0x95] @ drop 4 (extranonce1 s), en1_len := 4, en2_size := 8, subscribed := True\<rparr>"
proof -
  let ?vs = "[JArr [JArr [JStr ''mining.notify'', JStr ''lz'']], JStr (bin2hex [0x2f, 0xed, 0x47, 0x95]), JRaw (dec 8)]"
  let ?kvs = "[(''error'', JRaw ''null''), (''id'', JRaw (dec 1)), (''result'', JArr ?vs)]"
  have d: "dec 1 = ''1''" "dec 8 = ''8''" by code_simp+
  have one: "1 < (2::nat) ^ 53" by simp
  have ok: "json_ok (JObj ?kvs)" by code_simp
  have l: "SUBSCRIBE_LINE = print [] (JObj ?kvs) @ []" unfolding captured_lines(3) d by simp
  obtain t where t: "js_get SUBSCRIBE_LINE ''id'' = Some t" "to_u64 pf (js_num t) = of_nat 1" "on_line pf now SUBSCRIBE_LINE s = on_response pf SUBSCRIBE_LINE s"
    unfolding l by (rule on_line_id [OF captured_ok(3) ok _ _ one, of "[]" pf now s]) (auto simp del: print.simps)
  obtain u where u: "js_get SUBSCRIBE_LINE ''result'' = Some (print [] (JArr ?vs) @ u)"
    unfolding l by (rule js_get_Some [OF captured_ok(3) ok, of "''result''" "JArr ?vs" "[]"]) (auto simp del: print.simps)
  have vs: "list_all json_ok ?vs" using ok by simp
  have e: "js_elem (print [] (JArr ?vs) @ u) 1 = Some (print [] (JStr (bin2hex [0x2f, 0xed, 0x47, 0x95])) @ tail_of [] (CHR '']'') [print [] (JRaw (dec 8))] u)"
    "js_elem (print [] (JArr ?vs) @ u) 2 = Some (print [] (JRaw (dec 8)) @ tail_of [] (CHR '']'') [] u)"
    using js_elem_print [OF captured_ok(3) vs, of u 1] js_elem_print [OF captured_ok(3) vs, of u 2] by simp_all
  have h: "js_hex (print [] (JStr (bin2hex [0x2f, 0xed, 0x47, 0x95])) @ r) (extranonce1 s) =
      (True, [0x2f, 0xed, 0x47, 0x95] @ drop 4 (extranonce1 s), Some 4)" for r
    using js_hex_print [of "[0x2f, 0xed, 0x47, 0x95]" "extranonce1 s" "[]" r] assms(2) by (simp add: eval_nat_numeral)
  have n: "js_num (print [] (JRaw (dec 8)) @ tail_of [] (CHR '']'') [] u) = Fin 8" "to_u64 pf (Fin 8) = 8"
    using js_num_raw_dec [OF _ closing, where n = 8 and w = "[]"] to_u64_nat [of 8 pf] by simp_all
  have "on_subscribe pf (print [] (JArr ?vs) @ u) s =
      s\<lparr>extranonce1 := [0x2f, 0xed, 0x47, 0x95] @ drop 4 (extranonce1 s), en1_len := 4, en2_size := 8, subscribed := True\<rparr>"
    unfolding on_subscribe_def e by (simp add: h n STRATUM_MAX_EN2_def Let_def)
  moreover have "starts (CHR ''['') (js_ws (print [] (JArr ?vs) @ u))" by (simp add: js_ws_def js_space_def print.simps)
  ultimately show ?thesis using t u assms(1) by (simp add: on_response_def)
qed

lemma fed_eq: "fed pf = test_session\<lparr>extranonce1 := [0x2f, 0xed, 0x47, 0x95] @ replicate 28 0, en1_len := 4, subscribed := True,
    job := captured_job\<lparr>seq := 1\<rparr>, have_job := True, jobs_received := 1\<rparr>"
proof -
  have "sub_id test_session = 1" "length (extranonce1 test_session) = 32" "drop 4 (extranonce1 test_session) = replicate 28 0" "en2_size test_session = 8"
    "seq (job test_session) = 0" "jobs_received test_session = 0"
    by (simp_all add: test_session_def stratum_init_def STRATUM_MAX_EN1_def zero_job_def)
  then show ?thesis by (simp add: fed_def feed_subscribe feed_notify)
qed

lemma test_protocol_passes: "test_protocol pf = []"
proof -
  have "sub_id test_session = 1" "length (extranonce1 test_session) = 32"
    by (simp_all add: test_session_def stratum_init_def STRATUM_MAX_EN1_def)
  moreover have "plain_str ''bad''" "hexeq (prevhash captured_job) 32 PREVHASH" "hexeq [0x2f, 0xed, 0x47, 0x95] 4 EXTRANONCE1"
    "length (coinb1 captured_job) = 39" "\<not> list_ex (\<lambda>i. prevhash captured_job ! i \<noteq> 0) [0..<6]" by code_simp+
  ultimately show ?thesis
    by (simp add: test_protocol_def Let_def feed_subscribe feed_difficulty feed_notify captured_lines(2) refused_notify short_notify hexeq_def)
      (simp add: captured_job_def)
qed

section \<open>Digests of the captured job\<close>

lemma leaf_digest: "blake2b_nokey
    [0, 0, 0, 0, 49, 189, 39, 216, 42, 91, 37, 228, 36, 70, 129, 78, 171, 121, 0, 149, 4, 96, 98, 2, 13, 115, 161, 103, 224, 105, 118, 107, 219, 191, 152,
     168, 0, 0, 0, 0, 47, 237, 71, 149, 0, 0, 0, 0, 0, 0, 0, 0] 32 =
    [200, 128, 6, 154, 192, 237, 240, 96, 199, 133, 47, 249, 34, 246, 156, 185, 31, 159, 242, 142, 103, 148, 19, 23, 230, 242, 75, 247, 90, 201, 75, 97]"
  by (rule blake2b_value [where t = 52 and k = 4]) (simp_all only: blake_rules, simp_all)

lemma fold_digest: "blake2b_nokey
    [1, 90, 90, 90, 90, 90, 90, 90, 90, 90, 90, 90, 90, 90, 90, 90, 90, 90, 90, 90, 90, 90, 90, 90, 90, 90, 90, 90, 90, 90, 90, 90, 90, 200, 128, 6, 154,
     192, 237, 240, 96, 199, 133, 47, 249, 34, 246, 156, 185, 31, 159, 242, 142, 103, 148, 19, 23, 230, 242, 75, 247, 90, 201, 75, 97] 32 =
    [99, 225, 198, 239, 49, 151, 112, 176, 25, 61, 102, 118, 55, 60, 254, 99, 78, 202, 43, 199, 182, 133, 73, 158, 142, 138, 41, 202, 8, 200, 37, 100]"
  by (rule blake2b_value [where t = 65 and k = 4]) (simp_all only: blake_rules, simp_all)

lemma header_digest0: "blake2b_nokey
    [0, 0, 0, 0, 0, 0, 117, 162, 66, 82, 47, 212, 112, 136, 68, 223, 187, 141, 109, 92, 48, 45, 195, 86, 147, 94, 8, 81, 53, 3, 219, 221, 0, 0, 0, 0, 0,
     0, 0, 0, 0, 0, 0, 0, 0, 0, 0, 0, 200, 128, 6, 154, 192, 237, 240, 96, 199, 133, 47, 249, 34, 246, 156, 185, 31, 159, 242, 142, 103, 148, 19, 23, 230,
     242, 75, 247, 90, 201, 75, 97] 32 =
    [95, 37, 4, 70, 115, 102, 190, 128, 12, 157, 215, 157, 113, 34, 212, 96, 225, 174, 144, 149, 175, 198, 152, 95, 71, 187, 37, 104, 72, 255, 203, 72]"
  by (rule blake2b_value [where t = 80 and k = 4]) (simp_all only: blake_rules, simp_all)

lemma header_digest1: "blake2b_nokey
    [0, 0, 0, 0, 0, 0, 117, 162, 66, 82, 47, 212, 112, 136, 68, 223, 187, 141, 109, 92, 48, 45, 195, 86, 147, 94, 8, 81, 53, 3, 219, 221, 1, 0, 0, 0, 0,
     0, 0, 0, 0, 0, 0, 0, 0, 0, 0, 0, 200, 128, 6, 154, 192, 237, 240, 96, 199, 133, 47, 249, 34, 246, 156, 185, 31, 159, 242, 142, 103, 148, 19, 23, 230,
     242, 75, 247, 90, 201, 75, 97] 32 =
    [244, 18, 216, 15, 103, 0, 181, 253, 11, 177, 146, 58, 217, 101, 213, 61, 92, 210, 102, 243, 104, 117, 44, 212, 135, 181, 47, 81, 108, 53, 3, 194]"
  by (rule blake2b_value [where t = 80 and k = 4]) (simp_all only: blake_rules, simp_all)

lemma header_digest2: "blake2b_nokey
    [0, 0, 0, 0, 0, 0, 117, 162, 66, 82, 47, 212, 112, 136, 68, 223, 187, 141, 109, 92, 48, 45, 195, 86, 147, 94, 8, 81, 53, 3, 219, 221, 239, 205, 171,
     137, 103, 69, 35, 1, 0, 0, 0, 0, 0, 0, 0, 0, 200, 128, 6, 154, 192, 237, 240, 96, 199, 133, 47, 249, 34, 246, 156, 185, 31, 159, 242, 142, 103, 148,
     19, 23, 230, 242, 75, 247, 90, 201, 75, 97] 32 =
    [53, 170, 149, 201, 145, 128, 170, 168, 129, 166, 154, 241, 166, 65, 255, 166, 134, 76, 229, 83, 127, 55, 131, 176, 12, 68, 243, 254, 124, 103, 17,
     15]"
  by (rule blake2b_value [where t = 80 and k = 4]) (simp_all only: blake_rules, simp_all)

definition known_root :: bytes where
  "known_root =
    [200, 128, 6, 154, 192, 237, 240, 96, 199, 133, 47, 249, 34, 246, 156, 185, 31, 159, 242, 142, 103, 148, 19, 23, 230, 242, 75, 247, 90, 201, 75, 97]"

definition known_header :: bytes where
  "known_header =
    [0, 0, 0, 0, 0, 0, 117, 162, 66, 82, 47, 212, 112, 136, 68, 223, 187, 141, 109, 92, 48, 45, 195, 86, 147, 94, 8, 81, 53, 3, 219, 221, 0, 0, 0, 0, 0,
     0, 0, 0, 0, 0, 0, 0, 0, 0, 0, 0, 200, 128, 6, 154, 192, 237, 240, 96, 199, 133, 47, 249, 34, 246, 156, 185, 31, 159, 242, 142, 103, 148, 19, 23, 230,
     242, 75, 247, 90, 201, 75, 97]"

lemma captured_bytes:
  "hexbin COINB1 39 =
    [0, 0, 0, 49, 189, 39, 216, 42, 91, 37, 228, 36, 70, 129, 78, 171, 121, 0, 149, 4, 96, 98, 2, 13, 115, 161, 103, 224, 105, 118, 107, 219, 191, 152,
     168, 0, 0, 0, 0]"
  "hexbin PREVHASH 32 =
    [0, 0, 0, 0, 0, 0, 117, 162, 66, 82, 47, 212, 112, 136, 68, 223, 187, 141, 109, 92, 48, 45, 195, 86, 147, 94, 8, 81, 53, 3, 219, 221]"
  "hexbin EXPECT_SS4 80 = known_header"
  by code_simp+

lemma captured_leaf: "sia_arbtx_leaf (coinb1 captured_job @ [47, 237, 71, 149] @ replicate 8 0) = known_root"
  using leaf_digest by (simp add: sia_arbtx_leaf_def captured_job_def captured_bytes list_numeral STRATUM_MAX_CB_def known_root_def)

lemma captured_header: "sia_header (captured_job\<lparr>seq := n\<rparr>) known_root = known_header"
  unfolding captured_job_def captured_bytes by code_simp

lemma captured_hex:
  "hexeq (0 # coinb1 captured_job @ [47, 237, 71, 149] @ replicate 8 0) STAGE3_LEN EXPECT_SS3"
  "hexeq known_header STAGE4_LEN EXPECT_SS4" "hexeq known_root 32 EXPECT_ROOT" "take 32 (drop 48 known_header) = known_root"
  by code_simp+

lemma put_nonces:
  "put_nonce known_header 0 =
    [0, 0, 0, 0, 0, 0, 117, 162, 66, 82, 47, 212, 112, 136, 68, 223, 187, 141, 109, 92, 48, 45, 195, 86, 147, 94, 8, 81, 53, 3, 219, 221, 0, 0, 0, 0, 0,
     0, 0, 0, 0, 0, 0, 0, 0, 0, 0, 0, 200, 128, 6, 154, 192, 237, 240, 96, 199, 133, 47, 249, 34, 246, 156, 185, 31, 159, 242, 142, 103, 148, 19, 23, 230,
     242, 75, 247, 90, 201, 75, 97]"
  "put_nonce known_header 1 =
    [0, 0, 0, 0, 0, 0, 117, 162, 66, 82, 47, 212, 112, 136, 68, 223, 187, 141, 109, 92, 48, 45, 195, 86, 147, 94, 8, 81, 53, 3, 219, 221, 1, 0, 0, 0, 0,
     0, 0, 0, 0, 0, 0, 0, 0, 0, 0, 0, 200, 128, 6, 154, 192, 237, 240, 96, 199, 133, 47, 249, 34, 246, 156, 185, 31, 159, 242, 142, 103, 148, 19, 23, 230,
     242, 75, 247, 90, 201, 75, 97]"
  "put_nonce known_header 81985529216486895 =
    [0, 0, 0, 0, 0, 0, 117, 162, 66, 82, 47, 212, 112, 136, 68, 223, 187, 141, 109, 92, 48, 45, 195, 86, 147, 94, 8, 81, 53, 3, 219, 221, 239, 205, 171,
     137, 103, 69, 35, 1, 0, 0, 0, 0, 0, 0, 0, 0, 200, 128, 6, 154, 192, 237, 240, 96, 199, 133, 47, 249, 34, 246, 156, 185, 31, 159, 242, 142, 103, 148,
     19, 23, 230, 242, 75, 247, 90, 201, 75, 97]"
  by code_simp+

lemma fold_changes: "blake2b_nokey (1 # replicate 32 0x5A @ known_root) 32 \<noteq> known_root"
proof -
  have "1 # replicate 32 0x5A @ known_root =
    [1, 90, 90, 90, 90, 90, 90, 90, 90, 90, 90, 90, 90, 90, 90, 90, 90, 90, 90, 90, 90, 90, 90, 90, 90, 90, 90, 90, 90, 90, 90, 90, 90, 200, 128, 6, 154,
     192, 237, 240, 96, 199, 133, 47, 249, 34, 246, 156, 185, 31, 159, 242, 142, 103, 148, 19, 23, 230, 242, 75, 247, 90, 201, 75, 97]"
    by (simp add: known_root_def list_numeral)
  then show ?thesis using fold_digest by (simp add: known_root_def)
qed

lemma fed_job: "job (fed pf) = captured_job\<lparr>seq := 1\<rparr>" "take (en1_len (fed pf)) (extranonce1 (fed pf)) = [47, 237, 71, 149]"
  by (simp_all add: fed_eq)

lemma captured_length: "length (coinb1 captured_job) = 39" "branches captured_job = []" "coinb2 captured_job = []"
  by (simp_all add: captured_job_def captured_bytes)

lemma test_stages_passes: "test_stages pf = []"
proof -
  have "sia_build_stages (captured_job\<lparr>seq := 1\<rparr>) [47, 237, 71, 149] (replicate 8 0) =
      Some (0 # coinb1 captured_job @ [47, 237, 71, 149] @ replicate 8 0, known_header, known_root)"
    using captured_leaf captured_header [of 1]
    by (simp add: sia_build_stages_def sia_arbtx_def captured_length STRATUM_MAX_CB_def STAGE3_LEN_def sia_merkle_root_def)
  moreover have "sia_build_stages (captured_job\<lparr>seq := 1, coinb2 := [0xAA]\<rparr>) [47, 237, 71, 149] (replicate 8 0) = None"
    by (simp add: sia_build_stages_def sia_arbtx_def captured_length STRATUM_MAX_CB_def STAGE3_LEN_def)
  moreover have "\<exists>a b. sia_build_stages (captured_job\<lparr>seq := 1, branches := [replicate 32 0x5A]\<rparr>) [47, 237, 71, 149] (replicate 8 0) =
      Some (a, b, blake2b_nokey (1 # replicate 32 0x5A @ known_root) 32)"
    using captured_leaf by (simp add: sia_build_stages_def sia_arbtx_def captured_length STRATUM_MAX_CB_def STAGE3_LEN_def sia_merkle_root_def Let_def)
  ultimately show ?thesis using captured_hex fold_changes
    by (auto simp: test_stages_def fed_job Let_def)
qed

lemma known_words:
  "sia_expected_top64 known_header 0 = 0x47bb256848ffcb48" "sia_expected_top64 known_header 1 = 0x87b52f516c3503c2"
  "sia_expected_top64 known_header 0x0123456789abcdef = 0x0c44f3fe7c67110f"
  "sia_chain_expected_top64 known_header 0 = 0x5f2504467366be80" "sia_chain_expected_top64 known_header 1 = 0xf412d80f6700b5fd"
  "sia_chain_expected_top64 known_header 0x0123456789abcdef = 0x35aa95c99180aaa8"
  unfolding sia_expected_top64_def sia_chain_expected_top64_def put_nonces header_digest0 header_digest1 header_digest2 Let_def
  by code_simp+

lemma known_compares:
  "acc_bytes (map (\<lambda>i. sia_pow_compare known_header 0 ! i) [0..<8]) = 0x48cbff486825bb47"
  "acc_bytes (map (\<lambda>i. sia_chain_pow_compare known_header 0 ! i) [0..<8]) = 0x5f2504467366be80"
  unfolding sia_pow_compare_def sia_chain_pow_compare_def put_nonces header_digest0 Let_def by code_simp+

lemma test_prefilter_passes: "test_prefilter = []"
proof -
  have "acc_bytes (map (\<lambda>i. ucast (drop_bit (8 * i) (0x47bb256848ffcb48 :: u64))) [0..<8]) = 0x48cbff486825bb47" by code_simp
  then show ?thesis using known_words known_compares
    by (simp add: test_prefilter_def prefilter_vectors_def captured_bytes STAGE4_LEN_def Let_def)
qed

lemma test_sia_chain_passes: "test_sia_chain pf = []"
proof -
  have "sia_build_header (captured_job\<lparr>seq := 1\<rparr>) [47, 237, 71, 149] (replicate 8 0) = Some (known_header, known_root)"
    using captured_leaf captured_header [of 1]
    by (simp add: sia_build_header_def sia_arbtx_def captured_length STRATUM_MAX_CB_def sia_merkle_root_def)
  moreover have "\<exists>a. sia_build_header (captured_job\<lparr>seq := 1, branches := [replicate 32 0x5A]\<rparr>) [47, 237, 71, 149] (replicate 8 0) =
      Some (a, blake2b_nokey (1 # replicate 32 0x5A @ known_root) 32)"
    using captured_leaf by (simp add: sia_build_header_def sia_arbtx_def captured_length STRATUM_MAX_CB_def sia_merkle_root_def Let_def)
  moreover have "sia_build_header (captured_job\<lparr>seq := 1, coinb2 := replicate 3 0xAA\<rparr>) [47, 237, 71, 149] (replicate 8 0) \<noteq> None"
    by (simp add: sia_build_header_def sia_arbtx_def captured_length STRATUM_MAX_CB_def Let_def)
  ultimately show ?thesis using captured_hex(2) fold_changes known_words known_compares
    by (auto simp: test_sia_chain_def fed_job chain_vectors_def Let_def)
qed

section \<open>Difficulties\<close>

lemma doubles:
  "to_double (1 / 10 ^ 9) = Fin (4835703278458517 / 2 ^ 82)" "to_double (1 / 1000) = Fin (1152921504606847 / 2 ^ 60)"
  "to_double (8589934593 / 2) = Fin (8589934593 / 2)" "to_double (35184372088833 / 2) = Fin (35184372088833 / 2)"
  "to_double (1152921504606847 / 268435456) = Fin (1152921504606847 / 268435456)"
  "to_double (1152921638824575 / 268435456) = Fin (1152921638824575 / 268435456)"
proof -
  show "to_double (1 / 10 ^ 9) = Fin (4835703278458517 / 2 ^ 82)"
    by (rule to_double_eval [of "-30" _ 4835703278458517]) (simp_all add: pow_rat_def)
  show "to_double (1 / 1000) = Fin (1152921504606847 / 2 ^ 60)"
    by (rule to_double_eval [of "-10" _ 4611686018427388]) (simp_all add: pow_rat_def)
  show "to_double (8589934593 / 2) = Fin (8589934593 / 2)"
    by (rule to_double_eval [of "32" _ 4503599627894784]) (simp_all add: pow_rat_def)
  show "to_double (35184372088833 / 2) = Fin (35184372088833 / 2)"
    by (rule to_double_eval [of "44" _ 4503599627370624]) (simp_all add: pow_rat_def)
  show "to_double (1152921504606847 / 268435456) = Fin (1152921504606847 / 268435456)"
    by (rule to_double_eval [of "22" _ 4611686018427388]) (simp_all add: pow_rat_def)
  show "to_double (1152921638824575 / 268435456) = Fin (1152921638824575 / 268435456)"
    by (rule to_double_eval [of "22" _ 4611686555298300]) (simp_all add: pow_rat_def)
qed

lemma divisors:
  "dscaled pf (Fin 1) = 4294967296" "dscaled pf (Fin 4096) = 17592186044416" "dscaled pf (to_double (1 / 1000)) = 4294967"
proof -
  have p: "to_double 4294967296 = Fin 4294967296" "to_double 17592186044416 = Fin 17592186044416"
    using to_double_int [of 4294967296] to_double_int [of 17592186044416] by simp_all
  have f: "\<lfloor>8589934593 / 2 :: rat\<rfloor> = 4294967296" "\<lfloor>35184372088833 / 2 :: rat\<rfloor> = 17592186044416" "\<lfloor>1152921638824575 / 268435456 :: rat\<rfloor> = 4294967"
    by (simp_all add: floor_eq_iff)
  show "dscaled pf (Fin 1) = 4294967296" "dscaled pf (Fin 4096) = 17592186044416" "dscaled pf (to_double (1 / 1000)) = 4294967"
    by (simp_all add: dscaled_def diff_floor_def doubles doubles(1) [simplified] p to_u64_def trunc_rat_def f)
qed

lemma target_bytes:
  assumes "0 < unat d" "unat d \<le> 2 ^ 63" "length bs = 32" "be_val bs = (0xffff * 2 ^ 208) div unat d * 2 ^ 32"
  shows "target_of_divisor d = bs"
  by (rule be_val_inject) (use target_of_divisor_spec [OF assms(1,2)] assms(3,4) in simp_all)

lemma known_targets:
  "target_of_divisor 4294967296 = [0, 0, 0, 0, 255, 255, 0, 0, 0, 0, 0, 0, 0, 0, 0, 0, 0, 0, 0, 0, 0, 0, 0, 0, 0, 0, 0, 0, 0, 0, 0, 0]"
  "target_of_divisor 17592186044416 = [0, 0, 0, 0, 0, 15, 255, 240, 0, 0, 0, 0, 0, 0, 0, 0, 0, 0, 0, 0, 0, 0, 0, 0, 0, 0, 0, 0, 0, 0, 0, 0]"
  "target_of_divisor 4294967 = [0, 0, 3, 231, 252, 28, 132, 59, 128, 248, 228, 205, 31, 200, 141, 44, 191, 227, 59, 189, 222, 189, 19, 137, 138, 158, 151, 8, 0, 0, 0, 0]"
  by (rule target_bytes; simp add: be_val_def)+

lemma test_target_passes: "test_target pf = []"
proof -
  have "hexeq [0, 0, 0, 0, 255, 255, 0, 0, 0, 0, 0, 0, 0, 0, 0, 0, 0, 0, 0, 0, 0, 0, 0, 0, 0, 0, 0, 0, 0, 0, 0, 0] 32
      ''00000000ffff0000000000000000000000000000000000000000000000000000''"
    "hexeq [0, 0, 0, 0, 0, 15, 255, 240, 0, 0, 0, 0, 0, 0, 0, 0, 0, 0, 0, 0, 0, 0, 0, 0, 0, 0, 0, 0, 0, 0, 0, 0] 32
      ''00000000000ffff0000000000000000000000000000000000000000000000000''"
    "top64 [0, 0, 0, 0, 0, 15, 255, 240, 0, 0, 0, 0, 0, 0, 0, 0, 0, 0, 0, 0, 0, 0, 0, 0, 0, 0, 0, 0, 0, 0, 0, 0] = 0xffff0" by code_simp+
  then show ?thesis
    by (simp add: test_target_def stratum_target_full_def stratum_target_top64_def divisors known_targets)
qed

end
