(* ===== verification/First_Share.thy ===== *)
theory First_Share
  imports Selftest_Stratum
begin

text \<open>
  One session played to the end, on the definitions of the other theories: a pool that answers the handshake, sets a difficulty near the floor, sends one job,
  and accepts the share.  The digests are evaluated in the kernel.  The properties of the whole program use it as their example.
\<close>

section \<open>The lines\<close>

definition AUTH_LINE :: string where \<open>AUTH_LINE = ''{"id":2,"result":true,"error":null}''\<close>
definition VERDICT_LINE :: string where \<open>VERDICT_LINE = ''{"id":4,"result":true,"error":null}''\<close>

definition EASY_LINE :: string where
  \<open>EASY_LINE = ''{"id":null,"method":"mining.set_difficulty","params":[2e-9]}''\<close>

definition EASY_NOTIFY :: string where "EASY_NOTIFY = notify_of JOB_ID ''1a00000000000000'' ''true''"

definition easy_job :: stratum_job where "easy_job = captured_job\<lparr>ntime := [26, 0, 0, 0, 0, 0, 0, 0]\<rparr>"

lemma easy_lines:
  "EASY_NOTIFY = print [] (notify_json easy_job)"
  "EASY_LINE = print [] (JObj [(''id'', JRaw ''null''), (''method'', JStr ''mining.set_difficulty''), (''params'', JArr [JRaw ''2e-9''])])"
  "AUTH_LINE = print [] (JObj [(''id'', JRaw (dec 2)), (''result'', JRaw ''true''), (''error'', JRaw ''null'')])"
  "VERDICT_LINE = print [] (JObj [(''id'', JRaw (dec 4)), (''result'', JRaw ''true''), (''error'', JRaw ''null'')])"
  by code_simp+

lemma feed_easy_notify: "on_line pf now EASY_NOTIFY s =
    s\<lparr>job := easy_job\<lparr>seq := seq (job s) + 1\<rparr>, have_job := True, jobs_received := jobs_received s + 1\<rparr>"
proof -
  have p: "plain_str (job_id easy_job)" using captured_ok(2) by (simp add: easy_job_def captured_job_def)
  have w: "wf_job easy_job" using captured_ok(1) by (simp add: easy_job_def wf_job_def)
  show ?thesis using notify_json_ok [OF p] on_line_notify [OF captured_ok(3) _ _ _ w p, of _ "[]" pf now "[]" s]
    by (simp add: easy_lines(1) notify_json_def)
qed

lemma easy_number: "ends t \<Longrightarrow> js_num (print [] (JRaw ''2e-9'') @ t) = to_double (2 / 10 ^ 9)"
proof -
  assume "ends t"
  then have n: "takeWhile is_digit t = []" using delim_chars(1) by (cases t) (auto simp: ends_def)
  have d: "is_digit (CHR ''2'')" "\<not> is_digit (CHR ''e'')" "is_digit (CHR ''9'')" "hexval (CHR ''2'') = 2" "hexval (CHR ''9'') = 9" by code_simp+
  have sp: "\<not> js_space (CHR ''2'')" "\<not> c_isspace (CHR ''2'')" by code_simp+
  have "scan_number 10 is_digit (CHR ''e'') (CHR ''E'') 10 10 (''2e-9'' @ t) = Some (2 / 10 ^ 9)"
    by (simp add: scan_number_def fraction_def exponent_def sign_of_def digits_val_def d n pow_rat_def)
  then show ?thesis
    by (simp add: js_num_def strtod_def js_ws_def sp sign_of_def ci_prefix_def print.simps)
qed

text \<open>A difficulty, as the line has it.\<close>

lemma feed_number:
  assumes "l = print [] (JObj [(''id'', JRaw ''null''), (''method'', JStr ''mining.set_difficulty''), (''params'', JArr [JRaw v])])" "raw_ok v"
    and "\<And>t. ends t \<Longrightarrow> js_num (print [] (JRaw v) @ t) = x"
  shows "on_line pf now l s = s\<lparr>difficulty := x\<rparr>"
proof -
  let ?ps = "[JRaw v]"
  have "plain_str ''mining.set_difficulty''" by (simp add: plain_str_def)
  then obtain t where o: "on_line pf now l s = on_set_difficulty (print [] (JArr ?ps) @ t) s"
    using assms(2) on_line_method [OF captured_ok(3), of "[(''id'', JRaw ''null''), (''method'', JStr ''mining.set_difficulty''), (''params'', JArr ?ps)]" "''mining.set_difficulty''" ?ps pf now "[]" s]
    by (auto simp: assms(1) raw_ok_def js_delim_def js_space_def)
  have "js_elem (print [] (JArr ?ps) @ t) 0 = Some (print [] (JRaw v) @ tail_of [] (CHR '']'') [] t)"
    using js_elem_print [OF captured_ok(3), of ?ps t 0] assms(2) by simp
  then show ?thesis using o assms(3) [OF closing] by (simp add: on_set_difficulty_def del: print.simps)
qed

lemma feed_easy: "on_line pf now EASY_LINE s = s\<lparr>difficulty := to_double (2 / 10 ^ 9)\<rparr>"
proof (rule feed_number [OF easy_lines(2)])
  show "raw_ok ''2e-9''" by code_simp
qed (rule easy_number)

text \<open>A positive answer to request \<open>n\<close>.\<close>

lemma feed_true:
  assumes "l = print [] (JObj [(''id'', JRaw (dec n)), (''result'', JRaw ''true''), (''error'', JRaw ''null'')])" "n < 2 ^ 53" "sub_id s \<noteq> of_nat n"
  shows "on_line pf now l s =
    (if of_nat n = auth_id s then s\<lparr>authorized := True\<rparr> else if of_nat n = suggest_diff_id s then s else s\<lparr>shares_accepted := shares_accepted s + 1\<rparr>)"
proof -
  let ?kvs = "[(''id'', JRaw (dec n)), (''result'', JRaw ''true''), (''error'', JRaw ''null'')]"
  have ok: "json_ok (JObj ?kvs)" by (simp add: raw_dec) (simp add: raw_ok_def js_delim_def js_space_def)
  have l: "l = print [] (JObj ?kvs) @ []" using assms(1) by simp
  obtain t where t: "js_get l ''id'' = Some t" "to_u64 pf (js_num t) = of_nat n" "on_line pf now l s = on_response pf l s"
    unfolding l by (rule on_line_id [OF captured_ok(3) ok _ _ assms(2), of "[]" pf now s]) (auto simp del: print.simps)
  obtain u where u: "js_get l ''result'' = Some (print [] (JRaw ''true'') @ u)"
    unfolding l by (rule js_get_Some [OF captured_ok(3) ok, of "''result''" "JRaw ''true''" "[]"]) (auto simp del: print.simps)
  have "js_true (print [] (JRaw ''true'') @ u)" using js_true_print [of "[]" True u] by simp
  then show ?thesis using t u assms(3) by (auto simp: on_response_def on_verdict_def)
qed

lemma dispatch_line:
  assumes "CHR 0x0A \<notin> set l" "CHR 0x00 \<notin> set l" "l \<noteq> []" "0 \<le> fd (on_line pf now l s)"
  shows "dispatch pf now (l @ CHR 0x0A # r) s = dispatch pf now r (on_line pf now l s)"
proof -
  have "cstr l = l" using assms(2) by (induction l) (auto simp: cstr_def)
  moreover have "takeWhile (\<lambda>c. c \<noteq> CHR 0x0A) (l @ CHR 0x0A # r) = l" "dropWhile (\<lambda>c. c \<noteq> CHR 0x0A) (l @ CHR 0x0A # r) = CHR 0x0A # r"
    using assms(1) by (induction l) auto
  ultimately show ?thesis using assms(3,4) by (subst dispatch.simps) simp
qed


section \<open>The session\<close>

definition live_env :: dial_env where
  "live_env = dead_env\<lparr>connects := \<lambda>_ _. Connected\<rparr>"

definition open_sends :: "send_res list" where "open_sends = [Sent 1024, Sent 1024, Sent 1024]"

lemma send_whole_line: "0 \<le> fd s \<Longrightarrow> send_line (snprintf_s 512 l) (Sent 1024 # rs) s = (True, rs, s\<lparr>sent := sent s @ snprintf_s 512 l\<rparr>) \<or> snprintf_s 512 l = []"
  by (cases "snprintf_s 512 l") (use length_snprintf [of 512 l] in \<open>auto simp: send_line_def Let_def\<close>)

lemma dialled:
  assumes "fd s = -1" "retry_at s = 0" "next_id s = 0" "\<not> reconnect_pending s" "addr s = []"
  shows "\<exists>w. stratum_poll pf live_env now open_sends rs s =
    s\<lparr>addr := ''10.0.0.1'', fd := 3, rx := [], backoff_s := 0, reconnects := reconnects s + 1, next_id := 3, sub_id := 1, auth_id := 2, suggest_diff_id := 3, sent := w\<rparr>"
proof -
  have n: "snprintf_s 512 (subscribe_line i) \<noteq> []" "snprintf_s 512 (authorize_line i a b) \<noteq> []" "snprintf_s 512 (suggest_line i) \<noteq> []" for i a b
    by (simp_all add: snprintf_s_def subscribe_line_def authorize_line_def suggest_line_def)
  note sl = send_whole_line [of _ "subscribe_line _"] send_whole_line [of _ "authorize_line _ _ _"] send_whole_line [of _ "suggest_line _"]
  have s: "0 \<le> fd x \<Longrightarrow> send_line (snprintf_s 512 (subscribe_line i)) (Sent 1024 # r) x = (True, r, x\<lparr>sent := sent x @ snprintf_s 512 (subscribe_line i)\<rparr>)"
    "0 \<le> fd x \<Longrightarrow> send_line (snprintf_s 512 (authorize_line i a b)) (Sent 1024 # r) x = (True, r, x\<lparr>sent := sent x @ snprintf_s 512 (authorize_line i a b)\<rparr>)"
    "0 \<le> fd x \<Longrightarrow> send_line (snprintf_s 512 (suggest_line i)) (Sent 1024 # r) x = (True, r, x\<lparr>sent := sent x @ snprintf_s 512 (suggest_line i)\<rparr>)"
    for x i a b r using sl n by blast+
  show ?thesis using assms
    by (cases s) (simp add: stratum_poll_def dial_def dial_addr_def live_env_def dead_env_def open_sends_def handshake_def s Let_def)
qed

definition first_lines :: string where
  "first_lines = SUBSCRIBE_LINE @ CHR 0x0A # AUTH_LINE @ CHR 0x0A # EASY_LINE @ CHR 0x0A # EASY_NOTIFY @ [CHR 0x0A]"

lemma line_shapes:
  "l \<in> {SUBSCRIBE_LINE, AUTH_LINE, EASY_LINE, EASY_NOTIFY, VERDICT_LINE} \<Longrightarrow> CHR 0x0A \<notin> set l \<and> CHR 0x00 \<notin> set l \<and> l \<noteq> [] \<and> length l < 1000"
proof -
  have "list_all (\<lambda>l. CHR 0x0A \<notin> set l \<and> CHR 0x00 \<notin> set l \<and> l \<noteq> [] \<and> length l < 1000) [SUBSCRIBE_LINE, AUTH_LINE, EASY_LINE, EASY_NOTIFY, VERDICT_LINE]"
    by code_simp
  then show "l \<in> {SUBSCRIBE_LINE, AUTH_LINE, EASY_LINE, EASY_NOTIFY, VERDICT_LINE} \<Longrightarrow> ?thesis" by (auto simp: list_all_iff)
qed

lemma received_all: "rx s = [] \<Longrightarrow> 0 \<le> fd s \<Longrightarrow> d \<noteq> [] \<Longrightarrow> length d < 10000 \<Longrightarrow> stratum_poll pf e now ss [Data d] s = dispatch pf now d (s\<lparr>rx := d\<rparr>)"
  by (simp add: stratum_poll_def recv_loop.simps RX_SIZE_def Let_def)

lemma opened:
  assumes "fd s = 3" "rx s = []" "sub_id s = 1" "auth_id s = 2" "length (extranonce1 s) = 32"
  shows "stratum_poll pf e now ss [Data first_lines] s =
    s\<lparr>extranonce1 := [0x2f, 0xed, 0x47, 0x95] @ drop 4 (extranonce1 s), en1_len := 4, en2_size := 8, subscribed := True, authorized := True,
      difficulty := to_double (2 / 10 ^ 9), job := easy_job\<lparr>seq := seq (job s) + 1\<rparr>, have_job := True, jobs_received := jobs_received s + 1\<rparr>"
proof -
  have sh: "length first_lines < 10000" "first_lines \<noteq> []"
    using line_shapes [of SUBSCRIBE_LINE] line_shapes [of AUTH_LINE] line_shapes [of EASY_LINE] line_shapes [of EASY_NOTIFY] by (auto simp: first_lines_def)
  have d: "CHR 0x0A \<notin> set l \<and> CHR 0x00 \<notin> set l \<and> l \<noteq> [] \<and> length l < 1000 \<Longrightarrow> 0 \<le> fd (on_line pf now l x) \<Longrightarrow>
      dispatch pf now (l @ CHR 0x0A # r) x = dispatch pf now r (on_line pf now l x)" for l r x
    using dispatch_line by blast
  have ln: "CHR 0x0A \<notin> set SUBSCRIBE_LINE \<and> CHR 0x00 \<notin> set SUBSCRIBE_LINE \<and> SUBSCRIBE_LINE \<noteq> [] \<and> length SUBSCRIBE_LINE < 1000"
    "CHR 0x0A \<notin> set AUTH_LINE \<and> CHR 0x00 \<notin> set AUTH_LINE \<and> AUTH_LINE \<noteq> [] \<and> length AUTH_LINE < 1000"
    "CHR 0x0A \<notin> set EASY_LINE \<and> CHR 0x00 \<notin> set EASY_LINE \<and> EASY_LINE \<noteq> [] \<and> length EASY_LINE < 1000"
    "CHR 0x0A \<notin> set EASY_NOTIFY \<and> CHR 0x00 \<notin> set EASY_NOTIFY \<and> EASY_NOTIFY \<noteq> [] \<and> length EASY_NOTIFY < 1000"
    using line_shapes by simp_all
  have a: "on_line pf now AUTH_LINE x = x\<lparr>authorized := True\<rparr>" if "sub_id x = 1" "auth_id x = 2" for x
    using feed_true [OF easy_lines(3), of x pf now] that by simp
  have n: "dispatch pf now [] x = x\<lparr>rx := []\<rparr>" for x by (simp add: dispatch.simps)
  have r: "stratum_poll pf e now ss [Data first_lines] s = dispatch pf now first_lines (s\<lparr>rx := first_lines\<rparr>)"
    by (rule received_all) (use assms sh in simp_all)
  show ?thesis
    unfolding r unfolding first_lines_def using assms
    by (cases s) (simp add: d [OF ln(1)] d [OF ln(2)] d [OF ln(3)] d [OF ln(4)] feed_subscribe a feed_easy feed_easy_notify n)
qed


section \<open>The share\<close>

definition easy_root :: bytes where
  "easy_root = [88, 175, 238, 204, 122, 31, 247, 86, 156, 139, 205, 182, 255, 128, 249, 138, 163, 144, 123, 216, 215, 162, 52, 236, 145, 173, 94, 74, 10, 131, 188, 255]"

definition easy_header :: bytes where
  "easy_header = [0, 0, 0, 0, 0, 0, 117, 162, 66, 82, 47, 212, 112, 136, 68, 223, 187, 141, 109, 92, 48, 45, 195, 86, 147, 94, 8, 81, 53, 3, 219, 221, 0, 0, 0, 0, 0,
     0, 0, 0, 26, 0, 0, 0, 0, 0, 0, 0] @ easy_root"

lemma easy_leaf: "blake2b_nokey
    [0, 0, 0, 0, 49, 189, 39, 216, 42, 91, 37, 228, 36, 70, 129, 78, 171, 121, 0, 149, 4, 96, 98, 2, 13, 115, 161, 103, 224, 105, 118, 107, 219, 191, 152,
     168, 0, 0, 0, 0, 47, 237, 71, 149, 0, 0, 0, 0, 0, 0, 0, 1] 32 =
    [88, 175, 238, 204, 122, 31, 247, 86, 156, 139, 205, 182, 255, 128, 249, 138, 163, 144, 123, 216, 215, 162, 52, 236, 145, 173, 94, 74, 10, 131, 188, 255]"
  by (rule blake2b_value [where t = 52 and k = 4]) (simp_all only: blake_rules, simp_all)

lemma easy_digest: "blake2b_nokey
    [0, 0, 0, 0, 0, 0, 117, 162, 66, 82, 47, 212, 112, 136, 68, 223, 187, 141, 109, 92, 48, 45, 195, 86, 147, 94, 8, 81, 53, 3, 219, 221, 0, 0, 0, 0, 0,
     0, 0, 0, 26, 0, 0, 0, 0, 0, 0, 0, 88, 175, 238, 204, 122, 31, 247, 86, 156, 139, 205, 182, 255, 128, 249, 138, 163, 144, 123, 216, 215, 162, 52, 236,
     145, 173, 94, 74, 10, 131, 188, 255] 32 =
    [11, 77, 98, 65, 158, 5, 208, 177, 255, 231, 241, 76, 7, 57, 182, 188, 117, 53, 143, 235, 154, 146, 179, 117, 44, 78, 22, 47, 7, 244, 81, 152]"
  by (rule blake2b_value [where t = 80 and k = 4]) (simp_all only: blake_rules, simp_all)

lemma easy_built: "sia_build_header (easy_job\<lparr>seq := n\<rparr>) [47, 237, 71, 149] [0, 0, 0, 0, 0, 0, 0, 1] = Some (easy_header, easy_root)"
proof -
  have "sia_arbtx_leaf (coinb1 captured_job @ [47, 237, 71, 149] @ [0, 0, 0, 0, 0, 0, 0, 1]) = easy_root"
    using easy_leaf by (simp add: sia_arbtx_leaf_def captured_job_def captured_bytes STRATUM_MAX_CB_def easy_root_def list_numeral)
  moreover have "sia_header (easy_job\<lparr>seq := n\<rparr>) easy_root = easy_header"
    unfolding easy_job_def captured_job_def captured_bytes by code_simp
  ultimately show ?thesis
    by (simp add: sia_build_header_def sia_arbtx_def easy_job_def captured_length STRATUM_MAX_CB_def sia_merkle_root_def)
qed

lemma easy_divisor: "dscaled pf (to_double (2 / 10 ^ 9)) = 9"
proof -
  have d: "to_double (2 / 10 ^ 9) = Fin (4835703278458517 / 2 ^ 81)" "to_double (4835703278458517 / 562949953421312) = Fin (4835703278458517 / 562949953421312)"
    "to_double (5117178255169173 / 562949953421312) = Fin (5117178255169173 / 562949953421312)"
    by (rule to_double_eval [of "-29" _ 4835703278458517] to_double_eval [of "3" _ 4835703278458517] to_double_eval [of "3" _ 5117178255169173]; simp add: pow_rat_def)+
  have "\<lfloor>5117178255169173 / 562949953421312 :: rat\<rfloor> = 9" by (simp add: floor_eq_iff)
  then show ?thesis by (simp add: dscaled_def diff_floor_def doubles(1) [simplified] d [simplified] to_u64_def trunc_rat_def)
qed

lemma easy_target: "target_of_divisor 9 =
    [28, 113, 170, 170, 170, 170, 170, 170, 170, 170, 170, 170, 170, 170, 170, 170, 170, 170, 170, 170, 170, 170, 170, 170, 170, 170, 170, 170, 0, 0, 0, 0]"
  by (rule target_bytes; simp add: be_val_def)

lemma easy_share: "hash_meets_target (sia_chain_pow_compare easy_header 0) (target_of_divisor 9)"
proof -
  have "put_nonce easy_header 0 = [0, 0, 0, 0, 0, 0, 117, 162, 66, 82, 47, 212, 112, 136, 68, 223, 187, 141, 109, 92, 48, 45, 195, 86, 147, 94, 8, 81, 53, 3, 219, 221, 0, 0, 0, 0, 0,
     0, 0, 0, 26, 0, 0, 0, 0, 0, 0, 0, 88, 175, 238, 204, 122, 31, 247, 86, 156, 139, 205, 182, 255, 128, 249, 138, 163, 144, 123, 216, 215, 162, 52, 236,
     145, 173, 94, 74, 10, 131, 188, 255]" by code_simp
  then show ?thesis unfolding sia_chain_pow_compare_def hash_meets_target_def easy_target by (simp only: easy_digest) code_simp
qed


section \<open>The pool\<close>

definition quiet_dev :: poll_env where
  "quiet_dev = \<lparr>main_dial = live_env, main_sends = [], main_recvs = [], dev_dial = dead_env, dev_sends = [], dev_recvs = []\<rparr>"

definition dial_poll :: poll_env where "dial_poll = quiet_dev\<lparr>main_sends := open_sends\<rparr>"
definition open_poll :: poll_env where "open_poll = quiet_dev\<lparr>main_recvs := [Data first_lines]\<rparr>"
definition verdict_poll :: poll_env where "verdict_poll = quiet_dev\<lparr>main_recvs := [Data (VERDICT_LINE @ [CHR 0x0A])]\<rparr>"

definition fresh_pool :: "pool \<Rightarrow> bool" where
  "fresh_pool st \<longleftrightarrow> (\<exists>h p w pw. g_main st = stratum_init h p w pw) \<and> \<not> g_dev_configured st \<and> g_chain st = CHAIN_SIA \<and> g_en2_counter st = 0 \<and>
     \<not> g_have_pushed st \<and> pool_fee st = devfee_reset"

definition opened_session :: "stratum \<Rightarrow> bool" where
  "opened_session s \<longleftrightarrow> fd s = 3 \<and> rx s = [] \<and> subscribed s \<and> authorized s \<and> have_job s \<and> en1_len s = 4 \<and> take 4 (extranonce1 s) = [47, 237, 71, 149] \<and> en2_size s = 8 \<and>
     difficulty s = to_double (2 / 10 ^ 9) \<and> job s = easy_job\<lparr>seq := 1\<rparr> \<and> sub_id s = 1 \<and> auth_id s = 2 \<and> suggest_diff_id s = 3 \<and> next_id s = 3 \<and>
     shares_accepted s = 0 \<and> shares_rejected s = 0"

lemma fresh_opens:
  assumes "fresh_pool st"
  obtains s where "opened_session s" "st_poll pf open_poll t' (st_poll pf dial_poll t st) = st\<lparr>g_main := s\<rparr>"
    "\<not> stratum_ready (g_main (st_poll pf dial_poll t st))"
proof -
  obtain h p w pw where m: "g_main st = stratum_init h p w pw" and d: "\<not> g_dev_configured st" using assms by (auto simp: fresh_pool_def)
  have "fd (g_main st) = -1" "retry_at (g_main st) = 0" "next_id (g_main st) = 0" "\<not> reconnect_pending (g_main st)" "addr (g_main st) = []"
    by (simp_all add: m stratum_init_def)
  from dialled [OF this, of pf t "[]"] obtain x where
    x: "stratum_poll pf live_env t open_sends [] (g_main st) = (g_main st)\<lparr>addr := ''10.0.0.1'', fd := 3, rx := [], backoff_s := 0, reconnects := reconnects (g_main st) + 1,
        next_id := 3, sub_id := 1, auth_id := 2, suggest_diff_id := 3, sent := x\<rparr>" by blast
  define s1 where "s1 = stratum_poll pf live_env t open_sends [] (g_main st)"
  have s1: "fd s1 = 3" "rx s1 = []" "sub_id s1 = 1" "auth_id s1 = 2" "length (extranonce1 s1) = 32" "suggest_diff_id s1 = 3" "next_id s1 = 3" "\<not> subscribed s1"
    "shares_accepted s1 = 0" "shares_rejected s1 = 0" "seq (job s1) = 0"
    unfolding s1_def x by (simp_all add: m stratum_init_def STRATUM_MAX_EN1_def zero_job_def)
  have p1: "st_poll pf dial_poll t st = st\<lparr>g_main := s1\<rparr>"
    using d by (simp add: st_poll_def dial_poll_def quiet_dev_def s1_def)
  have p2: "st_poll pf open_poll t' (st\<lparr>g_main := s1\<rparr>) = st\<lparr>g_main := stratum_poll pf live_env t' [] [Data first_lines] s1\<rparr>"
    using d by (simp add: st_poll_def open_poll_def quiet_dev_def)
  show thesis
    by (rule that [of "stratum_poll pf live_env t' [] [Data first_lines] s1"])
      (use s1 in \<open>simp_all add: p1 p2 opened [OF s1(1-5)] opened_session_def stratum_ready_def\<close>)
qed

definition easy_ctx :: "platform \<Rightarrow> work_ctx \<Rightarrow> work_ctx" where
  "easy_ctx pf ctx = ctx\<lparr>ss4 := easy_header, ss3 := replicate STAGE3_LEN 0, target_top64 := top64 (target_of_divisor 9), ctx_valid := True\<rparr>"

lemma en2_one: "en2_bytes 8 1 = [0, 0, 0, 0, 0, 0, 0, 1]"
  by code_simp

lemma first_work:
  assumes "fresh_pool st" "opened_session s"
  obtains st' where "st_get_work pf now ctx (st\<lparr>g_main := s\<rparr>) = (True, easy_ctx pf ctx, st')" "g_main st' = s" "g_chain st' = CHAIN_SIA" "\<not> g_dev_configured st'"
    "g_cur st' = \<lparr>cur_sess = Some Main_session, cur_job_id = JOB_ID, cur_en2 = [0, 0, 0, 0, 0, 0, 0, 1], cur_ntime = [26, 0, 0, 0, 0, 0, 0, 0],
       cur_target = target_of_divisor 9, cur_job_seq = 1, cur_is_dev = False, cur_valid = True\<rparr>"
proof -
  have "\<not> fst (devfee_pool_epoch devfee_reset)" by code_simp
  then obtain fee where e: "devfee_pool_epoch devfee_reset = (False, fee)" by (metis prod.collapse)
  have t: "stratum_target_full pf s = target_of_divisor 9" using assms(2) easy_divisor [of pf] by (simp add: opened_session_def stratum_target_full_def)
  have j: "snprintf_s 64 (job_id (easy_job\<lparr>seq := 1\<rparr>)) = JOB_ID" by code_simp
  have b: "\<exists>st'. build_from pf Main_session False ctx (st\<lparr>g_main := s, pool_fee := f\<rparr>) = (True, easy_ctx pf ctx, st') \<and> g_main st' = s \<and> g_chain st' = CHAIN_SIA \<and>
      \<not> g_dev_configured st' \<and> g_cur st' = \<lparr>cur_sess = Some Main_session, cur_job_id = JOB_ID, cur_en2 = [0, 0, 0, 0, 0, 0, 0, 1], cur_ntime = [26, 0, 0, 0, 0, 0, 0, 0],
       cur_target = target_of_divisor 9, cur_job_seq = 1, cur_is_dev = False, cur_valid = True\<rparr>" for f
    using assms easy_built [of 1] t j
    by (simp add: build_from_def fresh_pool_def opened_session_def Let_def STRATUM_MAX_EN2_def en2_one easy_ctx_def stratum_target_top64_def) (simp add: easy_job_def)
  have r: "stratum_ready s" "push_due now (st\<lparr>g_main := s\<rparr>)" using assms by (simp_all add: opened_session_def stratum_ready_def push_due_def fresh_pool_def)
  obtain st' where st': "build_from pf Main_session False ctx (st\<lparr>g_main := s, pool_fee := fee\<rparr>) = (True, easy_ctx pf ctx, st')" "g_main st' = s" "g_chain st' = CHAIN_SIA"
    "\<not> g_dev_configured st'" "g_cur st' = \<lparr>cur_sess = Some Main_session, cur_job_id = JOB_ID, cur_en2 = [0, 0, 0, 0, 0, 0, 0, 1], cur_ntime = [26, 0, 0, 0, 0, 0, 0, 0],
       cur_target = target_of_divisor 9, cur_job_seq = 1, cur_is_dev = False, cur_valid = True\<rparr>"
    using b by blast
  have "st_get_work pf now ctx (st\<lparr>g_main := s\<rparr>) = (True, easy_ctx pf ctx, pushed now st')"
    using st'(1) r assms(1) e by (simp add: st_get_work_def fresh_pool_def)
  then show thesis by (rule that) (use st' in \<open>simp_all add: pushed_def\<close>)
qed


lemma first_share:
  assumes "opened_session s" "length (worker s) < 160" "g_main st = s" "g_chain st = CHAIN_SIA" "\<not> g_dev_configured st"
    and "g_cur st = \<lparr>cur_sess = Some Main_session, cur_job_id = JOB_ID, cur_en2 = [0, 0, 0, 0, 0, 0, 0, 1], cur_ntime = [26, 0, 0, 0, 0, 0, 0, 0],
       cur_target = target_of_divisor 9, cur_job_seq = 1, cur_is_dev = False, cur_valid = True\<rparr>"
  shows "\<exists>w. st_on_candidate (easy_ctx pf ctx) 0 (chain_expected CHAIN_SIA (ss4 (easy_ctx pf ctx)) 0) [Sent 1024] st =
     (CAND_SOLUTION, st\<lparr>g_main := s\<lparr>next_id := 4, sent := w, shares_submitted := shares_submitted s + 1\<rparr>\<rparr>)"
proof -
  have fit: "\<exists>rs'. send_loop (snprintf_s 1024 x) [Sent 1024] = (snprintf_s 1024 x, True, rs')" for x by (intro send_capacity) (simp add: snprintf_s_def)
  have sub: "\<exists>w. stratum_submit JOB_ID a b c [Sent 1024] s = (True, s\<lparr>next_id := 4, sent := w, shares_submitted := shares_submitted s + 1\<rparr>)" for a b c
    using assms(1) fit [of "submit_line 4 (worker s) JOB_ID a b c"] by (auto simp: stratum_submit_def send_line_def opened_session_def Let_def)
  have q: "seq (job s) = 1" using assms(1) by (simp add: opened_session_def)
  have "hash_meets_target (chain_pow CHAIN_SIA easy_header 0) (target_of_divisor 9)" using easy_share by (simp add: chain_pow_def)
  then show ?thesis using sub [of "[0, 0, 0, 0, 0, 0, 0, 1]" "[26, 0, 0, 0, 0, 0, 0, 0]" "map (\<lambda>i. ucast (drop_bit (8 * i) (0 :: u64) AND 0xff)) [0..<8]"] assms(3-6) q
    by (auto simp: st_on_candidate_def easy_ctx_def Let_def)
qed

lemma first_verdict:
  assumes "opened_session s" "\<not> g_dev_configured st"
  shows "st_poll pf verdict_poll t (st\<lparr>g_main := s\<lparr>next_id := 4, sent := w, shares_submitted := n\<rparr>\<rparr>) =
     st\<lparr>g_main := s\<lparr>next_id := 4, sent := w, shares_submitted := n, shares_accepted := 1\<rparr>\<rparr>"
proof -
  let ?s = "s\<lparr>next_id := 4, sent := w, shares_submitted := n\<rparr>"
  have l: "CHR 0x0A \<notin> set VERDICT_LINE" "CHR 0x00 \<notin> set VERDICT_LINE" "VERDICT_LINE \<noteq> []" "length VERDICT_LINE < 1000" using line_shapes [of VERDICT_LINE] by simp_all
  have v: "on_line pf t VERDICT_LINE x = x\<lparr>shares_accepted := shares_accepted x + 1\<rparr>" if "sub_id x = 1" "auth_id x = 2" "suggest_diff_id x = 3" for x
    using feed_true [OF easy_lines(4), of x pf t] that by simp
  have f: "fd s = 3" "rx s = []" "sub_id s = 1" "auth_id s = 2" "suggest_diff_id s = 3" "shares_accepted s = 0" using assms(1) by (simp_all add: opened_session_def)
  have "stratum_poll pf live_env t [] [Data (VERDICT_LINE @ [CHR 0x0A])] ?s = dispatch pf t (VERDICT_LINE @ [CHR 0x0A]) (?s\<lparr>rx := VERDICT_LINE @ [CHR 0x0A]\<rparr>)"
    by (rule received_all) (use f l in simp_all)
  also have "\<dots> = dispatch pf t [] (on_line pf t VERDICT_LINE (?s\<lparr>rx := VERDICT_LINE @ [CHR 0x0A]\<rparr>))"
    by (rule dispatch_line [OF l(1-3)]) (use f in \<open>simp add: v\<close>)
  also have "\<dots> = s\<lparr>next_id := 4, sent := w, shares_submitted := n, shares_accepted := 1\<rparr>"
    using f by (cases s) (simp add: v dispatch.simps)
  finally show ?thesis using assms(2) by (simp add: st_poll_def verdict_poll_def quiet_dev_def)
qed

end
