(* ===== verification/Selftest_Sockets.thy ===== *)
theory Selftest_Sockets
  imports First_Share
begin

text \<open>
  The three tests of \<^verbatim>\<open>src/miner/selftest_stratum.c\<close> that open sockets, and the whole protocol selftest.  A listener of the tests is its port; its backlog is the list of the ports
  connected to and not yet accepted.  What the system calls do on both sides is an argument.
\<close>

unbundle bit_operations_syntax

section \<open>The mock pool\<close>

record listen_env =
  l_socket :: bool
  l_bind :: bool
  l_port :: "int option"
  l_listen :: bool

definition mock_pool_listen :: "listen_env \<Rightarrow> int option" where
  "mock_pool_listen e =
     (if \<not> l_socket e then None
      else if \<not> l_bind e then None
      else case l_port e of None \<Rightarrow> None | Some p \<Rightarrow> if \<not> l_listen e then None else Some p)"

definition mock_pool_accept :: "int \<Rightarrow> bool \<Rightarrow> int list \<Rightarrow> bool \<times> int list" where
  "mock_pool_accept p ok backlog = (if p \<notin> set backlog then (False, backlog) else (ok, remove1 p backlog))"

text \<open>\<open>got\<close> is \<open>None\<close> when nothing came in time, or the number of bytes \<^verbatim>\<open>recv\<close> had for it.\<close>

definition mock_pool_read :: "nat \<Rightarrow> nat option \<Rightarrow> string \<Rightarrow> string" where
  "mock_pool_read buflen got flow = (case got of None \<Rightarrow> [] | Some n \<Rightarrow> take (min n (buflen - 1)) flow)"

definition mock_pool_has_pending_connection :: "int \<Rightarrow> int list \<Rightarrow> bool" where
  "mock_pool_has_pending_connection p backlog \<longleftrightarrow> p \<in> set backlog"

text \<open>The port a poll has connected to, if it has: the session counts its connections.\<close>

definition reached :: "stratum \<Rightarrow> stratum \<Rightarrow> int list" where
  "reached s s' = (if reconnects s' = reconnects s then [] else [if reconnect_pending s then reconnect_port s else port s])"

type_synonym session_net = "dial_env \<times> send_res list \<times> recv_res list"

section \<open>The stale guard\<close>

definition LOOSE_LINE :: string where
  \<open>LOOSE_LINE = ''{"id":null,"method":"mining.set_difficulty","params":[0.0000000012]}''\<close>

text \<open>\<open>c_ctx\<close> is what the uninitialised local holds.\<close>

record clean_env =
  c_listen :: listen_env
  c_net :: poll_env
  c_accept :: bool
  c_clock :: u64
  c_ctx :: work_ctx
  c_sends :: "u64 \<Rightarrow> send_res list"

definition test_feed :: "platform \<Rightarrow> string \<Rightarrow> u64 \<Rightarrow> pool \<Rightarrow> pool" where
  "test_feed pf l now st = st\<lparr>g_main := on_line pf now l (g_main st)\<rparr>"

fun find_share :: "(u64 \<Rightarrow> send_res list) \<Rightarrow> work_ctx \<Rightarrow> nat \<Rightarrow> u64 \<Rightarrow> pool \<Rightarrow> bool" where
  "find_share sends ctx 0 n st = False"
| "find_share sends ctx (Suc k) n st =
     (let (v, st) = st_on_candidate ctx n (sia_expected_top64 (ss4 ctx) n) (sends n) st
      in if v = CAND_SOLUTION then True else find_share sends ctx k (n + 1) st)"

definition test_clean_jobs :: "platform \<Rightarrow> clean_env \<Rightarrow> pool \<Rightarrow> string list" where
  "test_clean_jobs pf e st =
     (case mock_pool_listen (c_listen e) of
        None \<Rightarrow> [''clean_jobs setup'']
      | Some p \<Rightarrow>
          let st0 = worksrc_stratum_configure pf CHAIN_KNOTS (Some ''127.0.0.1'') p (Some ''worker'') (Some ''x'') None None None st;
              st1 = st_poll pf (c_net e) 1000 st0
          in if \<not> fst (mock_pool_accept p (c_accept e) (reached (g_main st0) (g_main st1))) then [''clean_jobs setup'']
      else
          let st = test_feed pf LOOSE_LINE 1001 st1;
              st = test_feed pf SUBSCRIBE_LINE 1001 st;
              st = test_feed pf AUTH_LINE 1001 st;
              st = test_feed pf NOTIFY_LINE 1001 st;
              (ok, ctx, st) = st_get_work pf (c_clock e) (c_ctx e) st
          in if \<not> ok then [''clean_jobs setup'']
      else
          let st = test_feed pf (notify_of ''jobB'' NTIME ''false'') 1002 st
          in if find_share (c_sends e) ctx 8192 0 st then [] else [''clean_jobs''])"

section \<open>The suggested difficulty\<close>

record suggest_env =
  g_listen :: listen_env
  g_net :: session_net
  g_accept :: bool
  g_got :: "nat option"

definition poll_net :: "platform \<Rightarrow> session_net \<Rightarrow> u64 \<Rightarrow> stratum \<Rightarrow> stratum" where
  "poll_net pf n now s = (case n of (d, ss, rs) \<Rightarrow> stratum_poll pf d now ss rs s)"

definition ack_line :: "u64 \<Rightarrow> string" where
  \<open>ack_line i = snprintf_s 128 (''{"id":'' @ dec (unat i) @ '',"result":true,"error":null}'')\<close>

definition SUBSCRIBE_PAT :: string where \<open>SUBSCRIBE_PAT = ''"method":"mining.subscribe"''\<close>
definition AUTHORIZE_PAT :: string where \<open>AUTHORIZE_PAT = ''"method":"mining.authorize"''\<close>
definition SUGGEST_PAT :: string where \<open>SUGGEST_PAT = ''"method":"mining.suggest_difficulty"''\<close>
definition PARAMS_PAT :: string where \<open>PARAMS_PAT = ''"params":[32]''\<close>

text \<open>What \<^verbatim>\<open>strstr\<close> returns is the rest of the text: an earlier place is a longer rest.\<close>

definition test_suggest_difficulty :: "platform \<Rightarrow> suggest_env \<Rightarrow> string list" where
  "test_suggest_difficulty pf e =
     (case mock_pool_listen (g_listen e) of
        None \<Rightarrow> [''suggest_difficulty setup'']
      | Some p \<Rightarrow>
          let s0 = stratum_init (Some ''127.0.0.1'') p (Some ''worker'') (Some ''x'');
              s = poll_net pf (g_net e) 1000 s0
          in if \<not> fst (mock_pool_accept p (g_accept e) (reached s0 s)) then [''suggest_difficulty'']
      else
          let buf = mock_pool_read 2048 (g_got e) (sent s);
              sub = strstr SUBSCRIBE_PAT buf;
              auth = strstr AUTHORIZE_PAT buf;
              sug = strstr SUGGEST_PAT buf;
              s' = on_line pf 1001 (ack_line (suggest_diff_id s)) s
          in first_fail
               [(sub = None \<or> auth = None, ''suggest_difficulty''),
                (sug = None, ''suggest_difficulty''),
                (length (the sug) > length (the auth), ''suggest_difficulty''),
                (strstr PARAMS_PAT (the sug) = None, ''suggest_difficulty''),
                (shares_accepted s' \<noteq> 0 \<or> shares_rejected s' \<noteq> 0, ''suggest_difficulty ack'')])"

section \<open>The redirect\<close>

record reconnect_env =
  r_listen_a :: listen_env
  r_listen_b :: listen_env
  r_net :: session_net
  r_accept :: bool
  r_polls :: "nat \<Rightarrow> session_net"
  r_back :: "nat \<Rightarrow> session_net"

text \<open>The line the test sends; what comes of it is part of what the polls read.\<close>

definition reconnect_line :: "int \<Rightarrow> string" where
  \<open>reconnect_line p = snprintf_s 256 (''{"id":null,"method":"client.reconnect","params":["127.0.0.1",'' @ dec_int p @ '',0]}'' @ [CHR 0x0A])\<close>

fun poll_until :: "platform \<Rightarrow> (nat \<Rightarrow> session_net) \<Rightarrow> u64 \<Rightarrow> int \<Rightarrow> nat \<Rightarrow> nat \<Rightarrow> int list \<Rightarrow> stratum \<Rightarrow> bool \<times> int list \<times> stratum" where
  "poll_until pf nets from p i 0 backlog s = (False, backlog, s)"
| "poll_until pf nets from p i (Suc k) backlog s =
     (let s' = poll_net pf (nets i) (from + of_nat i) s; backlog = backlog @ reached s s'
      in if mock_pool_has_pending_connection p backlog then (True, backlog, s')
         else poll_until pf nets from p (i + 1) k backlog s')"

definition test_reconnect :: "platform \<Rightarrow> reconnect_env \<Rightarrow> string list" where
  "test_reconnect pf e =
     (case (mock_pool_listen (r_listen_a e), mock_pool_listen (r_listen_b e)) of
        (Some a, Some b) \<Rightarrow>
          let s0 = stratum_init (Some ''127.0.0.1'') a (Some ''worker'') (Some ''x'');
              s = poll_net pf (r_net e) 1000 s0;
              (ok, backlog) = mock_pool_accept a (r_accept e) (reached s0 s)
          in if \<not> ok then [''reconnect'']
      else
          let (redirected, backlog, s) = poll_until pf (r_polls e) 1000 b 0 30 backlog s
          in if \<not> redirected then [''client.reconnect'']
      else
          let (_, backlog) = mock_pool_accept b True backlog;
              s = (stratum_close s)\<lparr>retry_at := 0\<rparr>;
              (back_on_primary, _, _) = poll_until pf (r_back e) 2000 a 0 30 backlog s
          in if \<not> back_on_primary then [''client.reconnect''] else []
      | _ \<Rightarrow> [''reconnect setup''])"

section \<open>The whole selftest\<close>

record socket_env =
  clean_test :: clean_env
  suggest_test :: suggest_env
  reconnect_test :: reconnect_env

text \<open>\<open>st\<close> is the pool source when the selftest starts; \<^verbatim>\<open>test_devfee_pool\<close> has reset the fee's counters before the first test that uses it.\<close>

definition selftest_stratum :: "platform \<Rightarrow> socket_env \<Rightarrow> pool \<Rightarrow> int" where
  "selftest_stratum pf e st =
     (let g_fail = length (test_protocol pf) + length (test_stages pf) + length test_prefilter + length (test_sia_chain pf) + length test_pack +
        length test_devfee_pool + length (test_target pf) + length (test_clean_jobs pf (clean_test e) (st\<lparr>pool_fee := devfee_reset\<rparr>)) +
        length (test_suggest_difficulty pf (suggest_test e)) + length (test_reconnect pf (reconnect_test e))
      in if g_fail \<noteq> 0 then -1 else 0)"

section \<open>Connecting\<close>

text \<open>A network in which the loopback address can be connected to, and a socket that takes three lines.\<close>

definition loopback_net :: "dial_env \<Rightarrow> bool" where
  "loopback_net d \<longleftrightarrow> dns_resolve d ''127.0.0.1'' = Inr ''127.0.0.1'' \<and> \<not> isl (sock d) \<and> pton_ok d ''127.0.0.1'' \<and> (\<forall>p. connect_errno (connects d ''127.0.0.1'' p) = None)"

definition takes_line :: "send_res list \<Rightarrow> bool" where
  "takes_line ss \<longleftrightarrow> ss \<noteq> [] \<and> (case hd ss of Sent k \<Rightarrow> 1024 \<le> k | _ \<Rightarrow> False)"

definition takes_three :: "send_res list \<Rightarrow> bool" where
  "takes_three ss \<longleftrightarrow> takes_line ss \<and> takes_line (drop 1 ss) \<and> takes_line (drop 2 ss)"

lemma takes_line_Cons: "takes_line ss \<longleftrightarrow> (\<exists>k r. ss = Sent k # r \<and> 1024 \<le> k)"
  by (cases ss) (auto simp: takes_line_def split: send_res.splits)

lemma takes_three_Cons: "takes_three ss \<Longrightarrow> \<exists>k l m r. ss = Sent k # Sent l # Sent m # r \<and> 1024 \<le> k \<and> 1024 \<le> l \<and> 1024 \<le> m"
  unfolding takes_three_def takes_line_Cons by auto

lemma send_line_whole: "0 \<le> fd s \<Longrightarrow> 1024 \<le> k \<Longrightarrow> l \<noteq> [] \<Longrightarrow> length l \<le> 1024 \<Longrightarrow> send_line l (Sent k # r) s = (True, r, s\<lparr>sent := sent s @ l\<rparr>)"
  by (cases l) (simp_all add: send_line_def Let_def)

definition handshake_lines :: "u64 \<Rightarrow> string \<Rightarrow> string \<Rightarrow> string" where
  "handshake_lines i w pw = snprintf_s 512 (subscribe_line (i + 1)) @ snprintf_s 512 (authorize_line (i + 2) w pw) @ snprintf_s 512 (suggest_line (i + 3))"

lemma handshake_whole:
  assumes "takes_three ss" "0 \<le> fd s"
  shows "snd (handshake ss s) = s\<lparr>next_id := next_id s + 3, sub_id := next_id s + 1, auth_id := next_id s + 2, suggest_diff_id := next_id s + 3,
     sent := sent s @ handshake_lines (next_id s) (worker s) (password s)\<rparr>"
proof -
  obtain k l m r where ss: "ss = Sent k # Sent l # Sent m # r" "1024 \<le> k" "1024 \<le> l" "1024 \<le> m" using takes_three_Cons [OF assms(1)] by blast
  have n: "snprintf_s 512 (subscribe_line i) \<noteq> []" "snprintf_s 512 (authorize_line i a b) \<noteq> []" "snprintf_s 512 (suggest_line i) \<noteq> []" for i a b
    by (simp_all add: snprintf_s_def subscribe_line_def authorize_line_def suggest_line_def)
  have f: "length (snprintf_s 512 x) \<le> 1024" for x using length_snprintf [of 512 x] by simp
  show ?thesis using assms(2) n ss
    by (cases s) (simp add: handshake_def send_line_whole f handshake_lines_def Let_def add.commute)
qed

lemma dial_loopback:
  assumes "loopback_net d" "takes_three ss" "retry_at s \<le> now" "addr s = [] \<or> addr s = ''127.0.0.1''"
    and "(if reconnect_pending s then cstr (reconnect_host s) else host s) = ''127.0.0.1''"
  shows "\<exists>f a. 0 \<le> f \<and> (a = [] \<or> a = ''127.0.0.1'') \<and> snd (dial d now ss s) =
     s\<lparr>reconnect_pending := False, addr := a, fd := f, rx := [], backoff_s := 0, reconnects := reconnects s + 1, next_id := next_id s + 3, sub_id := next_id s + 1,
       auth_id := next_id s + 2, suggest_diff_id := next_id s + 3, sent := sent s @ handshake_lines (next_id s) (worker s) (password s)\<rparr>"
proof -
  obtain nfd where n: "sock d = Inr nfd" using assms(1) by (cases "sock d") (auto simp: loopback_net_def)
  have da: "snd (dial_addr d now ss own h p ''127.0.0.1'' x) =
      x\<lparr>fd := int nfd, rx := [], backoff_s := 0, reconnects := reconnects x + 1, next_id := next_id x + 3, sub_id := next_id x + 1, auth_id := next_id x + 2,
        suggest_diff_id := next_id x + 3, sent := sent x @ handshake_lines (next_id x) (worker x) (password x)\<rparr>" for own h p x
    using assms(1) n by (simp add: dial_addr_def loopback_net_def handshake_whole [OF assms(2)])
  have dns: "dns_resolve d ''127.0.0.1'' = Inr ''127.0.0.1''" using assms(1) by (simp add: loopback_net_def)
  have "snd (dial d now ss s) =
     s\<lparr>reconnect_pending := False, addr := (if reconnect_pending s then addr s else ''127.0.0.1''), fd := int nfd, rx := [], backoff_s := 0, reconnects := reconnects s + 1,
       next_id := next_id s + 3, sub_id := next_id s + 1, auth_id := next_id s + 2, suggest_diff_id := next_id s + 3,
       sent := sent s @ handshake_lines (next_id s) (worker s) (password s)\<rparr>"
  proof (cases "reconnect_pending s")
    case True
    then have "dial d now ss s = dial_addr d now ss False ''127.0.0.1'' (reconnect_port s) ''127.0.0.1'' (s\<lparr>reconnect_pending := False\<rparr>)"
      using assms(3,5) dns by (simp add: dial_def Let_def leD)
    then show ?thesis using True by (simp add: da)
  next
    case False
    then have "dial d now ss s = dial_addr d now ss True ''127.0.0.1'' (port s) ''127.0.0.1'' (s\<lparr>reconnect_pending := False, addr := ''127.0.0.1''\<rparr>)"
      using assms(3-5) dns by (cases s) (auto simp: dial_def Let_def)
    then show ?thesis using False by (simp add: da)
  qed
  then show ?thesis using assms(4) by (intro exI [of _ "int nfd"] exI [of _ "if reconnect_pending s then addr s else ''127.0.0.1''"]) auto
qed

definition loopback_session :: "session_net \<Rightarrow> bool" where
  "loopback_session n \<longleftrightarrow> (case n of (d, ss, rs) \<Rightarrow> loopback_net d \<and> takes_three ss)"

text \<open>A session that has just dialled the test's listener.\<close>

definition test_init :: "int \<Rightarrow> stratum" where
  "test_init p = stratum_init (Some ''127.0.0.1'') p (Some ''worker'') (Some ''x'')"

lemma test_init_fields [simp]:
  "host (test_init p) = ''127.0.0.1''" "worker (test_init p) = ''worker''" "password (test_init p) = ''x''" "fd (test_init p) = -1" "\<not> reconnect_pending (test_init p)"
  "retry_at (test_init p) = 0" "addr (test_init p) = []" "reconnects (test_init p) = 0" "next_id (test_init p) = 0" "sent (test_init p) = []" "port (test_init p) = p"
  "rx (test_init p) = []" "backoff_s (test_init p) = 0" "length (extranonce1 (test_init p)) = 32" "shares_accepted (test_init p) = 0" "shares_rejected (test_init p) = 0"
  "seq (job (test_init p)) = 0" "length (reconnect_host (test_init p)) = 128"
  by (simp_all add: test_init_def stratum_init_def snprintf_s_def STRATUM_MAX_EN1_def zero_job_def)

lemma test_dials:
  assumes "loopback_net d" "takes_three ss"
  obtains f a where "0 \<le> f" "a = [] \<or> a = ''127.0.0.1''" "stratum_poll pf d now ss rs (test_init p) =
     (test_init p)\<lparr>addr := a, fd := f, reconnects := 1, next_id := 3, sub_id := 1, auth_id := 2, suggest_diff_id := 3, sent := handshake_lines 0 ''worker'' ''x''\<rparr>"
    "reached (test_init p) (stratum_poll pf d now ss rs (test_init p)) = [p]"
proof -
  obtain f a where f: "0 \<le> f" "a = [] \<or> a = ''127.0.0.1''" "snd (dial d now ss (test_init p)) =
     (test_init p)\<lparr>reconnect_pending := False, addr := a, fd := f, rx := [], backoff_s := 0, reconnects := 1, next_id := 3, sub_id := 1,
       auth_id := 2, suggest_diff_id := 3, sent := handshake_lines 0 ''worker'' ''x''\<rparr>"
    using dial_loopback [OF assms, of "test_init p" now] by auto
  have "stratum_poll pf d now ss rs (test_init p) =
     (test_init p)\<lparr>addr := a, fd := f, reconnects := 1, next_id := 3, sub_id := 1, auth_id := 2, suggest_diff_id := 3, sent := handshake_lines 0 ''worker'' ''x''\<rparr>"
    unfolding stratum_poll_def using f(3) by (simp add: test_init_def stratum_init_def)
  then show thesis using f(1,2) by (intro that) (simp_all add: reached_def)
qed

section \<open>The suggested difficulty is sent\<close>

definition suggest_works :: "suggest_env \<Rightarrow> bool" where
  "suggest_works e \<longleftrightarrow> mock_pool_listen (g_listen e) \<noteq> None \<and> loopback_session (g_net e) \<and> g_accept e \<and> (\<exists>n \<ge> 2047. g_got e = Some n)"

lemma suggest_text:
  "length (handshake_lines 0 ''worker'' ''x'') \<le> 2047"
  "\<exists>sub auth sug t. strstr SUBSCRIBE_PAT (handshake_lines 0 ''worker'' ''x'') = Some sub \<and> strstr AUTHORIZE_PAT (handshake_lines 0 ''worker'' ''x'') = Some auth \<and>
     strstr SUGGEST_PAT (handshake_lines 0 ''worker'' ''x'') = Some sug \<and> length sug \<le> length auth \<and> strstr PARAMS_PAT sug = Some t"
proof -
  show "length (handshake_lines 0 ''worker'' ''x'') \<le> 2047" by code_simp
  have "(case strstr SUGGEST_PAT (handshake_lines 0 ''worker'' ''x'') of None \<Rightarrow> False | Some sug \<Rightarrow>
      (case strstr AUTHORIZE_PAT (handshake_lines 0 ''worker'' ''x'') of None \<Rightarrow> False | Some auth \<Rightarrow> strstr SUBSCRIBE_PAT (handshake_lines 0 ''worker'' ''x'') \<noteq> None \<and>
         length sug \<le> length auth \<and> strstr PARAMS_PAT sug \<noteq> None))" by code_simp
  then show "\<exists>sub auth sug t. strstr SUBSCRIBE_PAT (handshake_lines 0 ''worker'' ''x'') = Some sub \<and> strstr AUTHORIZE_PAT (handshake_lines 0 ''worker'' ''x'') = Some auth \<and>
     strstr SUGGEST_PAT (handshake_lines 0 ''worker'' ''x'') = Some sug \<and> length sug \<le> length auth \<and> strstr PARAMS_PAT sug = Some t"
    by (auto split: option.splits)
qed

lemma ack_three: "ack_line 3 = print [] (JObj [(''id'', JRaw (dec 3)), (''result'', JRaw ''true''), (''error'', JRaw ''null'')])"
  by code_simp

lemma suggest_passes:
  assumes "suggest_works e"
  shows "test_suggest_difficulty pf e = []"
proof -
  obtain p d ss rs n where e: "mock_pool_listen (g_listen e) = Some p" "g_net e = (d, ss, rs)" "loopback_net d" "takes_three ss" "g_accept e" "g_got e = Some n" "2047 \<le> n"
    using assms by (auto simp: suggest_works_def loopback_session_def split: prod.splits)
  define s where "s = stratum_poll pf d 1000 ss rs (test_init p)"
  obtain f a where s: "s = (test_init p)\<lparr>addr := a, fd := f, reconnects := 1, next_id := 3, sub_id := 1, auth_id := 2, suggest_diff_id := 3, sent := handshake_lines 0 ''worker'' ''x''\<rparr>"
    and r: "reached (test_init p) s = [p]"
    by (rule test_dials [OF e(3,4), of pf 1000 rs p, folded s_def])
  have b: "mock_pool_read 2048 (g_got e) (sent s) = handshake_lines 0 ''worker'' ''x''" using e(6,7) suggest_text(1) by (simp add: mock_pool_read_def s)
  have "on_line pf 1001 (ack_line (suggest_diff_id s)) s = s"
    using feed_true [OF ack_three, of s pf 1001] by (simp add: s)
  then have "shares_accepted (on_line pf 1001 (ack_line (suggest_diff_id s)) s) = 0 \<and> shares_rejected (on_line pf 1001 (ack_line (suggest_diff_id s)) s) = 0"
    by (simp add: s)
  then show ?thesis using suggest_text(2) e(5) r b
    by (auto simp: test_suggest_difficulty_def e(1,2) poll_net_def mock_pool_accept_def Let_def simp flip: test_init_def s_def)
qed

section \<open>The stale guard holds\<close>

lemma loose_number: "ends t \<Longrightarrow> js_num (print [] (JRaw ''0.0000000012'') @ t) = to_double (12 / 10 ^ 10)"
proof -
  assume "ends t"
  then have n: "takeWhile is_digit t = []" "\<not> starts (CHR ''e'') t" "\<not> starts (CHR ''E'') t" "dropWhile is_digit t = t" using delim_chars by (cases t; auto simp: ends_def)+
  have d: "is_digit (CHR ''0'')" "is_digit (CHR ''1'')" "is_digit (CHR ''2'')" "\<not> is_digit (CHR ''.'')" "hexval (CHR ''0'') = 0" "hexval (CHR ''1'') = 1" "hexval (CHR ''2'') = 2" by code_simp+
  have sp: "\<not> js_space (CHR ''0'')" "\<not> c_isspace (CHR ''0'')" by code_simp+
  have "scan_number 10 is_digit (CHR ''e'') (CHR ''E'') 10 10 (''0.0000000012'' @ t) = Some (12 / 10 ^ 10)"
    by (simp add: scan_number_def fraction_def exponent_def sign_of_def digits_val_def d n pow_rat_def)
  then show ?thesis
    by (simp add: js_num_def strtod_def js_ws_def sp sign_of_def ci_prefix_def print.simps)
qed

lemma feed_loose: "on_line pf now LOOSE_LINE s = s\<lparr>difficulty := to_double (12 / 10 ^ 10)\<rparr>"
proof (rule feed_number)
  show "LOOSE_LINE = print [] (JObj [(''id'', JRaw ''null''), (''method'', JStr ''mining.set_difficulty''), (''params'', JArr [JRaw ''0.0000000012''])])" "raw_ok ''0.0000000012''"
    by code_simp+
qed (rule loose_number)

lemma loose_divisor: "dscaled pf (to_double (12 / 10 ^ 10)) = 5"
proof -
  have d: "to_double (12 / 10 ^ 10) = Fin (1450710983537555 / 2 ^ 80)" "to_double (1450710983537555 / 281474976710656) = Fin (1450710983537555 / 281474976710656)"
    "to_double (1591448471892883 / 281474976710656) = Fin (1591448471892883 / 281474976710656)"
    by (rule to_double_eval [of "-30" _ 5802843934150220] to_double_eval [of "2" _ 5802843934150220] to_double_eval [of "2" _ 6365793887571532]; simp add: pow_rat_def)+
  have "\<lfloor>1591448471892883 / 281474976710656 :: rat\<rfloor> = 5" by (simp add: floor_eq_iff)
  then show ?thesis by (simp add: dscaled_def diff_floor_def doubles(1) [simplified] d [simplified] to_u64_def trunc_rat_def)
qed

lemma loose_target: "target_of_divisor 5 = [51, 51, 0, 0, 0, 0, 0, 0, 0, 0, 0, 0, 0, 0, 0, 0, 0, 0, 0, 0, 0, 0, 0, 0, 0, 0, 0, 0, 0, 0, 0, 0]"
  by (rule target_bytes; simp add: be_val_def)

definition loose_header :: bytes where
  "loose_header = [0, 0, 0, 0, 0, 0, 117, 162, 66, 82, 47, 212, 112, 136, 68, 223, 187, 141, 109, 92, 48, 45, 195, 86, 147, 94, 8, 81, 53, 3, 219, 221, 0, 0, 0, 0, 0,
     0, 0, 0, 0, 0, 0, 0, 0, 0, 0, 0] @ easy_root"

lemma loose_digest: "blake2b_nokey
    [0, 0, 0, 0, 0, 0, 117, 162, 66, 82, 47, 212, 112, 136, 68, 223, 187, 141, 109, 92, 48, 45, 195, 86, 147, 94, 8, 81, 53, 3, 219, 221, 1, 0, 0, 0, 0,
     0, 0, 0, 0, 0, 0, 0, 0, 0, 0, 0, 88, 175, 238, 204, 122, 31, 247, 86, 156, 139, 205, 182, 255, 128, 249, 138, 163, 144, 123, 216, 215, 162, 52, 236,
     145, 173, 94, 74, 10, 131, 188, 255] 32 =
    [163, 254, 235, 166, 224, 68, 121, 13, 224, 50, 19, 231, 202, 207, 165, 109, 218, 61, 109, 2, 81, 189, 46, 142, 240, 115, 39, 255, 251, 19, 124, 14]"
  by (rule blake2b_value [where t = 80 and k = 4]) (simp_all only: blake_rules, simp_all)

lemma loose_share: "hash_meets_target (sia_pow_compare loose_header 1) (target_of_divisor 5)"
proof -
  have "put_nonce loose_header 1 = [0, 0, 0, 0, 0, 0, 117, 162, 66, 82, 47, 212, 112, 136, 68, 223, 187, 141, 109, 92, 48, 45, 195, 86, 147, 94, 8, 81, 53, 3, 219, 221, 1, 0, 0, 0, 0,
     0, 0, 0, 0, 0, 0, 0, 0, 0, 0, 0, 88, 175, 238, 204, 122, 31, 247, 86, 156, 139, 205, 182, 255, 128, 249, 138, 163, 144, 123, 216, 215, 162, 52, 236,
     145, 173, 94, 74, 10, 131, 188, 255]" by code_simp
  then show ?thesis unfolding sia_pow_compare_def hash_meets_target_def loose_target Let_def by (simp only: loose_digest) code_simp
qed

lemma loose_built: "\<exists>m3. sia_build_stages (captured_job\<lparr>seq := n\<rparr>) [47, 237, 71, 149] [0, 0, 0, 0, 0, 0, 0, 1] = Some (m3, loose_header, easy_root)"
proof -
  have "sia_arbtx_leaf (coinb1 captured_job @ [47, 237, 71, 149] @ [0, 0, 0, 0, 0, 0, 0, 1]) = easy_root"
    using easy_leaf by (simp add: sia_arbtx_leaf_def captured_job_def captured_bytes STRATUM_MAX_CB_def easy_root_def list_numeral)
  moreover have "sia_header (captured_job\<lparr>seq := n\<rparr>) easy_root = loose_header"
    unfolding captured_job_def captured_bytes by code_simp
  ultimately show ?thesis
    by (simp add: sia_build_stages_def sia_arbtx_def captured_length STRATUM_MAX_CB_def STAGE3_LEN_def sia_merkle_root_def)
qed

text \<open>A search that can send finds the share when there is one.\<close>

definition share_ready :: "work_ctx \<Rightarrow> pool \<Rightarrow> bool" where
  "share_ready ctx st \<longleftrightarrow> g_chain st = CHAIN_KNOTS \<and> cur_sess (g_cur st) = Some Main_session \<and> cur_valid (g_cur st) \<and> \<not> clean (job (g_main st)) \<and> 0 \<le> fd (g_main st)"

lemma candidate_cases:
  assumes "share_ready ctx st" "takes_line ss"
  shows "if hash_meets_target (sia_pow_compare (ss4 ctx) n) (cur_target (g_cur st)) then fst (st_on_candidate ctx n (sia_expected_top64 (ss4 ctx) n) ss st) = CAND_SOLUTION
     else st_on_candidate ctx n (sia_expected_top64 (ss4 ctx) n) ss st = (CAND_OK, st)"
proof -
  obtain k r where ss: "ss = Sent k # r" "1024 \<le> k" using assms(2) by (auto simp: takes_line_Cons)
  have ne: "snprintf_s 1024 (submit_line i w j a b c) \<noteq> []" "length (snprintf_s 1024 (submit_line i w j a b c)) \<le> 1024" for i w j a b c
    by (simp_all add: snprintf_s_def submit_line_def)
  have "fst (stratum_submit j a b c ss (g_main st))" for j a b c
    using assms(1) ne ss by (simp add: stratum_submit_def send_line_whole share_ready_def Let_def)
  then show ?thesis using assms(1)
    by (auto simp: st_on_candidate_def share_ready_def chain_expected_def chain_pow_def Let_def split: prod.splits) (metis fst_conv)
qed

lemma find_share_finds:
  assumes "share_ready ctx st" "\<And>n. takes_line (sends n)" "hash_meets_target (sia_pow_compare (ss4 ctx) (of_nat m)) (cur_target (g_cur st))" "i \<le> m" "m < i + k"
  shows "find_share sends ctx k (of_nat i) st"
  using assms(4,5)
proof (induction k arbitrary: i)
  case (Suc k)
  note c = candidate_cases [OF assms(1,2), of "of_nat i" "of_nat i"]
  show ?case
  proof (cases "hash_meets_target (sia_pow_compare (ss4 ctx) (of_nat i)) (cur_target (g_cur st))")
    case True
    then show ?thesis using c by (cases "st_on_candidate ctx (of_nat i) (sia_expected_top64 (ss4 ctx) (of_nat i)) (sends (of_nat i)) st") simp
  next
    case False
    then have "i \<noteq> m" using assms(3) by auto
    then have "find_share sends ctx k (of_nat (Suc i)) st" using Suc.IH [of "Suc i"] Suc.prems by simp
    then show ?thesis using c False by (simp add: add.commute)
  qed
qed simp

text \<open>A pool that has not been used, as it is before the selftest.\<close>

definition unused_pool :: "pool \<Rightarrow> bool" where
  "unused_pool st \<longleftrightarrow> g_en2_counter st = 0 \<and> \<not> g_have_pushed st"

definition loose_session :: "stratum \<Rightarrow> bool" where
  "loose_session s \<longleftrightarrow> 0 \<le> fd s \<and> subscribed s \<and> authorized s \<and> have_job s \<and> en1_len s = 4 \<and> take 4 (extranonce1 s) = [47, 237, 71, 149] \<and> en2_size s = 8 \<and>
     difficulty s = to_double (12 / 10 ^ 10) \<and> job s = captured_job\<lparr>seq := 1\<rparr>"

lemma loose_work:
  assumes "unused_pool st" "g_chain st = CHAIN_KNOTS" "\<not> g_dev_configured st" "loose_session (g_main st)"
  obtains ctx' st' where "st_get_work pf now ctx st = (True, ctx', st')" "ss4 ctx' = loose_header" "g_main st' = g_main st" "g_chain st' = CHAIN_KNOTS"
    "cur_sess (g_cur st') = Some Main_session" "cur_valid (g_cur st')" "cur_target (g_cur st') = target_of_divisor 5"
proof -
  obtain want fee where e: "devfee_pool_epoch (pool_fee st) = (want, fee)" by fastforce
  obtain m3 where m3: "sia_build_stages (captured_job\<lparr>seq := 1\<rparr>) [47, 237, 71, 149] [0, 0, 0, 0, 0, 0, 0, 1] = Some (m3, loose_header, easy_root)"
    using loose_built by blast
  have t: "stratum_target_full pf (g_main st) = target_of_divisor 5" using assms(4) loose_divisor [of pf] by (simp add: loose_session_def stratum_target_full_def)
  have b: "\<exists>ctx' st'. build_from pf Main_session False ctx (st\<lparr>pool_fee := f\<rparr>) = (True, ctx', st') \<and> ss4 ctx' = loose_header \<and> g_main st' = g_main st \<and> g_chain st' = CHAIN_KNOTS \<and>
      cur_sess (g_cur st') = Some Main_session \<and> cur_valid (g_cur st') \<and> cur_target (g_cur st') = target_of_divisor 5" for f
    using assms m3 t captured_length by (simp add: build_from_def unused_pool_def loose_session_def Let_def STRATUM_MAX_EN2_def en2_one)
  define f where "f = (if want then devfee_pool_skip fee else fee)"
  obtain ctx' st' where st': "build_from pf Main_session False ctx (st\<lparr>pool_fee := f\<rparr>) = (True, ctx', st')" "ss4 ctx' = loose_header" "g_main st' = g_main st" "g_chain st' = CHAIN_KNOTS"
      "cur_sess (g_cur st') = Some Main_session" "cur_valid (g_cur st')" "cur_target (g_cur st') = target_of_divisor 5"
    using b [of f] by blast
  have r: "stratum_ready (g_main st)" "push_due now st" using assms by (simp_all add: loose_session_def stratum_ready_def push_due_def unused_pool_def)
  have "st_get_work pf now ctx st = (True, ctx', pushed now st')"
    using st'(1) r assms(3) e by (cases want) (simp_all add: st_get_work_def f_def Let_def)
  then show thesis by (rule that) (use st' in \<open>simp_all add: pushed_def\<close>)
qed

definition clean_works :: "clean_env \<Rightarrow> bool" where
  "clean_works e \<longleftrightarrow> mock_pool_listen (c_listen e) \<noteq> None \<and> loopback_net (main_dial (c_net e)) \<and> takes_three (main_sends (c_net e)) \<and> c_accept e \<and> (\<forall>n. takes_line (c_sends e n))"

lemma feed_job_b: "on_line pf now (notify_of ''jobB'' NTIME ''false'') s =
    s\<lparr>job := captured_job\<lparr>job_id := ''jobB'', clean := False, seq := seq (job s) + 1\<rparr>, have_job := True, jobs_received := jobs_received s + 1\<rparr>"
proof -
  let ?j = "captured_job\<lparr>job_id := ''jobB'', clean := False\<rparr>"
  have l: "notify_of ''jobB'' NTIME ''false'' = print [] (notify_json ?j)" by code_simp
  have p: "plain_str (job_id ?j)" by code_simp
  have w: "wf_job ?j" using captured_ok(1) by (simp add: wf_job_def stratum_sizes)
  show ?thesis using notify_json_ok [OF p] on_line_notify [OF captured_ok(3) _ _ _ w p, of _ "[]" pf now "[]" s]
    by (simp add: l notify_json_def)
qed

lemma clean_passes:
  assumes "clean_works e" "unused_pool st"
  shows "test_clean_jobs pf e st = []"
proof -
  obtain p where p: "mock_pool_listen (c_listen e) = Some p" using assms(1) by (auto simp: clean_works_def)
  define st0 where "st0 = worksrc_stratum_configure pf CHAIN_KNOTS (Some ''127.0.0.1'') p (Some ''worker'') (Some ''x'') None None None st"
  have st0: "g_main st0 = test_init p" "g_chain st0 = CHAIN_KNOTS" "\<not> g_dev_configured st0" "unused_pool st0"
    using assms(2) by (simp_all add: st0_def worksrc_stratum_configure_def nonempty_def or_x_def test_init_def unused_pool_def Let_def)
  define s where "s = stratum_poll pf (main_dial (c_net e)) 1000 (main_sends (c_net e)) (main_recvs (c_net e)) (test_init p)"
  obtain f a where s: "0 \<le> f" "s = (test_init p)\<lparr>addr := a, fd := f, reconnects := 1, next_id := 3, sub_id := 1, auth_id := 2, suggest_diff_id := 3, sent := handshake_lines 0 ''worker'' ''x''\<rparr>"
    and r: "reached (test_init p) s = [p]"
    using assms(1) by (auto simp: clean_works_def s_def intro: test_dials [of "main_dial (c_net e)" "main_sends (c_net e)" pf 1000 "main_recvs (c_net e)" p])
  have st1: "st_poll pf (c_net e) 1000 st0 = st0\<lparr>g_main := s\<rparr>" using st0 by (simp add: st_poll_def s_def)
  define s2 where "s2 = on_line pf 1001 NOTIFY_LINE (on_line pf 1001 AUTH_LINE (on_line pf 1001 SUBSCRIBE_LINE (on_line pf 1001 LOOSE_LINE s)))"
  have a: "on_line pf now AUTH_LINE x = x\<lparr>authorized := True\<rparr>" if "sub_id x = 1" "auth_id x = 2" for x now
    using feed_true [OF easy_lines(3), of x pf now] that by simp
  have s2: "loose_session s2" using s by (simp add: s2_def feed_loose feed_subscribe a feed_notify loose_session_def)
  define st2 where "st2 = st0\<lparr>g_main := s2\<rparr>"
  have "unused_pool st2" "g_chain st2 = CHAIN_KNOTS" "\<not> g_dev_configured st2" "loose_session (g_main st2)"
    using st0 s2 by (simp_all add: st2_def unused_pool_def)
  then obtain ctx st3 where w: "st_get_work pf (c_clock e) (c_ctx e) st2 = (True, ctx, st3)" "ss4 ctx = loose_header" "g_main st3 = g_main st2" "g_chain st3 = CHAIN_KNOTS"
    "cur_sess (g_cur st3) = Some Main_session" "cur_valid (g_cur st3)" "cur_target (g_cur st3) = target_of_divisor 5"
    by (rule loose_work)
  define st4 where "st4 = test_feed pf (notify_of ''jobB'' NTIME ''false'') 1002 st3"
  have "share_ready ctx st4" "cur_target (g_cur st4) = target_of_divisor 5"
    using w s2 by (simp_all add: share_ready_def st4_def test_feed_def feed_job_b st2_def loose_session_def)
  then have "find_share (c_sends e) ctx 8192 (of_nat 0) st4"
    using assms(1) loose_share w(2) by (intro find_share_finds [where m = 1]) (auto simp: clean_works_def)
  moreover have "test_feed pf NOTIFY_LINE 1001 (test_feed pf AUTH_LINE 1001 (test_feed pf SUBSCRIBE_LINE 1001 (test_feed pf LOOSE_LINE 1001 (st0\<lparr>g_main := s\<rparr>)))) = st2"
    by (simp add: test_feed_def s2_def st2_def)
  ultimately show ?thesis using w(1) st0(1) r assms(1) p st1
    by (simp add: test_clean_jobs_def mock_pool_accept_def clean_works_def Let_def flip: st0_def st4_def)
qed

section \<open>The redirect is followed, once\<close>

text \<open>The network of the redirect test: poll \<open>k\<close> of the thirty reads the line, those before read nothing, the one after finds the other listener.\<close>

definition reconnect_works :: "reconnect_env \<Rightarrow> bool" where
  "reconnect_works e \<longleftrightarrow> (\<exists>a b k. mock_pool_listen (r_listen_a e) = Some a \<and> mock_pool_listen (r_listen_b e) = Some b \<and> 0 \<le> b \<and> b < 65536 \<and> loopback_session (r_net e) \<and> r_accept e \<and>
     k < 29 \<and> (\<forall>i < k. snd (snd (r_polls e i)) = []) \<and> snd (snd (r_polls e k)) = [Data (reconnect_line b)] \<and> loopback_session (r_polls e (Suc k)) \<and> loopback_session (r_back e 0))"

lemma poll_nothing: "snd (snd n) = [] \<Longrightarrow> 0 \<le> fd s \<Longrightarrow> rx s = [] \<Longrightarrow> poll_net pf n now s = s"
  by (cases n; cases s) (simp add: poll_net_def stratum_poll_def recv_loop.simps RX_SIZE_def dispatch.simps)

lemma poll_until_idle:
  assumes "\<forall>i < k. snd (snd (nets i)) = []" "0 \<le> fd s" "rx s = []" "p \<notin> set bl"
  shows "j \<le> k \<Longrightarrow> poll_until pf nets from p (k - j) (n + j) bl s = poll_until pf nets from p k n bl s"
proof (induction j)
  case (Suc j)
  then have "poll_net pf (nets (k - Suc j)) (from + of_nat (k - Suc j)) s = s" using assms by (intro poll_nothing) auto
  moreover have "Suc (k - Suc j) = k - j" using Suc.prems by simp
  ultimately show ?case using Suc assms(4) by (simp add: reached_def mock_pool_has_pending_connection_def)
qed simp

lemma dispatch_dropped:
  assumes "CHR 0x0A \<notin> set l" "CHR 0x00 \<notin> set l" "l \<noteq> []" "fd (on_line pf now l s) < 0"
  shows "dispatch pf now (l @ CHR 0x0A # r) s = on_line pf now l s"
proof -
  have "cstr l = l" using assms(2) by (induction l) (auto simp: cstr_def)
  moreover have "takeWhile (\<lambda>c. c \<noteq> CHR 0x0A) (l @ CHR 0x0A # r) = l" "dropWhile (\<lambda>c. c \<noteq> CHR 0x0A) (l @ CHR 0x0A # r) = CHR 0x0A # r"
    using assms(1) by (induction l) auto
  ultimately show ?thesis using assms(3,4) by (subst dispatch.simps) simp
qed

definition redirect_json :: "nat \<Rightarrow> json" where
  "redirect_json b = JObj [(''id'', JRaw ''null''), (''method'', JStr ''client.reconnect''), (''params'', JArr [JStr ''127.0.0.1'', JRaw (dec b), JRaw (dec 0)])]"

lemma reconnect_text:
  assumes "b < 65536"
  shows "reconnect_line (int b) = print [] (redirect_json b) @ [CHR 0x0A]" "CHR 0x0A \<notin> set (print [] (redirect_json b))" "CHR 0x00 \<notin> set (print [] (redirect_json b))"
    "print [] (redirect_json b) \<noteq> []" "length (reconnect_line (int b)) < 1000"
proof -
  have d: "dec 0 = ''0''" by code_simp
  have p: \<open>print [] (redirect_json b) = ''{"id":null,"method":"client.reconnect","params":["127.0.0.1",'' @ dec b @ '',0]}''\<close>
    by (simp add: redirect_json_def print.simps d)
  have l: "length (dec b) \<le> 5" using assms by (intro length_dec) simp_all
  show "reconnect_line (int b) = print [] (redirect_json b) @ [CHR 0x0A]" unfolding p using l by (simp add: reconnect_line_def snprintf_s_def dec_int_def)
  have "\<forall>c \<in> set (dec b). is_digit c" using dec_digits [of b] by (auto simp: list_all_iff)
  then have "CHR 0x0A \<notin> set (dec b) \<and> CHR 0x00 \<notin> set (dec b)" by (auto simp: is_digit_def)
  then show "CHR 0x0A \<notin> set (print [] (redirect_json b))" "CHR 0x00 \<notin> set (print [] (redirect_json b))" unfolding p by auto
  show "print [] (redirect_json b) \<noteq> []" unfolding p by simp
  show "length (reconnect_line (int b)) < 1000" by (simp add: reconnect_line_def snprintf_s_def)
qed

lemma redirected:
  assumes "snd (snd n) = [Data (reconnect_line (int b))]" "b < 65536" "0 \<le> fd s" "rx s = []" "length (reconnect_host s) = 128"
  shows "\<exists>buf. cstr buf = ''127.0.0.1'' \<and> poll_net pf n now s =
    stratum_drop (Some ''pool asked us to reconnect'') (s\<lparr>reconnect_host := buf, reconnect_port := int b, reconnect_pending := True, addr := [], retry_at := now\<rparr>)"
proof -
  note t = reconnect_text [OF assms(2)]
  let ?l = "print [] (redirect_json b)"
  have r: "json_ok (redirect_json b)" by (simp add: redirect_json_def raw_dec) (simp add: raw_ok_def js_delim_def js_space_def plain_esc_ok plain_str_def)
  obtain buf where b: "cstr buf = ''127.0.0.1''" "on_line pf now ?l (s\<lparr>rx := ?l @ [CHR 0x0A]\<rparr>) =
      stratum_drop (Some ''pool asked us to reconnect'') (s\<lparr>rx := ?l @ [CHR 0x0A], reconnect_host := buf, reconnect_port := int b, reconnect_pending := True, addr := [], retry_at := now\<rparr>)"
    using on_line_reconnect [OF captured_ok(3) r [unfolded redirect_json_def], of "''127.0.0.1''" b 0 "s\<lparr>rx := ?l @ [CHR 0x0A]\<rparr>" pf now "[]"] assms(2,5)
    by (auto simp: redirect_json_def plain_str_def)
  obtain d ss where n: "n = (d, ss, [Data (?l @ [CHR 0x0A])])" using assms(1) t(1) by (cases n) auto
  have "poll_net pf n now s = dispatch pf now (?l @ [CHR 0x0A]) (s\<lparr>rx := ?l @ [CHR 0x0A]\<rparr>)"
    unfolding n poll_net_def prod.case using t(1,5) assms(3,4) by (intro received_all) auto
  also have "\<dots> = on_line pf now ?l (s\<lparr>rx := ?l @ [CHR 0x0A]\<rparr>)" by (rule dispatch_dropped [OF t(2-4)]) (simp add: b)
  finally show ?thesis using b by (intro exI [of _ buf]) (cases s, simp add: stratum_drop_def Let_def)
qed

lemma poll_redials:
  assumes "loopback_session n" "fd s < 0" "retry_at s \<le> now" "addr s = [] \<or> addr s = ''127.0.0.1''"
    and "(if reconnect_pending s then cstr (reconnect_host s) else host s) = ''127.0.0.1''"
  shows "\<exists>f a y i. 0 \<le> f \<and> (a = [] \<or> a = ''127.0.0.1'') \<and> poll_net pf n now s =
     s\<lparr>reconnect_pending := False, addr := a, fd := f, rx := [], backoff_s := 0, reconnects := reconnects s + 1, next_id := i + 3, sub_id := i + 1,
       auth_id := i + 2, suggest_diff_id := i + 3, sent := y\<rparr>"
    "reached s (poll_net pf n now s) = [if reconnect_pending s then reconnect_port s else port s]"
proof -
  obtain d ss rs where n: "n = (d, ss, rs)" by (cases n)
  have "poll_net pf n now s = snd (dial d now ss s)" using assms(2) by (simp add: n poll_net_def stratum_poll_def)
  moreover have "loopback_net d" "takes_three ss" using assms(1) by (simp_all add: n loopback_session_def)
  ultimately obtain f a where f: "0 \<le> f" "a = [] \<or> a = ''127.0.0.1''" "poll_net pf n now s =
     s\<lparr>reconnect_pending := False, addr := a, fd := f, rx := [], backoff_s := 0, reconnects := reconnects s + 1, next_id := next_id s + 3, sub_id := next_id s + 1,
       auth_id := next_id s + 2, suggest_diff_id := next_id s + 3, sent := sent s @ handshake_lines (next_id s) (worker s) (password s)\<rparr>"
    using dial_loopback [of d ss s now, OF _ _ assms(3-5)] by metis
  then show "\<exists>f a y i. 0 \<le> f \<and> (a = [] \<or> a = ''127.0.0.1'') \<and> poll_net pf n now s =
     s\<lparr>reconnect_pending := False, addr := a, fd := f, rx := [], backoff_s := 0, reconnects := reconnects s + 1, next_id := i + 3, sub_id := i + 1,
       auth_id := i + 2, suggest_diff_id := i + 3, sent := y\<rparr>" by blast
  show "reached s (poll_net pf n now s) = [if reconnect_pending s then reconnect_port s else port s]" using f(3) by (simp add: reached_def)
qed

lemma reconnect_passes:
  assumes "reconnect_works e"
  shows "test_reconnect pf e = []"
proof -
  obtain a b k where e: "mock_pool_listen (r_listen_a e) = Some a" "mock_pool_listen (r_listen_b e) = Some (int b)" "b < 65536" "loopback_session (r_net e)" "r_accept e" "k < 29"
    "\<forall>i < k. snd (snd (r_polls e i)) = []" "snd (snd (r_polls e k)) = [Data (reconnect_line (int b))]" "loopback_session (r_polls e (Suc k))" "loopback_session (r_back e 0)"
  proof -
    from assms obtain a i k where "mock_pool_listen (r_listen_a e) = Some a" "mock_pool_listen (r_listen_b e) = Some i" "0 \<le> i" "i < 65536" "loopback_session (r_net e)"
      "r_accept e" "k < 29" "\<forall>i < k. snd (snd (r_polls e i)) = []" "snd (snd (r_polls e k)) = [Data (reconnect_line i)]" "loopback_session (r_polls e (Suc k))" "loopback_session (r_back e 0)"
      unfolding reconnect_works_def by blast
    then show thesis using that [of a "nat i" k] by simp
  qed
  define s where "s = poll_net pf (r_net e) 1000 (test_init a)"
  obtain f ad y i where s: "0 \<le> f" "ad = [] \<or> ad = ''127.0.0.1''" "s = (test_init a)\<lparr>reconnect_pending := False, addr := ad, fd := f, rx := [], backoff_s := 0, reconnects := 1, next_id := i + 3,
      sub_id := i + 1, auth_id := i + 2, suggest_diff_id := i + 3, sent := y\<rparr>"
    using poll_redials(1) [OF e(4), of "test_init a" 1000 pf] by (auto simp: s_def)
  have r: "reached (test_init a) s = [a]" using poll_redials(2) [OF e(4), of "test_init a" 1000 pf] by (simp add: s_def)
  define s1 where "s1 = poll_net pf (r_polls e k) (1000 + of_nat k) s"
  obtain buf where buf: "cstr buf = ''127.0.0.1''" "s1 = stratum_drop (Some ''pool asked us to reconnect'')
      (s\<lparr>reconnect_host := buf, reconnect_port := int b, reconnect_pending := True, addr := [], retry_at := 1000 + of_nat k\<rparr>)"
    using redirected [OF e(8,3), of s pf "1000 + of_nat k"] s by (auto simp: s1_def)
  have s1: "fd s1 < 0" "retry_at s1 = 1000 + of_nat k" "addr s1 = []" "reconnect_pending s1" "reconnect_host s1 = buf" "reconnect_port s1 = int b" "reconnects s1 = reconnects s"
    "host s1 = ''127.0.0.1''" "port s1 = a"
    unfolding buf(2) using s(3) by (simp_all add: stratum_drop_def Let_def)
  define s2 where "s2 = poll_net pf (r_polls e (Suc k)) (1000 + of_nat (Suc k)) s1"
  have "(of_nat k :: u64) < of_nat (Suc k)" "unat (1000 + of_nat k :: u64) = 1000 + k" "unat (1000 + of_nat (Suc k) :: u64) = 1000 + Suc k"
    using e(6) by (simp_all add: word_less_nat_alt unat_of_nat unat_word_ariths)
  then have "retry_at s1 \<le> 1000 + of_nat (Suc k)" unfolding s1(2) word_le_nat_alt by simp
  note d2 = poll_redials [OF e(9) s1(1) this, of pf]
  have s2: "reached s1 s2 = [int b]" "addr s2 = [] \<or> addr s2 = ''127.0.0.1''" "\<not> reconnect_pending s2" "host s2 = ''127.0.0.1''" "port s2 = a"
    using d2 s1 buf(1) by (auto simp: s2_def)
  have m: "30 - k = Suc (Suc (28 - k))" using e(6) by simp
  have "poll_until pf (r_polls e) 1000 (int b) 0 30 [] s = poll_until pf (r_polls e) 1000 (int b) k (30 - k) [] s"
    using poll_until_idle [OF e(7), of s "int b" "[]" k pf 1000 "30 - k"] s e(6) by simp
  also have "\<dots> = (True, [int b], s2)"
    unfolding m using s1(7) s2(1) by (simp add: s1_def [symmetric] s2_def [symmetric, simplified] reached_def [of s s1] mock_pool_has_pending_connection_def Let_def)
  finally have u: "poll_until pf (r_polls e) 1000 (int b) 0 30 [] s = (True, [int b], s2)" .
  define s3 where "s3 = (stratum_close s2)\<lparr>retry_at := 0\<rparr>"
  have s3: "fd s3 < 0" "retry_at s3 = 0" "addr s3 = [] \<or> addr s3 = ''127.0.0.1''" "\<not> reconnect_pending s3" "host s3 = ''127.0.0.1''" "port s3 = a"
    using s2 by (simp_all add: s3_def stratum_close_def stratum_drop_def Let_def)
  have "reached s3 (poll_net pf (r_back e 0) (2000 + of_nat 0) s3) = [a]" using poll_redials(2) [OF e(10) s3(1) _ s3(3), of "2000 + of_nat 0" pf] s3 by simp
  then have "fst (poll_until pf (r_back e) 2000 a 0 30 [] s3)" by (simp add: eval_nat_numeral mock_pool_has_pending_connection_def Let_def)
  then obtain bl s4 where "poll_until pf (r_back e) 2000 a 0 30 [] s3 = (True, bl, s4)" by (cases "poll_until pf (r_back e) 2000 a 0 30 [] s3") auto
  then show ?thesis using e(1,2,5) r u
    by (simp add: test_reconnect_def mock_pool_accept_def Let_def flip: test_init_def s_def s3_def)
qed

section \<open>Properties\<close>

definition sockets_work :: "socket_env \<Rightarrow> bool" where
  "sockets_work e \<longleftrightarrow> clean_works (clean_test e) \<and> suggest_works (suggest_test e) \<and> reconnect_works (reconnect_test e)"

lemma stratum_selftest_sockets: "selftest_stratum pf e st =
    (if test_clean_jobs pf (clean_test e) (st\<lparr>pool_fee := devfee_reset\<rparr>) = [] \<and> test_suggest_difficulty pf (suggest_test e) = [] \<and> test_reconnect pf (reconnect_test e) = [] then 0 else -1)"
  by (simp add: selftest_stratum_def test_protocol_passes test_stages_passes test_prefilter_passes test_sia_chain_passes test_pack_passes
      test_devfee_pool_passes test_target_passes)

text \<open>
  The protocol selftest passes wherever its loopback sockets work: on every platform all the checks of the seven pure tests hold, and over every loopback network that connects, accepts and
  takes the lines whole the three others hold too.  A solution of a job that a notification without \<^verbatim>\<open>clean_jobs\<close> replaced is submitted; the difficulty is suggested after the
  authorisation, and the reply is not counted as a share; a redirect is followed, whenever in the first 29 polls it is read, and only once.
\<close>

theorem stratum_selftest_passes:
  assumes "sockets_work e" "unused_pool st"
  shows "selftest_stratum pf e st = 0"
proof -
  have "unused_pool (st\<lparr>pool_fee := devfee_reset\<rparr>)" using assms(2) by (simp add: unused_pool_def)
  then show ?thesis using assms(1) clean_passes suggest_passes reconnect_passes by (simp add: stratum_selftest_sockets sockets_work_def)
qed

text \<open>A loopback that works.\<close>

definition loop_dial :: dial_env where
  "loop_dial = \<lparr>dns_resolve = (\<lambda>h. if h = ''127.0.0.1'' then Inr h else Inl ''cannot resolve''), sock = Inr 5, pton_ok = (\<lambda>_. True),
     connects = (\<lambda>a _. if a = ''127.0.0.1'' then Connected else Connect_failed 111), strerror = (\<lambda>_. ''Connection refused'')\<rparr>"

definition loop_session :: session_net where "loop_session = (loop_dial, open_sends, [])"

definition listen_on :: "int \<Rightarrow> listen_env" where
  "listen_on p = \<lparr>l_socket = True, l_bind = True, l_port = Some p, l_listen = True\<rparr>"

definition loop_sockets :: socket_env where
  "loop_sockets = \<lparr>
     clean_test = \<lparr>c_listen = listen_on 40001, c_net = \<lparr>main_dial = loop_dial, main_sends = open_sends, main_recvs = [], dev_dial = dead_env, dev_sends = [], dev_recvs = []\<rparr>,
       c_accept = True, c_clock = 1700000000, c_ctx = zero_ctx, c_sends = (\<lambda>_. [Sent 1024])\<rparr>,
     suggest_test = \<lparr>g_listen = listen_on 40002, g_net = loop_session, g_accept = True, g_got = Some 2047\<rparr>,
     reconnect_test = \<lparr>r_listen_a = listen_on 40003, r_listen_b = listen_on 40004, r_net = loop_session, r_accept = True,
       r_polls = (\<lambda>i. if i = 1 then (loop_dial, [], [Data (reconnect_line 40004)]) else loop_session), r_back = (\<lambda>_. loop_session)\<rparr>\<rparr>"

lemma loop_works: "loopback_net loop_dial" "takes_three open_sends" "loopback_session loop_session"
  by (simp_all add: loopback_net_def loop_dial_def takes_three_def takes_line_def open_sends_def loopback_session_def loop_session_def)

lemma loop_sockets_work: "sockets_work loop_sockets"
proof -
  have l: "mock_pool_listen (listen_on p) = Some p" for p by (simp add: mock_pool_listen_def listen_on_def)
  have "clean_works (clean_test loop_sockets)" "suggest_works (suggest_test loop_sockets)"
    using loop_works by (simp_all add: clean_works_def suggest_works_def loop_sockets_def l takes_line_def)
  moreover have "reconnect_works (reconnect_test loop_sockets)"
    unfolding reconnect_works_def using loop_works
    by (intro exI [of _ 40003] exI [of _ 40004] exI [of _ 1]) (simp add: loop_sockets_def l, simp add: loop_session_def)
  ultimately show ?thesis by (simp add: sockets_work_def)
qed

theorem stratum_selftest_passes_witness: "selftest_stratum plain_platform loop_sockets pool_start = 0"
proof (rule stratum_selftest_passes [OF loop_sockets_work])
  show "unused_pool pool_start" by (simp add: unused_pool_def pool_start_def)
qed

end
