(* ===== verification/Sim_Uart.thy ===== *)
theory Sim_Uart
  imports Framing
begin

text \<open>
  The scripted device of \<^verbatim>\<open>src/miner/uio_uart.c\<close>: bytes that become readable at given times after the device was opened.  What the code's polls see of it, at the times a clock shows
  them, is a list of polls for the operations of \<open>Framing\<close>.  With it the timing claim behind the synchroniser is a theorem: silence of fifteen polls
  does not fall inside a frame.
\<close>

unbundle bit_operations_syntax

record sim_uart =
  sim_buf :: bytes
  sim_at_us :: "u64 list"
  sim_len :: nat
  sim_pos :: nat
  sim_t0_us :: u64

definition uart_open_sim :: "u64 \<Rightarrow> bytes \<Rightarrow> u64 list \<Rightarrow> nat \<Rightarrow> sim_uart" where
  "uart_open_sim now buf at_us n =
     \<lparr>sim_buf = buf, sim_at_us = at_us, sim_len = n, sim_pos = 0, sim_t0_us = (if now = 0 then 1 else now)\<rparr>"

definition sim_get_nb :: "u64 \<Rightarrow> sim_uart \<Rightarrow> u8 option \<times> sim_uart" where
  "sim_get_nb now d =
     (if sim_pos d \<ge> sim_len d then (None, d)
      else if now - sim_t0_us d < sim_at_us d ! sim_pos d then (None, d)
      else (Some (sim_buf d ! sim_pos d), d\<lparr>sim_pos := sim_pos d + 1\<rparr>))"

text \<open>The readings of a real device that have the same effect.\<close>

fun as_poll :: "u8 option \<Rightarrow> poll" where
  "as_poll None = (0, 0)"
| "as_poll (Some b) = (STAT_RX_VALID, ucast b)"

fun sim_polls :: "u64 list \<Rightarrow> sim_uart \<Rightarrow> poll list" where
  "sim_polls [] d = []"
| "sim_polls (t # ts) d = (case sim_get_nb t d of (r, d) \<Rightarrow> as_poll r # sim_polls ts d)"

text \<open>Time since the opening; a clock that runs on, by at least the 200 microseconds of \<^verbatim>\<open>usleep\<close> after a poll that found nothing.\<close>

definition elapsed :: "sim_uart \<Rightarrow> u64 \<Rightarrow> nat" where
  "elapsed d t = unat (t - sim_t0_us d)"

fun naps :: "u64 list \<Rightarrow> sim_uart \<Rightarrow> bool" where
  "naps (t # t' # ts) d \<longleftrightarrow>
     elapsed d t \<le> elapsed d t' \<and> (fst (sim_get_nb t d) = None \<longrightarrow> elapsed d t + 200 \<le> elapsed d t') \<and> naps (t' # ts) (snd (sim_get_nb t d))"
| "naps ts d \<longleftrightarrow> True"

definition at_us :: "sim_uart \<Rightarrow> nat \<Rightarrow> nat" where
  "at_us d p = unat (sim_at_us d ! p)"

definition wf_sim :: "sim_uart \<Rightarrow> bool" where
  "wf_sim d \<longleftrightarrow> sim_len d \<le> length (sim_buf d) \<and> sim_len d \<le> length (sim_at_us d) \<and> sim_pos d \<le> sim_len d"

lemma as_poll_read:
  "uart_get_nb (as_poll r) u = (r, (case r of None \<Rightarrow> u | Some _ \<Rightarrow> u\<lparr>rx_bytes := rx_bytes u + 1\<rparr>))"
  by (cases r) (simp_all add: uart_get_nb_def STAT_RX_VALID_def STAT_OVERRUN_def ucast_and_ff)

lemma arrived_as_poll [simp]: "arrived [as_poll r] = (case r of None \<Rightarrow> [] | Some b \<Rightarrow> [b])"
  by (cases r) (simp_all add: arrived_def STAT_RX_VALID_def ucast_and_ff)

lemma sim_get_None: "fst (sim_get_nb t d) = None \<longleftrightarrow> sim_len d \<le> sim_pos d \<or> elapsed d t < at_us d (sim_pos d)"
  by (simp add: sim_get_nb_def elapsed_def at_us_def word_less_nat_alt)

lemma sim_get_cases:
  obtains "sim_get_nb t d = (None, d)" "sim_len d \<le> sim_pos d \<or> elapsed d t < at_us d (sim_pos d)"
  | "sim_get_nb t d = (Some (sim_buf d ! sim_pos d), d\<lparr>sim_pos := sim_pos d + 1\<rparr>)" "sim_pos d < sim_len d" "at_us d (sim_pos d) \<le> elapsed d t"
  by (cases "sim_len d \<le> sim_pos d"; cases "t - sim_t0_us d < sim_at_us d ! sim_pos d")
    (auto simp: sim_get_nb_def elapsed_def at_us_def word_less_nat_alt not_less)

lemma advanced [simp]: "elapsed (d\<lparr>sim_pos := p\<rparr>) t = elapsed d t" "at_us (d\<lparr>sim_pos := p\<rparr>) k = at_us d k" "wf_sim (d\<lparr>sim_pos := p\<rparr>) \<longleftrightarrow> sim_len d \<le> length (sim_buf d) \<and> sim_len d \<le> length (sim_at_us d) \<and> p \<le> sim_len d"
  by (simp_all add: elapsed_def at_us_def wf_sim_def)

text \<open>What is read of the script.\<close>

definition script :: "sim_uart \<Rightarrow> nat \<Rightarrow> bytes" where
  "script d p = take (p - sim_pos d) (drop (sim_pos d) (sim_buf d))"

lemma script_step:
  assumes "wf_sim d" "sim_pos d < sim_len d" "sim_pos d + 1 \<le> p"
  shows "script d p = (sim_buf d ! sim_pos d) # script (d\<lparr>sim_pos := sim_pos d + 1\<rparr>) p"
proof -
  have "drop (sim_pos d) (sim_buf d) = (sim_buf d ! sim_pos d) # drop (Suc (sim_pos d)) (sim_buf d)"
    using assms(1,2) by (simp add: Cons_nth_drop_Suc wf_sim_def)
  then show ?thesis using assms(3) by (simp add: script_def take_Cons' ) 
qed

section \<open>Silence\<close>

text \<open>The position a collection stops at, when it stops by itself for silence, has no close predecessor.\<close>

definition quiet_at :: "sim_uart \<Rightarrow> nat \<Rightarrow> bool" where
  "quiet_at d p \<longleftrightarrow> p = sim_len d \<or> (if p = 0 then 0 < at_us d 0 else at_us d (p - 1) + 2800 < at_us d p)"

lemma collect_empty:
  "length buf < NSYNC \<Longrightarrow> sync_collect q ((0, 0) # ps) (200 * k) buf u =
     (if k < 14 \<or> buf = [] \<and> \<not> q then sync_collect q ps (200 * Suc k) buf u else if buf = [] then (At_quiet, buf, u) else (At_gap, buf, u))"
  using as_poll_read [of None u] by (cases "buf = []") (auto simp: not_less add.commute)

lemma collect_byte:
  "length buf < NSYNC \<Longrightarrow> sync_collect q ((STAT_RX_VALID, ucast b) # ps) idle buf u =
     (let u = u\<lparr>rx_bytes := rx_bytes u + 1\<rparr> in if NSYNC \<le> length buf + 1 then (No_gap, buf @ [b], u) else sync_collect q ps (200 * 0) (buf @ [b]) u)"
  using as_poll_read [of "Some b" u] by (simp add: Let_def)

lemma collect_silence:
  assumes "sync_collect q (sim_polls ts d) (200 * k) buf u = (e, buf', u')" "e \<noteq> No_gap" "naps ts d" "wf_sim d" "length buf < NSYNC"
    and "ts \<noteq> [] \<Longrightarrow> 0 < sim_pos d \<Longrightarrow> at_us d (sim_pos d - 1) + 200 * k \<le> elapsed d (hd ts)"
  shows "\<exists>p. sim_pos d \<le> p \<and> p \<le> sim_len d \<and> buf' = buf @ script d p \<and> rx_bytes u' = rx_bytes u + of_nat (p - sim_pos d) \<and> quiet_at d p"
  using assms
proof (induction ts arbitrary: d k buf u)
  case Nil
  then show ?case by simp
next
  case (Cons t ts)
  show ?case
  proof (cases rule: sim_get_cases [of t d])
    case 1
    have step: "sync_collect q (sim_polls (t # ts) d) (200 * k) buf u =
        (if k < 14 \<or> buf = [] \<and> \<not> q then sync_collect q (sim_polls ts d) (200 * Suc k) buf u else if buf = [] then (At_quiet, buf, u) else (At_gap, buf, u))"
      using 1(1) collect_empty [OF Cons.prems(5)] by (simp del: sync_collect.simps)
    show ?thesis
    proof (cases "k < 14 \<or> buf = [] \<and> \<not> q")
      case True
      have "naps ts d" and "ts \<noteq> [] \<Longrightarrow> elapsed d t + 200 \<le> elapsed d (hd ts)" using Cons.prems(3) 1(1) by (cases ts; simp)+
      then show ?thesis using Cons.IH [of d "Suc k" buf u] Cons.prems step True by fastforce
    next
      case False
      then have "buf' = buf" "u' = u" "14 \<le> k" using Cons.prems(1) step by (auto split: if_splits)
      then show ?thesis using 1(2) Cons.prems(4,6) by (intro exI [of _ "sim_pos d"]) (cases "sim_pos d = 0"; auto simp: script_def wf_sim_def quiet_at_def)
    qed
  next
    case 2
    let ?d = "d\<lparr>sim_pos := sim_pos d + 1\<rparr>" and ?b = "sim_buf d ! sim_pos d"
    have step: "sync_collect q (sim_polls ts ?d) (200 * 0) (buf @ [?b]) (u\<lparr>rx_bytes := rx_bytes u + 1\<rparr>) = (e, buf', u')" "length (buf @ [?b]) < NSYNC"
      using Cons.prems(1,2) 2(1) collect_byte [OF Cons.prems(5), of q ?b "sim_polls ts ?d" "200 * k" u] by (auto simp: Let_def simp del: sync_collect.simps split: if_splits)
    have n: "naps ts ?d" "ts \<noteq> [] \<Longrightarrow> elapsed d t \<le> elapsed d (hd ts)" using Cons.prems(3) 2(1) by (cases ts; simp)+
    have w: "wf_sim ?d" using Cons.prems(4) 2(2) by (simp add: wf_sim_def)
    have "at_us ?d (sim_pos ?d - 1) + 200 * 0 \<le> elapsed ?d (hd ts)" if "ts \<noteq> []" using n(2) 2(3) that by simp
    then obtain p where "sim_pos ?d \<le> p \<and> p \<le> sim_len ?d \<and> buf' = (buf @ [?b]) @ script ?d p \<and>
        rx_bytes u' = rx_bytes (u\<lparr>rx_bytes := rx_bytes u + 1\<rparr>) + of_nat (p - sim_pos ?d) \<and> quiet_at ?d p"
      using Cons.IH [OF step(1) Cons.prems(2) n(1) w step(2)] by blast
    then have p: "sim_pos d + 1 \<le> p" "p \<le> sim_len d" "buf' = (buf @ [?b]) @ script ?d p" "rx_bytes u' = rx_bytes u + 1 + of_nat (p - (sim_pos d + 1))" "quiet_at ?d p"
      by simp_all
    have "buf' = buf @ script d p" using p(3) script_step [OF Cons.prems(4) 2(2) p(1)] by simp
    moreover have "rx_bytes u' = rx_bytes u + of_nat (p - sim_pos d)" using p(1,4) by simp
    ultimately show ?thesis using p by (intro exI [of _ p]) (simp add: quiet_at_def)
  qed
qed


section \<open>Patience\<close>

text \<open>Polls made after the last byte of the script became readable.\<close>

definition last_at :: "sim_uart \<Rightarrow> nat" where
  "last_at d = (if sim_len d = 0 then 0 else at_us d (sim_len d - 1))"

definition late :: "sim_uart \<Rightarrow> u64 list \<Rightarrow> nat" where
  "late d ts = length (filter (\<lambda>t. last_at d \<le> elapsed d t) ts)"

definition in_order :: "sim_uart \<Rightarrow> bool" where
  "in_order d \<longleftrightarrow> (\<forall>p < sim_len d. at_us d p \<le> last_at d)"

lemma late_simps [simp]:
  "late d [] = 0" "late d (t # ts) = of_bool (last_at d \<le> elapsed d t) + late d ts" "late (d\<lparr>sim_pos := p\<rparr>) ts = late d ts"
  "in_order (d\<lparr>sim_pos := p\<rparr>) = in_order d"
  by (simp_all add: late_def last_at_def in_order_def)

lemma collect_ends:
  assumes "in_order d" "wf_sim d" "length buf + (sim_len d - sim_pos d) < NSYNC" "q \<or> buf \<noteq> [] \<or> sim_pos d < sim_len d"
    and "if sim_pos d < sim_len d then sim_len d - sim_pos d + 15 \<le> late d ts else 15 \<le> late d ts + k \<and> k < 15"
  shows "fst (sync_collect q (sim_polls ts d) (200 * k) buf u) \<noteq> No_gap"
  using assms
proof (induction ts arbitrary: d k buf u)
  case Nil
  then show ?case by (simp split: if_splits)
next
  case (Cons t ts)
  have l: "length buf < NSYNC" using Cons.prems(3) by simp
  show ?case
  proof (cases rule: sim_get_cases [of t d])
    case 1
    have step: "sync_collect q (sim_polls (t # ts) d) (200 * k) buf u =
        (if k < 14 \<or> buf = [] \<and> \<not> q then sync_collect q (sim_polls ts d) (200 * Suc k) buf u else if buf = [] then (At_quiet, buf, u) else (At_gap, buf, u))"
      using 1(1) collect_empty [OF l] by (simp del: sync_collect.simps)
    have "if sim_pos d < sim_len d then sim_len d - sim_pos d + 15 \<le> late d ts else 15 \<le> late d ts + Suc k \<and> Suc k < 15" if "k < 14 \<or> buf = [] \<and> \<not> q"
      using Cons.prems(1,4,5) 1(2) that by (auto simp: in_order_def of_bool_def split: if_splits)
    then have "fst (sync_collect q (sim_polls ts d) (200 * Suc k) buf u) \<noteq> No_gap" if "k < 14 \<or> buf = [] \<and> \<not> q"
      using that by (intro Cons.IH [OF Cons.prems(1-4)])
    then show ?thesis unfolding step by auto
  next
    case 2
    let ?d = "d\<lparr>sim_pos := sim_pos d + 1\<rparr>" and ?b = "sim_buf d ! sim_pos d"
    have n: "\<not> NSYNC \<le> length buf + 1" using Cons.prems(3) 2(2) by linarith
    have step: "sync_collect q (sim_polls (t # ts) d) (200 * k) buf u = sync_collect q (sim_polls ts ?d) (200 * 0) (buf @ [?b]) (u\<lparr>rx_bytes := rx_bytes u + 1\<rparr>)"
      using 2(1) n collect_byte [OF l, of q ?b "sim_polls ts ?d" "200 * k" u] by (simp add: Let_def del: sync_collect.simps)
    show ?thesis unfolding step
      by (rule Cons.IH) (use Cons.prems 2(2) in \<open>auto simp: wf_sim_def of_bool_def split: if_splits\<close>)
  qed
qed


text \<open>What a loop reads of the script: a beginning of it, and all of it with enough late polls.\<close>

lemma arrived_prefix: "wf_sim d \<Longrightarrow> \<exists>p. sim_pos d \<le> p \<and> p \<le> sim_len d \<and> arrived (sim_polls ts d) = script d p"
proof (induction ts arbitrary: d)
  case Nil
  then show ?case by (intro exI [of _ "sim_pos d"]) (simp add: script_def wf_sim_def)
next
  case (Cons t ts)
  show ?case
  proof (cases rule: sim_get_cases [of t d])
    case 1
    then show ?thesis using Cons arrived_Cons [of "as_poll None" "sim_polls ts d"] arrived_as_poll [of None] by simp
  next
    case 2
    let ?d = "d\<lparr>sim_pos := sim_pos d + 1\<rparr>"
    have "wf_sim ?d" using Cons.prems 2(2) by (simp add: wf_sim_def)
    then obtain p where p: "sim_pos d + 1 \<le> p" "p \<le> sim_len d" "arrived (sim_polls ts ?d) = script ?d p" using Cons.IH [of ?d] by auto
    have "arrived (sim_polls (t # ts) d) = script d p"
      using 2(1) p(3) script_step [OF Cons.prems 2(2) p(1)] arrived_Cons [of "as_poll (Some (sim_buf d ! sim_pos d))" "sim_polls ts ?d"]
        arrived_as_poll [of "Some (sim_buf d ! sim_pos d)"] by simp
    then show ?thesis using p by (intro exI [of _ p]) simp
  qed
qed

lemma arrived_all: "wf_sim d \<Longrightarrow> in_order d \<Longrightarrow> sim_len d - sim_pos d \<le> late d ts \<Longrightarrow> arrived (sim_polls ts d) = script d (sim_len d)"
proof (induction ts arbitrary: d)
  case Nil
  then show ?case by (simp add: script_def)
next
  case (Cons t ts)
  show ?case
  proof (cases rule: sim_get_cases [of t d])
    case 1
    have "sim_len d - sim_pos d \<le> late d ts"
    proof (cases "sim_pos d < sim_len d")
      case True
      then have "\<not> last_at d \<le> elapsed d t" using Cons.prems(2) 1(2) by (auto simp: in_order_def)
      then show ?thesis using Cons.prems(3) by simp
    qed simp
    then show ?thesis using Cons 1 arrived_Cons [of "as_poll None" "sim_polls ts d"] arrived_as_poll [of None] by simp
  next
    case 2
    let ?d = "d\<lparr>sim_pos := sim_pos d + 1\<rparr>"
    have "arrived (sim_polls ts ?d) = script ?d (sim_len ?d)"
      by (rule Cons.IH) (use Cons.prems 2(2) in \<open>auto simp: wf_sim_def of_bool_def split: if_splits\<close>)
    then show ?thesis
      using 2(1,2) script_step [OF Cons.prems(1) 2(2), of "sim_len d"] arrived_Cons [of "as_poll (Some (sim_buf d ! sim_pos d))" "sim_polls ts ?d"]
        arrived_as_poll [of "Some (sim_buf d ! sim_pos d)"] by simp
  qed
qed

section \<open>The loop ends by itself\<close>

text \<open>Polls still needed: fifteen for every byte that still fits, less the silence already seen.\<close>

lemma collect_stops:
  assumes "length buf < NSYNC" "15 * (NSYNC - length buf) \<le> length ps + n" "n < 15"
  shows "\<exists>k \<le> length ps. \<forall>rest. sync_collect True (take k ps @ rest) (200 * n) buf u = sync_collect True ps (200 * n) buf u"
  using assms
proof (induction ps arbitrary: n buf u)
  case Nil
  then show ?case by (simp add: NSYNC_def)
next
  case (Cons p ps)
  obtain r u1 where g: "uart_get_nb p u = (r, u1)" by fastforce
  show ?case
  proof (cases r)
    case None
    show ?thesis
    proof (cases "n = 14")
      case True
      then show ?thesis using g None by (intro exI [of _ 1]) auto
    next
      case False
      then have n: "Suc n < 15" using Cons.prems(3) by simp
      obtain k where k: "k \<le> length ps" "\<forall>rest. sync_collect True (take k ps @ rest) (200 * Suc n) buf u1 = sync_collect True ps (200 * Suc n) buf u1"
        using Cons.IH [OF Cons.prems(1) _ n, of u1] Cons.prems(2) by auto
      then show ?thesis using g None False Cons.prems(1,3) by (intro exI [of _ "Suc k"]) (simp add: add.commute)
    qed
  next
    case (Some b)
    show ?thesis
    proof (cases "NSYNC \<le> length buf + 1")
      case True
      then show ?thesis using g Some Cons.prems(1) by (intro exI [of _ 1]) (simp add: Let_def)
    next
      case False
      then have l: "length (buf @ [b]) < NSYNC" "15 * (NSYNC - length (buf @ [b])) \<le> length ps + 0" using Cons.prems(2,3) by simp_all
      obtain k where k: "k \<le> length ps" "\<forall>rest. sync_collect True (take k ps @ rest) (200 * 0) (buf @ [b]) u1 = sync_collect True ps (200 * 0) (buf @ [b]) u1"
        using Cons.IH [OF l, of u1] by auto
      then show ?thesis using g Some Cons.prems(1) by (intro exI [of _ "Suc k"]) (simp add: Let_def)
    qed
  qed
qed

lemma naps_steps: "\<forall>i. Suc i < length ts \<longrightarrow> elapsed d (ts ! i) + 200 \<le> elapsed d (ts ! Suc i) \<Longrightarrow> naps ts d"
proof (induction ts d rule: naps.induct)
  case (1 t t' ts d)
  obtain r d' where s: "sim_get_nb t d = (r, d')" by fastforce
  have e: "elapsed d' = elapsed d" using s by (auto simp: sim_get_nb_def elapsed_def fun_eq_iff split: if_splits)
  have "elapsed d t + 200 \<le> elapsed d t'" using "1.prems" by force
  moreover have "\<forall>i. Suc i < length (t' # ts) \<longrightarrow> elapsed d ((t' # ts) ! i) + 200 \<le> elapsed d ((t' # ts) ! Suc i)"
    using "1.prems" by force
  then have "naps (t' # ts) d'" using "1.IH" s e by simp
  ultimately show ?case using s by simp
qed simp_all

text \<open>A clock that is read for the first time a second after the opening, and then every 200 microseconds.\<close>

definition slow_times :: "u64 list" where
  "slow_times = map (\<lambda>i. of_nat (1000001 + 200 * i)) [0..<700]"

lemma slow_elapsed: "sim_t0_us d = 1 \<Longrightarrow> i < 700 \<Longrightarrow> elapsed d (slow_times ! i) = 1000000 + 200 * i"
proof -
  assume a: "sim_t0_us d = 1" "i < 700"
  have "slow_times ! i - 1 = of_nat (1000000 + 200 * i)" using a(2) by (simp add: slow_times_def)
  then have "elapsed d (slow_times ! i) = unat (of_nat (1000000 + 200 * i) :: u64)" using a(1) by (simp add: elapsed_def)
  also have "\<dots> = 1000000 + 200 * i" using a(2) unfolding unat_of_nat by simp
  finally show ?thesis .
qed

lemma slow_polls:
  assumes "sim_t0_us d = 1"
  shows "naps slow_times d" "last_at d \<le> 1000000 \<Longrightarrow> late d slow_times = 700"
proof -
  have l: "length slow_times = 700" by (simp add: slow_times_def)
  show "naps slow_times d" by (rule naps_steps) (use slow_elapsed [OF assms] l in auto)
  assume "last_at d \<le> 1000000"
  then have "\<forall>t \<in> set slow_times. last_at d \<le> elapsed d t" using slow_elapsed [OF assms] l by (auto simp: in_set_conv_nth)
  then show "late d slow_times = 700" by (simp add: late_def l)
qed

section \<open>Properties\<close>

text \<open>
  C12: the synchroniser's collection loop ends by itself.  Where a silent line counts as success, after at most 7680 polls, whatever they read and however late they come, the loop has made its
  decision and looks at nothing after it: the deadline is never what ends it on a machine that polls that often.
\<close>

theorem collection_terminates:
  assumes "7680 \<le> length polls"
  shows "\<exists>k \<le> 7680. \<forall>rest. sync_collect True (take k polls @ rest) 0 [] u = sync_collect True polls 0 [] u"
proof -
  define ps where "ps = take 7680 polls"
  have l: "length ps = 7680" using assms by (simp add: ps_def)
  then have "\<exists>k \<le> length ps. \<forall>rest. sync_collect True (take k ps @ rest) (200 * 0) [] u = sync_collect True ps (200 * 0) [] u"
    by (intro collect_stops) (simp_all add: NSYNC_def)
  then obtain k where k: "k \<le> length ps" "\<forall>rest. sync_collect True (take k ps @ rest) (200 * 0) [] u = sync_collect True ps (200 * 0) [] u" by blast
  have t: "take k ps = take k polls" "k \<le> 7680" using k(1) l by (simp_all add: ps_def min_def)
  have "sync_collect True (take k ps @ drop k polls) (200 * 0) [] u = sync_collect True ps (200 * 0) [] u" using k(2) by blast
  then have "sync_collect True polls 0 [] u = sync_collect True ps 0 [] u" unfolding t(1) by simp
  then show ?thesis using k(2) t by (intro exI [of _ k]) simp
qed

theorem collection_terminates_witness:
  "\<exists>k \<le> 7680. \<forall>rest. sync_collect True (take k (replicate 7680 (0, 0)) @ rest) 0 [] idle_uart = sync_collect True (replicate 7680 (0, 0)) 0 [] idle_uart"
  by (rule collection_terminates) simp

text \<open>
  C11: silence is a frame boundary.  Let the bytes of a frame follow each other within 2.8 ms (on the wire it is 87 microseconds) and let the clock move by at least the 200 microseconds asked for
  after every poll that found nothing.  Then whenever the synchroniser succeeds without the histogram, it has handed back exactly the bytes it consumed, and it stands between two frames, before the first byte or after the
  last one; wherever in a frame the device started.
\<close>

theorem silence_is_a_boundary:
  assumes "frame_sync (sim_polls ts d) skips reads quiet_ok s u = (True, out, s', u')" "sync_locked s' = sync_locked s"
    and "naps ts d" "wf_sim d" "sim_pos d = 0"
    and "\<forall>p < sim_len d. 0 < p \<and> p mod RESULT_LEN \<noteq> r \<longrightarrow> at_us d p \<le> at_us d (p - 1) + 2800"
  shows "\<exists>p \<le> sim_len d. out = take p (sim_buf d) \<and> rx_bytes u' = rx_bytes u + of_nat p \<and> (p = 0 \<or> p = sim_len d \<or> p mod RESULT_LEN = r)"
proof -
  obtain e b u1 where c: "sync_collect quiet_ok (sim_polls ts d) 0 [] u = (e, b, u1)" by (metis prod_cases3)
  have ng: "e \<noteq> No_gap"
    using assms(1,2) c by (auto simp: frame_sync_def Let_def split: if_splits prod.splits bool.splits)
  have "sync_collect quiet_ok (sim_polls ts d) (200 * 0) [] u = (e, b, u1)" using c by simp
  then obtain p where p: "p \<le> sim_len d" "b = script d p" "rx_bytes u1 = rx_bytes u + of_nat p" "quiet_at d p"
    using collect_silence [of quiet_ok ts d 0 "[]" u e b u1] ng assms(3,4,5) by (auto simp: NSYNC_def)
  have b: "e = At_quiet \<Longrightarrow> b = []" using sync_collect_start [OF c] by (auto simp: collected_def)
  then have "out = b" "u' = u1" using assms(1) c ng by (auto simp: frame_sync_def split: sync_end.splits)
  moreover have "p = 0 \<or> p = sim_len d \<or> p mod RESULT_LEN = r" 
  proof (rule ccontr)
    assume a: "\<not> (p = 0 \<or> p = sim_len d \<or> p mod RESULT_LEN = r)"
    then have "at_us d p \<le> at_us d (p - 1) + 2800" using p(1) assms(6) by simp
    then show False using a p(4) by (simp add: quiet_at_def split: if_splits)
  qed
  ultimately show ?thesis using p assms(5) by (intro exI [of _ p]) (simp add: script_def)
qed

text \<open>Two frames, the second 20 ms after the first.\<close>

definition two_frames :: sim_uart where
  "two_frames = uart_open_sim 1 (report (5, 9) @ report (6, 7)) (map (\<lambda>i. of_nat (if i < 17 then 87 * i else 20000 + 87 * i)) [0..<34]) 34"

lemma two_frames_script:
  "sim_t0_us two_frames = 1" "sim_pos two_frames = 0" "sim_len two_frames = 34" "wf_sim two_frames" "in_order two_frames" "last_at two_frames \<le> 1000000"
  "p < 34 \<Longrightarrow> at_us two_frames p = (if p < 17 then 87 * p else 20000 + 87 * p)"
proof -
  show l: "sim_t0_us two_frames = 1" "sim_pos two_frames = 0" "sim_len two_frames = 34" by (simp_all add: two_frames_def uart_open_sim_def)
  show at: "at_us two_frames p = (if p < 17 then 87 * p else 20000 + 87 * p)" if "p < 34" for p
  proof -
    have "at_us two_frames p = unat (of_nat (if p < 17 then 87 * p else 20000 + 87 * p) :: u64)" using that by (simp add: at_us_def two_frames_def uart_open_sim_def)
    then show ?thesis using that unfolding unat_of_nat by simp
  qed
  show "wf_sim two_frames" by (simp add: wf_sim_def two_frames_def uart_open_sim_def RESULT_LEN_def)
  show "in_order two_frames" "last_at two_frames \<le> 1000000" using at l by (auto simp: in_order_def last_at_def)
qed

theorem silence_is_a_boundary_witness:
  "\<exists>ok out s u. frame_sync (sim_polls slow_times two_frames) [] [] True no_syncs idle_uart = (ok, out, s, u) \<and> ok \<and>
     (\<exists>p \<le> 34. out = take p (sim_buf two_frames) \<and> rx_bytes u = of_nat p \<and> (p = 0 \<or> p = 34 \<or> p mod RESULT_LEN = 0))"
proof -
  note d = two_frames_script and n = slow_polls [OF two_frames_script(1)]
  obtain e b u1 where c: "sync_collect True (sim_polls slow_times two_frames) 0 [] idle_uart = (e, b, u1)" by (metis prod_cases3)
  have "fst (sync_collect True (sim_polls slow_times two_frames) (200 * 0) [] idle_uart) \<noteq> No_gap"
    by (rule collect_ends) (use d n(2) in \<open>simp_all add: NSYNC_def\<close>)
  then have "\<exists>out s. frame_sync (sim_polls slow_times two_frames) [] [] True no_syncs idle_uart = (True, out, s, u1) \<and> sync_locked s = sync_locked no_syncs"
    using c by (cases e) (simp_all add: frame_sync_def)
  then obtain out s where f: "frame_sync (sim_polls slow_times two_frames) [] [] True no_syncs idle_uart = (True, out, s, u1)" "sync_locked s = sync_locked no_syncs" by blast
  have "\<forall>p < sim_len two_frames. 0 < p \<and> p mod RESULT_LEN \<noteq> 0 \<longrightarrow> at_us two_frames p \<le> at_us two_frames (p - 1) + 2800"
  proof (intro allI impI)
    fix p assume p: "p < sim_len two_frames" "0 < p \<and> p mod RESULT_LEN \<noteq> 0"
    then have "p \<noteq> 17" by (auto simp: RESULT_LEN_def)
    then show "at_us two_frames p \<le> at_us two_frames (p - 1) + 2800" using p d(3) d(7) [of p] d(7) [of "p - 1"] by (cases "p < 17") auto
  qed
  from silence_is_a_boundary [OF f n(1) d(4,2) this] show ?thesis
    using f(1) d(3) by (auto simp: idle_uart_def)
qed

end
