(* ===== verification/Selftest_Framing.thy ===== *)
theory Selftest_Framing
  imports Sim_Uart
begin

text \<open>
  The framing selftest (\<^verbatim>\<open>selftest_framing\<close> in \<^verbatim>\<open>src/miner/miner.c\<close>): six scripted streams through \<^verbatim>\<open>frame_sync\<close>.  What the clock shows is an argument: for each case, when the device
  is opened, and when the polls of each loop come.
\<close>

unbundle bit_operations_syntax

section \<open>The cases\<close>

definition framing_make :: "u64 \<Rightarrow> u64 \<Rightarrow> bytes" where
  "framing_make nonce hash = 0x01 # map (\<lambda>i. ucast (drop_bit (8 * i) nonce)) [0..<8] @ map (\<lambda>i. ucast (drop_bit (8 * i) hash)) [0..<8]"

definition kNonce :: u64 where "kNonce = 0xe000000000763b60"
definition kHash :: u64 where "kHash = 0x4f753d7193417e00"

definition test_frame :: bytes where "test_frame = framing_make kNonce kHash"

record case_clock =
  opened_at :: u64
  collect_at :: "u64 list"
  skip_at :: "u64 list"
  read_at :: "u64 list"
  drain_at :: "u64 list"

text \<open>The device's position after some reading is the number of bytes counted.\<close>

definition sim_moved :: "uio_uart \<Rightarrow> sim_uart \<Rightarrow> sim_uart" where
  "sim_moved u d = d\<lparr>sim_pos := unat (rx_bytes u)\<rparr>"

definition sim_sync :: "case_clock \<Rightarrow> bool \<Rightarrow> sim_uart \<Rightarrow> bool \<times> bytes \<times> uio_uart" where
  "sim_sync c quiet_ok d =
     (let polls = sim_polls (collect_at c) d;
          (e, buf, u1) = sync_collect quiet_ok polls 0 [] idle_uart;
          skips = sim_polls (skip_at c) (sim_moved u1 d);
          u2 = snd (skip_bytes (lock_skip buf) skips u1);
          reads = sim_polls (read_at c) (sim_moved u2 d);
          (ok, out, _, u) = frame_sync polls skips reads quiet_ok no_syncs idle_uart
      in (ok, out, u))"

definition quiet_line :: "case_clock \<Rightarrow> bool" where
  "quiet_line c \<longleftrightarrow> (let (ok, out, u) = sim_sync c True (uart_open_sim (opened_at c) [] [] 0) in ok \<and> out = [] \<and> rx_bytes u = 0)"

definition spaced :: "u64 \<Rightarrow> nat \<Rightarrow> u64 list" where
  "spaced from n = map (\<lambda>i. from + of_nat i * 87) [0..<n]"

definition quiet_then_frame :: "case_clock \<Rightarrow> bool" where
  "quiet_then_frame c \<longleftrightarrow>
     (let d = uart_open_sim (opened_at c) test_frame (spaced 50000 RESULT_LEN) RESULT_LEN;
          (ok, out, u) = sim_sync c True d;
          got = take RESULT_LEN out;
          got = fst (read_bytes (RESULT_LEN - length got) (sim_polls (drain_at c) (sim_moved u d)) got u);
          (rc, r) = parse_result got
      in ok \<and> length got = RESULT_LEN \<and> rc = 0 \<and> r_nonce r = kNonce \<and> r_hash_top64 r = kHash)"

definition gap_path :: "case_clock \<Rightarrow> bool" where
  "gap_path c \<longleftrightarrow>
     (let (ok, out, u) = sim_sync c True (uart_open_sim (opened_at c) test_frame (spaced 0 RESULT_LEN) RESULT_LEN)
      in ok \<and> length out = RESULT_LEN \<and> out = test_frame)"

definition dense_script :: bytes where
  "dense_script = drop 5 test_frame @ concat (replicate 39 test_frame)"

definition dense_path :: "case_clock \<Rightarrow> bool" where
  "dense_path c \<longleftrightarrow>
     (let n = length dense_script;
          (ok, out, u) = sim_sync c True (uart_open_sim (opened_at c) dense_script (spaced 0 n) n)
      in ok \<and> (length out \<ge> RESULT_LEN \<longrightarrow> fst (parse_result out) = 0))"

definition loopback_guard :: "case_clock \<Rightarrow> bool" where
  "loopback_guard c \<longleftrightarrow> (let (ok, out, u) = sim_sync c False (uart_open_sim (opened_at c) [] [] 0) in \<not> ok)"

definition partial_script :: bytes where
  "partial_script = drop 5 test_frame @ test_frame @ test_frame"

text \<open>Whole frames from position \<open>pos\<close> on, up to one that does not parse or does not match.\<close>

fun count_frames :: "nat \<Rightarrow> bytes \<Rightarrow> nat" where
  "count_frames 0 out = 0"
| "count_frames (Suc k) out =
     (if length out < RESULT_LEN then 0
      else let (rc, r) = parse_result out in
           if rc \<noteq> 0 \<or> r_nonce r \<noteq> kNonce \<or> r_hash_top64 r \<noteq> kHash then 0 else Suc (count_frames k (drop RESULT_LEN out)))"

text \<open>This case can fail twice.\<close>

definition partial_lead :: "case_clock \<Rightarrow> nat" where
  "partial_lead c =
     (let n = length partial_script;
          (ok, out, u) = sim_sync c True (uart_open_sim (opened_at c) partial_script (spaced 0 n) n);
          whole = (length out div RESULT_LEN) * RESULT_LEN
      in if \<not> ok then 1
         else of_bool (length out > whole \<and> fst (parse_result out) = 0) +
              of_bool (count_frames (length out) (drop (length out - whole) out) \<noteq> whole div RESULT_LEN))"

record framing_clocks =
  clock1 :: case_clock
  clock2 :: case_clock
  clock3 :: case_clock
  clock4 :: case_clock
  clock5 :: case_clock
  clock6 :: case_clock

definition selftest_framing :: "framing_clocks \<Rightarrow> nat" where
  "selftest_framing cs =
     of_bool (\<not> quiet_line (clock1 cs)) + of_bool (\<not> quiet_then_frame (clock2 cs)) + of_bool (\<not> gap_path (clock3 cs)) +
     of_bool (\<not> dense_path (clock4 cs)) + of_bool (\<not> loopback_guard (clock5 cs)) + partial_lead (clock6 cs)"


section \<open>Streams that end in silence\<close>

text \<open>A clock that is good enough for a device: it moves on after empty polls, and every loop gets to poll after the last byte has come.\<close>

definition good_clock :: "case_clock \<Rightarrow> sim_uart \<Rightarrow> bool" where
  "good_clock c d \<longleftrightarrow> naps (collect_at c) d \<and> sim_len d + 15 \<le> late d (collect_at c) \<and> sim_len d \<le> late d (skip_at c) \<and> sim_len d \<le> late d (drain_at c)"

definition close_together :: "sim_uart \<Rightarrow> bool" where
  "close_together d \<longleftrightarrow> (\<forall>p < sim_len d. 0 < p \<longrightarrow> at_us d p \<le> at_us d (p - 1) + 2800)"

lemma sync_silence:
  assumes "good_clock c d" "wf_sim d" "in_order d" "close_together d" "sim_pos d = 0" "sim_len d < NSYNC"
  shows "\<exists>p u. sim_sync c True d = (True, take p (sim_buf d), u) \<and> rx_bytes u = of_nat p \<and> (p = sim_len d \<or> p = 0 \<and> 0 < at_us d 0)"
proof -
  obtain e b u1 where c: "sync_collect True (sim_polls (collect_at c) d) 0 [] idle_uart = (e, b, u1)" by (metis prod_cases3)
  have "fst (sync_collect True (sim_polls (collect_at c) d) (200 * 0) [] idle_uart) \<noteq> No_gap"
    by (rule collect_ends) (use assms in \<open>simp_all add: good_clock_def\<close>)
  then have ng: "e \<noteq> No_gap" using c by simp
  have "sync_collect True (sim_polls (collect_at c) d) (200 * 0) [] idle_uart = (e, b, u1)" using c by simp
  then obtain p where p: "p \<le> sim_len d" "b = script d p" "rx_bytes u1 = of_nat p" "quiet_at d p"
    using collect_silence [of True "collect_at c" d 0 "[]" idle_uart e b u1] ng assms(1,2,5) by (auto simp: NSYNC_def good_clock_def idle_uart_def)
  have close: "p < sim_len d \<Longrightarrow> 0 < p \<Longrightarrow> at_us d p \<le> at_us d (p - 1) + 2800" using assms(4) by (simp add: close_together_def)
  have "p = sim_len d \<or> p = 0 \<and> 0 < at_us d 0"
    using p(1,4) close by (cases "p = sim_len d"; cases "p = 0") (simp_all add: quiet_at_def)
  moreover have "e = At_quiet \<Longrightarrow> b = []" using sync_collect_start [OF c] by (auto simp: collected_def)
  then have "sim_sync c True d = (True, b, u1)" using c ng by (cases e) (simp_all add: sim_sync_def frame_sync_def Let_def)
  ultimately show ?thesis using p assms(5) by (intro exI [of _ p] exI [of _ u1]) (simp add: script_def)
qed

lemma spaced_nth: "i < n \<Longrightarrow> spaced from n ! i = from + of_nat i * 87" "length (spaced from n) = n"
  by (simp_all add: spaced_def)

lemma unat_spaced:
  fixes a :: u64
  assumes "unat a \<le> 50000" "i < 1000"
  shows "unat (a + of_nat i * 87) = unat a + i * 87"
proof -
  have l: "unat a + i * 87 < 18446744073709551616" using assms by simp
  have "a + of_nat i * 87 = of_nat (unat a + i * 87)" by simp
  then have "unat (a + of_nat i * 87) = unat (of_nat (unat a + i * 87) :: u64)" by presburger
  also have "\<dots> = unat a + i * 87" using l unfolding unat_of_nat by simp
  finally show ?thesis .
qed

lemma opened_script:
  assumes "n \<le> length buf" "n < 1000" "unat a \<le> 50000" "d = uart_open_sim now buf (spaced a n) n"
  shows "wf_sim d" "in_order d" "close_together d" "sim_pos d = 0" "sim_len d = n" "sim_buf d = buf" "\<And>p. p < n \<Longrightarrow> at_us d p = unat a + p * 87"
proof -
  show l: "sim_pos d = 0" "sim_len d = n" "sim_buf d = buf" by (simp_all add: assms(4) uart_open_sim_def)
  show at: "at_us d p = unat a + p * 87" if "p < n" for p
    using that assms(2,3) unat_spaced [of a p] by (simp add: assms(4) uart_open_sim_def at_us_def spaced_nth)
  show "wf_sim d" using assms(1) by (simp add: assms(4) uart_open_sim_def wf_sim_def spaced_nth)
  show "in_order d" "close_together d" using at l by (auto simp: in_order_def close_together_def last_at_def)
qed

lemma test_frame_bytes: "test_frame = [1, 96, 59, 118, 0, 0, 0, 0, 224, 0, 126, 65, 147, 113, 61, 117, 79]"
  by code_simp

lemma test_frame_length: "length test_frame = RESULT_LEN"
  by (simp add: test_frame_bytes RESULT_LEN_def)

lemma arrived_rest:
  "wf_sim d \<Longrightarrow> in_order d \<Longrightarrow> p \<le> sim_len d \<Longrightarrow> sim_len d \<le> late d ts \<Longrightarrow> arrived (sim_polls ts (d\<lparr>sim_pos := p\<rparr>)) = drop p (take (sim_len d) (sim_buf d))"
  using arrived_all [of "d\<lparr>sim_pos := p\<rparr>" ts] by (simp add: wf_sim_def script_def drop_take)

text \<open>A short stream that starts at once is handed back whole.\<close>

lemma sync_whole:
  assumes "d = uart_open_sim now buf (spaced 0 (length buf)) (length buf)" "good_clock c d" "length buf < NSYNC"
  shows "\<exists>u. sim_sync c True d = (True, buf, u) \<and> rx_bytes u = of_nat (length buf)"
proof -
  have o: "wf_sim d" "in_order d" "close_together d" "sim_pos d = 0" "sim_len d = length buf" "sim_buf d = buf" "\<And>p. p < length buf \<Longrightarrow> at_us d p = p * 87"
    using opened_script [OF order_refl _ _ assms(1)] assms(3) by (simp_all add: NSYNC_def)
  show ?thesis using sync_silence [OF assms(2) o(1-4)] o(5-7) assms(3) by (cases "buf = []") auto
qed

lemma quiet_line_passes: "good_clock c (uart_open_sim (opened_at c) [] [] 0) \<Longrightarrow> quiet_line c"
  using sync_whole [of _ "opened_at c" "[]" c] by (auto simp: quiet_line_def NSYNC_def spaced_def)

lemma gap_path_passes:
  assumes "good_clock c (uart_open_sim (opened_at c) test_frame (spaced 0 RESULT_LEN) RESULT_LEN)"
  shows "gap_path c"
  using sync_whole [OF refl, of c "opened_at c" test_frame, unfolded test_frame_length, OF assms]
  by (auto simp: gap_path_def NSYNC_def RESULT_LEN_def test_frame_length)

lemma partial_lead_passes:
  assumes "good_clock c (uart_open_sim (opened_at c) partial_script (spaced 0 (length partial_script)) (length partial_script))"
  shows "partial_lead c = 0"
proof -
  have l: "length partial_script = 46" by (simp add: partial_script_def test_frame_length RESULT_LEN_def)
  obtain u where s: "sim_sync c True (uart_open_sim (opened_at c) partial_script (spaced 0 46) 46) = (True, partial_script, u)"
    using sync_whole [OF refl assms] l by (auto simp: NSYNC_def)
  have p: "fst (parse_result partial_script) \<noteq> 0" by code_simp
  have "count_frames 46 (drop 12 partial_script) = 2" by code_simp
  then show ?thesis using p by (simp add: partial_lead_def l s RESULT_LEN_def)
qed

lemma quiet_then_frame_passes:
  assumes "good_clock c (uart_open_sim (opened_at c) test_frame (spaced 50000 RESULT_LEN) RESULT_LEN)"
  shows "quiet_then_frame c"
proof -
  define d where "d = uart_open_sim (opened_at c) test_frame (spaced 50000 RESULT_LEN) RESULT_LEN"
  have g: "good_clock c d" using assms by (simp add: d_def)
  have o: "wf_sim d" "in_order d" "close_together d" "sim_pos d = 0" "sim_len d = RESULT_LEN" "sim_buf d = test_frame"
    using opened_script [OF _ _ _ d_def] by (simp_all add: RESULT_LEN_def test_frame_length)
  obtain p u where p: "sim_sync c True d = (True, take p test_frame, u)" "rx_bytes u = of_nat p" "p = RESULT_LEN \<or> p = 0"
    using sync_silence [OF g o(1-4)] o(5,6) by (auto simp: NSYNC_def RESULT_LEN_def)
  have p17: "p \<le> RESULT_LEN" using p(3) by auto
  then have m: "sim_moved u d = d\<lparr>sim_pos := p\<rparr>" using p(2) by (simp add: sim_moved_def unat_of_nat RESULT_LEN_def)
  have "arrived (sim_polls (drain_at c) (d\<lparr>sim_pos := p\<rparr>)) = drop p test_frame"
    using arrived_rest [OF o(1,2), of p "drain_at c"] o g p17 by (simp add: good_clock_def test_frame_length)
  moreover have t: "length (take p test_frame) = p" "take RESULT_LEN (take p test_frame) = take p test_frame" using p17 by (simp_all add: test_frame_length min_def)
  ultimately have "fst (read_bytes (RESULT_LEN - p) (sim_polls (drain_at c) (sim_moved u d)) (take p test_frame) u) = test_frame"
    by (simp add: read_bytes_eq m test_frame_length)
  moreover have "parse_result test_frame = (0, \<lparr>r_success = True, r_nonce = kNonce, r_hash_top64 = kHash\<rparr>)" by code_simp
  ultimately show ?thesis using p(1) t by (simp add: quiet_then_frame_def d_def [symmetric] Let_def test_frame_length)
qed

lemma loopback_guard_holds: "loopback_guard c"
proof -
  let ?d = "uart_open_sim (opened_at c) [] [] 0"
  obtain e b u1 where c: "sync_collect False (sim_polls (collect_at c) ?d) 0 [] idle_uart = (e, b, u1)" by (metis prod_cases3)
  have "arrived (sim_polls (collect_at c) ?d) = []"
    using arrived_prefix [of ?d "collect_at c"] by (auto simp: wf_sim_def uart_open_sim_def script_def)
  then have "arrived (take k (sim_polls (collect_at c) ?d)) = []" for k
    using arrived_simps(2) [of "take k (sim_polls (collect_at c) ?d)" "drop k (sim_polls (collect_at c) ?d)"] by simp
  then have "b = []" "e = No_gap" using sync_collect_start [OF c] by (cases e; auto simp: collected_def)+
  then show ?thesis using c by (simp add: loopback_guard_def sim_sync_def frame_sync_def Let_def RESULT_LEN_def)
qed

section \<open>The dense stream\<close>

lemma nth_repeated: "k < n * length xs \<Longrightarrow> concat (replicate n xs) ! k = xs ! (k mod length xs)"
proof (induction n arbitrary: k)
  case (Suc n)
  then show ?case by (cases "k < length xs") (simp_all add: nth_append le_mod_geq)
qed simp

lemma dense_script_eq: "dense_script = drop 5 (concat (replicate 40 test_frame))"
proof -
  have "concat (replicate 40 test_frame) = test_frame @ concat (replicate 39 test_frame)" by (simp add: numeral_eq_Suc)
  then show ?thesis by (simp add: dense_script_def test_frame_length RESULT_LEN_def)
qed

lemma dense_length: "length dense_script = 675"
  by (simp add: dense_script_eq length_concat test_frame_length RESULT_LEN_def sum_list_replicate)

lemma dense_flag: "j < 675 \<Longrightarrow> dense_script ! j = 1 \<longleftrightarrow> j mod 17 = 12"
proof -
  assume j: "j < 675"
  have f: "list_all (\<lambda>m. test_frame ! m = 1 \<longleftrightarrow> m = 0) [0..<17]" unfolding test_frame_bytes by code_simp
  have "dense_script ! j = concat (replicate 40 test_frame) ! (5 + j)"
    using j by (simp add: dense_script_eq length_concat test_frame_length RESULT_LEN_def sum_list_replicate)
  also have "\<dots> = test_frame ! ((5 + j) mod 17)" using nth_repeated [of "5 + j" 40 test_frame] j by (simp add: test_frame_length RESULT_LEN_def)
  finally have "dense_script ! j = 1 \<longleftrightarrow> (5 + j) mod 17 = 0" using f by (simp add: list_all_iff)
  also have "\<dots> \<longleftrightarrow> j mod 17 = 12" by presburger
  finally show ?thesis .
qed

lemma bucket_flags:
  assumes "\<And>j. j < length buf \<Longrightarrow> buf ! j = 1 \<longleftrightarrow> j mod RESULT_LEN = r"
  shows "bucket buf i = (if i = r then length (filter (\<lambda>j. j mod RESULT_LEN = r) [0..<length buf]) else 0)"
proof -
  have "filter (\<lambda>j. buf ! j = 0x01 \<and> j mod RESULT_LEN = i) [0..<length buf] = filter (\<lambda>j. i = r \<and> j mod RESULT_LEN = r) [0..<length buf]"
    by (rule filter_cong) (auto simp: assms)
  then show ?thesis by (simp add: bucket_def)
qed

lemma count_residue: "r < m \<Longrightarrow> length (filter (\<lambda>j. j mod m = r) [0..<m * n]) = n"
proof (induction n)
  case (Suc n)
  have "[0..<m * Suc n] = [0..<m * n] @ map (\<lambda>i. i + m * n) [0..<m]"
    using upt_add_eq_append [of 0 "m * n" m] map_add_upt [of "m * n" m] by (simp add: add.commute)
  moreover have "length (filter (\<lambda>j. j mod m = r) (map (\<lambda>i. i + m * n) [0..<m])) = length (filter (\<lambda>i. i = r) [0..<m])"
    unfolding filter_map length_map by (rule arg_cong [of _ _ length]) (auto intro: filter_cong)
  moreover have "{i. i = r} \<inter> set [0..<m] = {r}" using Suc.prems by auto
  then have "length (filter (\<lambda>i. i = r) [0..<m]) = 1" by (simp add: distinct_length_filter)
  ultimately show ?case using Suc by simp
qed simp

lemma dense_bucket: "bucket (take 512 dense_script) i = (if i = 12 then 30 else 0)"
proof -
  have l: "length (take 512 dense_script) = 512" by (simp add: dense_length)
  have c: "length (filter (\<lambda>j. j mod RESULT_LEN = 12) [0..<512]) = 30"
  proof -
    have upt_510: "[510..<512] = [510, 511 :: nat]" by simp
    have "[0..<512] = [0..<RESULT_LEN * 30] @ [510, 511]"
      using upt_add_eq_append [of 0 510 2] upt_510 by (simp add: RESULT_LEN_def del: upt_rec_numeral)
    then show ?thesis using count_residue [of 12 RESULT_LEN 30] by (simp add: RESULT_LEN_def del: upt_rec_numeral)
  qed
  have "take 512 dense_script ! j = 1 \<longleftrightarrow> j mod RESULT_LEN = 12" if "j < length (take 512 dense_script)" for j
    using that by (simp add: dense_flag dense_length RESULT_LEN_def)
  then have "bucket (take 512 dense_script) i = (if i = 12 then length (filter (\<lambda>j. j mod RESULT_LEN = 12) [0..<length (take 512 dense_script)]) else 0)"
    by (rule bucket_flags)
  then show ?thesis unfolding l c .
qed

lemma dense_lock: "best_residue (take 512 dense_script) = 12" "lock_skip (take 512 dense_script) = 10"
proof -
  show b: "best_residue (take 512 dense_script) = 12" by (rule best_residue_unique) (simp_all add: dense_bucket RESULT_LEN_def)
  show "lock_skip (take 512 dense_script) = 10" by (simp add: lock_skip_def b dense_length RESULT_LEN_def)
qed

lemma skip_bytes_rx: "fst (skip_bytes k ps u) \<Longrightarrow> rx_bytes (snd (skip_bytes k ps u)) = rx_bytes u + of_nat k"
proof (induction k ps u rule: skip_bytes.induct)
  case (3 k p ps u)
  obtain v u1 where g: "uart_get_nb p u = (v, u1)" by fastforce
  show ?case
  proof (cases v)
    case None
    then show ?thesis using "3.IH"(1) [OF g [symmetric] None] "3.prems" g get_nb_arrived(1) [of p u u1] by simp
  next
    case (Some b)
    have "rx_bytes (snd (skip_bytes k ps u1)) = rx_bytes u1 + of_nat k" using "3.IH"(2) [OF g [symmetric] Some] "3.prems" g Some by simp
    then show ?thesis using g Some get_nb_arrived(2) [of p u b u1] by simp
  qed
qed simp_all

text \<open>The synchroniser's collection runs full.\<close>

lemma dense_collect:
  assumes "d = uart_open_sim now dense_script (spaced 0 675) 675" "good_clock c d"
  shows "\<exists>u. sync_collect True (sim_polls (collect_at c) d) 0 [] idle_uart = (No_gap, take 512 dense_script, u) \<and> rx_bytes u = 512"
proof -
  let ?ps = "sim_polls (collect_at c) d"
  have o: "wf_sim d" "in_order d" "close_together d" "sim_pos d = 0" "sim_len d = 675" "sim_buf d = dense_script" "\<And>p. p < 675 \<Longrightarrow> at_us d p = p * 87"
    using opened_script [OF _ _ _ assms(1)] by (simp_all add: dense_length)
  obtain e b u where c: "sync_collect True ?ps 0 [] idle_uart = (e, b, u)" by (metis prod_cases3)
  obtain k where k: "k \<le> length ?ps" "b = arrived (take k ?ps)" "length b \<le> NSYNC" "rx_bytes u = of_nat (length b)" "e = No_gap \<longrightarrow> length b = NSYNC \<or> k = length ?ps"
    using sync_collect_start [OF c] by (auto simp: collected_def idle_uart_def)
  have all: "arrived ?ps = dense_script"
    using arrived_all [OF o(1,2), of "collect_at c"] o(4-6) assms(2) by (simp add: good_clock_def script_def dense_length)
  have e: "e = No_gap"
  proof (rule ccontr)
    assume ng: "e \<noteq> No_gap"
    have "sync_collect True ?ps (200 * 0) [] idle_uart = (e, b, u)" using c by simp
    then obtain p where p: "p \<le> 675" "b = script d p" "quiet_at d p"
      using collect_silence [of True "collect_at c" d 0 "[]" idle_uart e b u] ng assms(2) o by (auto simp: NSYNC_def good_clock_def)
    have close: "p < 675 \<Longrightarrow> 0 < p \<Longrightarrow> at_us d p \<le> at_us d (p - 1) + 2800" using o(3,5) by (simp add: close_together_def)
    have "p = 675" using p(1,3) close o(5,7) by (cases "p = 675"; cases "p = 0") (simp_all add: quiet_at_def)
    then show False using p(2) k(3) o by (simp add: script_def dense_length NSYNC_def)
  qed
  then have l: "length b = 512" using k(3,5) k(2) all by (auto simp: NSYNC_def dense_length)
  have "dense_script = b @ arrived (drop k ?ps)" using all k(2) arrived_simps(2) [of "take k ?ps" "drop k ?ps"] by simp
  then have "b = take 512 dense_script" using l by (metis append_eq_conv_conj)
  then show ?thesis using c e k(4) l by simp
qed

lemma dense_path_passes:
  assumes "good_clock c (uart_open_sim (opened_at c) dense_script (spaced 0 (length dense_script)) (length dense_script))"
  shows "dense_path c"
proof -
  define d where "d = uart_open_sim (opened_at c) dense_script (spaced 0 675) 675"
  have g: "good_clock c d" using assms by (simp add: d_def dense_length)
  have o: "wf_sim d" "in_order d" "sim_pos d = 0" "sim_len d = 675" "sim_buf d = dense_script"
    using opened_script [OF _ _ _ d_def] by (simp_all add: dense_length)
  obtain u1 where c: "sync_collect True (sim_polls (collect_at c) d) 0 [] idle_uart = (No_gap, take 512 dense_script, u1)" "rx_bytes u1 = 512"
    using dense_collect [OF d_def g] by blast
  let ?skips = "sim_polls (skip_at c) (d\<lparr>sim_pos := 512\<rparr>)"
  have m1: "sim_moved u1 d = d\<lparr>sim_pos := 512\<rparr>" using c(2) by (simp add: sim_moved_def)
  have "arrived ?skips = drop 512 dense_script" using arrived_rest [OF o(1,2), of 512 "skip_at c"] o g by (simp add: good_clock_def dense_length)
  then have s: "fst (skip_bytes 10 ?skips u1)" by (simp add: skip_bytes_iff dense_length)
  obtain u2 where u2: "skip_bytes 10 ?skips u1 = (True, u2)" using s by (metis (full_types) prod.collapse)
  have "rx_bytes u2 = 522" using skip_bytes_rx [OF s] u2 c(2) by simp
  then have m2: "sim_moved u2 d = d\<lparr>sim_pos := 522\<rparr>" by (simp add: sim_moved_def)
  let ?reads = "sim_polls (read_at c) (d\<lparr>sim_pos := 522\<rparr>)"
  obtain p where p: "arrived ?reads = script (d\<lparr>sim_pos := 522\<rparr>) p" using arrived_prefix [of "d\<lparr>sim_pos := 522\<rparr>" "read_at c"] o by (auto simp: wf_sim_def)
  define out where "out = fst (read_bytes (RESULT_LEN * 8) ?reads [] u2)"
  have out: "out = take (RESULT_LEN * 8) (take (p - 522) (drop 522 dense_script))" using p o by (simp add: out_def read_bytes_eq script_def)
  have "out ! 0 = 1" if "RESULT_LEN \<le> length out"
    using that dense_flag [of 522] unfolding out by (simp add: dense_length RESULT_LEN_def)
  moreover obtain u where "read_bytes (RESULT_LEN * 8) ?reads [] u2 = (out, u)" unfolding out_def by (metis prod.collapse)
  then have "sim_sync c True d = (True, out, u)"
    using c u2 m1 m2 by (auto simp: sim_sync_def frame_sync_def Let_def dense_bucket dense_lock dense_length RESULT_LEN_def)
  ultimately show ?thesis by (simp add: dense_path_def dense_length d_def [symmetric] parse_result_def Let_def)
qed

section \<open>Properties\<close>

text \<open>Clocks under which every loop of the test gets to see what it waits for.\<close>

definition good_clocks :: "framing_clocks \<Rightarrow> bool" where
  "good_clocks cs \<longleftrightarrow>
     good_clock (clock1 cs) (uart_open_sim (opened_at (clock1 cs)) [] [] 0) \<and>
     good_clock (clock2 cs) (uart_open_sim (opened_at (clock2 cs)) test_frame (spaced 50000 RESULT_LEN) RESULT_LEN) \<and>
     good_clock (clock3 cs) (uart_open_sim (opened_at (clock3 cs)) test_frame (spaced 0 RESULT_LEN) RESULT_LEN) \<and>
     good_clock (clock4 cs) (uart_open_sim (opened_at (clock4 cs)) dense_script (spaced 0 (length dense_script)) (length dense_script)) \<and>
     good_clock (clock6 cs) (uart_open_sim (opened_at (clock6 cs)) partial_script (spaced 0 (length partial_script)) (length partial_script))"

text \<open>
  the framing selftest passes.  Whatever the clocks show, as long as time moves on by at least the 200 microseconds of a nap after every empty poll and each loop still polls after the last byte of its script has
  come, all six cases succeed: silence, silence and then a frame, a frame and then silence, a saturated line entered in mid-frame, a silent line for a caller that needs bytes, and a cut frame before whole ones.
  The case of the silent line that must not succeed needs nothing of its clock.
\<close>

theorem framing_selftest_passes:
  assumes "good_clocks cs"
  shows "selftest_framing cs = 0"
  using assms quiet_line_passes quiet_then_frame_passes gap_path_passes dense_path_passes loopback_guard_holds partial_lead_passes
  by (simp add: good_clocks_def selftest_framing_def)

definition slow_clock :: case_clock where
  "slow_clock = \<lparr>opened_at = 1, collect_at = slow_times, skip_at = slow_times, read_at = slow_times, drain_at = slow_times\<rparr>"

lemma slow_clock_good:
  assumes "n \<le> length buf" "n \<le> 675" "unat a \<le> 50000" "d = uart_open_sim 1 buf (spaced a n) n"
  shows "good_clock slow_clock d"
proof -
  have o: "sim_len d = n" "\<And>p. p < n \<Longrightarrow> at_us d p = unat a + p * 87" using opened_script [OF assms(1) _ assms(3,4)] assms(2) by simp_all
  have t: "sim_t0_us d = 1" by (simp add: assms(4) uart_open_sim_def)
  have "last_at d \<le> 1000000" using o(2) [of "n - 1"] assms(2,3) o(1) by (cases "n = 0") (simp_all add: last_at_def)
  then show ?thesis using assms(2) o(1) slow_polls [OF t] by (simp add: good_clock_def slow_clock_def)
qed

definition slow_clocks :: framing_clocks where
  "slow_clocks = \<lparr>clock1 = slow_clock, clock2 = slow_clock, clock3 = slow_clock, clock4 = slow_clock, clock5 = slow_clock, clock6 = slow_clock\<rparr>"

lemma slow_clocks_good: "good_clocks slow_clocks"
proof -
  have o: "opened_at slow_clock = 1" by (simp add: slow_clock_def)
  have "good_clock slow_clock (uart_open_sim 1 [] (spaced 0 0) 0)" by (rule slow_clock_good [OF _ _ _ refl]) simp_all
  then have 1: "good_clock slow_clock (uart_open_sim 1 [] [] 0)" by (simp add: spaced_def)
  have 2: "good_clock slow_clock (uart_open_sim 1 test_frame (spaced 50000 RESULT_LEN) RESULT_LEN)" "good_clock slow_clock (uart_open_sim 1 test_frame (spaced 0 RESULT_LEN) RESULT_LEN)"
    by (rule slow_clock_good [OF _ _ _ refl]; simp add: test_frame_length RESULT_LEN_def)+
  have 3: "good_clock slow_clock (uart_open_sim 1 s (spaced 0 (length s)) (length s))" if "length s \<le> 675" for s
    by (rule slow_clock_good [OF _ _ _ refl]) (use that in simp_all)
  show ?thesis using 1 2 3 [of dense_script] 3 [of partial_script]
    by (simp add: good_clocks_def slow_clocks_def o dense_length partial_script_def test_frame_length RESULT_LEN_def)
qed

theorem framing_selftest_passes_witness: "selftest_framing slow_clocks = 0"
  using framing_selftest_passes [OF slow_clocks_good] .

end
