(* ===== verification/Startup.thy ===== *)
theory Startup
  imports Cli Selftest_Sockets Selftest_Framing
begin

text \<open>
  From the command line to the mining loop (the rest of \<^verbatim>\<open>main\<close> in \<^verbatim>\<open>src/miner/miner.c\<close>, with the selftests it runs on the
  way): the two probe modes, the order of the selftests and what each outcome leads to.  The clocks of the framing selftest and the
  loopback network of the protocol selftest are part of the environment.
\<close>

unbundle bit_operations_syntax

section \<open>Selftests\<close>

definition sha_abc :: bytes where
  "sha_abc = [0xba,0x78,0x16,0xbf,0x8f,0x01,0xcf,0xea,0x41,0x41,0x40,0xde,0x5d,0xae,0x22,0x23,
              0xb0,0x03,0x61,0xa3,0x96,0x17,0x7a,0x9c,0xb4,0x10,0xff,0x61,0xf2,0x00,0x15,0xad]"

definition b2_abc :: bytes where
  "b2_abc = [0xba,0x80,0xa5,0x3f,0x98,0x1c,0x4d,0x0d,0x6a,0x27,0x97,0xb6,0x9f,0x12,0xf6,0xe9,
             0x4c,0x21,0x2f,0x14,0x68,0x5a,0xc4,0xb7,0x4b,0x12,0xbb,0x6f,0xdb,0xff,0xa2,0xd1,
             0x7d,0x87,0xc5,0x39,0x2a,0xab,0x79,0x2d,0xc2,0x52,0xd5,0xde,0x45,0x33,0xcc,0x95,
             0x18,0xd3,0x8a,0xa8,0xdb,0xf1,0x92,0x5a,0xb9,0x23,0x86,0xed,0xd4,0x00,0x99,0x23]"

definition selftest_vectors :: "nat \<Rightarrow> int" where
  "selftest_vectors shift =
     (let ok = (sha256 (string_bytes ''abc'') = sha_abc);
          ok = (blake2b_nokey (string_bytes ''abc'') 64 = b2_abc \<and> ok);
          h = probe_header;
          ok = (case build_work_item h (target_top64_from_bits (nBits h) shift) of Inl _ \<Rightarrow> False | Inr _ \<Rightarrow> ok);
          ok = (case get_pow_hash h of Inl _ \<Rightarrow> False | Inr _ \<Rightarrow> ok);
          ok = (if target_top64_from_bits 0x1903c2d4 22 \<noteq> 0x0000000000f0b500 then False else ok)
      in if ok then 0 else -1)"

text \<open>\<open>after\<close> is the \<^verbatim>\<open>STAT\<close> register read after both FIFOs were reset.\<close>

definition selftest_uart :: "u32 \<Rightarrow> int" where
  "selftest_uart after = (if after AND STAT_TX_EMPTY = 0 then -1 else 0)"

record dump_env =
  d_stale :: "poll list"
  d_quiet_from :: u64
  d_quiet :: "(poll \<times> u64 \<times> u64) list"
  d_waits :: "u64 list list"
  d_polls :: "poll list"

definition NDUMP :: nat where "NDUMP = 512"

fun dump_collect :: "poll list \<Rightarrow> bytes \<Rightarrow> uio_uart \<Rightarrow> bytes \<times> uio_uart" where
  "dump_collect [] buf u = (buf, u)"
| "dump_collect (p # ps) buf u =
     (if length buf \<ge> NDUMP then (buf, u)
      else case uart_get_nb p u of
             (Some b, u) \<Rightarrow> dump_collect ps (buf @ [b]) u
           | (None, u) \<Rightarrow> dump_collect ps buf u)"

text \<open>The log of a dump: the lines of hexadecimal, the number of distinct values, the best residue and its count.\<close>

fun hex_lines :: "nat \<Rightarrow> bytes \<Rightarrow> string list" where
  "hex_lines 0 buf = []"
| "hex_lines (Suc k) buf =
     (if buf = [] then [] else concat (map (\<lambda>b. bin2hex [b] @ '' '') (take 32 buf)) # hex_lines k (drop 32 buf))"

definition dump_report :: "bytes \<Rightarrow> string list \<times> nat \<times> nat \<times> nat" where
  "dump_report buf = (hex_lines (length buf) buf, length (filter (\<lambda>v. v \<in> set buf) (map of_nat [0..<256])), best_residue buf, bucket buf (best_residue buf))"

definition selftest_rxdump :: "dump_env \<Rightarrow> u64 \<Rightarrow> uio_uart \<Rightarrow> bool \<times> u64 \<times> uio_uart \<times> (string list \<times> nat \<times> nat \<times> nat) option" where
  "selftest_rxdump e n u =
     (case build_work_item probe_header 0xFFFFFFFFFFFFFFFF of
        Inl _ \<Rightarrow> (False, n, u, None)
      | Inr item \<Rightarrow>
          let u = uart_purge_rx (d_stale e) u;
              (_, u) = uart_wait_quiet (d_quiet_from e) QUIET_IDLE_US QUIET_WAIT_US (d_quiet e) u;
              (ok, u) = uart_write (d_waits e) TX_TIMEOUT_US item u
          in if \<not> ok then (False, n, u, None)
             else let (buf, u) = dump_collect (d_polls e) [] u
                  in if buf = [] then (False, n + 1, u, None) else (True, n + 1, u, Some (dump_report buf)))"

section \<open>The way to the loop\<close>

record boot_env =
  sockets :: socket_env
  framing_at :: framing_clocks
  dev_fd :: int
  dev_maps :: bool
  stat_after_reset :: u32
  dump_polls :: dump_env
  phases :: "phase_env list"

text \<open>The results shown on the page, the calibration and the device.\<close>

record boot =
  bt_vectors :: int
  bt_uart :: int
  bt_loopback :: int
  bt_search :: loopback
  bt_error :: string

datatype outcome = Exit nat boot | Mining boot

definition exit_if :: "int \<Rightarrow> nat" where
  "exit_if rc = (if rc \<noteq> 0 then 1 else 0)"

definition vectors_result :: "nat \<Rightarrow> int" where
  "vectors_result shift = (let v = selftest_vectors shift in if v = 0 then fst selftest_block_production else v)"

definition on_uart :: "(uio_uart \<Rightarrow> uio_uart) \<Rightarrow> boot \<Rightarrow> boot" where
  "on_uart f b = b\<lparr>bt_search := (bt_search b)\<lparr>lb_uart := f (lb_uart (bt_search b))\<rparr>\<rparr>"

definition calibrate :: "boot_env \<Rightarrow> config \<Rightarrow> boot \<Rightarrow> outcome" where
  "calibrate e c b =
     (if cfg_chain c = CHAIN_SIA then
        Mining (b\<lparr>bt_loopback := 0, bt_search := (bt_search b)\<lparr>lb_offset := 0\<rparr>\<rparr>)
      else let (ok, s) = selftest_loopback (phases e) (bt_search b);
               rc = (if ok then 0 else -1 :: int);
               b = b\<lparr>bt_loopback := rc, bt_search := s\<rparr>
           in if selftest c = Some ''loopback'' \<or> selftest c = Some ''all'' then Exit (exit_if rc) (on_uart uart_close b)
              else if rc \<noteq> 0 then Exit 1 (on_uart uart_close (b\<lparr>bt_error := ''loopback failed; FPGA not answering''\<rparr>))
              else Mining b)"

definition with_uart :: "boot_env \<Rightarrow> config \<Rightarrow> boot \<Rightarrow> outcome" where
  "with_uart e c b =
     (let (ok, u) = uart_open (dev_fd e) (dev_maps e) (lb_uart (bt_search b)); b = on_uart (\<lambda>_. u) b in
      if \<not> ok then Exit 1 (b\<lparr>bt_error := snprintf_s 192 (''Cannot mmap UART '' @ uart_dev c), bt_uart := -1\<rparr>)
      else let rc = selftest_uart (stat_after_reset e); b = b\<lparr>bt_uart := rc\<rparr> in
      if selftest c = Some ''uart'' then Exit (exit_if rc) (on_uart uart_close b)
      else if selftest c = Some ''rxdump'' then
        let (ok, n, u, _) = selftest_rxdump (dump_polls e) (lb_items_sent (bt_search b)) (lb_uart (bt_search b))
        in Exit (if ok then 0 else 1) (on_uart uart_close (b\<lparr>bt_search := (bt_search b)\<lparr>lb_items_sent := n, lb_uart := u\<rparr>\<rparr>))
      else calibrate e c b)"

definition configured_pool :: "platform \<Rightarrow> config \<Rightarrow> pool" where
  "configured_pool pf c =
     worksrc_stratum_configure pf (cfg_chain c) (stratum_host c) (stratum_port c)
       (Some (case pool_worker c of Some w \<Rightarrow> w | None \<Rightarrow> ''osprey'')) (pool_pass c) (devfee_pool c) (devfee_worker c) (devfee_pass c) pool_start"

text \<open>The pool source as the selftests find it.\<close>

definition pool_before :: "platform \<Rightarrow> config \<Rightarrow> pool" where
  "pool_before pf c = (if stratum_host c = None then pool_start else configured_pool pf c)"

definition boot_up :: "platform \<Rightarrow> boot_env \<Rightarrow> config \<Rightarrow> boot \<Rightarrow> outcome" where
  "boot_up pf e c b =
     (if selftest c = Some ''block'' then Exit (exit_if (fst selftest_block_production)) b
      else if selftest c = Some ''stratum'' then Exit (exit_if (selftest_stratum pf (sockets e) (pool_before pf c))) b
      else if selftest c = Some ''framing'' then Exit (exit_if (int (selftest_framing (framing_at e)))) b
      else if selftest c = None \<or> selftest c = Some ''vectors'' \<or> selftest c = Some ''all'' then
        let rc = vectors_result (target_shift c); b = b\<lparr>bt_vectors := rc\<rparr> in
        if selftest c = Some ''vectors'' then Exit (exit_if rc) b
        else if rc \<noteq> 0 then Exit 1 (b\<lparr>bt_error := ''vector selftest failed''\<rparr>)
        else with_uart e c b
      else with_uart e c b)"

definition boot_start :: "uio_uart \<Rightarrow> boot" where
  "boot_start u = \<lparr>bt_vectors = -1, bt_uart = -1, bt_loopback = -1,
     bt_search = \<lparr>lb_uart = u, lb_sync = no_syncs, lb_items_sent = 0, lb_offset = 97\<rparr>, bt_error = []\<rparr>"

section \<open>Probe modes\<close>

definition submit_test_mode :: "libc \<Rightarrow> config \<Rightarrow> rpc_net \<Rightarrow> rpc_net \<Rightarrow> solo \<Rightarrow> nat \<times> solo" where
  "submit_test_mode lc c nw nw' s =
     (case get_template lc (solo_config.truncate c) nw s of
        (None, s) \<Rightarrow> (1, s)
      | (Some h, s) \<Rightarrow>
          let (_, s) = submit_block (solo_config.truncate c) nw' h s
          in (if strstr ''high-hash'' (last_submit s) \<noteq> None then 0 else 1, s))"

text \<open>
  What the pool probe meets: per poll for a job the clock, the network and the clock of the source, until the deadline; how many nonces the clock allows and what the socket
  takes at each; and the polls for the verdict.
\<close>

record probe_env =
  job_polls :: "(u64 \<times> poll_env \<times> u64) list"
  grind_budget :: nat
  grind_sends :: "u64 \<Rightarrow> send_res list"
  verdict_polls :: "(u64 \<times> poll_env) list"

fun wait_job :: "platform \<Rightarrow> (u64 \<times> poll_env \<times> u64) list \<Rightarrow> work_ctx \<Rightarrow> pool \<Rightarrow> work_ctx \<times> pool" where
  "wait_job pf [] ctx st = (ctx, st)"
| "wait_job pf ((t, nw, now) # ps) ctx st =
     (let (ok, ctx, st) = st_get_work pf now ctx (st_poll pf nw t st)
      in if ok then (ctx, st) else wait_job pf ps ctx st)"

fun grind :: "(u64 \<Rightarrow> send_res list) \<Rightarrow> chain \<Rightarrow> work_ctx \<Rightarrow> nat \<Rightarrow> u64 \<Rightarrow> pool \<Rightarrow> u64 option \<times> pool" where
  "grind sends cn ctx 0 n st = (None, st)"
| "grind sends cn ctx (Suc k) n st =
     (let (v, st) = st_on_candidate ctx n (chain_expected cn (ss4 ctx) n) (sends n) st
      in if v = CAND_SOLUTION then (Some n, st) else grind sends cn ctx k (n + 1) st)"

fun wait_verdict :: "platform \<Rightarrow> (u64 \<times> poll_env) list \<Rightarrow> pool \<Rightarrow> pool" where
  "wait_verdict pf [] st = st"
| "wait_verdict pf ((t, nw) # ps) st =
     (let st = st_poll pf nw t st; p = worksrc_stratum_status st
      in if s_shares_accepted p \<noteq> 0 \<or> s_shares_rejected p \<noteq> 0 then st else wait_verdict pf ps st)"

definition stratum_probe_mode :: "platform \<Rightarrow> probe_env \<Rightarrow> config \<Rightarrow> pool \<Rightarrow> nat \<times> pool" where
  "stratum_probe_mode pf e c st =
     (let (ctx, st) = wait_job pf (job_polls e) zero_ctx st in
      if \<not> ctx_valid ctx then (1, st)
      else case grind (grind_sends e) (cfg_chain c) ctx (min (grind_budget e) (2 ^ 40)) 0 st of
             (None, st) \<Rightarrow> (1, st)
           | (Some n, st) \<Rightarrow>
               let st = wait_verdict pf (verdict_polls e) st
               in (if s_shares_accepted (worksrc_stratum_status st) \<noteq> 0 then 0 else 1, st))"

section \<open>The program\<close>

definition chosen_source :: "platform \<Rightarrow> config \<Rightarrow> worksrc option" where
  "chosen_source pf c =
     select_source (use_synthetic c) (map_option (\<lambda>_. worksrc_stratum_backend (configured_pool pf c)) (stratum_host c)) []"

record main_env =
  m_getenv :: "string \<Rightarrow> string option"
  m_template_net :: rpc_net
  m_submit_net :: rpc_net
  m_resp :: string
  m_probe :: probe_env
  m_boot :: boot_env
  m_line :: uio_uart

datatype main_result = Exited nat | Mines worksrc config boot

definition main_run :: "platform \<Rightarrow> libc \<Rightarrow> bool \<Rightarrow> main_env \<Rightarrow> string list \<Rightarrow> main_result" where
  "main_run pf lc sia_build e argv =
     (case parse_args pf (m_getenv e) argv (default_config sia_build) of
        Inl (code, _) \<Rightarrow> Exited code
      | Inr c \<Rightarrow>
          (case chosen_source pf c of
             None \<Rightarrow> Exited 2
           | Some src \<Rightarrow>
               if submit_test c then Exited (fst (submit_test_mode lc c (m_template_net e) (m_submit_net e) (solo_start (m_resp e))))
               else if stratum_probe c then
                 (if stratum_host c = None then Exited 2 else Exited (fst (stratum_probe_mode pf (m_probe e) c (configured_pool pf c))))
               else (case boot_up pf (m_boot e) c (boot_start (m_line e)) of
                       Exit code _ \<Rightarrow> Exited code
                     | Mining b \<Rightarrow> Mines src c b)))"

section \<open>Lemmas\<close>

lemma mining_prob_headers: "wf_header probe_header" "m_flags probe_header AND 3 = 0"
  using wf_header_init by (simp_all add: probe_header_def wf_header_def knots_header_init_def)

lemma mainnet_target: "target_top64_from_bits 0x1903c2d4 22 = 0xf0b500"
  by code_simp

lemma probe_pow: obtains p where "get_pow_hash probe_header = Inr p"
proof -
  obtain s3 s4 a where "stage_inputs probe_header = Inr (s3, s4, a)"
    using mining_prob_headers(2) by (simp add: stage_inputs_eq [OF mining_prob_headers(1)] Let_def)
  then show thesis using get_pow_hash_rev that by blast
qed

lemma selftest_vectors_pass: "selftest_vectors shift = 0"
proof -
  obtain item where "build_work_item probe_header (target_top64_from_bits (nBits probe_header) shift) = Inr item" using probe_item by blast
  moreover obtain p where "get_pow_hash probe_header = Inr p" by (rule probe_pow)
  moreover have "string_bytes ''abc'' = [0x61, 0x62, 0x63]" by code_simp
  ultimately show ?thesis
    by (simp add: selftest_vectors_def sha_abc_def b2_abc_def sha256_abc blake2b_abc mainnet_target)
qed

section \<open>The pool probe\<close>

lemma configured_wf: "wf_pool (configured_pool pf c)" "g_chain (configured_pool pf c) = cfg_chain c"
  by (auto simp: configured_pool_def worksrc_stratum_configure_def wf_pool_def pool_start_def wf_init Let_def split: prod.splits)

lemma configured_unheard: "unheard (configured_pool pf c)"
proof -
  have "rx (session_of w (configured_pool pf c)) = [] \<and> \<not> have_job (session_of w (configured_pool pf c))" for w
    by (cases w) (auto simp: configured_pool_def worksrc_stratum_configure_def pool_start_def stratum_init_def Let_def split: prod.splits)
  then show ?thesis by (simp add: unheard_def)
qed

lemma configured_target:
  "host (g_main (configured_pool pf c)) = take 191 (case stratum_host c of Some h \<Rightarrow> h | None \<Rightarrow> [])" "port (g_main (configured_pool pf c)) = stratum_port c"
  by (auto simp: configured_pool_def worksrc_stratum_configure_def stratum_init_def snprintf_s_def Let_def split: prod.splits)

text \<open>The session of a live item: its job came in the text it received, and the pool's own session has the host and port that were asked for.\<close>

lemma configured_session:
  assumes "pool_run pf (configured_pool pf c) ps t st" "stratum_ready (session_of which st)"
  shows "announced (t which) (job (session_of which st)) \<and>
     (which = Main_session \<longrightarrow> host (session_of which st) = take 191 (case stratum_host c of Some h \<Rightarrow> h | None \<Rightarrow> []) \<and> port (session_of which st) = stratum_port c)"
  using run_told [OF assms(1) configured_unheard, of which] run_inv [OF assms(1), of which] assms(2)
  by (auto simp: told_by_def stratum_ready_def same_target_def configured_target)

lemma build_from_valid: "build_from pf which d ctx st = (False, ctx', st') \<Longrightarrow> ctx_valid ctx' = ctx_valid ctx"
  by (auto simp: build_from_def Let_def split: if_splits chain.splits option.splits prod.splits)

lemma get_work_valid: "st_get_work pf now ctx st = (False, ctx', st') \<Longrightarrow> ctx_valid ctx' = ctx_valid ctx"
  by (auto simp: st_get_work_def Let_def split: if_splits prod.splits dest!: build_from_valid)

lemma poll_wf: "wf_pool st \<Longrightarrow> wf_pool (st_poll pf e t st) \<and> g_chain (st_poll pf e t st) = g_chain st"
  by (rule poll_frame)

lemma wait_job_built:
  assumes "wait_job pf ps ctx st = (ctx', st')" "pool_run pf st0 qs t st" "\<not> ctx_valid ctx" "ctx_valid ctx'"
  shows "\<exists>k u st1 now ctx0. pool_run pf st0 (qs @ map (\<lambda>(_, nw, _). nw) (take k ps)) u st1 \<and> st_get_work pf now ctx0 st1 = (True, ctx', st')"
  using assms
proof (induction pf ps ctx st arbitrary: qs t rule: wait_job.induct)
  case (2 pf v nw now ps ctx st)
  obtain ok c s where g: "st_get_work pf now ctx (st_poll pf nw v st) = (ok, c, s)" by (metis prod_cases3)
  note p = pool_run.polled [OF "2.prems"(2), of nw v]
  show ?case
  proof (cases ok)
    case True
    then have "ctx' = c" "st' = s" using "2.prems"(1) g by simp_all
    then show ?thesis using p g True by (intro exI [of _ 1]) auto
  next
    case False
    then have "wait_job pf ps c s = (ctx', st')" "\<not> ctx_valid c"
      using "2.prems" g get_work_valid [of pf now ctx _ c s] by auto
    from "2.IH" [OF g [symmetric] refl refl False this(1) pool_run.work [OF p g] this(2) "2.prems"(4)] obtain k u st1 now0 ctx0 where
      "pool_run pf st0 ((qs @ [nw]) @ map (\<lambda>(_, nw, _). nw) (take k ps)) u st1" "st_get_work pf now0 ctx0 st1 = (True, ctx', st')" by blast
    then show ?thesis by (intro exI [of _ "Suc k"]) auto
  qed
qed simp

lemma grind_found:
  assumes "grind sends cn ctx k n0 st = (Some n, st')" "mining pf st0 which s st ctx"
  shows "\<exists>st1. mining pf st0 which s st1 ctx \<and> st_on_candidate ctx n (chain_expected cn (ss4 ctx) n) (sends n) st1 = (CAND_SOLUTION, st')"
  using assms
proof (induction sends cn ctx k n0 st rule: grind.induct)
  case (2 sends cn ctx k n0 st)
  obtain v x where v: "st_on_candidate ctx n0 (chain_expected cn (ss4 ctx) n0) (sends n0) st = (v, x)" by fastforce
  show ?case
  proof (cases "v = CAND_SOLUTION")
    case True
    then show ?thesis using "2.prems" v by auto
  next
    case False
    have "mining pf st0 which s x ctx"
      using mining.candidate [OF "2.prems"(2), of n0 "chain_expected cn (ss4 ctx) n0" "sends n0"] v by simp
    then show ?thesis using "2.IH" [OF v [symmetric] refl False] "2.prems"(1) v False by simp
  qed
qed simp

text \<open>
  C5: what a passed pool probe shows.  When the probe exits with 0, then during its wait for work a session of the configured pool, the pool's own, with the host and
  port of the command line, or the developer's when the fee was due, received a \<^verbatim>\<open>mining.notify\<close> line announcing the job it then had, and the work tried is that job's on the configured chain.
  Some nonce's full hash met that session's share target; one line with that job's id and time, the item's extranonce and the nonce went out on the same session, and raised its
  count of submitted shares by one; and after that the pool counted at least one accepted share.
\<close>

theorem probe_pass_is_a_share:
  assumes "stratum_probe_mode pf e c (configured_pool pf c) = (0, st')"
  shows "\<exists>k t st1 which s ctx st2 n st3.
     pool_run pf (configured_pool pf c) (map (\<lambda>(_, nw, _). nw) (take k (job_polls e))) t st1 \<and> s = session_of which st1 \<and> announced (t which) (job s) \<and>
     (which = Main_session \<longrightarrow> host s = take 191 (case stratum_host c of Some h \<Rightarrow> h | None \<Rightarrow> []) \<and> port s = stratum_port c) \<and>
     mining pf (configured_pool pf c) which s st2 ctx \<and>
     chain_item (cfg_chain c) (job s) (take (en1_len s) (extranonce1 s)) (cur_en2 (g_cur st2)) = Some (ss3 ctx, ss4 ctx) \<and>
     hash_meets_target (chain_pow (cfg_chain c) (ss4 ctx) n) (stratum_target_full pf s) \<and>
     sent (session_of which st3) = sent (session_of which st2) @
       submit_line (next_id (session_of which st2) + 1) (worker (session_of which st2)) (job_id (job s)) (cur_en2 (g_cur st2)) (ntime (job s)) (put_u64le n) \<and>
     shares_submitted (session_of which st3) = shares_submitted (session_of which st2) + 1 \<and>
     st' = wait_verdict pf (verdict_polls e) st3 \<and> s_shares_accepted (worksrc_stratum_status st') \<noteq> 0"
proof -
  let ?p = "configured_pool pf c"
  obtain ctx st0 where w: "wait_job pf (job_polls e) zero_ctx ?p = (ctx, st0)" by fastforce
  have v: "ctx_valid ctx" using assms w by (auto simp: stratum_probe_mode_def split: if_splits)
  obtain k t st1 now ctx0 where r: "pool_run pf ?p (map (\<lambda>(_, nw, _). nw) (take k (job_polls e))) t st1" and g: "st_get_work pf now ctx0 st1 = (True, ctx, st0)"
    using wait_job_built [OF w pool_run.start [OF configured_wf(1)] _ v] by (auto simp: zero_ctx_def)
  obtain which where b: "cur_sess (g_cur st0) = Some which" "stratum_ready (session_of which st1)"
    using get_work_built [OF g] run_inv [OF r] by blast
  obtain n st3 where f: "grind (grind_sends e) (cfg_chain c) ctx (min (grind_budget e) (2 ^ 40)) 0 st0 = (Some n, st3)"
    and e: "st' = wait_verdict pf (verdict_polls e) st3" "s_shares_accepted (worksrc_stratum_status st') \<noteq> 0"
    using assms w v by (auto simp: stratum_probe_mode_def Let_def split: prod.splits option.splits if_splits)
  obtain st2 where st2: "mining pf ?p which (session_of which st1) st2 ctx"
    "st_on_candidate ctx n (chain_expected (cfg_chain c) (ss4 ctx) n) (grind_sends e n) st2 = (CAND_SOLUTION, st3)"
    using grind_found [OF f mining.built [OF r g b(1)]] by blast
  note i = mining_inv [OF st2(1), unfolded configured_wf(2)]
  have bf: "built_for pf st2 which (session_of which st1) ctx" and ws: "wf_stratum (session_of which st2)" and ch: "g_chain st2 = cfg_chain c"
    using i wf_session_of by auto
  have it: "chain_item (cfg_chain c) (job (session_of which st1)) (take (en1_len (session_of which st1)) (extranonce1 (session_of which st1))) (cur_en2 (g_cur st2)) = Some (ss3 ctx, ss4 ctx)"
    using bf by (simp add: built_for_def ch Let_def)
  note c = on_candidate_cases [OF bf ws, of n "chain_expected (cfg_chain c) (ss4 ctx) n" "grind_sends e n", unfolded st2(2) Let_def prod.case ch]
  show ?thesis using r configured_session [OF r b(2)] st2(1) it c e by blast
qed


section \<open>Who mines\<close>

lemma vectors_result_ok: "vectors_result shift = 0"
  by (simp add: vectors_result_def selftest_vectors_pass selftest_block_production_def test_bech32_passes test_merkle_passes test_devfee_passes
      test_coinbase_passes test_block_passes)

text \<open>Opening the device.\<close>

definition uart_opens :: "boot_env \<Rightarrow> bool" where
  "uart_opens e \<longleftrightarrow> 0 \<le> dev_fd e \<and> dev_maps e"

definition opened :: "boot_env \<Rightarrow> boot \<Rightarrow> boot" where
  "opened e = on_uart (\<lambda>u. snd (uart_open (dev_fd e) (dev_maps e) u))"

lemma open_facts:
  "fst (uart_open (dev_fd e) (dev_maps e) u) \<longleftrightarrow> uart_opens e" "wire (snd (uart_open dev m u)) = wire u"
  by (auto simp: uart_open_def uart_opens_def Let_def)

lemma opened_search: "bt_search (opened e b) = (bt_search b)\<lparr>lb_uart := snd (uart_open (dev_fd e) (dev_maps e) (lb_uart (bt_search b)))\<rparr>"
  by (simp add: opened_def on_uart_def)

lemma calibrate_mines:
  "(\<exists>b'. calibrate e c b = Mining b') \<longleftrightarrow>
     cfg_chain c = CHAIN_SIA \<or> selftest c \<noteq> Some ''loopback'' \<and> selftest c \<noteq> Some ''all'' \<and> fst (selftest_loopback (phases e) (bt_search b))"
  by (auto simp: calibrate_def Let_def split: prod.splits)

lemma with_uart_mines:
  "(\<exists>b'. with_uart e c b = Mining b') \<longleftrightarrow>
     uart_opens e \<and> selftest c \<noteq> Some ''uart'' \<and> selftest c \<noteq> Some ''rxdump'' \<and>
     (\<exists>b'. calibrate e c ((opened e b)\<lparr>bt_uart := selftest_uart (stat_after_reset e)\<rparr>) = Mining b')"
proof -
  obtain ok u where u: "uart_open (dev_fd e) (dev_maps e) (lb_uart (bt_search b)) = (ok, u)" by fastforce
  then have "ok = uart_opens e" "opened e b = on_uart (\<lambda>_. u) b" using open_facts(1) [of e "lb_uart (bt_search b)"] by (simp_all add: opened_def on_uart_def)
  then show ?thesis using u by (auto simp: with_uart_def Let_def split: prod.splits)
qed



text \<open>There is always a source to choose.\<close>

lemma source_chosen: "\<exists>src. chosen_source pf c = Some src"
  by (cases "stratum_host c") (simp_all add: chosen_source_def select_source_def worksrc_register_def worksrc_find_def g_worksrc_gbt_def g_worksrc_synthetic_def
      worksrc_stratum_backend_def g_backend_sia_def g_backend_knots_def MAX_SOURCES_def Let_def)

lemma unused_before: "unused_pool (pool_before pf c)"
  by (auto simp: unused_pool_def pool_before_def pool_start_def configured_pool_def worksrc_stratum_configure_def Let_def split: prod.splits)

text \<open>
  C17: the software selftests pass.  A command line that asks for the block, stratum, framing or vector selftest ends the program with exit code 0, on every platform, with every other
  option except \<^verbatim>\<open>--submit-test\<close> and \<^verbatim>\<open>--stratum-probe\<close>, whatever the hardware: provided, for the stratum test, that a loopback connection can be made and takes the lines whole, and, for the framing test, that the clock moves on after every
  poll that found nothing and each loop still polls after its script has ended.
\<close>

theorem software_selftests_pass:
  assumes "parse_args pf (m_getenv e) argv (default_config sia_build) = Inr c" "selftest c \<in> Some ` {''block'', ''stratum'', ''framing'', ''vectors''}"
    and "\<not> submit_test c" "\<not> stratum_probe c" "sockets_work (sockets (m_boot e))" "good_clocks (framing_at (m_boot e))"
  shows "main_run pf lc sia_build e argv = Exited 0"
proof -
  obtain src where src: "chosen_source pf c = Some src" using source_chosen by blast
  have "fst selftest_block_production = 0" using vectors_result_ok selftest_vectors_pass by (simp add: vectors_result_def)
  moreover have "selftest_stratum pf (sockets (m_boot e)) (pool_before pf c) = 0" by (rule stratum_selftest_passes [OF assms(5) unused_before])
  moreover have "selftest_framing (framing_at (m_boot e)) = 0" by (rule framing_selftest_passes [OF assms(6)])
  ultimately have "\<exists>b. boot_up pf (m_boot e) c (boot_start (m_line e)) = Exit 0 b"
    using assms(2) by (auto simp: boot_up_def exit_if_def vectors_result_ok Let_def)
  then show ?thesis using assms(1,3,4) src by (auto simp: main_run_def)
qed



section \<open>The example\<close>

definition sia_config :: config where
  "sia_config = (default_config True)\<lparr>stratum_host := Some ''pool'', stratum_port := 3333, dry_run := False\<rparr>"

lemma sia_pool:
  "fresh_pool (configured_pool pf sia_config)" "g_chain (configured_pool pf sia_config) = CHAIN_SIA"
  by (auto simp: fresh_pool_def configured_pool_def worksrc_stratum_configure_def sia_config_def default_config_def nonempty_def pool_start_def Let_def)

definition one_share :: probe_env where
  "one_share = \<lparr>job_polls = [(1, dial_poll, 1), (2, open_poll, 2)], grind_budget = 1, grind_sends = (\<lambda>_. [Sent 1024]), verdict_polls = [(3, verdict_poll)]\<rparr>"

lemma probe_passes: obtains st' where "stratum_probe_mode pf one_share sia_config (configured_pool pf sia_config) = (0, st')"
proof -
  let ?p = "configured_pool pf sia_config"
  obtain s where s: "opened_session s" "st_poll pf open_poll 2 (st_poll pf dial_poll 1 ?p) = ?p\<lparr>g_main := s\<rparr>" "\<not> stratum_ready (g_main (st_poll pf dial_poll 1 ?p))"
    by (rule fresh_opens [OF sia_pool(1)])
  have "wf_pool (?p\<lparr>g_main := s\<rparr>)" using poll_wf [OF conjunct1 [OF poll_wf [OF configured_wf(1) [of pf sia_config], of pf dial_poll 1]], of pf open_poll 2] by (simp add: s(2))
  then have w: "length (worker s) < 160" by (simp add: wf_pool_def wf_stratum_def)
  obtain st where g: "st_get_work pf 2 zero_ctx (?p\<lparr>g_main := s\<rparr>) = (True, easy_ctx pf zero_ctx, st)" and st: "g_main st = s" "g_chain st = CHAIN_SIA" "\<not> g_dev_configured st"
    "g_cur st = \<lparr>cur_sess = Some Main_session, cur_job_id = JOB_ID, cur_en2 = [0, 0, 0, 0, 0, 0, 0, 1], cur_ntime = [26, 0, 0, 0, 0, 0, 0, 0],
       cur_target = target_of_divisor 9, cur_job_seq = 1, cur_is_dev = False, cur_valid = True\<rparr>"
    by (rule first_work [OF sia_pool(1) s(1), of pf 2 zero_ctx])
  have g1: "st_get_work pf 1 zero_ctx (st_poll pf dial_poll 1 ?p) = (False, zero_ctx, st_poll pf dial_poll 1 ?p)" using s(3) by (intro get_work_declined) simp
  have "wait_job pf (job_polls one_share) zero_ctx ?p = (easy_ctx pf zero_ctx, st)" by (simp add: one_share_def g1 s(2) g)
  moreover obtain x where x: "st_on_candidate (easy_ctx pf zero_ctx) 0 (chain_expected CHAIN_SIA (ss4 (easy_ctx pf zero_ctx)) 0) [Sent 1024] st =
     (CAND_SOLUTION, st\<lparr>g_main := s\<lparr>next_id := 4, sent := x, shares_submitted := shares_submitted s + 1\<rparr>\<rparr>)"
    using first_share [OF s(1) w st] by blast
  have m: "min (grind_budget one_share) (2 ^ 40) = Suc 0" by (simp add: one_share_def)
  have "grind (grind_sends one_share) CHAIN_SIA (easy_ctx pf zero_ctx) (min (grind_budget one_share) (2 ^ 40)) 0 st =
      (Some 0, st\<lparr>g_main := s\<lparr>next_id := 4, sent := x, shares_submitted := shares_submitted s + 1\<rparr>\<rparr>)"
    unfolding m using x by (simp add: one_share_def)
  moreover have "ctx_valid (easy_ctx pf zero_ctx)" "cfg_chain sia_config = CHAIN_SIA" by (simp_all add: easy_ctx_def sia_config_def default_config_def)
  moreover have "wait_verdict pf (verdict_polls one_share) (st\<lparr>g_main := s\<lparr>next_id := 4, sent := x, shares_submitted := n\<rparr>\<rparr>) =
      st\<lparr>g_main := s\<lparr>next_id := 4, sent := x, shares_submitted := n, shares_accepted := 1\<rparr>\<rparr>" for n
    by (simp add: one_share_def first_verdict [OF s(1) st(3)] worksrc_stratum_status_def Let_def)
  ultimately have "fst (stratum_probe_mode pf one_share sia_config ?p) = 0"
    using st(3) by (simp add: stratum_probe_mode_def worksrc_stratum_status_def Let_def)
  then show thesis by (metis that prod.collapse)
qed

theorem probe_pass_is_a_share_witness:
  "\<exists>(ctx :: work_ctx) n s. hash_meets_target (chain_pow CHAIN_SIA (ss4 ctx) n) (stratum_target_full plain_platform s) \<and>
     s_shares_accepted (worksrc_stratum_status (snd (stratum_probe_mode plain_platform one_share sia_config (configured_pool plain_platform sia_config)))) \<noteq> 0"
proof -
  obtain st' where st': "stratum_probe_mode plain_platform one_share sia_config (configured_pool plain_platform sia_config) = (0, st')" by (rule probe_passes)
  have "cfg_chain sia_config = CHAIN_SIA" by (simp add: sia_config_def default_config_def)
  then show ?thesis using probe_pass_is_a_share [OF st'] by (simp add: st') blast
qed


section \<open>From the command line to the hardware\<close>

text \<open>The loop never changes the offset it starts with.\<close>

lemma feed_offset: "nonce_offset (fst (feed f b st)) = nonce_offset (fst st)"
  by (auto simp: feed_def Let_def split: prod.splits)

lemma drain_sync_offset: "nonce_offset (fst (drain_sync f bs st)) = nonce_offset (fst st)"
  by (induction bs arbitrary: st) (simp_all add: feed_offset)

lemma drain_frames_offset: "nonce_offset (asm (drain_frames ops e bs m)) = nonce_offset (asm m)"
  by (simp add: drain_frames_eq drain_uart_bytes drain_sync_offset Let_def)

lemma roll_offset: "nonce_offset (asm (snd (roll_work ops src e m))) = nonce_offset (asm m)"
  by (simp add: roll_work_def Let_def split: prod.split bool.split)

lemma resync_offset: "nonce_offset (asm (snd (resync e m))) = nonce_offset (asm m)"
  by (simp add: resync_def split: prod.split bool.split)

lemma pass_offset: "nonce_offset (asm (mine_pass ops src e m)) = nonce_offset (asm m)"
proof -
  define m1 where "m1 = (if has_poll src then m\<lparr>source := op_poll ops (p_source e) (p_now e) (source m)\<rparr> else m)"
  obtain skip m2 where r: "roll_work ops src e m1 = (skip, m2)" by fastforce
  obtain bs m3 where y: "resync e m2 = (bs, m3)" by fastforce
  have "nonce_offset (asm m2) = nonce_offset (asm m)" using roll_offset [of ops src e m1] r by (simp add: m1_def)
  moreover have "nonce_offset (asm m3) = nonce_offset (asm m2)" using resync_offset [of e m2] y by simp
  ultimately show ?thesis using r y by (simp add: mine_pass_def drain_frames_offset Let_def flip: m1_def)
qed

lemma loop_offset: "nonce_offset (asm (mine_loop ops src es m)) = nonce_offset (asm m)"
  by (induction es arbitrary: m) (simp_all add: pass_offset)

lemma boot_search:
  assumes "boot_up pf e c (boot_start u) = Mining b"
  shows "if cfg_chain c = CHAIN_SIA then lb_offset (bt_search b) = 0 \<and> wire (lb_uart (bt_search b)) = wire u
     else selftest_loopback (phases e) (bt_search (opened e (boot_start u))) = (True, bt_search b)"
proof -
  obtain ok v where v: "uart_open (dev_fd e) (dev_maps e) u = (ok, v)" by fastforce
  then have "wire v = wire u" "opened e (boot_start u) = on_uart (\<lambda>_. v) (boot_start u)" using open_facts(2) [of "dev_fd e" "dev_maps e" u]
    by (simp_all add: opened_def on_uart_def boot_start_def)
  then show ?thesis using assms v by (auto simp: boot_up_def with_uart_def calibrate_def boot_start_def on_uart_def Let_def split: if_splits prod.splits)
qed

lemma mines_parts:
  assumes "main_run pf lc sia_build e argv = Mines src c b"
  shows "parse_args pf (m_getenv e) argv (default_config sia_build) = Inr c" "chosen_source pf c = Some src" "boot_up pf (m_boot e) c (boot_start (m_line e)) = Mining b"
  using assms by (auto simp: main_run_def split: sum.splits prod.splits option.splits if_splits outcome.splits)

lemma pool_chosen: "stratum_host c = Some h \<Longrightarrow> chosen_source pf c = Some (worksrc_stratum_backend (configured_pool pf c))"
  by (simp add: chosen_source_def select_source_def worksrc_register_def worksrc_find_def g_worksrc_gbt_def g_worksrc_synthetic_def
      worksrc_stratum_backend_def g_backend_sia_def g_backend_knots_def MAX_SOURCES_def Let_def)

lemma calibrated_offset:
  assumes "boot_up pf e c (boot_start u) = Mining b" "cfg_chain c = CHAIN_KNOTS" "\<forall>p \<in> set (phases e). no_stall p"
  shows "\<exists>p rx w off. p < length (phases e) \<and> p < 168 \<and> rx = handed_back (phases e ! p) \<and>
     ((\<exists>k. rx = arrived (take k (sync_polls (phases e ! p)))) \<or> rx = take (RESULT_LEN * 8) (arrived (sync_reads (phases e ! p)))) \<and>
     reproduces probe_header rx w off \<and> lb_offset (bt_search b) = of_nat off"
proof -
  obtain item where i: "build_work_item probe_header 0x00FFFFFFFFFFFFFF = Inr item" using probe_item by blast
  have l: "loopback_phases probe_header item (take WORK_ITEM_LEN (phases e)) (bt_search (opened e (boot_start u))) = (True, bt_search b)"
    using boot_search [OF assms(1)] assms(2) i by (simp add: selftest_loopback_def)
  have "\<forall>p \<in> set (take WORK_ITEM_LEN (phases e)). no_stall p" using assms(3) in_set_takeD by fast
  from loopback_run [OF this l] obtain p off where p: "p < length (take WORK_ITEM_LEN (phases e))"
    "loopback_verify probe_header (handed_back (take WORK_ITEM_LEN (phases e) ! p)) = Some off" "lb_offset (bt_search b) = of_nat off" by blast
  moreover from p(1) have "take WORK_ITEM_LEN (phases e) ! p = phases e ! p" "p < length (phases e)" "p < 168" by (simp_all add: WORK_ITEM_LEN_def)
  ultimately show ?thesis using verify_reproduces handed_back_line by metis
qed

text \<open>
  C1: from the command line to the hardware.  When the program, started on any command line that names a pool, reaches the mining loop with the FPGA's receiver on an item boundary, then
  after any number of passes without a transmit stall and without a synchronising burst of more than the 136 bytes the loop's buffer holds, over any network and any other replies, once there is work:
  it was built from a session of the configured pool, on the chain asked for, whose job then had been announced in text that session received; the pool's own session has the host and port asked for;
  the item the FPGA assembled last gives, for every nonce, the digest that the software will compare with the share target; and the correction applied to reported nonces is
  the one measured at the start: zero on Sia, and otherwise an offset at which, in one of the at most 168 phases of the calibration, the software reproduced a word in the bytes the FPGA had
  sent in that phase.
\<close>

theorem command_line_to_hardware:
  assumes "main_run pf lc sia_build e argv = Mines src c b" "stratum_host c = Some h" "\<forall>p \<in> set (phases (m_boot e)). no_stall p"
    and "item_len src dvd length (wire (lb_uart (bt_search b)))" "\<forall>p \<in> set es. steady p"
    and "m = mine_loop (pool_ops pf) src es (mine_start (lb_offset (bt_search b)) (configured_pool pf c) (lb_uart (bt_search b)) (lb_sync (bt_search b)) (lb_items_sent (bt_search b)))"
    and "have_work m" "\<not> smashed m"
  shows "parse_args pf (m_getenv e) argv (default_config sia_build) = Inr c \<and> g_chain (source m) = cfg_chain c \<and>
     (\<exists>ps t st1 which s. pool_run pf (configured_pool pf c) ps t st1 \<and> s = session_of which st1 \<and> announced (t which) (job s) \<and>
        (which = Main_session \<longrightarrow> host s = take 191 h \<and> port s = stratum_port c) \<and> mining pf (configured_pool pf c) which s (source m) (live_ctx m)) \<and>
     (\<exists>past item. received (item_len src) (wire (line m)) = past @ [item] \<and>
        (\<forall>on_chip nonce. core_digest (cfg_chain c) on_chip item nonce = chain_pow (cfg_chain c) (ss4 (live_ctx m)) nonce)) \<and>
     (case cfg_chain c of
        CHAIN_SIA \<Rightarrow> nonce_offset (asm m) = 0
      | CHAIN_KNOTS \<Rightarrow> \<exists>p rx w off. p < length (phases (m_boot e)) \<and> p < 168 \<and> rx = handed_back (phases (m_boot e) ! p) \<and>
          ((\<exists>k. rx = arrived (take k (sync_polls (phases (m_boot e) ! p)))) \<or> rx = take (RESULT_LEN * 8) (arrived (sync_reads (phases (m_boot e) ! p)))) \<and>
          reproduces probe_header rx w off \<and> nonce_offset (asm m) = of_nat off)"
proof -
  note p = mines_parts [OF assms(1)]
  let ?p = "configured_pool pf c"
  have src: "src = worksrc_stratum_backend ?p" using p(2) pool_chosen [OF assms(2)] by simp
  have i: "\<exists>ps t. pool_run pf ?p ps t ?p" using pool_run.start [OF configured_wf(1)] by blast
  have fl: "in_flight (item_len src) (live_ctx m) (wire (line m))" and "\<exists>which s. mining pf ?p which s (source m) (live_ctx m)"
    using pool_source.mined_item [OF i assms(4-7) [unfolded src]] by (simp_all add: src)
  then obtain which s where mi: "mining pf ?p which s (source m) (live_ctx m)" by blast
  note v = mining_inv [OF mi, unfolded configured_wf(2)]
  obtain ps t st1 where r: "pool_run pf ?p ps t st1" "s = session_of which st1" using mining_source [OF mi] by blast
  have an: "announced (t which) (job s) \<and> (which = Main_session \<longrightarrow> host s = take 191 h \<and> port s = stratum_port c)"
    using configured_session [OF r(1), of which] v assms(2) by (simp add: r(2))
  have e: "worksrc_stratum_backend (source m) = src" using v by (simp add: src worksrc_stratum_backend_def configured_wf(2))
  have d: "core_digest (cfg_chain c) on_chip (take (item_len src) (snd (worksrc_pack_item (live_ctx m) (item_len src)))) nonce =
      chain_pow (cfg_chain c) (ss4 (live_ctx m)) nonce" for on_chip nonce
    using core_digest_pow [of pf "source m" which s "live_ctx m" on_chip nonce] v unfolding e by simp
  have o: "nonce_offset (asm m) = lb_offset (bt_search b)" by (simp add: assms(6) loop_offset mine_start_def)
  have hw: "\<exists>past item. received (item_len src) (wire (line m)) = past @ [item] \<and>
        (\<forall>on_chip nonce. core_digest (cfg_chain c) on_chip item nonce = chain_pow (cfg_chain c) (ss4 (live_ctx m)) nonce)"
    using fl d unfolding in_flight_def by blast
  have pool: "\<exists>ps t st1 which s. pool_run pf ?p ps t st1 \<and> s = session_of which st1 \<and> announced (t which) (job s) \<and>
        (which = Main_session \<longrightarrow> host s = take 191 h \<and> port s = stratum_port c) \<and> mining pf ?p which s (source m) (live_ctx m)"
    using r an mi by blast
  show ?thesis
  proof (cases "cfg_chain c")
    case CHAIN_SIA
    then show ?thesis using boot_search [OF p(3)] p(1) hw pool v o by simp
  next
    case CHAIN_KNOTS
    then show ?thesis using calibrated_offset [OF p(3) CHAIN_KNOTS assms(3)] p(1) hw pool v unfolding o by simp
  qed
qed


section \<open>A start\<close>

definition sia_args :: "string list" where "sia_args = [''--stratum'', ''pool:3333'', ''--submit'']"

definition board :: main_env where
  "board = \<lparr>m_getenv = (\<lambda>_. None), m_template_net = sample_net, m_submit_net = sample_net, m_resp = [], m_probe = one_share,
     m_boot = \<lparr>sockets = loop_sockets, framing_at = slow_clocks, dev_fd = 3, dev_maps = True, stat_after_reset = 4,
       dump_polls = \<lparr>d_stale = [], d_quiet_from = 0, d_quiet = [], d_waits = [], d_polls = []\<rparr>, phases = []\<rparr>, m_line = idle_uart\<rparr>"

lemma sia_args_read: "parse_args plain_platform (\<lambda>_. None) sia_args (default_config True) = Inr sia_config"
  by code_simp

lemma sia_start:
  obtains b where "main_run plain_platform sample_libc True board sia_args = Mines g_backend_sia sia_config b" "wire (lb_uart (bt_search b)) = []" "lb_offset (bt_search b) = 0"
proof -
  have c: "stratum_host sia_config = Some ''pool''" "selftest sia_config = None" "cfg_chain sia_config = CHAIN_SIA" "\<not> submit_test sia_config" "\<not> stratum_probe sia_config"
    by (simp_all add: sia_config_def default_config_def)
  have "chosen_source plain_platform sia_config = Some g_backend_sia"
    using pool_chosen [OF c(1)] by (simp add: worksrc_stratum_backend_def sia_pool)
  moreover have "\<exists>b. boot_up plain_platform (m_boot board) sia_config (boot_start idle_uart) = Mining b"
    by (simp add: boot_up_def Let_def vectors_result_ok with_uart_mines calibrate_mines uart_opens_def c board_def)
  then obtain b where b: "boot_up plain_platform (m_boot board) sia_config (boot_start idle_uart) = Mining b" by blast
  ultimately have "main_run plain_platform sample_libc True board sia_args = Mines g_backend_sia sia_config b"
    using c sia_args_read by (simp add: main_run_def board_def)
  then show thesis using that boot_search [OF b] c by (simp add: idle_uart_def)
qed

text \<open>A pass that finds no work and no bytes only polls.\<close>

lemma idle_pass:
  assumes "\<not> have_work m \<and> \<not> smashed m" "has_poll src" "op_get_work ops (p_source e) zero_ctx (op_poll ops (p_source e) (p_now e) (source m)) = (False, c, s)" "p_fifo e = []"
  shows "mine_pass ops src e m = m\<lparr>source := s, last_template := p_now e\<rparr>"
  using assms by (simp add: mine_pass_def roll_work_def resync_def drain_frames_def Let_def)

definition pool_pass :: "u64 \<Rightarrow> poll_env \<Rightarrow> pool_env pass_env" where
  "pool_pass t nw = first_pass\<lparr>p_now := t, p_source := \<lparr>net = nw, clock = t, accepts = (\<lambda>_. [Sent 1024])\<rparr>\<rparr>"

definition two_passes :: "pool_env pass_env list" where "two_passes = [pool_pass 1 dial_poll, pool_pass 2 open_poll]"

lemma two_passes_work:
  assumes "m = mine_loop (pool_ops pf) g_backend_sia two_passes (mine_start off (configured_pool pf sia_config) u y n)"
  shows "have_work m" "\<not> smashed m"
proof -
  let ?p = "configured_pool pf sia_config" and ?m = "mine_start off (configured_pool pf sia_config) u y n"
  obtain s where s: "opened_session s" "st_poll pf open_poll 2 (st_poll pf dial_poll 1 ?p) = ?p\<lparr>g_main := s\<rparr>" "\<not> stratum_ready (g_main (st_poll pf dial_poll 1 ?p))"
    by (rule fresh_opens [OF sia_pool(1)])
  define m1 where "m1 = ?m\<lparr>source := st_poll pf dial_poll 1 ?p, last_template := 1\<rparr>"
  have f: "net (p_source (pool_pass t nw)) = nw" "clock (p_source (pool_pass t nw)) = t" "p_now (pool_pass t nw) = t" "p_fifo (pool_pass t nw) = []"
    "p_polls (pool_pass t nw) = replicate 15 (0, 0)" "p_waits (pool_pass t nw) = []" for t nw by (simp_all add: pool_pass_def first_pass_def)
  have "mine_pass (pool_ops pf) g_backend_sia (pool_pass 1 dial_poll) ?m = ?m\<lparr>source := st_poll pf dial_poll 1 ?p, last_template := p_now (pool_pass 1 dial_poll)\<rparr>"
    by (rule idle_pass [where c = zero_ctx]) (use s(3) in \<open>simp_all add: f mine_start_def g_backend_sia_def pool_ops_def get_work_declined\<close>)
  then have m1: "mine_pass (pool_ops pf) g_backend_sia (pool_pass 1 dial_poll) ?m = m1" by (simp only: f(3) m1_def)
  obtain st where "st_get_work pf 2 zero_ctx (?p\<lparr>g_main := s\<rparr>) = (True, easy_ctx pf zero_ctx, st)"
    by (rule first_work [OF sia_pool(1) s(1), of pf 2 zero_ctx])
  then have g: "op_get_work (pool_ops pf) (p_source (pool_pass 2 open_poll)) zero_ctx (?p\<lparr>g_main := s\<rparr>) = (True, easy_ctx pf zero_ctx, st)"
    by (simp add: pool_ops_def f)
  have bk: "worksrc_stratum_backend ?p = g_backend_sia" by (simp add: worksrc_stratum_backend_def sia_pool)
  have r: "\<exists>ps t. pool_run pf ?p ps t (st_poll pf dial_poll 1 ?p)" using pool_run.polled [OF pool_run.start [OF configured_wf(1)]] by blast
  let ?m2 = "mine_pass (pool_ops pf) g_backend_sia (pool_pass 2 open_poll) m1"
  have "have_work ?m2 \<and> asm ?m2 = (asm m1)\<lparr>frame := [], synced := True\<rparr> \<and> last_template ?m2 = p_now (pool_pass 2 open_poll) \<and> source ?m2 = st \<and>
      live_ctx ?m2 = easy_ctx pf zero_ctx \<and> \<not> smashed ?m2"
    by (rule pool_source.first_push [where pl = ?p and pf = pf, unfolded bk, OF _ _ _ _ _ _ _ g refl])
      (use r in \<open>simp_all add: f m1_def mine_start_def steady_def arrived_def STAT_RX_VALID_def g_backend_sia_def pool_ops_def s(2)\<close>)
  moreover have "m = ?m2" using m1 by (simp add: assms two_passes_def) (simp add: m1_def mine_start_def)
  ultimately show "have_work m" "\<not> smashed m" by simp_all
qed

theorem command_line_to_hardware_witness:
  "\<exists>c b m past item. main_run plain_platform sample_libc True board sia_args = Mines g_backend_sia c b \<and>
     m = mine_loop (pool_ops plain_platform) g_backend_sia two_passes (mine_start (lb_offset (bt_search b)) (configured_pool plain_platform c) (lb_uart (bt_search b)) (lb_sync (bt_search b)) (lb_items_sent (bt_search b))) \<and>
     received 88 (wire (line m)) = past @ [item] \<and> core_digest CHAIN_SIA True item 0 = chain_pow CHAIN_SIA (ss4 (live_ctx m)) 0"
proof -
  obtain b where b: "main_run plain_platform sample_libc True board sia_args = Mines g_backend_sia sia_config b" "wire (lb_uart (bt_search b)) = []" "lb_offset (bt_search b) = 0"
    by (rule sia_start)
  let ?m = "mine_loop (pool_ops plain_platform) g_backend_sia two_passes (mine_start (lb_offset (bt_search b)) (configured_pool plain_platform sia_config) (lb_uart (bt_search b)) (lb_sync (bt_search b)) (lb_items_sent (bt_search b)))"
  have c: "stratum_host sia_config = Some ''pool''" "cfg_chain sia_config = CHAIN_SIA" "item_len g_backend_sia = 88" by (simp_all add: sia_config_def default_config_def g_backend_sia_def wire_sizes)
  have st: "\<forall>p \<in> set two_passes. steady p" by (simp add: two_passes_def steady_def pool_pass_def first_pass_def)
  have "item_len g_backend_sia dvd length (wire (lb_uart (bt_search b)))" "\<forall>p \<in> set (phases (m_boot board)). no_stall p"
    using b(2) by (simp_all add: board_def)
  from command_line_to_hardware [OF b(1) c(1) this(2,1) st refl two_passes_work [OF refl]]
  obtain past item where "received (item_len g_backend_sia) (wire (line ?m)) = past @ [item]"
    "core_digest (cfg_chain sia_config) True item 0 = chain_pow (cfg_chain sia_config) (ss4 (live_ctx ?m)) 0" by blast
  then have "received 88 (wire (line ?m)) = past @ [item]" "core_digest CHAIN_SIA True item 0 = chain_pow CHAIN_SIA (ss4 (live_ctx ?m)) 0"
    by (simp_all only: c)
  then show ?thesis using b(1) by blast
qed

theorem software_selftests_pass_witness: "main_run plain_platform sample_libc True board [''--selftest'', ''stratum''] = Exited 0"
proof -
  have "(case parse_args plain_platform (\<lambda>_. None) [''--selftest'', ''stratum''] (default_config True) of
      Inl _ \<Rightarrow> False | Inr c \<Rightarrow> selftest c = Some ''stratum'' \<and> \<not> submit_test c \<and> \<not> stratum_probe c)" by code_simp
  then obtain c where c: "parse_args plain_platform (\<lambda>_. None) [''--selftest'', ''stratum''] (default_config True) = Inr c"
    "selftest c = Some ''stratum''" "\<not> submit_test c" "\<not> stratum_probe c" by (auto split: sum.splits)
  show ?thesis
    by (rule software_selftests_pass [of _ _ _ _ c]) (use c loop_sockets_work slow_clocks_good in \<open>simp_all add: board_def\<close>)
qed

end
